(* ===== verification/Prelude.thy ===== *)
theory Prelude
  imports Complex_Main "HOL-Library.AList"
begin

text \<open>
  The prelude of the development: the types and the generic lemmas the components share.
  Python's insertion-ordered \<^verbatim>\<open>dict\<close> and \<^verbatim>\<open>OrderedDict\<close> are association lists with
  distinct keys, in insertion order: \<^verbatim>\<open>d[k] = v\<close> is \<open>AList.update k v d\<close> (in place for a
  present key, appended for a new one), \<^verbatim>\<open>d.pop(k, None)\<close> is \<open>AList.delete k d\<close>,
  \<^verbatim>\<open>d.get(k)\<close> is \<open>map_of d k\<close>, \<^verbatim>\<open>d.move_to_end(k)\<close> is \<open>od_move_to_end k d\<close> and
  \<^verbatim>\<open>d.popitem(last=False)\<close> is \<open>tl d\<close>. Clock readings (floats in the source) are reals;
  every operation that reads the clock takes the reading as an argument. Strings are
  character lists; a character stands for a code point below 256.
\<close>

named_theorems od_simps "insertion-ordered dictionaries"

type_synonym time = real
type_synonym ('k, 'v) odict = "('k \<times> 'v) list"

abbreviation od_wf :: "('k, 'v) odict \<Rightarrow> bool" where
  "od_wf d \<equiv> distinct (map fst d)"

definition od_move_to_end :: "'k \<Rightarrow> ('k, 'v) odict \<Rightarrow> ('k, 'v) odict" where
  "od_move_to_end k d = (case map_of d k of None \<Rightarrow> d | Some v \<Rightarrow> AList.delete k d @ [(k, v)])"

text \<open>\<^verbatim>\<open>str.strip()\<close>: the characters for which \<^verbatim>\<open>str.isspace\<close> holds, below 256.\<close>

definition py_space :: "char \<Rightarrow> bool" where
  "py_space c \<longleftrightarrow> (let n = of_char c :: nat in
     (9 \<le> n \<and> n \<le> 13) \<or> (28 \<le> n \<and> n \<le> 32) \<or> n = 133 \<or> n = 160)"

definition py_strip :: "string \<Rightarrow> string" where
  "py_strip s = rev (dropWhile py_space (rev (dropWhile py_space s)))"

lemma set_py_strip: "set (py_strip s) \<subseteq> set s"
proof
  fix x
  assume "x \<in> set (py_strip s)"
  then have "x \<in> set (dropWhile py_space (rev (dropWhile py_space s)))" by (simp add: py_strip_def)
  then have "x \<in> set (dropWhile py_space s)" by (auto dest: set_dropWhileD)
  then show "x \<in> set s" by (rule set_dropWhileD)
qed

lemma py_strip_id: "\<forall>x \<in> set s. \<not> py_space x \<Longrightarrow> py_strip s = s"
proof -
  have "dropWhile py_space t = t" if "\<forall>x \<in> set t. \<not> py_space x" for t
    using that by (cases t) auto
  from this [of s] this [of "rev s"]
  show "\<forall>x \<in> set s. \<not> py_space x \<Longrightarrow> py_strip s = s" by (simp add: py_strip_def)
qed

lemma int_sum_list: "int (sum_list xs) = sum_list (map int xs)"
  by (induction xs) auto

section \<open>Ordered dictionaries\<close>

lemma od_update_new: "k \<notin> fst ` set d \<Longrightarrow> AList.update k v d = d @ [(k, v)]"
  by (induction d) auto

lemma set_update_subset: "set (AList.update k v d) \<subseteq> insert (k, v) (set d)"
  by (induction d) auto

lemma od_keys_update [od_simps]: "fst ` set (AList.update k v d) = insert k (fst ` set d)"
  by (simp add: dom_update)

lemma od_keys_delete [od_simps]: "fst ` set (AList.delete k d) = fst ` set d - {k}"
  by (simp add: AList.delete_eq) (force simp: case_prod_beta)

lemma od_set_delete: "set (AList.delete k d) = {e \<in> set d. fst e \<noteq> k}"
  by (auto simp: AList.delete_eq)

lemma od_wf_update [simp, intro]: "od_wf d \<Longrightarrow> od_wf (AList.update k v d)"
  by (rule distinct_update)

lemma od_wf_delete [simp, intro]: "od_wf d \<Longrightarrow> od_wf (AList.delete k d)"
  by (rule distinct_delete)

lemma od_length_delete_le [simp]: "length (AList.delete k d) \<le> length d"
  by (rule length_delete_le)

lemma od_length_update:
  "length (AList.update k v d) = (if k \<in> fst ` set d then length d else Suc (length d))"
  by (induction d) auto

lemma od_length_delete:
  "od_wf d \<Longrightarrow> k \<in> fst ` set d \<Longrightarrow> Suc (length (AList.delete k d)) = length d"
proof (induction d)
  case (Cons e d)
  show ?case
  proof (cases "fst e = k")
    case True
    with Cons.prems have "k \<notin> fst ` set d" by auto
    then have "AList.delete k d = d" by (induction d) auto
    with True show ?thesis by (cases e) simp
  qed (use Cons in \<open>cases e; auto\<close>)
qed simp

lemma od_map_of_update [od_simps]: "map_of (AList.update k v d) j = (if j = k then Some v else map_of d j)"
  by (simp add: update_conv')

lemma od_map_of_delete [od_simps]: "map_of (AList.delete k d) j = (if j = k then None else map_of d j)"
  by (simp add: delete_conv')

text \<open>\<^verbatim>\<open>d.get(k, dflt)\<close>\<close>

definition look :: "('k, 'v) odict \<Rightarrow> 'k \<Rightarrow> 'v \<Rightarrow> 'v" where
  "look d k dflt = (case map_of d k of None \<Rightarrow> dflt | Some v \<Rightarrow> v)"

lemma look_update [simp]: "look (AList.update k v d) j z = (if j = k then v else look d j z)"
  by (simp add: look_def od_map_of_update)

lemma look_new [simp]: "map_of d k = None \<Longrightarrow> look d k z = z"
  by (simp add: look_def)

lemma od_map_of_None_iff: "map_of d k = None \<longleftrightarrow> k \<notin> fst ` set d"
  by (rule map_of_eq_None_iff)

lemma od_map_of_append_new: "map_of d k = None \<Longrightarrow> map_of (d @ [(k, v)]) = (map_of d)(k \<mapsto> v)"
  by (auto simp: map_add_def fun_eq_iff split: option.splits)

lemma od_map_of_tl:
  "od_wf d \<Longrightarrow> map_of (tl d) j = (if d \<noteq> [] \<and> j = fst (hd d) then None else map_of d j)"
  by (cases d) (auto simp: map_of_eq_None_iff)

lemma od_map_of_move [od_simps]: "map_of (od_move_to_end k d) = map_of d"
proof (cases "map_of d k")
  case (Some v)
  have "map_of (AList.delete k d) k = None" by (simp add: od_map_of_delete)
  then have "map_of (AList.delete k d @ [(k, v)]) = (map_of (AList.delete k d))(k \<mapsto> v)"
    by (rule od_map_of_append_new)
  with Some show ?thesis
    by (auto simp: od_move_to_end_def fun_eq_iff od_map_of_delete)
qed (simp add: od_move_to_end_def)

lemma od_keys_move [od_simps]: "fst ` set (od_move_to_end k d) = fst ` set d"
proof -
  have "dom (map_of (od_move_to_end k d)) = dom (map_of d)" by (simp add: od_simps)
  then show ?thesis by (simp only: dom_map_of_conv_image_fst)
qed

lemma od_wf_move [simp, intro]: "od_wf d \<Longrightarrow> od_wf (od_move_to_end k d)"
  using od_keys_delete [of k d] by (auto simp: od_move_to_end_def split: option.splits)

lemma od_length_move [simp]: "od_wf d \<Longrightarrow> length (od_move_to_end k d) = length d"
proof -
  assume d: "od_wf d"
  show ?thesis
  proof (cases "map_of d k")
    case (Some v)
    then have "k \<in> fst ` set d" using od_map_of_None_iff [of d k] by auto
    with d have "Suc (length (AList.delete k d)) = length d" by (rule od_length_delete)
    with Some show ?thesis by (simp add: od_move_to_end_def)
  qed (simp add: od_move_to_end_def)
qed


lemma od_delete_last: "k \<notin> fst ` set d \<Longrightarrow> AList.delete k (d @ [(k, v)]) = d"
  by (induction d) auto

section \<open>Recency: how many entries are newer than a key\<close>

definition od_age :: "'k \<Rightarrow> ('k, 'v) odict \<Rightarrow> nat" where
  "od_age k d = length (takeWhile (\<lambda>e. fst e \<noteq> k) (rev d))"

lemma od_age_last [simp]: "od_age k (d @ [(k, v)]) = 0"
  by (simp add: od_age_def)

lemma od_age_append: "j \<noteq> k \<Longrightarrow> od_age k (d @ [(j, v)]) = Suc (od_age k d)"
  by (simp add: od_age_def)

lemma od_age_move_same: "k \<in> fst ` set d \<Longrightarrow> od_age k (od_move_to_end k d) = 0"
  using od_map_of_None_iff [of d k] by (auto simp: od_move_to_end_def od_age_def)

lemma takeWhile_filter_le:
  assumes "\<And>y. y \<in> set ys \<Longrightarrow> \<not> P y \<Longrightarrow> Q y"
  shows "length (takeWhile P (filter Q ys)) \<le> length (takeWhile P ys)"
  using assms by (induction ys) auto

lemma od_age_delete_le: "j \<noteq> k \<Longrightarrow> od_age k (AList.delete j d) \<le> od_age k d"
  unfolding od_age_def AList.delete_eq rev_filter by (rule takeWhile_filter_le) auto

lemma od_age_update_other:
  "j \<noteq> k \<Longrightarrow> j \<in> fst ` set d \<Longrightarrow> od_age k (AList.update j v d) = od_age k d"
proof -
  assume "j \<noteq> k" and "j \<in> fst ` set d"
  then have "map fst (AList.update j v d) = map fst d"
    by (induction d) auto
  moreover have "od_age k e = length (takeWhile (\<lambda>i. i \<noteq> k) (rev (map fst e)))" for e :: "('a \<times> 'b) list"
    by (simp add: od_age_def rev_map takeWhile_map o_def)
  ultimately show ?thesis by simp
qed

lemma od_age_tl: "d \<noteq> [] \<Longrightarrow> fst (hd d) \<noteq> k \<Longrightarrow> k \<in> fst ` set d \<Longrightarrow> od_age k (tl d) = od_age k d"
proof -
  assume "d \<noteq> []" and "fst (hd d) \<noteq> k" and "k \<in> fst ` set d"
  then obtain e ds where "d = e # ds" and "\<exists>x \<in> set (rev ds). fst x = k"
    by (cases d) auto
  then show ?thesis by (auto simp: od_age_def takeWhile_append1)
qed

lemma od_age_hd: "od_wf d \<Longrightarrow> d \<noteq> [] \<Longrightarrow> fst (hd d) = k \<Longrightarrow> od_age k d = length d - 1"
proof -
  assume "od_wf d" and "d \<noteq> []" and "fst (hd d) = k"
  then obtain e ds where d: "d = e # ds" and "fst e = k" and "k \<notin> fst ` set ds"
    by (cases d) auto
  then have "takeWhile (\<lambda>x. fst x \<noteq> k) (rev ds @ [e]) = rev ds"
    by (subst takeWhile_append2) (auto simp: image_iff)
  with d show ?thesis by (simp add: od_age_def)
qed

end
