(* ===== verification/TTL_Cache.thy ===== *)
theory TTL_Cache
  imports Prelude
begin

text \<open>
  \<^verbatim>\<open>TTLCache\<close> of \<^verbatim>\<open>backend/utils/cache.py\<close>: an LRU cache whose entries carry an expiry
  time. The state is the \<^verbatim>\<open>OrderedDict\<close> \<^verbatim>\<open>_data\<close> (least recently used entry first)
  with the two constructor parameters; every method is one operation below, with the
  reading of \<^verbatim>\<open>time.monotonic()\<close> it makes as the argument \<open>now\<close>. The lock makes each method
  atomic, so a concurrent execution is a sequence of these operations (\<open>ttl_run\<close>).
\<close>

type_synonym 'v ttl_entry = "'v \<times> time"

record 'v ttl_cache =
  tc_maxsize :: nat
  tc_ttl :: time
  tc_data :: "(string, 'v ttl_entry) odict"

datatype cache_error = ValueError_maxsize int | ValueError_ttl time

definition ttl_new :: "int \<Rightarrow> time \<Rightarrow> cache_error + 'v ttl_cache" where
  "ttl_new maxsize ttl =
     (if maxsize < 1 then Inl (ValueError_maxsize maxsize)
      else if ttl \<le> 0 then Inl (ValueError_ttl ttl)
      else Inr \<lparr>tc_maxsize = nat maxsize, tc_ttl = ttl, tc_data = []\<rparr>)"

definition ttl_get :: "string \<Rightarrow> 'v option \<Rightarrow> time \<Rightarrow> 'v ttl_cache \<Rightarrow> 'v option \<times> 'v ttl_cache" where
  "ttl_get key dflt now c =
     (case map_of (tc_data c) key of
        None \<Rightarrow> (dflt, c)
      | Some (value, expire_at) \<Rightarrow>
          (if expire_at \<le> now then (dflt, c\<lparr>tc_data := AList.delete key (tc_data c)\<rparr>)
           else (Some value, c\<lparr>tc_data := od_move_to_end key (tc_data c)\<rparr>)))"

text \<open>The body shared by \<^verbatim>\<open>set\<close> and the loop of \<^verbatim>\<open>set_many\<close>.\<close>

definition ttl_put :: "string \<Rightarrow> 'v ttl_entry \<Rightarrow> 'v ttl_cache \<Rightarrow> 'v ttl_cache" where
  "ttl_put key entry c =
     (let d = tc_data c in
      if key \<in> fst ` set d then c\<lparr>tc_data := od_move_to_end key (AList.update key entry d)\<rparr>
      else let d' = (if tc_maxsize c \<le> length d then tl d else d)
           in c\<lparr>tc_data := AList.update key entry d'\<rparr>)"

definition ttl_set :: "string \<Rightarrow> 'v \<Rightarrow> time \<Rightarrow> 'v ttl_cache \<Rightarrow> 'v ttl_cache" where
  "ttl_set key value now c = ttl_put key (value, now + tc_ttl c) c"

definition ttl_delete :: "string \<Rightarrow> 'v ttl_cache \<Rightarrow> bool \<times> 'v ttl_cache" where
  "ttl_delete key c =
     (if key \<in> fst ` set (tc_data c)
      then (True, c\<lparr>tc_data := AList.delete key (tc_data c)\<rparr>) else (False, c))"

definition ttl_pop :: "string \<Rightarrow> 'v option \<Rightarrow> time \<Rightarrow> 'v ttl_cache \<Rightarrow> 'v option \<times> 'v ttl_cache" where
  "ttl_pop key dflt now c =
     (case map_of (tc_data c) key of
        None \<Rightarrow> (dflt, c)
      | Some (value, expire_at) \<Rightarrow>
          (if expire_at \<le> now then dflt else Some value,
           c\<lparr>tc_data := AList.delete key (tc_data c)\<rparr>))"

definition ttl_clear :: "'v ttl_cache \<Rightarrow> nat \<times> 'v ttl_cache" where
  "ttl_clear c = (length (tc_data c), c\<lparr>tc_data := []\<rparr>)"

definition ttl_contains :: "string \<Rightarrow> time \<Rightarrow> 'v ttl_cache \<Rightarrow> bool \<times> 'v ttl_cache" where
  "ttl_contains key now c =
     (case map_of (tc_data c) key of
        None \<Rightarrow> (False, c)
      | Some (_, expire_at) \<Rightarrow>
          (if expire_at \<le> now then (False, c\<lparr>tc_data := AList.delete key (tc_data c)\<rparr>)
           else (True, c\<lparr>tc_data := od_move_to_end key (tc_data c)\<rparr>)))"

definition ttl_len :: "'v ttl_cache \<Rightarrow> nat" where
  "ttl_len c = length (tc_data c)"

definition ttl_items :: "time \<Rightarrow> 'v ttl_cache \<Rightarrow> (string \<times> 'v) list" where
  "ttl_items now c =
     map (\<lambda>(key, value, _). (key, value)) (filter (\<lambda>(_, _, expire_at). now < expire_at) (tc_data c))"

definition ttl_keys :: "time \<Rightarrow> 'v ttl_cache \<Rightarrow> string list" where
  "ttl_keys now c = map fst (filter (\<lambda>(_, _, expire_at). now < expire_at) (tc_data c))"

definition ttl_values :: "time \<Rightarrow> 'v ttl_cache \<Rightarrow> 'v list" where
  "ttl_values now c =
     map (\<lambda>(_, value, _). value) (filter (\<lambda>(_, _, expire_at). now < expire_at) (tc_data c))"

fun ttl_get_many_loop ::
  "string list \<Rightarrow> time \<Rightarrow> (string, 'v) odict \<Rightarrow> 'v ttl_cache \<Rightarrow> (string, 'v) odict \<times> 'v ttl_cache" where
  "ttl_get_many_loop [] now result c = (result, c)"
| "ttl_get_many_loop (key # ks) now result c =
     (case map_of (tc_data c) key of
        None \<Rightarrow> ttl_get_many_loop ks now result c
      | Some (value, expire_at) \<Rightarrow>
          (if expire_at \<le> now
           then ttl_get_many_loop ks now result (c\<lparr>tc_data := AList.delete key (tc_data c)\<rparr>)
           else ttl_get_many_loop ks now (AList.update key value result)
                  (c\<lparr>tc_data := od_move_to_end key (tc_data c)\<rparr>)))"

definition ttl_get_many :: "string list \<Rightarrow> time \<Rightarrow> 'v ttl_cache \<Rightarrow> (string, 'v) odict \<times> 'v ttl_cache" where
  "ttl_get_many keys now c = ttl_get_many_loop keys now [] c"

fun ttl_put_all :: "(string \<times> 'v) list \<Rightarrow> time \<Rightarrow> 'v ttl_cache \<Rightarrow> 'v ttl_cache" where
  "ttl_put_all [] expire_at c = c"
| "ttl_put_all ((key, value) # pairs) expire_at c = ttl_put_all pairs expire_at (ttl_put key (value, expire_at) c)"

definition ttl_set_many :: "(string \<times> 'v) list \<Rightarrow> time \<Rightarrow> 'v ttl_cache \<Rightarrow> 'v ttl_cache" where
  "ttl_set_many pairs now c = ttl_put_all pairs (now + tc_ttl c) c"

fun ttl_delete_many :: "string list \<Rightarrow> 'v ttl_cache \<Rightarrow> nat \<times> 'v ttl_cache" where
  "ttl_delete_many [] c = (0, c)"
| "ttl_delete_many (key # ks) c =
     (let (hit, c1) = ttl_delete key c; (n, c2) = ttl_delete_many ks c1
      in (if hit then Suc n else n, c2))"

definition ttl_purge_expired :: "time \<Rightarrow> 'v ttl_cache \<Rightarrow> nat \<times> 'v ttl_cache" where
  "ttl_purge_expired now c =
     (let expired_keys = map fst (filter (\<lambda>(_, _, expire_at). expire_at \<le> now) (tc_data c))
      in (length expired_keys, c\<lparr>tc_data := fold AList.delete expired_keys (tc_data c)\<rparr>))"

section \<open>A run of the cache: the methods in the order the lock admits them\<close>

datatype 'v ttl_op =
    TGet string "'v option"
  | TSet string 'v
  | TDelete string
  | TPop string "'v option"
  | TClear
  | TContains string
  | TGetMany "string list"
  | TSetMany "(string \<times> 'v) list"
  | TDeleteMany "string list"
  | TPurge

fun ttl_step :: "'v ttl_op \<Rightarrow> time \<Rightarrow> 'v ttl_cache \<Rightarrow> 'v ttl_cache" where
  "ttl_step (TGet k d) now c = snd (ttl_get k d now c)"
| "ttl_step (TSet k v) now c = ttl_set k v now c"
| "ttl_step (TDelete k) now c = snd (ttl_delete k c)"
| "ttl_step (TPop k d) now c = snd (ttl_pop k d now c)"
| "ttl_step TClear now c = snd (ttl_clear c)"
| "ttl_step (TContains k) now c = snd (ttl_contains k now c)"
| "ttl_step (TGetMany ks) now c = snd (ttl_get_many ks now c)"
| "ttl_step (TSetMany ps) now c = ttl_set_many ps now c"
| "ttl_step (TDeleteMany ks) now c = snd (ttl_delete_many ks c)"
| "ttl_step TPurge now c = snd (ttl_purge_expired now c)"

fun ttl_run :: "('v ttl_op \<times> time) list \<Rightarrow> 'v ttl_cache \<Rightarrow> 'v ttl_cache" where
  "ttl_run [] c = c"
| "ttl_run ((op, now) # ops) c = ttl_run ops (ttl_step op now c)"

section \<open>The invariant\<close>

definition ttl_wf :: "'v ttl_cache \<Rightarrow> bool" where
  "ttl_wf c \<longleftrightarrow> 1 \<le> tc_maxsize c \<and> 0 < tc_ttl c \<and> od_wf (tc_data c) \<and> length (tc_data c) \<le> tc_maxsize c"

text \<open>One operation keeps the parameters and the invariant.\<close>

definition ttl_keeps :: "'v ttl_cache \<Rightarrow> 'v ttl_cache \<Rightarrow> bool" where
  "ttl_keeps c c' \<longleftrightarrow> tc_maxsize c' = tc_maxsize c \<and> tc_ttl c' = tc_ttl c \<and> (ttl_wf c \<longrightarrow> ttl_wf c')"

lemma ttl_keeps_refl [simp, intro]: "ttl_keeps c c"
  by (simp add: ttl_keeps_def)

lemma ttl_keeps_trans: "ttl_keeps a b \<Longrightarrow> ttl_keeps b c \<Longrightarrow> ttl_keeps a c"
  by (simp add: ttl_keeps_def)

lemma ttl_keeps_data:
  assumes "ttl_wf c \<Longrightarrow> od_wf d" and "ttl_wf c \<Longrightarrow> length d \<le> tc_maxsize c"
  shows "ttl_keeps c (c\<lparr>tc_data := d\<rparr>)"
  using assms by (simp add: ttl_keeps_def ttl_wf_def)

lemma ttl_keeps_del [simp, intro]: "ttl_keeps c (c\<lparr>tc_data := AList.delete k (tc_data c)\<rparr>)"
  by (rule ttl_keeps_data) (auto simp: ttl_wf_def intro: order_trans [OF od_length_delete_le])

lemma ttl_keeps_move [simp, intro]: "ttl_keeps c (c\<lparr>tc_data := od_move_to_end k (tc_data c)\<rparr>)"
  by (rule ttl_keeps_data) (auto simp: ttl_wf_def)

lemma ttl_keeps_put: "ttl_keeps c (ttl_put k e c)"
proof (cases "k \<in> fst ` set (tc_data c)")
  case True
  have "ttl_keeps c (c\<lparr>tc_data := od_move_to_end k (AList.update k e (tc_data c))\<rparr>)"
    using True by (intro ttl_keeps_data) (simp_all add: ttl_wf_def od_length_update)
  with True show ?thesis by (simp add: ttl_put_def)
next
  case False
  let ?d = "if tc_maxsize c \<le> length (tc_data c) then tl (tc_data c) else tc_data c"
  have "k \<notin> fst ` set ?d" using False by (cases "tc_data c") auto
  then have "ttl_keeps c (c\<lparr>tc_data := AList.update k e ?d\<rparr>)"
    by (intro ttl_keeps_data) (auto simp: ttl_wf_def od_length_update distinct_tl map_tl)
  with False show ?thesis by (simp add: ttl_put_def Let_def)
qed

lemma ttl_put_params [simp]:
  "tc_maxsize (ttl_put k e c) = tc_maxsize c" "tc_ttl (ttl_put k e c) = tc_ttl c"
  by (simp_all add: ttl_put_def Let_def)

lemma ttl_wf_put [intro]: "ttl_wf c \<Longrightarrow> ttl_wf (ttl_put k e c)"
  using ttl_keeps_put [of c k e] by (simp add: ttl_keeps_def)

lemma ttl_keeps_get_many: "ttl_keeps c (snd (ttl_get_many_loop ks now r c))"
proof (induction ks arbitrary: r c)
  case (Cons k ks)
  show ?case
    by (auto split: option.split intro: Cons.IH ttl_keeps_trans [OF ttl_keeps_del Cons.IH]
        ttl_keeps_trans [OF ttl_keeps_move Cons.IH])
qed simp

lemma ttl_keeps_put_all: "ttl_keeps c (ttl_put_all ps t c)"
  by (induction ps t c rule: ttl_put_all.induct) (auto intro: ttl_keeps_trans [OF ttl_keeps_put])

lemma ttl_keeps_delete: "ttl_keeps c (snd (ttl_delete k c))"
  by (simp add: ttl_delete_def)

lemma ttl_keeps_delete_many: "ttl_keeps c (snd (ttl_delete_many ks c))"
proof (induction ks arbitrary: c)
  case (Cons k ks)
  have "ttl_keeps (snd (ttl_delete k c)) (snd (ttl_delete_many ks (snd (ttl_delete k c))))"
    by (rule Cons.IH)
  then have "ttl_keeps c (snd (ttl_delete_many ks (snd (ttl_delete k c))))"
    by (rule ttl_keeps_trans [OF ttl_keeps_delete])
  then show ?case by (simp add: case_prod_beta Let_def)
qed simp

lemma fold_delete_filter: "fold AList.delete ks d = filter (\<lambda>e. fst e \<notin> set ks) d"
  by (induction ks arbitrary: d) (auto simp: AList.delete_eq case_prod_beta conj_commute intro: filter_cong)

lemma ttl_purge_data:
  assumes "od_wf (tc_data c)"
  shows "tc_data (snd (ttl_purge_expired now c)) = filter (\<lambda>e. now < snd (snd e)) (tc_data c)"
proof -
  have "fst e \<notin> fst ` {x \<in> set (tc_data c). snd (snd x) \<le> now} \<longleftrightarrow> now < snd (snd e)"
    if e: "e \<in> set (tc_data c)" for e
  proof -
    have "x = e" if "x \<in> set (tc_data c)" and "fst x = fst e" for x
      using assms e that by (metis eq_key_imp_eq_value prod.collapse)
    with e show ?thesis by (auto simp: not_le)
  qed
  then show ?thesis
    by (auto simp: ttl_purge_expired_def Let_def fold_delete_filter case_prod_beta intro!: filter_cong)
qed

lemma ttl_keeps_purge: "ttl_keeps c (snd (ttl_purge_expired now c))"
  unfolding ttl_purge_expired_def Let_def fold_delete_filter snd_conv
  by (rule ttl_keeps_data) (auto simp: ttl_wf_def distinct_map_filter intro: order_trans [OF length_filter_le])

lemma ttl_keeps_step: "ttl_keeps c (ttl_step op now c)"
proof (cases op)
  case TClear
  then show ?thesis by (auto simp: ttl_clear_def intro!: ttl_keeps_data)
qed (auto simp: ttl_get_def ttl_set_def ttl_pop_def ttl_contains_def ttl_get_many_def ttl_set_many_def
    ttl_keeps_put ttl_keeps_put_all ttl_keeps_get_many ttl_keeps_delete ttl_keeps_delete_many
    ttl_keeps_purge split: option.splits)

lemma ttl_keeps_run: "ttl_keeps c (ttl_run ops c)"
  by (induction ops c rule: ttl_run.induct) (auto intro: ttl_keeps_trans [OF ttl_keeps_step])

lemma ttl_new_wf: "ttl_new m t = Inr c \<Longrightarrow> ttl_wf c"
  by (auto simp: ttl_new_def ttl_wf_def split: if_splits)

section \<open>What the operations do to one key\<close>

lemma ttl_put_same: "ttl_wf c \<Longrightarrow> map_of (tc_data (ttl_put k e c)) k = Some e"
  by (simp add: ttl_put_def Let_def od_simps)

lemma ttl_get_value:
  "fst (ttl_get k d now c) =
     (case map_of (tc_data c) k of Some (v, t) \<Rightarrow> if now < t then Some v else d | None \<Rightarrow> d)"
  by (auto simp: ttl_get_def split: option.splits)

lemma ttl_pop_value:
  "fst (ttl_pop k d now c) =
     (case map_of (tc_data c) k of Some (v, t) \<Rightarrow> if now < t then Some v else d | None \<Rightarrow> d)"
  by (auto simp: ttl_pop_def split: option.splits)

lemma ttl_pop_removes: "map_of (tc_data (snd (ttl_pop k d now c))) k = None"
  by (auto simp: ttl_pop_def od_simps split: option.splits)

section \<open>Recency\<close>

text \<open>
  A key that was just used is the newest one, and each write of another key makes it at
  most one place older; only a key with \<open>maxsize - 1\<close> newer ones is evicted.
\<close>

definition ttl_present :: "string \<Rightarrow> nat \<Rightarrow> 'v ttl_entry \<Rightarrow> 'v ttl_cache \<Rightarrow> bool" where
  "ttl_present k n e c \<longleftrightarrow> ttl_wf c \<and> map_of (tc_data c) k = Some e \<and> od_age k (tc_data c) \<le> n"

lemma ttl_put_other_age:
  assumes p: "ttl_present k n e c" and j: "j \<noteq> k" and n: "Suc n < tc_maxsize c"
  shows "ttl_present k (Suc n) e (ttl_put j f c)"
proof -
  let ?d = "tc_data c"
  from p have wf: "ttl_wf c" and k: "map_of ?d k = Some e" and age: "od_age k ?d \<le> n"
    by (auto simp: ttl_present_def)
  from wf have d: "od_wf ?d" by (simp add: ttl_wf_def)
  have kin: "k \<in> fst ` set ?d" using k od_map_of_None_iff [of ?d k] by auto
  from wf have wf': "ttl_wf (ttl_put j f c)" ..
  show ?thesis
  proof (cases "j \<in> fst ` set ?d")
    case True
    let ?u = "AList.update j f ?d"
    have "od_age k (od_move_to_end j ?u) = Suc (od_age k (AList.delete j ?u))"
      using j by (simp add: od_move_to_end_def od_map_of_update od_age_append)
    also have "\<dots> \<le> Suc (od_age k ?u)" using j by (simp add: od_age_delete_le)
    also have "od_age k ?u = od_age k ?d" using j True by (rule od_age_update_other)
    finally show ?thesis using True age k j wf'
      by (auto simp: ttl_present_def ttl_put_def Let_def od_simps)
  next
    case False
    let ?d' = "if tc_maxsize c \<le> length ?d then tl ?d else ?d"
    have old: "fst (hd ?d) \<noteq> k" if "tc_maxsize c \<le> length ?d"
      using od_age_hd [OF d, of k] age n that by (cases ?d) auto
    have nonempty: "?d \<noteq> []" using kin by auto
    have "od_age k ?d' = od_age k ?d"
      using old od_age_tl [OF nonempty _ kin] by auto
    moreover have "map_of ?d' k = Some e"
      using old k by (auto simp: od_map_of_tl [OF d])
    moreover have "j \<notin> fst ` set ?d'" using False by (cases ?d) auto
    ultimately show ?thesis using False age j wf'
      by (auto simp: ttl_present_def ttl_put_def Let_def od_simps od_update_new od_age_append)
  qed
qed

lemma ttl_put_others_age:
  "ttl_present k n e c \<Longrightarrow> k \<notin> fst ` set ps \<Longrightarrow> n + length ps < tc_maxsize c \<Longrightarrow>
   ttl_present k (n + length ps) e (ttl_put_all ps t c)"
proof (induction ps t c arbitrary: n rule: ttl_put_all.induct)
  case (2 j v ps t c)
  from "2.prems" have "ttl_present k (Suc n) e (ttl_put j (v, t) c)"
    by (intro ttl_put_other_age) auto
  then show ?case using "2.IH" [of "Suc n"] "2.prems" by simp
qed simp

section \<open>Properties\<close>

text \<open>
  However the methods of the cache are interleaved (the lock makes each one atomic), it
  never holds more than \<open>maxsize\<close> entries, no key has two entries, and neither parameter
  changes.
\<close>

theorem ttl_run_invariant:
  assumes "ttl_new maxsize ttl = Inr c"
  shows "int (length (tc_data (ttl_run ops c))) \<le> maxsize \<and> od_wf (tc_data (ttl_run ops c))
    \<and> int (tc_maxsize (ttl_run ops c)) = maxsize \<and> tc_ttl (ttl_run ops c) = ttl"
proof -
  have new: "1 \<le> maxsize" "int (tc_maxsize c) = maxsize" "tc_ttl c = ttl"
    using assms by (auto simp: ttl_new_def split: if_splits)
  moreover have "ttl_keeps c (ttl_run ops c)" by (rule ttl_keeps_run)
  ultimately show ?thesis
    using ttl_new_wf [OF assms] by (auto simp: ttl_keeps_def ttl_wf_def)
qed

theorem ttl_run_invariant_witness:
  "length (tc_data (ttl_run [(TSet ''a'' (1::int), 0), (TSet ''b'' 2, 1), (TSet ''c'' 3, 2)]
     \<lparr>tc_maxsize = 2, tc_ttl = 5, tc_data = []\<rparr>)) \<le> 2"
  using ttl_run_invariant [of 2 5 "\<lparr>tc_maxsize = 2, tc_ttl = 5, tc_data = []\<rparr>"
      "[(TSet ''a'' (1::int), 0), (TSet ''b'' 2, 1), (TSet ''c'' 3, 2)]"]
  by (simp add: ttl_new_def)

text \<open>
  A value written at time \<open>t\<close> is what a read returns exactly while the clock is before
  \<open>t + ttl\<close>; from then on the read returns the default and the entry is gone.
\<close>

theorem ttl_get_after_set:
  assumes "ttl_wf c"
  shows "fst (ttl_get k d now (ttl_set k v t c)) = (if now < t + tc_ttl c then Some v else d)
    \<and> (t + tc_ttl c \<le> now \<longrightarrow> map_of (tc_data (snd (ttl_get k d now (ttl_set k v t c)))) k = None)"
  using assms by (auto simp: ttl_get_def ttl_set_def ttl_put_same od_simps)

theorem ttl_get_after_set_witness:
  "fst (ttl_get ''a'' None 4 (ttl_set ''a'' (7::int) 0 \<lparr>tc_maxsize = 1, tc_ttl = 5, tc_data = []\<rparr>)) = Some 7"
  using ttl_get_after_set [of "\<lparr>tc_maxsize = 1, tc_ttl = 5, tc_data = []\<rparr>" "''a''" None 4 "7::int" 0]
  by (simp add: ttl_wf_def)

text \<open>
  Least-recently-used eviction: a key whose value a read has just returned keeps its entry
  through the next \<open>maxsize - 1\<close> writes of other keys, whether they are new or not.
\<close>

theorem ttl_lru_survives:
  assumes "ttl_wf c" and "map_of (tc_data c) k = Some (v, t)" and "now < t"
    and "k \<notin> fst ` set ps" and "length ps < tc_maxsize c"
  shows "map_of (tc_data (ttl_set_many ps now' (snd (ttl_get k d now c)))) k = Some (v, t)"
proof -
  let ?c = "snd (ttl_get k d now c)"
  have c: "?c = c\<lparr>tc_data := od_move_to_end k (tc_data c)\<rparr>"
    using assms by (simp add: ttl_get_def)
  have "k \<in> fst ` set (tc_data c)"
    using assms(2) od_map_of_None_iff [of "tc_data c" k] by auto
  then have "ttl_present k 0 (v, t) ?c"
    using assms(1,2) ttl_keeps_move [of c k]
    by (simp add: ttl_present_def c ttl_keeps_def od_map_of_move od_age_move_same)
  then have "ttl_present k (0 + length ps) (v, t) (ttl_set_many ps now' ?c)"
    unfolding ttl_set_many_def using assms(4,5) by (intro ttl_put_others_age) (auto simp: c)
  then show ?thesis by (simp add: ttl_present_def)
qed

theorem ttl_lru_survives_witness:
  "map_of (tc_data (ttl_set_many [(''b'', 2::int)] 1 (snd (ttl_get ''a'' None 1
     \<lparr>tc_maxsize = 2, tc_ttl = 5, tc_data = [(''a'', (1, 5)), (''z'', (0, 5))]\<rparr>)))) ''a'' = Some (1, 5)"
  by (rule ttl_lru_survives) (simp_all add: ttl_wf_def)

end
