(* ===== verification/Stream_Tickets.thy ===== *)
theory Stream_Tickets
  imports TTL_Cache
begin

text \<open>
  \<^verbatim>\<open>backend/services/stream_tickets.py\<close>: one-time tickets for opening an SSE or WebSocket
  stream. The store keeps its tickets in a \<^verbatim>\<open>TTLCache\<close> and relies on two of its methods, \<^verbatim>\<open>set\<close>
  and \<^verbatim>\<open>pop\<close>; what it relies on is the locale \<open>expiring_store\<close>, which the cache interprets.
  The random string of \<^verbatim>\<open>secrets.token_urlsafe(32)\<close> is an argument of \<open>st_issue\<close>.
\<close>

section \<open>The interface the ticket store relies on\<close>

datatype 'v store_op = SPut string 'v time | STake string time

fun store_step ::
  "(string \<Rightarrow> 'v \<Rightarrow> time \<Rightarrow> 's \<Rightarrow> 's) \<Rightarrow> (string \<Rightarrow> time \<Rightarrow> 's \<Rightarrow> 'v option \<times> 's) \<Rightarrow> 'v store_op \<Rightarrow> 's \<Rightarrow> 's" where
  "store_step put redeem (SPut k v t) s = put k v t s"
| "store_step put redeem (STake k t) s = snd (redeem k t s)"

locale expiring_store =
  fixes put :: "string \<Rightarrow> 'v \<Rightarrow> time \<Rightarrow> 's \<Rightarrow> 's"
    and redeem :: "string \<Rightarrow> time \<Rightarrow> 's \<Rightarrow> 'v option \<times> 's"
    and look :: "'s \<Rightarrow> string \<rightharpoonup> 'v \<times> time"
    and ttl :: "'s \<Rightarrow> time"
    and inv :: "'s \<Rightarrow> bool"
  assumes put_inv: "inv s \<Longrightarrow> inv (put k v t s)"
    and redeem_inv: "inv s \<Longrightarrow> inv (snd (redeem k t s))"
    and put_same: "inv s \<Longrightarrow> look (put k v t s) k = Some (v, t + ttl s)"
    and put_other: "inv s \<Longrightarrow> j \<noteq> k \<Longrightarrow> look (put k v t s) j = look s j \<or> look (put k v t s) j = None"
    and redeem_result: "inv s \<Longrightarrow>
      fst (redeem k t s) = (case look s k of Some (v, e) \<Rightarrow> if t < e then Some v else None | None \<Rightarrow> None)"
    and redeem_look: "inv s \<Longrightarrow> look (snd (redeem k t s)) = (look s)(k := None)"
begin

definition run :: "'v store_op list \<Rightarrow> 's \<Rightarrow> 's" where
  "run ops s = fold (store_step put redeem) ops s"

lemma run_inv: "inv s \<Longrightarrow> inv (run ops s)"
proof (induction ops arbitrary: s)
  case (Cons a ops)
  then show ?case by (cases a) (auto simp: run_def put_inv redeem_inv)
qed (simp add: run_def)

lemma run_absent:
  assumes "inv s" and "look s k = None" and "\<forall>v t. SPut k v t \<notin> set ops"
  shows "look (run ops s) k = None"
  using assms
proof (induction ops arbitrary: s)
  case (Cons a ops)
  let ?s = "store_step put redeem a s"
  have "look ?s k = None" and "inv ?s"
  proof (cases a)
    case (SPut j v t)
    then have "k \<noteq> j" using Cons.prems(3) by auto
    then show "look ?s k = None" using SPut Cons.prems put_other [of s k j v t] by auto
  qed (use Cons.prems in \<open>cases a; auto simp: put_inv redeem_inv redeem_look\<close>)+
  then show ?case using Cons by (simp add: run_def)
qed (simp add: run_def)

lemma single_use:
  assumes "inv s" and "\<forall>v t. SPut k v t \<notin> set ops"
  shows "fst (redeem k t' (run ops (snd (redeem k t s)))) = None"
proof -
  let ?s = "snd (redeem k t s)"
  have "inv ?s" and "look ?s k = None" using assms(1) by (auto simp: redeem_inv redeem_look)
  then have "look (run ops ?s) k = None" and "inv (run ops ?s)"
    using assms(2) by (auto intro: run_absent run_inv)
  then show ?thesis by (simp add: redeem_result)
qed

lemma fresh_redeem:
  assumes "inv s" shows "fst (redeem k t' (put k v t s)) = (if t' < t + ttl s then Some v else None)"
  using assms by (simp add: redeem_result put_inv put_same)

end

section \<open>The ticket store\<close>

record stream_ticket =
  st_user_id :: int
  st_username :: string

type_synonym ticket_store = "stream_ticket ttl_cache"

definition st_new :: "time \<Rightarrow> int \<Rightarrow> cache_error + ticket_store" where
  "st_new ttl max_entries = ttl_new max_entries ttl"

definition st_key :: "string \<Rightarrow> string \<Rightarrow> string \<Rightarrow> string" where
  "st_key ticket purpose resource = purpose @ ''|'' @ resource @ ''|'' @ ticket"

definition st_issue ::
  "string \<Rightarrow> int \<Rightarrow> string \<Rightarrow> string \<Rightarrow> string \<Rightarrow> time \<Rightarrow> ticket_store \<Rightarrow> string \<times> ticket_store" where
  "st_issue ticket user_id username purpose resource now s =
     (let key = st_key ticket purpose resource
      in (ticket, ttl_set key \<lparr>st_user_id = user_id, st_username = username\<rparr> now s))"

definition st_consume ::
  "string \<Rightarrow> string \<Rightarrow> string \<Rightarrow> time \<Rightarrow> ticket_store \<Rightarrow> stream_ticket option \<times> ticket_store" where
  "st_consume ticket purpose resource now s =
     (if ticket = [] \<or> py_strip ticket = [] then (None, s)
      else ttl_pop (st_key (py_strip ticket) purpose resource) None now s)"

definition st_clear :: "ticket_store \<Rightarrow> nat \<times> ticket_store" where
  "st_clear s = ttl_clear s"

section \<open>The cache provides the interface\<close>

interpretation tickets: expiring_store
  "ttl_set :: string \<Rightarrow> stream_ticket \<Rightarrow> time \<Rightarrow> ticket_store \<Rightarrow> ticket_store"
  "\<lambda>k t s. ttl_pop k None t s" "\<lambda>s. map_of (tc_data s)" tc_ttl ttl_wf
proof unfold_locales
  fix s :: ticket_store and k j :: string and v :: stream_ticket and t :: time
  assume wf: "ttl_wf s"
  then show "ttl_wf (ttl_set k v t s)" by (auto simp: ttl_set_def)
  have "ttl_keeps s (snd (ttl_pop k None t s))"
    using ttl_keeps_step [of s "TPop k None" t] by simp
  with wf show "ttl_wf (snd (ttl_pop k None t s))" by (simp add: ttl_keeps_def)
  from wf show "map_of (tc_data (ttl_set k v t s)) k = Some (v, t + tc_ttl s)"
    by (simp add: ttl_set_def ttl_put_same)
  show "fst (ttl_pop k None t s) = (case map_of (tc_data s) k of Some (v, e) \<Rightarrow>
      if t < e then Some v else None | None \<Rightarrow> None)"
    by (simp add: ttl_pop_value split: option.splits)
  show "map_of (tc_data (snd (ttl_pop k None t s))) = (map_of (tc_data s))(k := None)"
    by (auto simp: ttl_pop_def od_simps fun_eq_iff split: option.splits)
  assume "j \<noteq> k"
  with wf show "map_of (tc_data (ttl_set k v t s)) j = map_of (tc_data s) j
      \<or> map_of (tc_data (ttl_set k v t s)) j = None"
    by (auto simp: ttl_set_def ttl_put_def Let_def od_simps od_map_of_tl ttl_wf_def)
qed

section \<open>A run of the store\<close>

datatype ticket_event =
    Issue string int string string string time
  | Consume string string string time

fun st_event :: "ticket_event \<Rightarrow> ticket_store \<Rightarrow> ticket_store" where
  "st_event (Issue tk uid name p r t) s = snd (st_issue tk uid name p r t s)"
| "st_event (Consume tk p r t) s = snd (st_consume tk p r t s)"

fun st_run :: "ticket_event list \<Rightarrow> ticket_store \<Rightarrow> ticket_store" where
  "st_run [] s = s"
| "st_run (e # es) s = st_run es (st_event e s)"

text \<open>The cache operations an event makes.\<close>

fun st_ops :: "ticket_event \<Rightarrow> stream_ticket store_op list" where
  "st_ops (Issue tk uid name p r t) = [SPut (st_key tk p r) \<lparr>st_user_id = uid, st_username = name\<rparr> t]"
| "st_ops (Consume tk p r t) = (if py_strip tk = [] then [] else [STake (st_key (py_strip tk) p r) t])"

lemma st_run_ops: "st_run es s = tickets.run (concat (map st_ops es)) s"
proof (induction es arbitrary: s)
  case (Cons e es)
  then show ?case
    by (cases e) (auto simp: tickets.run_def st_issue_def st_consume_def Let_def py_strip_def)
qed (simp add: tickets.run_def)

lemma no_bar_split:
  assumes "a @ ''|'' @ b = c @ ''|'' @ d" and "CHR ''|'' \<notin> set b" and "CHR ''|'' \<notin> set d"
  shows "a = c \<and> b = d"
  using assms
  by (auto simp: append_eq_append_conv2 Cons_eq_append_conv append_eq_Cons_conv)

lemma st_key_inj:
  assumes "st_key t p r = st_key t' p' r'"
    and "CHR ''|'' \<notin> set t" "CHR ''|'' \<notin> set t'" "CHR ''|'' \<notin> set p" "CHR ''|'' \<notin> set p'"
  shows "t = t' \<and> p = p' \<and> r = r'"
proof -
  have "(p @ ''|'' @ r) @ ''|'' @ t = (p' @ ''|'' @ r') @ ''|'' @ t'"
    using assms(1) by (simp add: st_key_def)
  then have eq: "p @ ''|'' @ r = p' @ ''|'' @ r'" and t: "t = t'"
    using no_bar_split assms(2,3) by blast+
  have "rev r @ ''|'' @ rev p = rev r' @ ''|'' @ rev p'"
    using arg_cong [OF eq, of rev] by simp
  then have "rev r = rev r' \<and> rev p = rev p'"
    using no_bar_split assms(4,5) by (metis set_rev)
  with t show ?thesis by simp
qed

section \<open>Properties\<close>

text \<open>
  C40: A ticket is redeemed at most once: after it has been presented, no later presentation
  of it for the same stream succeeds, whatever tickets are issued and presented in between,
  as long as the same ticket is not issued again for that stream.
\<close>

theorem ticket_single_use:
  assumes "ttl_wf s" and "\<forall>uid name t. Issue (py_strip tk) uid name p r t \<notin> set es"
    and "\<forall>tk' uid name p' r' t. Issue tk' uid name p' r' t \<in> set es \<longrightarrow>
      CHR ''|'' \<notin> set tk' \<and> CHR ''|'' \<notin> set p'"
    and "CHR ''|'' \<notin> set tk" "CHR ''|'' \<notin> set p"
  shows "fst (st_consume tk p r now' (st_run es (snd (st_consume tk p r now s)))) = None"
proof (cases "py_strip tk = []")
  case False
  let ?k = "st_key (py_strip tk) p r"
  have bar: "CHR ''|'' \<notin> set (py_strip tk)" using assms(4) set_py_strip [of tk] by auto
  have "SPut ?k v t \<notin> set (concat (map st_ops es))" for v t
  proof
    assume "SPut ?k v t \<in> set (concat (map st_ops es))"
    then obtain e where e: "e \<in> set es" "SPut ?k v t \<in> set (st_ops e)" by auto
    obtain tk' uid name p' r' where "e = Issue tk' uid name p' r' t" "?k = st_key tk' p' r'"
      using e(2) by (cases e) (auto split: if_splits)
    with e assms(2,3,5) bar st_key_inj [of "py_strip tk" p r tk' p' r'] show False by blast
  qed
  then have "fst (ttl_pop ?k None now' (tickets.run (concat (map st_ops es)) (snd (ttl_pop ?k None now s)))) = None"
    using tickets.single_use [OF assms(1)] by blast
  moreover have "tk \<noteq> []" using False by (auto simp: py_strip_def)
  ultimately show ?thesis using False by (simp add: st_consume_def st_run_ops)
qed (simp add: st_consume_def)

theorem ticket_single_use_witness:
  "fst (st_consume ''abc'' ''task_run_ws'' ''daily'' 3 (st_run [Issue ''xyz'' 2 ''bob'' ''task_run_ws'' ''daily'' 2]
     (snd (st_consume ''abc'' ''task_run_ws'' ''daily'' 1
       (snd (st_issue ''abc'' 1 ''amy'' ''task_run_ws'' ''daily'' 0
         \<lparr>tc_maxsize = 4, tc_ttl = 60, tc_data = []\<rparr>)))))) = None"
proof (rule ticket_single_use)
  show "ttl_wf (snd (st_issue ''abc'' 1 ''amy'' ''task_run_ws'' ''daily'' 0
      \<lparr>tc_maxsize = 4, tc_ttl = 60, tc_data = []\<rparr>))"
    by (simp add: st_issue_def ttl_set_def ttl_put_def ttl_wf_def)
qed (auto simp: py_strip_def py_space_def)

text \<open>
  A ticket opens only the stream it was issued for: presented for another purpose or
  resource in a store that held no other tickets it is refused, presented for its own it
  yields the user it was issued to until its lifetime ends. Neither purposes nor the
  URL-safe tickets contain the separator of the key.
\<close>

theorem ticket_bound_to_stream:
  assumes "ttl_wf s" and "tc_data s = []" and "\<forall>c \<in> set tk. \<not> py_space c" and "tk \<noteq> []"
    and "CHR ''|'' \<notin> set tk" "CHR ''|'' \<notin> set p" "CHR ''|'' \<notin> set p'"
  shows "fst (st_consume tk p' r' now (snd (st_issue tk uid name p r t s))) =
    (if p' = p \<and> r' = r \<and> now < t + tc_ttl s then Some \<lparr>st_user_id = uid, st_username = name\<rparr> else None)"
proof -
  have strip: "py_strip tk = tk" using assms(3) by (rule py_strip_id)
  let ?v = "\<lparr>st_user_id = uid, st_username = name\<rparr>"
  let ?s = "ttl_set (st_key tk p r) ?v t s"
  show ?thesis
  proof (cases "p' = p \<and> r' = r")
    case True
    then show ?thesis using assms(1,4) strip tickets.fresh_redeem [OF assms(1)]
      by (simp add: st_consume_def st_issue_def Let_def)
  next
    case False
    then have "st_key tk p' r' \<noteq> st_key tk p r" using st_key_inj assms(5-7) by blast
    then have "map_of (tc_data ?s) (st_key tk p' r') = None"
      using tickets.put_other [OF assms(1), of "st_key tk p' r'" "st_key tk p r" ?v t] assms(2) by auto
    with False show ?thesis using assms(4) strip
      by (auto simp: st_consume_def st_issue_def Let_def ttl_pop_value)
  qed
qed

theorem ticket_bound_to_stream_witness:
  "fst (st_consume ''abc'' ''task_run_ws'' ''daily'' 5 (snd (st_issue ''abc'' 1 ''amy'' ''sign_history_sse'' '''' 0
     \<lparr>tc_maxsize = 4, tc_ttl = 60, tc_data = []\<rparr>))) = None"
  by (subst ticket_bound_to_stream) (auto simp: ttl_wf_def py_space_def)

text \<open>
  The key is not injective when a resource may contain its separator: a ticket issued for
  the resource \<open>a|b\<close> is redeemed on the resource \<open>a\<close> by presenting \<open>b|\<close> followed by the
  ticket.
\<close>

lemma ticket_key_ambiguous:
  "fst (st_consume (''b|'' @ ''tok'') ''task_run_ws'' ''a'' 1 (snd (st_issue ''tok'' 1 ''amy'' ''task_run_ws'' ''a|b'' 0
     \<lparr>tc_maxsize = 4, tc_ttl = 60, tc_data = []\<rparr>))) = Some \<lparr>st_user_id = 1, st_username = ''amy''\<rparr>"
  by (simp add: st_consume_def st_issue_def st_key_def ttl_set_def ttl_put_def ttl_pop_def
      py_strip_def py_space_def)

end
