(* ===== verification/Circuit_Breaker.thy ===== *)
theory Circuit_Breaker
  imports Prelude
begin

text \<open>
  \<^verbatim>\<open>tg_signer/semantic/breaker.py\<close>: the circuit breaker in front of the semantic service and
  the leases through which its client reports a call's outcome. The breaker's fields are
  the record \<open>cb\<close>; a lease is a value whose methods return the lease and the breaker
  updated. The interface \<open>failure_limiter\<close> is what a caller relies on in any of the program's
  breakers; \<open>Proxy_Breaker\<close> interprets it a second time.
\<close>

section \<open>What a caller relies on in a breaker\<close>

locale failure_limiter =
  fixes fail :: "time \<Rightarrow> 's \<Rightarrow> 's"
    and admits :: "time \<Rightarrow> 's \<Rightarrow> bool"
    and failures :: "'s \<Rightarrow> nat"
    and limit :: "'s \<Rightarrow> nat"
    and cooldown :: "'s \<Rightarrow> time"
    and inv :: "'s \<Rightarrow> bool"
  assumes fail_params: "limit (fail t s) = limit s" "cooldown (fail t s) = cooldown s"
    and fail_inv: "inv s \<Longrightarrow> inv (fail t s)"
    and fail_count: "inv s \<Longrightarrow> failures (fail t s) = Suc (failures s)"
    and admits_below: "inv s \<Longrightarrow> failures s < limit s \<Longrightarrow> admits now s"
    and blocks_at: "inv s \<Longrightarrow> Suc (failures s) = limit s \<Longrightarrow> now - t < cooldown s \<Longrightarrow> \<not> admits now (fail t s)"
begin

definition fail_all :: "time list \<Rightarrow> 's \<Rightarrow> 's" where
  "fail_all ts s = fold fail ts s"

lemma fail_all_simps [simp]: "fail_all [] s = s" "fail_all (t # ts) s = fail_all ts (fail t s)"
  by (simp_all add: fail_all_def)

lemma fail_all_params: "limit (fail_all ts s) = limit s" "cooldown (fail_all ts s) = cooldown s"
  by (induction ts arbitrary: s) (auto simp: fail_params)

lemma fail_all_inv: "inv s \<Longrightarrow> inv (fail_all ts s)"
  by (induction ts arbitrary: s) (auto simp: fail_inv)

lemma fail_all_count: "inv s \<Longrightarrow> failures (fail_all ts s) = failures s + length ts"
  by (induction ts arbitrary: s) (auto simp: fail_inv fail_count)

lemma tolerates: "inv s \<Longrightarrow> failures s + length ts < limit s \<Longrightarrow> admits now (fail_all ts s)"
  by (rule admits_below) (auto simp: fail_all_params fail_all_count fail_all_inv)

lemma trips:
  assumes "inv s" and "failures s + length ts + 1 = limit s" and "now - t < cooldown s"
  shows "\<not> admits now (fail_all (ts @ [t]) s)"
proof -
  have "fail_all (ts @ [t]) s = fail t (fail_all ts s)" by (simp add: fail_all_def)
  then show ?thesis
    using blocks_at [of "fail_all ts s" now t] assms by (simp add: fail_all_params fail_all_count fail_all_inv)
qed

end

section \<open>The breaker\<close>

datatype cb_state = Closed | Open | Half_Open

record cb =
  cb_threshold :: nat
  cb_recovery :: time
  cb_failures :: nat
  cb_last_failure :: time
  cb_state :: cb_state
  cb_generation :: nat
  cb_probe :: bool

definition cb_new :: "int \<Rightarrow> time \<Rightarrow> cb" where
  "cb_new failure_threshold recovery_timeout =
     \<lparr>cb_threshold = nat (max 1 failure_threshold), cb_recovery = max (1/10) recovery_timeout,
      cb_failures = 0, cb_last_failure = 0, cb_state = Closed, cb_generation = 0, cb_probe = False\<rparr>"

definition cb_get_state :: "time \<Rightarrow> cb \<Rightarrow> cb_state" where
  "cb_get_state now b =
     (if cb_state b = Open \<and> now - cb_last_failure b \<ge> cb_recovery b then Half_Open else cb_state b)"

record lease =
  ls_allowed :: bool
  ls_generation :: nat
  ls_probe :: bool
  ls_finished :: bool

definition cb_acquire :: "time \<Rightarrow> cb \<Rightarrow> lease \<times> cb" where
  "cb_acquire now b =
     (let grant = \<lambda>a p. \<lparr>ls_allowed = a, ls_generation = cb_generation b, ls_probe = p, ls_finished = False\<rparr>
      in case cb_get_state now b of
           Closed \<Rightarrow> (grant True False, b)
         | Half_Open \<Rightarrow>
             (if \<not> cb_probe b then (grant True True, b\<lparr>cb_probe := True, cb_state := Half_Open\<rparr>)
              else (grant False False, b))
         | Open \<Rightarrow> (grant False False, b))"

definition cb_allow_request :: "time \<Rightarrow> cb \<Rightarrow> bool \<times> cb" where
  "cb_allow_request now b =
     (case cb_get_state now b of
        Closed \<Rightarrow> (True, b)
      | Half_Open \<Rightarrow> (if \<not> cb_probe b then (True, b\<lparr>cb_probe := True, cb_state := Half_Open\<rparr>) else (False, b))
      | Open \<Rightarrow> (False, b))"

definition cb_record_success :: "nat option \<Rightarrow> bool \<Rightarrow> time \<Rightarrow> cb \<Rightarrow> cb" where
  "cb_record_success request_generation is_probe now b =
     (if request_generation \<noteq> None \<and> request_generation \<noteq> Some (cb_generation b) then b
      else if cb_state b = Open \<and> cb_get_state now b \<noteq> Half_Open then b
      else let b = (if cb_state b = Open then b\<lparr>cb_state := Half_Open\<rparr> else b) in
        if cb_get_state now b = Half_Open then
          (if is_probe \<or> request_generation = None
           then b\<lparr>cb_failures := 0, cb_state := Closed, cb_probe := False\<rparr> else b)
        else if cb_get_state now b = Closed then b\<lparr>cb_failures := 0, cb_probe := False\<rparr>
        else b)"

definition cb_record_failure :: "nat option \<Rightarrow> bool \<Rightarrow> time \<Rightarrow> cb \<Rightarrow> cb" where
  "cb_record_failure request_generation is_probe now b =
     (if request_generation \<noteq> None \<and> request_generation \<noteq> Some (cb_generation b) then b
      else let curr = cb_get_state now b;
               b1 = b\<lparr>cb_failures := Suc (cb_failures b), cb_last_failure := now\<rparr>;
               b2 = (if is_probe \<or> curr = Half_Open then b1\<lparr>cb_probe := False\<rparr> else b1)
           in if curr = Half_Open \<or> cb_threshold b2 \<le> cb_failures b2
              then b2\<lparr>cb_state := Open, cb_generation := Suc (cb_generation b2), cb_probe := False\<rparr>
              else b2)"

definition cb_release_probe :: "nat option \<Rightarrow> bool \<Rightarrow> cb \<Rightarrow> cb" where
  "cb_release_probe request_generation is_probe b =
     (if request_generation \<noteq> None \<and> request_generation \<noteq> Some (cb_generation b) then b
      else if is_probe then b\<lparr>cb_probe := False\<rparr> else b)"

definition cb_reset :: "cb \<Rightarrow> cb" where
  "cb_reset b = b\<lparr>cb_failures := 0, cb_last_failure := 0, cb_state := Closed, cb_generation := 0, cb_probe := False\<rparr>"

definition cb_snapshot :: "time \<Rightarrow> cb \<Rightarrow> cb_state \<times> nat \<times> nat \<times> nat \<times> time" where
  "cb_snapshot now b = (cb_get_state now b, cb_generation b, cb_failures b, cb_threshold b, cb_recovery b)"

subsection \<open>Leases\<close>

definition ls_record_success :: "time \<Rightarrow> lease \<Rightarrow> cb \<Rightarrow> lease \<times> cb" where
  "ls_record_success now l b =
     (if \<not> ls_finished l
      then (l\<lparr>ls_finished := True\<rparr>, cb_record_success (Some (ls_generation l)) (ls_probe l) now b)
      else (l, b))"

definition ls_record_failure :: "time \<Rightarrow> lease \<Rightarrow> cb \<Rightarrow> lease \<times> cb" where
  "ls_record_failure now l b =
     (if \<not> ls_finished l
      then (l\<lparr>ls_finished := True\<rparr>, cb_record_failure (Some (ls_generation l)) (ls_probe l) now b)
      else (l, b))"

definition ls_release :: "lease \<Rightarrow> cb \<Rightarrow> lease \<times> cb" where
  "ls_release l b =
     (if \<not> ls_finished l
      then (l\<lparr>ls_finished := True\<rparr>, cb_release_probe (Some (ls_generation l)) (ls_probe l) b)
      else (l, b))"

section \<open>The breaker as a failure limiter\<close>

text \<open>Before it trips: no probe, the state closed and fewer failures than the threshold, or
  tripped with at least as many.\<close>

definition cb_counting :: "cb \<Rightarrow> bool" where
  "cb_counting b \<longleftrightarrow> 0 < cb_recovery b \<and>
     (if cb_failures b < cb_threshold b then cb_state b = Closed else cb_state b = Open)"

interpretation breaker_limit: failure_limiter
  "cb_record_failure None False" "\<lambda>now b. fst (cb_allow_request now b)"
  cb_failures cb_threshold cb_recovery cb_counting
  by unfold_locales
    (auto simp: cb_record_failure_def cb_get_state_def cb_counting_def cb_allow_request_def Let_def)

section \<open>Clients sharing the breaker\<close>

text \<open>
  Any number of calls in flight, each holding the lease it was granted. A call whose lease
  was denied reports nothing (\<^verbatim>\<open>query_choice\<close> returns at once); a granted one ends in exactly
  one report, in any order; time does not run backwards.
\<close>

record cb_sys =
  cs_breaker :: cb
  cs_leases :: "lease list"
  cs_now :: time

inductive cb_step :: "cb_sys \<Rightarrow> cb_sys \<Rightarrow> bool" where
  acquire: "cs_now s \<le> t \<Longrightarrow> cb_acquire t (cs_breaker s) = (l, b) \<Longrightarrow>
     cb_step s \<lparr>cs_breaker = b, cs_leases = cs_leases s @ [l], cs_now = t\<rparr>"
| success: "cs_now s \<le> t \<Longrightarrow> i < length (cs_leases s) \<Longrightarrow> ls_allowed (cs_leases s ! i) \<Longrightarrow>
     ls_record_success t (cs_leases s ! i) (cs_breaker s) = (l, b) \<Longrightarrow>
     cb_step s \<lparr>cs_breaker = b, cs_leases = (cs_leases s)[i := l], cs_now = t\<rparr>"
| failure: "cs_now s \<le> t \<Longrightarrow> i < length (cs_leases s) \<Longrightarrow> ls_allowed (cs_leases s ! i) \<Longrightarrow>
     ls_record_failure t (cs_leases s ! i) (cs_breaker s) = (l, b) \<Longrightarrow>
     cb_step s \<lparr>cs_breaker = b, cs_leases = (cs_leases s)[i := l], cs_now = t\<rparr>"
| release: "cs_now s \<le> t \<Longrightarrow> i < length (cs_leases s) \<Longrightarrow> ls_allowed (cs_leases s ! i) \<Longrightarrow>
     ls_release (cs_leases s ! i) (cs_breaker s) = (l, b) \<Longrightarrow>
     cb_step s \<lparr>cs_breaker = b, cs_leases = (cs_leases s)[i := l], cs_now = t\<rparr>"

inductive cb_reachable :: "int \<Rightarrow> time \<Rightarrow> cb_sys \<Rightarrow> bool" for n r where
  start: "cb_reachable n r \<lparr>cs_breaker = cb_new n r, cs_leases = [], cs_now = t\<rparr>"
| step: "cb_reachable n r s \<Longrightarrow> cb_step s s' \<Longrightarrow> cb_reachable n r s'"

inductive_cases cb_stepE: "cb_step s s'"

text \<open>A lease that can still change the breaker: granted, not yet reported, of the current
  generation.\<close>

definition ls_live :: "nat \<Rightarrow> lease \<Rightarrow> bool" where
  "ls_live g l \<longleftrightarrow> ls_allowed l \<and> \<not> ls_finished l \<and> ls_generation l = g"

definition live_probes :: "cb \<Rightarrow> lease list \<Rightarrow> nat set" where
  "live_probes b ls = {i. i < length ls \<and> ls_live (cb_generation b) (ls ! i) \<and> ls_probe (ls ! i)}"

definition cb_inv :: "cb \<Rightarrow> lease list \<Rightarrow> bool" where
  "cb_inv b ls \<longleftrightarrow>
     0 < cb_recovery b \<and> 1 \<le> cb_threshold b \<and>
     (\<forall>l \<in> set ls. ls_generation l \<le> cb_generation b) \<and>
     (cb_state b \<noteq> Closed \<longrightarrow> (\<forall>l \<in> set ls. ls_live (cb_generation b) l \<longrightarrow> ls_probe l)) \<and>
     (if cb_probe b then cb_state b = Half_Open \<and> (\<exists>i. live_probes b ls = {i}) else live_probes b ls = {}) \<and>
     (cb_state b = Closed \<longrightarrow> cb_failures b < cb_threshold b)"

lemma live_probes_append:
  "live_probes b (ls @ [l]) = live_probes b ls \<union>
     (if ls_live (cb_generation b) l \<and> ls_probe l then {length ls} else {})"
  by (auto simp: live_probes_def nth_append less_Suc_eq)

lemma live_probes_finish:
  "i < length ls \<Longrightarrow> ls_finished l \<Longrightarrow> live_probes b (ls[i := l]) = live_probes b ls - {i}"
  by (auto simp: live_probes_def ls_live_def nth_list_update)

lemma live_probes_cong: "cb_generation b = cb_generation b' \<Longrightarrow> live_probes b ls = live_probes b' ls"
  by (simp add: live_probes_def)

lemma live_probes_tripped:
  "\<forall>l \<in> set ls. ls_generation l \<le> g \<Longrightarrow> cb_generation b = Suc g \<Longrightarrow> live_probes b ls = {}"
  by (auto simp: live_probes_def ls_live_def dest!: nth_mem)

subsection \<open>Every step keeps the invariant\<close>

lemma cb_inv_acquire: "cb_inv b ls \<Longrightarrow> cb_acquire t b = (l, b') \<Longrightarrow> cb_inv b' (ls @ [l])"
  by (auto simp: cb_inv_def cb_acquire_def Let_def cb_get_state_def ls_live_def live_probes_append
      live_probes_cong [of "b\<lparr>cb_probe := True, cb_state := Half_Open\<rparr>" b]
      split: cb_state.splits if_splits)

lemma cb_inv_finish_all:
  assumes "cb_inv b ls" and "i < length ls" and "ls_finished l" and "ls_generation l = ls_generation (ls ! i)"
  shows "\<forall>x \<in> set (ls[i := l]). ls_generation x \<le> cb_generation b"
    and "cb_state b \<noteq> Closed \<Longrightarrow> \<forall>x \<in> set (ls[i := l]). ls_live (cb_generation b) x \<longrightarrow> ls_probe x"
  using assms set_update_subset_insert [of ls i l]
  by (auto simp: cb_inv_def ls_live_def dest!: subsetD)

lemma cb_inv_finish_dead:
  assumes inv: "cb_inv b ls" and i: "i < length ls" and l: "ls_finished l" "ls_generation l = ls_generation (ls ! i)"
    and dead: "\<not> (ls_live (cb_generation b) (ls ! i) \<and> ls_probe (ls ! i))"
  shows "cb_inv b (ls[i := l])"
proof -
  have "i \<notin> live_probes b ls" using dead by (simp add: live_probes_def)
  then have "live_probes b (ls[i := l]) = live_probes b ls" using i l by (simp add: live_probes_finish)
  then show ?thesis
    using inv cb_inv_finish_all [OF inv i l] unfolding cb_inv_def by (auto split: if_splits)
qed

text \<open>A live lease in a closed breaker is no probe; otherwise it is the one probe in flight.\<close>

lemma cb_inv_live:
  assumes "cb_inv b ls" and "i < length ls" and "ls_live (cb_generation b) (ls ! i)"
  shows "cb_state b = Closed \<and> \<not> ls_probe (ls ! i) \<and> \<not> cb_probe b
    \<or> cb_state b = Half_Open \<and> ls_probe (ls ! i) \<and> cb_probe b \<and> live_probes b ls = {i}"
proof -
  have "i \<in> live_probes b ls \<longleftrightarrow> ls_probe (ls ! i)" using assms by (simp add: live_probes_def)
  then show ?thesis using assms by (cases "cb_state b") (auto simp: cb_inv_def split: if_splits)
qed

lemma cb_inv_closed:
  assumes "cb_inv b ls" and "i < length ls" and "ls_finished l" and "ls_generation l = ls_generation (ls ! i)"
    and "ls_live (cb_generation b) (ls ! i)"
    and "cb_generation b' = cb_generation b" "cb_recovery b' = cb_recovery b" "cb_threshold b' = cb_threshold b"
    and "cb_state b' = Closed" "\<not> cb_probe b'" "cb_failures b' < cb_threshold b"
  shows "cb_inv b' (ls[i := l])"
proof -
  have "live_probes b (ls[i := l]) = {}"
    using cb_inv_live [OF assms(1,2,5)] assms(1-3) by (auto simp: live_probes_finish cb_inv_def)
  then show ?thesis
    using assms cb_inv_finish_all [OF assms(1-4)] live_probes_cong [of b' b]
    by (auto simp: cb_inv_def)
qed

lemma cb_inv_tripped:
  assumes "cb_inv b ls" and "i < length ls" and "ls_finished l" and "ls_generation l = ls_generation (ls ! i)"
    and "cb_generation b' = Suc (cb_generation b)" "cb_recovery b' = cb_recovery b" "cb_threshold b' = cb_threshold b"
    and "cb_state b' = Open" "\<not> cb_probe b'"
  shows "cb_inv b' (ls[i := l])"
proof -
  note gen = cb_inv_finish_all(1) [OF assms(1-4)]
  have "\<forall>x \<in> set (ls[i := l]). \<not> ls_live (cb_generation b') x"
    using gen assms(5) by (fastforce simp: ls_live_def)
  then show ?thesis
    using assms gen live_probes_tripped [OF gen assms(5)]
    by (auto simp: cb_inv_def intro: le_SucI)
qed

lemma cb_inv_success:
  assumes inv: "cb_inv b ls" and i: "i < length ls" and a: "ls_allowed (ls ! i)"
    and r: "ls_record_success t (ls ! i) b = (l, b')"
  shows "cb_inv b' (ls[i := l])"
proof (cases "ls_finished (ls ! i)")
  case True
  then have "l = ls ! i" and "b' = b" using r by (auto simp: ls_record_success_def)
  then show ?thesis using inv by (simp only: list_update_id)
next
  case False
  then have l: "ls_finished l" "ls_generation l = ls_generation (ls ! i)"
    and b': "b' = cb_record_success (Some (ls_generation (ls ! i))) (ls_probe (ls ! i)) t b"
    using r by (auto simp: ls_record_success_def)
  show ?thesis
  proof (cases "ls_generation (ls ! i) = cb_generation b")
    case True
    then have live: "ls_live (cb_generation b) (ls ! i)" using False a by (simp add: ls_live_def)
    show ?thesis
      using cb_inv_live [OF inv i live] inv True b'
      by (intro cb_inv_closed [OF inv i l live])
        (auto simp: cb_record_success_def cb_get_state_def cb_inv_def)
  next
    case stale: False
    then have "b' = b" using b' by (simp add: cb_record_success_def)
    then show ?thesis using cb_inv_finish_dead [OF inv i l] stale by (simp add: ls_live_def)
  qed
qed

lemma cb_inv_failure:
  assumes inv: "cb_inv b ls" and i: "i < length ls" and a: "ls_allowed (ls ! i)"
    and r: "ls_record_failure t (ls ! i) b = (l, b')"
  shows "cb_inv b' (ls[i := l])"
proof (cases "ls_finished (ls ! i)")
  case True
  then have "l = ls ! i" and "b' = b" using r by (auto simp: ls_record_failure_def)
  then show ?thesis using inv by (simp only: list_update_id)
next
  case False
  then have l: "ls_finished l" "ls_generation l = ls_generation (ls ! i)"
    and b': "b' = cb_record_failure (Some (ls_generation (ls ! i))) (ls_probe (ls ! i)) t b"
    using r by (auto simp: ls_record_failure_def)
  show ?thesis
  proof (cases "ls_generation (ls ! i) = cb_generation b")
    case True
    then have live: "ls_live (cb_generation b) (ls ! i)" using False a by (simp add: ls_live_def)
    note cases = cb_inv_live [OF inv i live]
    show ?thesis
    proof (cases "cb_state b = Half_Open \<or> cb_threshold b \<le> Suc (cb_failures b)")
      case trip: True
      show ?thesis
        using cases trip True b'
        by (intro cb_inv_tripped [OF inv i l]) (auto simp: cb_record_failure_def cb_get_state_def Let_def)
    next
      case no_trip: False
      show ?thesis
        using cases no_trip True b'
        by (intro cb_inv_closed [OF inv i l live]) (auto simp: cb_record_failure_def cb_get_state_def Let_def)
    qed
  next
    case stale: False
    then have "b' = b" using b' by (simp add: cb_record_failure_def)
    then show ?thesis using cb_inv_finish_dead [OF inv i l] stale by (simp add: ls_live_def)
  qed
qed

lemma cb_inv_release:
  assumes inv: "cb_inv b ls" and i: "i < length ls" and a: "ls_allowed (ls ! i)"
    and r: "ls_release (ls ! i) b = (l, b')"
  shows "cb_inv b' (ls[i := l])"
proof (cases "ls_finished (ls ! i)")
  case True
  then have "l = ls ! i" and "b' = b" using r by (auto simp: ls_release_def)
  then show ?thesis using inv by (simp only: list_update_id)
next
  case False
  then have l: "ls_finished l" "ls_generation l = ls_generation (ls ! i)"
    and b': "b' = cb_release_probe (Some (ls_generation (ls ! i))) (ls_probe (ls ! i)) b"
    using r by (auto simp: ls_release_def)
  show ?thesis
  proof (cases "ls_live (cb_generation b) (ls ! i) \<and> ls_probe (ls ! i)")
    case True
    then have b: "cb_state b = Half_Open" "live_probes b ls = {i}"
      using cb_inv_live [OF inv i] by auto
    have "b' = b\<lparr>cb_probe := False\<rparr>" using b' True by (simp add: cb_release_probe_def ls_live_def)
    then show ?thesis
      using inv b l i cb_inv_finish_all [OF inv i l] live_probes_cong [of "b\<lparr>cb_probe := False\<rparr>" b]
      by (auto simp: cb_inv_def live_probes_finish)
  next
    case dead: False
    then have "b' = b" using b' False a by (auto simp: cb_release_probe_def ls_live_def)
    then show ?thesis using cb_inv_finish_dead [OF inv i l dead] by simp
  qed
qed

lemma cb_step_inv: "cb_step s s' \<Longrightarrow> cb_inv (cs_breaker s) (cs_leases s) \<Longrightarrow> cb_inv (cs_breaker s') (cs_leases s')"
  by (erule cb_stepE) (auto intro: cb_inv_acquire cb_inv_success cb_inv_failure cb_inv_release)

lemma cb_new_params: "0 < cb_recovery (cb_new n r)" "0 < cb_threshold (cb_new n r)" "int (cb_threshold (cb_new n r)) = max 1 n"
  "cb_failures (cb_new n r) = 0" "cb_state (cb_new n r) = Closed" "\<not> cb_probe (cb_new n r)"
  by (simp_all add: cb_new_def less_max_iff_disj)

lemma cb_reachable_inv: "cb_reachable n r s \<Longrightarrow> cb_inv (cs_breaker s) (cs_leases s)"
proof (induction rule: cb_reachable.induct)
  case (start t)
  show ?case using cb_new_params [of n r] by (simp add: cb_inv_def live_probes_def)
qed (rule cb_step_inv)

section \<open>An example run\<close>

text \<open>A breaker of threshold 1: one call fails and opens it; after a minute the next call is
  the probe.\<close>

abbreviation lease_plain :: lease where
  "lease_plain \<equiv> \<lparr>ls_allowed = True, ls_generation = 0, ls_probe = False, ls_finished = False\<rparr>"

abbreviation lease_probe :: lease where
  "lease_probe \<equiv> \<lparr>ls_allowed = True, ls_generation = 1, ls_probe = True, ls_finished = False\<rparr>"

abbreviation sys_open :: cb_sys where
  "sys_open \<equiv> \<lparr>cs_breaker = \<lparr>cb_threshold = 1, cb_recovery = 60, cb_failures = 1, cb_last_failure = 1,
     cb_state = Open, cb_generation = 1, cb_probe = False\<rparr>,
     cs_leases = [lease_plain\<lparr>ls_finished := True\<rparr>], cs_now = 1\<rparr>"

abbreviation sys_half_open :: cb_sys where
  "sys_half_open \<equiv> \<lparr>cs_breaker = (cs_breaker sys_open)\<lparr>cb_probe := True, cb_state := Half_Open\<rparr>,
     cs_leases = [lease_plain\<lparr>ls_finished := True\<rparr>, lease_probe], cs_now = 61\<rparr>"

lemma cb_example_open: "cb_reachable 1 60 sys_open"
proof -
  have "cb_reachable 1 60 \<lparr>cs_breaker = cb_new 1 60, cs_leases = [], cs_now = 0\<rparr>"
    by (rule cb_reachable.start)
  then have "cb_reachable 1 60 \<lparr>cs_breaker = cb_new 1 60, cs_leases = [lease_plain], cs_now = 0\<rparr>"
    by (rule cb_reachable.step)
      (use cb_step.acquire [of "\<lparr>cs_breaker = cb_new 1 60, cs_leases = [], cs_now = 0\<rparr>" 0 lease_plain "cb_new 1 60"]
        in \<open>simp add: cb_acquire_def cb_get_state_def cb_new_def\<close>)
  then show ?thesis
    by (rule cb_reachable.step)
      (use cb_step.failure [of "\<lparr>cs_breaker = cb_new 1 60, cs_leases = [lease_plain], cs_now = 0\<rparr>" 1 0]
        in \<open>simp add: ls_record_failure_def cb_record_failure_def cb_get_state_def cb_new_def\<close>)
qed

lemma cb_example_half_open: "cb_reachable 1 60 sys_half_open"
  by (rule cb_reachable.step [OF cb_example_open])
    (use cb_step.acquire [of sys_open 61 lease_probe] in \<open>simp add: cb_acquire_def cb_get_state_def\<close>)

section \<open>Properties\<close>

text \<open>
  C37: Single flight: however the calls through the breaker interleave, at most one granted
  probe of the current generation is unreported, and while the breaker is not closed that
  probe is the only lease whose report can still change it.
\<close>

theorem breaker_single_probe:
  assumes "cb_reachable n r s"
    and "i < length (cs_leases s)" "ls_live (cb_generation (cs_breaker s)) (cs_leases s ! i)"
    and "j < length (cs_leases s)" "ls_live (cb_generation (cs_breaker s)) (cs_leases s ! j)"
    and "cb_state (cs_breaker s) \<noteq> Closed"
  shows "i = j \<and> ls_probe (cs_leases s ! i)"
  using cb_inv_live [OF cb_reachable_inv [OF assms(1)] assms(2,3)]
    cb_inv_live [OF cb_reachable_inv [OF assms(1)] assms(4,5)] assms(6)
  by auto

theorem breaker_single_probe_witness: "ls_probe lease_probe"
  using breaker_single_probe [OF cb_example_half_open, of 1 1] by (simp add: ls_live_def)

text \<open>
  Only the probe closes the breaker: when a step takes it from open or half-open to
  closed, that step is the success report of the one live probe lease; a success report of
  an older call leaves the breaker as it is.
\<close>

theorem breaker_closed_by_probe_only:
  assumes "cb_reachable n r s" and "cb_step s s'"
    and "cb_state (cs_breaker s) \<noteq> Closed" and "cb_state (cs_breaker s') = Closed"
  shows "\<exists>i < length (cs_leases s). ls_live (cb_generation (cs_breaker s)) (cs_leases s ! i)
    \<and> ls_probe (cs_leases s ! i)
    \<and> (\<exists>t. cs_breaker s' = cb_record_success (Some (ls_generation (cs_leases s ! i))) True t (cs_breaker s))"
  using assms(2)
proof (cases rule: cb_step.cases)
  case (acquire t l b)
  then show ?thesis using assms(3,4)
    by (auto simp: cb_acquire_def cb_get_state_def Let_def split: if_splits cb_state.splits)
next
  case (success t i l b)
  have nofin: "\<not> ls_finished (cs_leases s ! i)"
    using success assms(3,4) by (auto simp: ls_record_success_def)
  then have b: "b = cb_record_success (Some (ls_generation (cs_leases s ! i))) (ls_probe (cs_leases s ! i)) t (cs_breaker s)"
    using success by (auto simp: ls_record_success_def)
  then have "ls_generation (cs_leases s ! i) = cb_generation (cs_breaker s)"
    using success assms(3,4) by (auto simp: cb_record_success_def split: if_splits)
  then have live: "ls_live (cb_generation (cs_breaker s)) (cs_leases s ! i)"
    using success nofin by (simp add: ls_live_def)
  then have "ls_probe (cs_leases s ! i)"
    using cb_inv_live [OF cb_reachable_inv [OF assms(1)]] success assms(3) by blast
  with success b live show ?thesis by auto
next
  case (failure t i l b)
  then show ?thesis using assms(3,4) cb_inv_live [OF cb_reachable_inv [OF assms(1)], of i]
    by (auto simp: ls_record_failure_def cb_record_failure_def Let_def cb_get_state_def split: if_splits)
next
  case (release t i l b)
  then show ?thesis using assms(3,4)
    by (auto simp: ls_release_def cb_release_probe_def split: if_splits)
qed

theorem breaker_closed_by_probe_only_witness:
  "\<exists>i < 2. ls_probe (cs_leases sys_half_open ! i)"
proof -
  let ?b = "cb_record_success (Some 1) True 62 (cs_breaker sys_half_open)"
  have "cb_step sys_half_open \<lparr>cs_breaker = ?b,
      cs_leases = (cs_leases sys_half_open)[1 := lease_probe\<lparr>ls_finished := True\<rparr>], cs_now = 62\<rparr>"
    using cb_step.success [of sys_half_open 62 1] by (simp add: ls_record_success_def)
  moreover have "cb_state ?b = Closed" by (simp add: cb_record_success_def cb_get_state_def)
  ultimately obtain i where "i < length (cs_leases sys_half_open)" and "ls_probe (cs_leases sys_half_open ! i)"
    using breaker_closed_by_probe_only [OF cb_example_half_open] by fastforce
  then show ?thesis by (intro exI [of _ i]) simp
qed

text \<open>
  C38: The breaker is never stuck half-open: in a reachable state that is not closed, where
  every granted probe has been reported or released, the first call after the recovery time
  is granted as a probe, and its success closes the breaker.
\<close>

theorem breaker_recovers:
  assumes "cb_reachable n r s" and "cb_state (cs_breaker s) \<noteq> Closed"
    and "\<forall>l \<in> set (cs_leases s). ls_probe l \<longrightarrow> ls_finished l"
    and "cb_recovery (cs_breaker s) \<le> t - cb_last_failure (cs_breaker s)"
  shows "ls_allowed (fst (cb_acquire t (cs_breaker s))) \<and> ls_probe (fst (cb_acquire t (cs_breaker s)))
    \<and> cb_state (snd (ls_record_success t' (fst (cb_acquire t (cs_breaker s))) (snd (cb_acquire t (cs_breaker s))))) = Closed"
proof -
  have inv: "cb_inv (cs_breaker s) (cs_leases s)" using assms(1) by (rule cb_reachable_inv)
  have "live_probes (cs_breaker s) (cs_leases s) = {}"
    using assms(3) by (auto simp: live_probes_def ls_live_def)
  then have "\<not> cb_probe (cs_breaker s)" using inv by (auto simp: cb_inv_def)
  then show ?thesis using assms(2,4)
    by (cases "cb_state (cs_breaker s)")
      (auto simp: cb_acquire_def cb_get_state_def Let_def ls_record_success_def cb_record_success_def)
qed

theorem breaker_recovers_witness:
  "ls_probe (fst (cb_acquire 61 (cs_breaker sys_open)))"
  using breaker_recovers [OF cb_example_open, of 61 62] by simp

text \<open>
  A fresh breaker tolerates fewer consecutive failures than its threshold and after the
  last of exactly that many refuses every request until the recovery time has passed.
\<close>

theorem breaker_trips_at_threshold:
  "(int (length ts) < max 1 n \<longrightarrow>
      fst (cb_allow_request now (fold (cb_record_failure None False) ts (cb_new n r))))
   \<and> (int (length ts) + 1 = max 1 n \<and> now - t < max (1/10) r \<longrightarrow>
      \<not> fst (cb_allow_request now (fold (cb_record_failure None False) (ts @ [t]) (cb_new n r))))"
proof -
  let ?b = "cb_new n r"
  note p = cb_new_params [of n r]
  have new: "cb_counting ?b" using p by (simp add: cb_counting_def)
  have "length ts < cb_threshold ?b \<longleftrightarrow> int (length ts) < max 1 n"
    and "length ts + 1 = cb_threshold ?b \<longleftrightarrow> int (length ts) + 1 = max 1 n"
    using p(3) by linarith+
  moreover have "cb_recovery ?b = max (1/10) r" by (simp add: cb_new_def)
  ultimately show ?thesis
    using breaker_limit.tolerates [OF new, of ts now] breaker_limit.trips [OF new, of ts now t] p(4)
    by (simp add: breaker_limit.fail_all_def)
qed

theorem breaker_trips_at_threshold_witness:
  "fst (cb_allow_request 2 (fold (cb_record_failure None False) [1] (cb_new 2 60)))
   \<and> \<not> fst (cb_allow_request 3 (fold (cb_record_failure None False) ([1] @ [2]) (cb_new 2 60)))"
  using breaker_trips_at_threshold [of "[1]" 2 2 60 0] breaker_trips_at_threshold [of "[1]" 2 3 60 2]
  by simp

end
