(* ===== verification/Proxy_Breaker.thy ===== *)
theory Proxy_Breaker
  imports Circuit_Breaker
begin

text \<open>
  \<^verbatim>\<open>backend/services/proxy_circuit_breaker.py\<close>: the breaker per outgoing proxy, whose state is
  shared by the worker processes through one JSON file. The three dictionaries of the
  process and the file (\<open>None\<close> when it does not exist) are the record \<open>pb\<close>. Access to the
  file happens under a file lock that may time out and may fail; each access takes a flag
  \<open>io\<close> saying whether it succeeded, and the failed access is the branch the code takes. The
  file's entries are JSON objects whose three fields may be missing. \<^verbatim>\<open>time.time()\<close> readings
  are arguments, as are the SHA-256 digest in \<^verbatim>\<open>_proxy_key\<close> and the network probe's answer.
\<close>

datatype circuit_state = HEALTHY | DEGRADED | TRIPPED | HALF_OPEN

definition circuit_value :: "circuit_state \<Rightarrow> string" where
  "circuit_value c = (case c of HEALTHY \<Rightarrow> ''HEALTHY'' | DEGRADED \<Rightarrow> ''DEGRADED''
     | TRIPPED \<Rightarrow> ''TRIPPED'' | HALF_OPEN \<Rightarrow> ''HALF_OPEN'')"

text \<open>\<^verbatim>\<open>CircuitState(s)\<close>; \<open>None\<close> is the ValueError. The default \<^verbatim>\<open>str(CircuitState.HEALTHY)\<close> of a
  missing field is ''CircuitState.HEALTHY'', which is no value of the enumeration.\<close>

definition circuit_of :: "string \<Rightarrow> circuit_state option" where
  "circuit_of s = find (\<lambda>c. circuit_value c = s) [HEALTHY, DEGRADED, TRIPPED, HALF_OPEN]"

record pentry =
  pe_state :: "string option"
  pe_fail_count :: "int option"
  pe_tripped_at :: "time option"

record pb =
  pb_states :: "(string, circuit_state) odict"
  pb_fail_counts :: "(string, int) odict"
  pb_tripped_at :: "(string, time) odict"
  pb_cooldown :: time
  pb_file :: "(string, pentry) odict option"

definition pb_new :: "time \<Rightarrow> (string, pentry) odict option \<Rightarrow> pb" where
  "pb_new cooldown file = \<lparr>pb_states = [], pb_fail_counts = [], pb_tripped_at = [],
     pb_cooldown = cooldown, pb_file = file\<rparr>"

definition dflt :: "'a \<Rightarrow> 'a option \<Rightarrow> 'a" where
  "dflt d x = (case x of None \<Rightarrow> d | Some y \<Rightarrow> y)"

lemma dflt_simps [simp]: "dflt d None = d" "dflt d (Some y) = y"
  by (simp_all add: dflt_def)

definition pb_payload :: "pb \<Rightarrow> (string, pentry) odict" where
  "pb_payload s = dflt [] (pb_file s)"

definition pb_load :: "bool \<Rightarrow> pb \<Rightarrow> (string, pentry) odict" where
  "pb_load io s = (if io then pb_payload s else [])"

definition pb_update_shared :: "bool \<Rightarrow> string \<Rightarrow> pentry option \<Rightarrow> pb \<Rightarrow> pb" where
  "pb_update_shared io key entry s =
     (if \<not> io then s
      else s\<lparr>pb_file := Some (case entry of None \<Rightarrow> AList.delete key (pb_payload s)
                              | Some e \<Rightarrow> AList.update key e (pb_payload s))\<rparr>)"

definition pb_shared_entry :: "string \<Rightarrow> pb \<Rightarrow> pentry" where
  "pb_shared_entry key s =
     \<lparr>pe_state = Some (circuit_value (dflt HEALTHY (map_of (pb_states s) key))),
      pe_fail_count = Some (dflt 0 (map_of (pb_fail_counts s) key)),
      pe_tripped_at = Some (dflt 0 (map_of (pb_tripped_at s) key))\<rparr>"

definition pb_mutate_shared :: "bool \<Rightarrow> string \<Rightarrow> (pentry \<Rightarrow> pentry) \<Rightarrow> pb \<Rightarrow> pentry \<times> pb" where
  "pb_mutate_shared io key mutate s =
     (if \<not> io then (pb_shared_entry key s, s)
      else let e = mutate (dflt \<lparr>pe_state = None, pe_fail_count = None, pe_tripped_at = None\<rparr>
                             (map_of (pb_payload s) key))
           in (e, s\<lparr>pb_file := Some (AList.update key e (pb_payload s))\<rparr>))"

text \<open>\<^verbatim>\<open>get_state\<close>: \<open>io1\<close> is the load, \<open>io2\<close> the write-back when a tripped breaker has cooled.\<close>

definition pb_get_state :: "string \<Rightarrow> bool \<Rightarrow> bool \<Rightarrow> time \<Rightarrow> pb \<Rightarrow> circuit_state \<times> pb" where
  "pb_get_state key io1 io2 now s =
     (let (state, s1) =
        (case map_of (pb_load io1 s) key of
           None \<Rightarrow> (dflt HEALTHY (map_of (pb_states s) key), s)
         | Some e \<Rightarrow>
             (case circuit_of (dflt ''CircuitState.HEALTHY'' (pe_state e)) of
                None \<Rightarrow> (dflt HEALTHY (map_of (pb_states s) key), s)
              | Some c \<Rightarrow>
                  (c, s\<lparr>pb_states := AList.update key c (pb_states s),
                        pb_fail_counts := AList.update key (dflt 0 (pe_fail_count e)) (pb_fail_counts s),
                        pb_tripped_at := AList.update key (dflt 0 (pe_tripped_at e)) (pb_tripped_at s)\<rparr>)))
      in if state = TRIPPED \<and> now - dflt 0 (map_of (pb_tripped_at s1) key) > pb_cooldown s1
         then let s2 = s1\<lparr>pb_states := AList.update key HALF_OPEN (pb_states s1)\<rparr>
              in (HALF_OPEN, pb_update_shared io2 key (Some (pb_shared_entry key s2)) s2)
         else (state, s1))"

text \<open>The three dictionaries take the entry that was written; its state is always a value of
  the enumeration there.\<close>

definition pb_adopt :: "string \<Rightarrow> pentry \<Rightarrow> pb \<Rightarrow> pb" where
  "pb_adopt key e s =
     s\<lparr>pb_states := AList.update key (dflt HEALTHY (circuit_of (dflt [] (pe_state e)))) (pb_states s),
       pb_fail_counts := AList.update key (dflt 0 (pe_fail_count e)) (pb_fail_counts s),
       pb_tripped_at := AList.update key (dflt 0 (pe_tripped_at e)) (pb_tripped_at s)\<rparr>"

definition pb_failure_entry :: "time \<Rightarrow> pentry \<Rightarrow> pentry" where
  "pb_failure_entry now e =
     (let count = dflt 0 (pe_fail_count e) + 1;
          e1 = e\<lparr>pe_fail_count := Some count\<rparr>;
          e2 = (if count \<ge> 3 then e1\<lparr>pe_state := Some (circuit_value TRIPPED), pe_tripped_at := Some now\<rparr>
                else if count \<ge> 2 then e1\<lparr>pe_state := Some (circuit_value DEGRADED)\<rparr>
                else e1\<lparr>pe_state := Some (circuit_value HEALTHY)\<rparr>)
      in e2\<lparr>pe_tripped_at := Some (dflt 0 (pe_tripped_at e2))\<rparr>)"

definition pb_record_failure :: "string \<Rightarrow> bool \<Rightarrow> time \<Rightarrow> pb \<Rightarrow> pb" where
  "pb_record_failure key io now s =
     (let (e, s1) = pb_mutate_shared io key (pb_failure_entry now) s in pb_adopt key e s1)"

definition pb_set_state :: "string \<Rightarrow> bool \<Rightarrow> circuit_state \<Rightarrow> pb \<Rightarrow> pb" where
  "pb_set_state key io c s =
     (let (e, s1) = pb_mutate_shared io key (\<lambda>e. \<lparr>pe_state = Some (circuit_value c),
            pe_fail_count = Some (dflt (dflt 0 (map_of (pb_fail_counts s) key)) (pe_fail_count e)),
            pe_tripped_at = Some (dflt (dflt 0 (map_of (pb_tripped_at s) key)) (pe_tripped_at e))\<rparr>) s
      in pb_adopt key e s1)"

definition pb_success_entry :: pentry where
  "pb_success_entry = \<lparr>pe_state = Some (circuit_value HEALTHY), pe_fail_count = Some 0, pe_tripped_at = Some 0\<rparr>"

definition pb_record_success :: "string \<Rightarrow> bool \<Rightarrow> pb \<Rightarrow> pb" where
  "pb_record_success key io s =
     (let (e, s1) = pb_mutate_shared io key (\<lambda>_. pb_success_entry) s
      in s1\<lparr>pb_fail_counts := AList.update key 0 (pb_fail_counts s1),
            pb_states := AList.update key (dflt HEALTHY (circuit_of (dflt [] (pe_state e)))) (pb_states s1),
            pb_tripped_at := AList.delete key (pb_tripped_at s1)\<rparr>)"

text \<open>
  What a waiter for another process's probe sees: at each of at most 40 polls, the file as the
  others left it, whether the two accesses succeed, and the time.
\<close>

record poll =
  po_file :: "(string, pentry) odict option"
  po_io1 :: bool
  po_io2 :: bool
  po_now :: time

fun pb_poll :: "string \<Rightarrow> poll list \<Rightarrow> pb \<Rightarrow> bool \<times> pb" where
  "pb_poll key [] s = (False, s)"
| "pb_poll key (p # ps) s =
     (let (c, s1) = pb_get_state key (po_io1 p) (po_io2 p) (po_now p) (s\<lparr>pb_file := po_file p\<rparr>)
      in if c \<noteq> HALF_OPEN then (c \<noteq> TRIPPED, s1) else pb_poll key ps s1)"

text \<open>The half-open branch of \<^verbatim>\<open>is_available\<close>: with the lease, the answer of the probe and the
  time it came; without it, the polls.\<close>

datatype half_open = Leased bool time | Waiting "poll list"

definition pb_is_available :: "string \<Rightarrow> bool \<Rightarrow> bool \<Rightarrow> time \<Rightarrow> half_open \<Rightarrow> bool \<Rightarrow> pb \<Rightarrow> bool \<times> pb" where
  "pb_is_available key io1 io2 now lease io3 s =
     (let (c, s1) = pb_get_state key io1 io2 now s
      in case c of
           HEALTHY \<Rightarrow> (True, s1)
         | DEGRADED \<Rightarrow> (True, s1)
         | TRIPPED \<Rightarrow> (False, s1)
         | HALF_OPEN \<Rightarrow>
             (case lease of
                Leased True t \<Rightarrow> (True, pb_record_success key io3 s1)
              | Leased False t \<Rightarrow> (False, pb_record_failure key io3 t s1)
              | Waiting polls \<Rightarrow> pb_poll key (take 40 polls) s1))"

definition pb_clear :: "bool \<Rightarrow> pb \<Rightarrow> pb" where
  "pb_clear io s = s\<lparr>pb_states := [], pb_fail_counts := [], pb_tripped_at := [],
     pb_file := (if io then None else pb_file s)\<rparr>"

record proxy =
  px_scheme :: string
  px_username :: string
  px_password :: string
  px_hostname :: string
  px_port :: string

definition pb_proxy_key :: "(string \<Rightarrow> string) \<Rightarrow> proxy \<Rightarrow> string" where
  "pb_proxy_key sha256_hex p =
     take 16 (sha256_hex (px_scheme p @ ''://'' @ px_username p @ '':'' @ px_password p @ ''@'' @
       px_hostname p @ '':'' @ px_port p))"

section \<open>The file's entry for one proxy\<close>

lemma circuit_of_value [simp]: "circuit_of (circuit_value c) = Some c"
  by (cases c) (simp_all add: circuit_of_def circuit_value_def)

definition pb_count :: "string \<Rightarrow> pb \<Rightarrow> int" where
  "pb_count key s = dflt 0 (Option.bind (map_of (pb_payload s) key) pe_fail_count)"

text \<open>The file's state agrees with its count, as it does after every recorded failure and success.\<close>

definition pb_consistent :: "string \<Rightarrow> pb \<Rightarrow> bool" where
  "pb_consistent key s \<longleftrightarrow> 0 \<le> pb_cooldown s \<and>
     (case map_of (pb_payload s) key of
        None \<Rightarrow> map_of (pb_states s) key = None
      | Some e \<Rightarrow> \<exists>n t. 0 \<le> n \<and> pe_fail_count e = Some n \<and> pe_tripped_at e = Some t \<and>
          pe_state e = Some (circuit_value (if n \<ge> 3 then TRIPPED else if n = 2 then DEGRADED else HEALTHY)))"

lemma pb_failure_file:
  "pb_payload (pb_record_failure key True now s) = AList.update key
     (pb_failure_entry now (dflt \<lparr>pe_state = None, pe_fail_count = None, pe_tripped_at = None\<rparr>
        (map_of (pb_payload s) key))) (pb_payload s)"
  "pb_cooldown (pb_record_failure key True now s) = pb_cooldown s"
  by (simp_all add: pb_record_failure_def pb_mutate_shared_def pb_adopt_def pb_payload_def Let_def)

lemma pb_failure_count: "pb_count key (pb_record_failure key True now s) = pb_count key s + 1"
  by (cases "map_of (pb_payload s) key")
    (auto simp: pb_count_def pb_failure_file od_simps pb_failure_entry_def Let_def)

lemma pb_failure_consistent: "pb_consistent key s \<Longrightarrow> pb_consistent key (pb_record_failure key True now s)"
  by (auto simp: pb_consistent_def pb_failure_file od_simps pb_failure_entry_def Let_def split: option.splits)

lemma pb_count_nonneg: "pb_consistent key s \<Longrightarrow> 0 \<le> pb_count key s"
  by (auto simp: pb_consistent_def pb_count_def split: option.splits)

lemma pb_available_below:
  "pb_consistent key s \<Longrightarrow> pb_count key s < 3 \<Longrightarrow> fst (pb_is_available key True True now w io s)"
  by (auto simp: pb_consistent_def pb_count_def pb_is_available_def pb_get_state_def pb_load_def Let_def
      split: option.splits if_splits)

lemma pb_blocked_at:
  assumes "pb_consistent key s" and "pb_count key s + 1 = 3" and "now - t < pb_cooldown s"
  shows "\<not> fst (pb_is_available key True True now w io (pb_record_failure key True t s))"
  using assms
  by (auto simp: pb_consistent_def pb_count_def pb_is_available_def pb_get_state_def pb_load_def Let_def
      pb_failure_file od_simps pb_failure_entry_def split: option.splits)

interpretation proxy_limit: failure_limiter
  "pb_record_failure key True" "\<lambda>now s. fst (pb_is_available key True True now w io s)"
  "\<lambda>s. nat (pb_count key s)" "\<lambda>_. 3" pb_cooldown "pb_consistent key"
  for key w io
proof unfold_locales
  fix s t now
  show "pb_cooldown (pb_record_failure key True t s) = pb_cooldown s" by (rule pb_failure_file)
  assume inv: "pb_consistent key s"
  then show "pb_consistent key (pb_record_failure key True t s)" by (rule pb_failure_consistent)
  from inv have "0 \<le> pb_count key s" by (rule pb_count_nonneg)
  then show "nat (pb_count key (pb_record_failure key True t s)) = Suc (nat (pb_count key s))"
    by (simp add: pb_failure_count)
  show "nat (pb_count key s) < 3 \<Longrightarrow> fst (pb_is_available key True True now w io s)"
    using inv by (intro pb_available_below) auto
  show "Suc (nat (pb_count key s)) = 3 \<Longrightarrow> now - t < pb_cooldown s \<Longrightarrow>
      \<not> fst (pb_is_available key True True now w io (pb_record_failure key True t s))"
    using inv \<open>0 \<le> pb_count key s\<close> by (intro pb_blocked_at) auto
qed simp_all

section \<open>Properties\<close>

text \<open>
  Two failures leave a fresh proxy available; after the third, whatever lease or polls a
  caller has, it is refused until the cooldown has passed.
\<close>

theorem proxy_trips_at_three:
  assumes "0 \<le> cooldown"
  shows "(length ts < 3 \<longrightarrow>
      fst (pb_is_available key True True now w io (fold (pb_record_failure key True) ts (pb_new cooldown None))))
    \<and> (length ts = 2 \<and> now - t < cooldown \<longrightarrow>
      \<not> fst (pb_is_available key True True now w io
          (fold (pb_record_failure key True) (ts @ [t]) (pb_new cooldown None))))"
proof -
  have new: "pb_consistent key (pb_new cooldown None)" "pb_count key (pb_new cooldown None) = 0"
    using assms by (simp_all add: pb_consistent_def pb_count_def pb_new_def pb_payload_def)
  show ?thesis
    using proxy_limit.tolerates [OF new(1), of ts now w io] proxy_limit.trips [OF new(1), of ts now t w io] new(2)
    by (simp add: proxy_limit.fail_all_def pb_new_def)
qed

theorem proxy_trips_at_three_witness:
  "\<not> fst (pb_is_available ''k'' True True 10 (Leased True 10) True
     (fold (pb_record_failure ''k'' True) ([1, 2] @ [3]) (pb_new 300 None)))"
  using proxy_trips_at_three [of 300 "[1, 2]" "''k''" 10 "Leased True 10" True 3] by simp

lemma pb_success_file:
  "pb_payload (pb_record_success key True s) = AList.update key pb_success_entry (pb_payload s)"
  by (simp add: pb_record_success_def pb_mutate_shared_def pb_payload_def)

lemma pb_get_state_file:
  "map_of (pb_payload s) key = Some e \<Longrightarrow> pe_state e = Some (circuit_value c) \<Longrightarrow>
   c \<noteq> TRIPPED \<or> now - dflt 0 (pe_tripped_at e) \<le> pb_cooldown s \<Longrightarrow>
   fst (pb_get_state key True io now s) = c"
  by (auto simp: pb_get_state_def pb_load_def od_simps)

lemma pb_poll_admits:
  "fst (pb_poll key ps s) \<Longrightarrow> \<exists>p \<in> set ps. \<exists>s'.
     fst (pb_get_state key (po_io1 p) (po_io2 p) (po_now p) (s'\<lparr>pb_file := po_file p\<rparr>)) \<in> {HEALTHY, DEGRADED}"
proof (induction ps arbitrary: s)
  case (Cons p ps)
  obtain c s1 where c: "pb_get_state key (po_io1 p) (po_io2 p) (po_now p) (s\<lparr>pb_file := po_file p\<rparr>) = (c, s1)"
    by (cases "pb_get_state key (po_io1 p) (po_io2 p) (po_now p) (s\<lparr>pb_file := po_file p\<rparr>)")
  show ?case
  proof (cases "c = HALF_OPEN")
    case True
    then have "fst (pb_poll key ps s1)" using Cons.prems c by simp
    then show ?thesis using Cons.IH by auto
  next
    case False
    then have "c \<noteq> TRIPPED" using Cons.prems c by simp
    with False have "c \<in> {HEALTHY, DEGRADED}" by (cases c) auto
    with c show ?thesis by (intro bexI [of _ p] exI [of _ s]) auto
  qed
qed simp

text \<open>
  Half-open is decided by the one process that holds the lease: a successful probe makes
  the proxy available to every later caller with no failure counted, a failed one (the third
  failure or a later one) trips it anew, and a waiter is admitted only when one of its
  polls found the state healthy or degraded, never while it is still half-open.
\<close>

theorem proxy_half_open_outcome:
  assumes "fst (pb_get_state key True True now s) = HALF_OPEN"
    and "2 \<le> pb_count key (snd (pb_get_state key True True now s))"
  shows "(let (ok, s1) = pb_is_available key True True now (Leased True t) True s
       in ok \<and> fst (pb_is_available key True True now' w io s1) \<and> pb_count key s1 = 0)
    \<and> (let (ok, s1) = pb_is_available key True True now (Leased False t) True s
       in \<not> ok \<and> (now' - t \<le> pb_cooldown s1 \<longrightarrow> fst (pb_get_state key True True now' s1) = TRIPPED))
    \<and> (fst (pb_is_available key True True now (Waiting polls) True s) \<longrightarrow>
       (\<exists>p \<in> set (take 40 polls). \<exists>s'. fst (pb_get_state key (po_io1 p) (po_io2 p) (po_now p)
          (s'\<lparr>pb_file := po_file p\<rparr>)) \<in> {HEALTHY, DEGRADED}))"
proof -
  obtain s1 where s1: "pb_get_state key True True now s = (HALF_OPEN, s1)"
    using assms(1) by (cases "pb_get_state key True True now s") auto
  have ok: "pb_is_available key True True now (Leased True t) True s = (True, pb_record_success key True s1)"
    and ko: "pb_is_available key True True now (Leased False t) True s = (False, pb_record_failure key True t s1)"
    and wait: "pb_is_available key True True now (Waiting polls) True s = pb_poll key (take 40 polls) s1"
    by (simp_all add: pb_is_available_def s1)
  let ?s = "pb_record_success key True s1"
  have "map_of (pb_payload ?s) key = Some pb_success_entry"
    by (simp add: pb_success_file od_simps)
  then have "fst (pb_get_state key True True now' ?s) = HEALTHY"
    by (rule pb_get_state_file) (simp_all add: pb_success_entry_def)
  then have avail: "fst (pb_is_available key True True now' w io ?s)"
    by (simp add: pb_is_available_def case_prod_beta)
  have count: "pb_count key ?s = 0"
    by (simp add: pb_count_def pb_success_file od_simps pb_success_entry_def)
  let ?f = "pb_record_failure key True t s1"
  obtain e where e: "map_of (pb_payload ?f) key = Some e"
    and eq: "e = pb_failure_entry t (dflt \<lparr>pe_state = None, pe_fail_count = None, pe_tripped_at = None\<rparr>
        (map_of (pb_payload s1) key))"
    by (simp add: pb_failure_file od_simps)
  have "dflt 0 (pe_fail_count (dflt \<lparr>pe_state = None, pe_fail_count = None, pe_tripped_at = None\<rparr>
        (map_of (pb_payload s1) key))) \<ge> 2"
    using assms(2) s1 by (cases "map_of (pb_payload s1) key") (auto simp: pb_count_def)
  then have "pe_state e = Some (circuit_value TRIPPED)" and "pe_tripped_at e = Some t"
    by (simp_all add: eq pb_failure_entry_def Let_def)
  then have trip: "now' - t \<le> pb_cooldown ?f \<longrightarrow> fst (pb_get_state key True True now' ?f) = TRIPPED"
    using pb_get_state_file [OF e, of TRIPPED now' True] by simp
  show ?thesis
    unfolding ok ko wait using avail count trip pb_poll_admits [of key "take 40 polls" s1] by simp
qed

theorem proxy_half_open_outcome_witness:
  "fst (pb_is_available ''k'' True True 310 (Leased True 311) True
     (pb_new 300 (Some [(''k'', \<lparr>pe_state = Some ''TRIPPED'', pe_fail_count = Some 3, pe_tripped_at = Some 5\<rparr>)])))"
proof -
  let ?s = "pb_new 300 (Some [(''k'', \<lparr>pe_state = Some ''TRIPPED'', pe_fail_count = Some 3, pe_tripped_at = Some 5\<rparr>)])"
  have "circuit_of ''TRIPPED'' = Some TRIPPED" using circuit_of_value [of TRIPPED] by (simp add: circuit_value_def)
  then have "fst (pb_get_state ''k'' True True 310 ?s) = HALF_OPEN"
    and "2 \<le> pb_count ''k'' (snd (pb_get_state ''k'' True True 310 ?s))"
    by (simp_all add: pb_get_state_def pb_load_def pb_payload_def pb_new_def pb_count_def
        pb_update_shared_def pb_shared_entry_def)
  from proxy_half_open_outcome [OF this, of 311] show ?thesis
    by (simp add: case_prod_beta Let_def)
qed

end
