(* ===== verification/Semantic_Policy.thy ===== *)
theory Semantic_Policy
  imports Prelude "HOL-Library.Multiset"
begin

text \<open>
  \<^verbatim>\<open>tg_signer/semantic/models.py\<close> (the decision of the semantic service and the policies that
  read it), \<^verbatim>\<open>tg_signer/semantic/policy.py\<close> (what a decision is allowed to change) and
  \<^verbatim>\<open>tg_signer/semantic/decisions.py\<close> (the requests; the Chinese texts of the choices are left
  out, their keys kept). Probabilities are reals.
\<close>

record decision =
  dc_status :: string
  dc_selected :: string
  dc_probabilities :: "(string, real) odict"
  dc_confidence :: real
  dc_model :: string
  dc_elapsed_ms :: real
  dc_input_tokens :: int
  dc_reason_code :: string
  dc_http_status :: "int option"
  dc_error_message :: string
  dc_attempts :: int
  dc_breaker :: string
  dc_cache_hit :: bool
  dc_truncated :: bool

text \<open>The dataclass defaults, and the property \<^verbatim>\<open>latency_ms\<close>.\<close>

definition decision_of :: "string \<Rightarrow> decision" where
  "decision_of status = \<lparr>dc_status = status, dc_selected = ''unknown'', dc_probabilities = [],
     dc_confidence = 0, dc_model = '''', dc_elapsed_ms = 0, dc_input_tokens = 0, dc_reason_code = '''',
     dc_http_status = None, dc_error_message = '''', dc_attempts = 1, dc_breaker = ''closed'',
     dc_cache_hit = False, dc_truncated = False\<rparr>"

definition dc_latency_ms :: "decision \<Rightarrow> real" where
  "dc_latency_ms d = dc_elapsed_ms d"

record policy =
  po_mode :: string
  po_goal :: string
  po_min_probability :: real
  po_min_margin :: real

definition result_policy :: policy where
  "result_policy = \<lparr>po_mode = ''off'', po_goal = '''', po_min_probability = 97/100, po_min_margin = 1/4\<rparr>"

definition button_policy :: policy where
  "button_policy = \<lparr>po_mode = ''off'', po_goal = '''', po_min_probability = 98/100, po_min_margin = 3/10\<rparr>"

definition triage_policy :: policy where
  "triage_policy = \<lparr>po_mode = ''off'', po_goal = '''', po_min_probability = 97/100, po_min_margin = 1/4\<rparr>"

section \<open>Accepting a decision\<close>

definition sorted_desc :: "real list \<Rightarrow> real list" where
  "sorted_desc xs = rev (sort xs)"

definition accept_decision :: "decision \<Rightarrow> real \<Rightarrow> real \<Rightarrow> string set \<Rightarrow> bool" where
  "accept_decision d min_probability min_margin abstain =
     (if dc_truncated d then False
      else if dc_status d \<noteq> ''ok'' then False
      else if dc_selected d \<in> abstain then False
      else case map_of (dc_probabilities d) (dc_selected d) of
             None \<Rightarrow> False
           | Some top_prob \<Rightarrow>
               (if top_prob < min_probability then False
                else case sorted_desc (map snd (dc_probabilities d)) of
                       p # q # _ \<Rightarrow> \<not> p - q < min_margin
                     | _ \<Rightarrow> True))"

datatype disposition = Unchanged | Stop | Review | Wait | Succeed | Fail

definition triage_disposition :: "decision \<Rightarrow> policy \<Rightarrow> bool \<Rightarrow> disposition" where
  "triage_disposition d p hard_failure =
     (if hard_failure \<or> po_mode p \<noteq> ''assist'' then Unchanged
      else if \<not> accept_decision d (po_min_probability p) (po_min_margin p) {''unknown'', ''none'', ''retryable''}
      then Unchanged
      else if dc_selected d = ''stop'' then Stop
      else if dc_selected d = ''review'' then Review
      else Unchanged)"

definition result_disposition :: "decision \<Rightarrow> policy \<Rightarrow> string \<Rightarrow> disposition" where
  "result_disposition d p rule_result =
     (if po_mode p \<noteq> ''assist'' \<or> rule_result \<noteq> ''unmatched'' then Unchanged
      else if \<not> accept_decision d (po_min_probability p) (po_min_margin p) {''unknown'', ''none''} then Wait
      else if dc_selected d = ''success'' \<or> dc_selected d = ''already_done'' then Succeed
      else if dc_selected d = ''failure'' then Fail
      else Wait)"

section \<open>Requests\<close>

record request =
  rq_kind :: string
  rq_scope :: string
  rq_choices :: "string list"
  rq_request_key :: string
  rq_config_revision :: string
  rq_truncated :: bool

text \<open>A button candidate: its reference and text, either of which may be missing.\<close>

type_synonym candidate = "string option \<times> string option"

definition button_choices :: "candidate list \<Rightarrow> (string, string) odict" where
  "button_choices candidates =
     AList.update ''none'' [] (fold (\<lambda>c d. case c of (Some r, Some t) \<Rightarrow> AList.update r t d | _ \<Rightarrow> d) candidates [])"

definition button_request :: "string \<Rightarrow> candidate list \<Rightarrow> string \<Rightarrow> string \<Rightarrow> request" where
  "button_request scope candidates request_key config_revision =
     \<lparr>rq_kind = ''button'', rq_scope = scope, rq_choices = map fst (button_choices candidates),
      rq_request_key = request_key, rq_config_revision = config_revision, rq_truncated = False\<rparr>"

definition triage_request :: "string \<Rightarrow> string \<Rightarrow> string \<Rightarrow> request" where
  "triage_request scope request_key config_revision =
     \<lparr>rq_kind = ''triage'', rq_scope = scope, rq_choices = [''retryable'', ''stop'', ''review'', ''unknown''],
      rq_request_key = request_key, rq_config_revision = config_revision, rq_truncated = False\<rparr>"

definition result_request :: "string \<Rightarrow> string \<Rightarrow> string \<Rightarrow> request" where
  "result_request scope request_key config_revision =
     \<lparr>rq_kind = ''result'', rq_scope = scope,
      rq_choices = [''success'', ''already_done'', ''failure'', ''needs_action'', ''unknown''],
      rq_request_key = request_key, rq_config_revision = config_revision, rq_truncated = False\<rparr>"

definition drift_request :: "string \<Rightarrow> string \<Rightarrow> string \<Rightarrow> request" where
  "drift_request scope request_key config_revision =
     \<lparr>rq_kind = ''drift'', rq_scope = scope,
      rq_choices = [''equivalent_change'', ''business_changed'', ''no_change'', ''unknown''],
      rq_request_key = request_key, rq_config_revision = config_revision, rq_truncated = False\<rparr>"

section \<open>The two largest probabilities\<close>

lemma sorted_desc_Cons2:
  assumes "sorted_desc xs = p # q # r"
  shows "mset xs = mset (p # q # r)" and "q \<le> p" and "\<forall>x \<in> set r. x \<le> q"
proof -
  show "mset xs = mset (p # q # r)"
    using arg_cong [OF assms, of mset] by (simp add: sorted_desc_def)
  have "sorted (rev (p # q # r))"
    using assms by (metis sorted_desc_def rev_rev_ident sorted_sort)
  then show "q \<le> p" and "\<forall>x \<in> set r. x \<le> q"
    by (auto simp: sorted_append)
qed

lemma sum_list_mset: "mset xs = mset ys \<Longrightarrow> sum_list xs = sum_list (ys :: real list)"
  by (metis sum_mset_sum_list)

lemma accept_cases:
  assumes "accept_decision d mp mm ab"
  obtains t where "\<not> dc_truncated d" "dc_status d = ''ok''" "dc_selected d \<notin> ab"
    "map_of (dc_probabilities d) (dc_selected d) = Some t" "mp \<le> t"
    "\<forall>p q r. sorted_desc (map snd (dc_probabilities d)) = p # q # r \<longrightarrow> mm \<le> p - q"
  using assms by (auto simp: accept_decision_def split: if_splits option.splits list.splits)

text \<open>In a list of non-negative numbers of sum at most one, a member above a half is the first
  of the sorted list, and every other member is at least the margin below it.\<close>

lemma majority_margin:
  fixes xs :: "real list"
  assumes "i < length xs" "1/2 < xs ! i" "j < length xs" "j \<noteq> i"
    and "\<forall>x \<in> set xs. 0 \<le> x" "sum_list xs \<le> 1"
    and "\<forall>p q r. sorted_desc xs = p # q # r \<longrightarrow> m \<le> p - q"
  shows "xs ! j \<le> xs ! i - m"
proof -
  let ?rest = "mset xs - {#xs ! i#}"
  have ms: "mset xs = add_mset (xs ! i) ?rest" using assms(1) by simp
  have "count (mset xs) (xs ! j) \<ge> (if xs ! j = xs ! i then 2 else 1)"
  proof (cases "xs ! j = xs ! i")
    case True
    have "{i, j} \<subseteq> {k. k < length xs \<and> xs ! i = xs ! k}" using assms True by auto
    then have "card {i, j} \<le> card {k. k < length xs \<and> xs ! i = xs ! k}" by (rule card_mono [rotated]) simp
    then show ?thesis using True assms(4) by (simp add: count_mset count_list_eq_length_filter length_filter_conv_card)
  qed (use assms(3) in simp)
  then have jin: "xs ! j \<in># ?rest" by (auto simp: in_diff_count split: if_splits)
  have len: "2 \<le> length xs" using assms(1,3,4) by linarith
  then obtain p q r where pqr: "sorted_desc xs = p # q # r"
    by (cases "sorted_desc xs" rule: remdups_adj.cases)
      (auto simp: sorted_desc_def dest: arg_cong [where f = length])
  note s = sorted_desc_Cons2 [OF pqr]
  have mset_pqr: "mset xs = add_mset p (add_mset q (mset r))" using s(1) by simp
  have "sum_list xs = sum_list (p # q # r)" using s(1) by (rule sum_list_mset)
  then have sum: "p + q + sum_list r \<le> 1" using assms(6) by simp
  have nn: "0 \<le> p" "0 \<le> q" "\<forall>x \<in> set r. 0 \<le> x"
    using assms(5) mset_eq_setD [OF s(1)] by auto
  then have rsum: "0 \<le> sum_list r" by (simp add: sum_list_nonneg)
  have "xs ! i \<in># mset xs" using assms(1) by simp
  then have "xs ! i = p \<or> xs ! i = q \<or> xs ! i \<in> set r" by (auto simp: mset_pqr)
  moreover have "x \<le> 1/2" if "x = q \<or> x \<in> set r" for x
    using that s(2,3) sum rsum nn by auto
  ultimately have i: "xs ! i = p" using assms(2) by force
  then have "?rest = add_mset q (mset r)" by (simp add: mset_pqr)
  with jin have "xs ! j \<le> q" using s(3) by auto
  then show ?thesis using assms(7) pqr i by fastforce
qed

section \<open>Properties\<close>

text \<open>
  A decision accepted with a threshold above one half is the clear favourite: no other
  choice comes within the margin of the selected one. It is complete, of status ok and not
  one of the abstentions.
\<close>

theorem accepted_is_favourite:
  assumes "accept_decision d mp mm ab" and "1/2 < mp"
    and "od_wf (dc_probabilities d)" "\<forall>(k, x) \<in> set (dc_probabilities d). 0 \<le> x"
    and "sum_list (map snd (dc_probabilities d)) \<le> 1"
    and "(k, x) \<in> set (dc_probabilities d)" "k \<noteq> dc_selected d"
  shows "\<exists>t. map_of (dc_probabilities d) (dc_selected d) = Some t \<and> mp \<le> t \<and> x \<le> t - mm
    \<and> \<not> dc_truncated d \<and> dc_status d = ''ok'' \<and> dc_selected d \<notin> ab"
proof -
  obtain t where t: "\<not> dc_truncated d" "dc_status d = ''ok''" "dc_selected d \<notin> ab"
    "map_of (dc_probabilities d) (dc_selected d) = Some t" "mp \<le> t"
    "\<forall>p q r. sorted_desc (map snd (dc_probabilities d)) = p # q # r \<longrightarrow> mm \<le> p - q"
    using assms(1) by (rule accept_cases)
  from t(4) have "(dc_selected d, t) \<in> set (dc_probabilities d)" by (rule map_of_SomeD)
  then obtain i where i: "i < length (dc_probabilities d)" "dc_probabilities d ! i = (dc_selected d, t)"
    by (auto simp: in_set_conv_nth)
  obtain j where j: "j < length (dc_probabilities d)" "dc_probabilities d ! j = (k, x)"
    using assms(6) by (auto simp: in_set_conv_nth)
  have "j \<noteq> i" using i(2) j(2) assms(7) by auto
  then have "x \<le> t - mm"
    using majority_margin [of i "map snd (dc_probabilities d)" j mm] i j t assms(2,4,5) by force
  with t show ?thesis by blast
qed

theorem accepted_is_favourite_witness:
  "\<exists>t. map_of [(''stop'', 98/100 :: real), (''unknown'', 1/100)] ''stop'' = Some t \<and> 1/100 \<le> t - 1/4"
proof -
  let ?d = "(decision_of ''ok'')\<lparr>dc_selected := ''stop'', dc_probabilities := [(''stop'', 98/100), (''unknown'', 1/100)]\<rparr>"
  have "accept_decision ?d (97/100) (1/4) {''unknown''}"
    by (simp add: accept_decision_def decision_of_def sorted_desc_def)
  from accepted_is_favourite [OF this, of "''unknown''" "1/100"] show ?thesis
    by (auto simp: decision_of_def)
qed

text \<open>
  A hard failure and a policy that is not in assist mode are never overridden, and a
  triage decision only ever stops the run or sends it to review: it stops it exactly when
  an accepted decision selected stop.
\<close>

lemma triage_respects_hard_failure:
  "triage_disposition d p hard \<in> {Unchanged, Stop, Review}
   \<and> (hard \<or> po_mode p \<noteq> ''assist'' \<longrightarrow> triage_disposition d p hard = Unchanged)
   \<and> (triage_disposition d p hard = Stop \<longleftrightarrow> \<not> hard \<and> po_mode p = ''assist'' \<and> dc_selected d = ''stop''
        \<and> accept_decision d (po_min_probability p) (po_min_margin p) {''unknown'', ''none'', ''retryable''})"
  by (auto simp: triage_disposition_def)

text \<open>
  The semantic result never overrides an explicit rule: success or failure is concluded
  only in assist mode for a reply no rule matched and only from an accepted decision.
\<close>

theorem result_never_overrides_rule:
  assumes "result_disposition d p rule \<in> {Succeed, Fail}"
  shows "po_mode p = ''assist'' \<and> rule = ''unmatched''
    \<and> accept_decision d (po_min_probability p) (po_min_margin p) {''unknown'', ''none''}
    \<and> (result_disposition d p rule = Fail \<longleftrightarrow> dc_selected d = ''failure'')"
  using assms by (auto simp: result_disposition_def split: if_splits)

theorem result_never_overrides_rule_witness:
  "po_mode (result_policy\<lparr>po_mode := ''assist''\<rparr>) = ''assist''"
proof -
  let ?d = "(decision_of ''ok'')\<lparr>dc_selected := ''success'', dc_probabilities := [(''success'', 99/100)]\<rparr>"
  have "result_disposition ?d (result_policy\<lparr>po_mode := ''assist''\<rparr>) ''unmatched'' \<in> {Succeed, Fail}"
    by (simp add: result_disposition_def accept_decision_def result_policy_def decision_of_def sorted_desc_def)
  from result_never_overrides_rule [OF this] show ?thesis by simp
qed

text \<open>
  Below one half the test does not look at which choice is the favourite: a decision is
  accepted whose selected choice has a much smaller probability than another one.
\<close>

lemma accepts_non_favourite:
  "accept_decision ((decision_of ''ok'')\<lparr>dc_selected := ''stop'',
     dc_probabilities := [(''stop'', 3/10), (''review'', 7/10)]\<rparr>) (3/10) (1/4) {''unknown''}"
  by (simp add: accept_decision_def decision_of_def sorted_desc_def)

end
