(* ===== verification/Decision_Cache.thy ===== *)
theory Decision_Cache
  imports Semantic_Policy
begin

text \<open>
  \<^verbatim>\<open>JevDecisionCache\<close> of \<^verbatim>\<open>tg_signer/semantic/cache.py\<close>. \<^verbatim>\<open>with_namespace\<close> makes a second cache
  object that shares the first one's \<^verbatim>\<open>OrderedDict\<close>, so the dictionary is a store of its own
  (\<open>jstore\<close>) that the operations of every view read and update; a view keeps its limits, its
  namespace and its two counters. Keys are the strings of \<^verbatim>\<open>compute_cache_key\<close>.
\<close>

record jview =
  jv_maxsize :: nat
  jv_ttl :: time
  jv_namespace :: string
  jv_hits :: nat
  jv_misses :: nat

type_synonym jstore = "(string, time \<times> decision) odict"

definition jv_new :: "int \<Rightarrow> time \<Rightarrow> string \<Rightarrow> jview" where
  "jv_new maxsize ttl namespace =
     \<lparr>jv_maxsize = nat (max 1 maxsize), jv_ttl = max (1/10) ttl, jv_namespace = namespace, jv_hits = 0, jv_misses = 0\<rparr>"

definition jv_qualify :: "jview \<Rightarrow> string \<Rightarrow> string" where
  "jv_qualify v key = (if jv_namespace v \<noteq> [] then jv_namespace v @ '':'' @ key else key)"

definition jv_get :: "string \<Rightarrow> time \<Rightarrow> jview \<Rightarrow> jstore \<Rightarrow> decision option \<times> jview \<times> jstore" where
  "jv_get key now v d =
     (let q = jv_qualify v key in
      case map_of d q of
        None \<Rightarrow> (None, v\<lparr>jv_misses := Suc (jv_misses v)\<rparr>, d)
      | Some (entry_time, dec) \<Rightarrow>
          (if now - entry_time > jv_ttl v
           then (None, v\<lparr>jv_misses := Suc (jv_misses v)\<rparr>, AList.delete q d)
           else (Some (dec\<lparr>dc_cache_hit := True\<rparr>), v\<lparr>jv_hits := Suc (jv_hits v)\<rparr>, od_move_to_end q d)))"

definition jv_set :: "string \<Rightarrow> decision \<Rightarrow> time \<Rightarrow> jview \<Rightarrow> jstore \<Rightarrow> jstore" where
  "jv_set key dec now v d =
     (let q = jv_qualify v key;
          d' = (if q \<in> fst ` set d then od_move_to_end q d
                else if jv_maxsize v \<le> length d then tl d else d)
      in AList.update q (now, dec) d')"

definition jv_with_namespace :: "string \<Rightarrow> jview \<Rightarrow> jview" where
  "jv_with_namespace namespace v = jv_new (int (jv_maxsize v)) (jv_ttl v) namespace"

definition jv_clear :: "jview \<Rightarrow> jview \<times> jstore" where
  "jv_clear v = (v\<lparr>jv_hits := 0, jv_misses := 0\<rparr>, [])"

definition jv_hit_rate :: "jview \<Rightarrow> real" where
  "jv_hit_rate v =
     (let total = jv_hits v + jv_misses v in if total > 0 then real (jv_hits v) / real total else 0)"

section \<open>Lemmas\<close>

lemma jv_set_same: "map_of (jv_set k dec now v d) (jv_qualify v k) = Some (now, dec)"
  by (simp add: jv_set_def Let_def od_simps)

lemma jv_set_wf: "od_wf d \<Longrightarrow> od_wf (jv_set k dec now v d)"
  by (auto simp: jv_set_def Let_def map_tl distinct_tl)

lemma jv_set_length:
  assumes "od_wf d" and "length d \<le> jv_maxsize v" and "1 \<le> jv_maxsize v"
  shows "length (jv_set k dec now v d) \<le> jv_maxsize v"
proof -
  let ?q = "jv_qualify v k"
  have "?q \<notin> fst ` set d \<Longrightarrow> ?q \<notin> fst ` set (tl d)" by (cases d) auto
  then show ?thesis using assms by (auto simp: jv_set_def Let_def od_length_update od_keys_move)
qed

lemma jv_set_other:
  "od_wf d \<Longrightarrow> q \<noteq> jv_qualify v k \<Longrightarrow>
   map_of (jv_set k dec now v d) q = map_of d q \<or> map_of (jv_set k dec now v d) q = None"
  by (auto simp: jv_set_def Let_def od_simps od_map_of_tl)

lemma jv_get_wf: "od_wf d \<Longrightarrow> od_wf (snd (snd (jv_get k now v d)))"
  by (auto simp: jv_get_def Let_def split: option.splits)

lemma jv_get_length: "od_wf d \<Longrightarrow> length (snd (snd (jv_get k now v d))) \<le> length d"
  by (auto simp: jv_get_def Let_def split: option.splits)

lemma jv_qualify_inj:
  assumes "jv_qualify v k = jv_qualify w l" and "length k = length l"
  shows "k = l \<and> jv_namespace v = jv_namespace w"
  using assms by (auto simp: jv_qualify_def split: if_splits)

section \<open>Properties\<close>

text \<open>
  The views of different namespaces share one dictionary without seeing each other:
  with keys of equal length, as the hash keys are, a write through one view is read back
  through it while it is fresh, marked as a cache hit, and a view of any other namespace, or
  another key, reads what it would have read before or nothing.
\<close>

theorem namespaces_isolated:
  assumes "od_wf d" and "length l = length k"
  shows "(if l = k \<and> jv_namespace w = jv_namespace v
     then fst (jv_get l now w (jv_set k dec t v d)) =
       (if now - t > jv_ttl w then None else Some (dec\<lparr>dc_cache_hit := True\<rparr>))
     else fst (jv_get l now w (jv_set k dec t v d)) \<in> {fst (jv_get l now w d), None})"
proof (cases "l = k \<and> jv_namespace w = jv_namespace v")
  case True
  then have "jv_qualify w l = jv_qualify v k" by (simp add: jv_qualify_def)
  with True show ?thesis using jv_set_same [of k dec t v d] by (auto simp: jv_get_def Let_def)
next
  case False
  then have "jv_qualify w l \<noteq> jv_qualify v k" using jv_qualify_inj [of w l v k] assms(2) by auto
  then have "fst (jv_get l now w (jv_set k dec t v d)) \<in> {fst (jv_get l now w d), None}"
    using jv_set_other [OF assms(1), of "jv_qualify w l" v k dec t]
    by (auto simp: jv_get_def Let_def split: option.splits)
  then show ?thesis by (simp only: False if_False)
qed

theorem namespaces_isolated_witness:
  "fst (jv_get ''k'' 1 (jv_new 2 60 ''b'') (jv_set ''k'' (decision_of ''ok'') 0 (jv_new 2 60 ''a'') [])) = None"
  using namespaces_isolated [of "[]" "''k''" "''k''" "jv_new 2 60 ''b''" "jv_new 2 60 ''a''" 1 "decision_of ''ok''" 0]
  by (simp add: jv_new_def jv_get_def)

end
