(* ===== verification/Semantic_Service.thy ===== *)
theory Semantic_Service
  imports Semantic_Policy
begin

text \<open>
  \<^verbatim>\<open>SemanticService\<close> of \<^verbatim>\<open>tg_signer/semantic/service.py\<close>: the budgets in front of the semantic
  client, at most \<^verbatim>\<open>max_calls_per_run\<close> calls per run and \<^verbatim>\<open>max_calls_per_minute\<close> in a sliding
  minute. The client's answer is an argument of \<open>ss_evaluate\<close> (\<open>Inl\<close> the name of the class of an
  exception it raised); it is awaited after the budget was charged, and the check and the
  charge happen without a suspension in between, so a concurrent execution charges as a
  sequence of these calls. The record callback, the logging and the semaphore that bounds the
  concurrency are left out.
\<close>

record svc =
  ss_per_run :: int
  ss_per_minute :: int
  ss_counts :: "(string, nat) odict"
  ss_window :: "time list"

definition ss_new :: "int \<Rightarrow> int \<Rightarrow> svc" where
  "ss_new max_calls_per_run max_calls_per_minute =
     \<lparr>ss_per_run = max_calls_per_run, ss_per_minute = max_calls_per_minute, ss_counts = [], ss_window = []\<rparr>"

definition ss_finish_run :: "string \<Rightarrow> svc \<Rightarrow> svc" where
  "ss_finish_run run_id s = s\<lparr>ss_counts := AList.delete run_id (ss_counts s)\<rparr>"

definition ss_count :: "string \<Rightarrow> svc \<Rightarrow> nat" where
  "ss_count run_id s = (case map_of (ss_counts s) run_id of None \<Rightarrow> 0 | Some n \<Rightarrow> n)"

definition ss_check_rate_limits :: "string \<Rightarrow> time \<Rightarrow> svc \<Rightarrow> string option \<times> svc" where
  "ss_check_rate_limits run_id now s =
     (if ss_per_run s > 0 \<and> int (ss_count run_id s) \<ge> ss_per_run s then (Some ''RUN_BUDGET_EXCEEDED'', s)
      else if ss_per_minute s > 0 then
        (let s1 = s\<lparr>ss_window := filter (\<lambda>t. now - t < 60) (ss_window s)\<rparr>
         in if int (length (ss_window s1)) \<ge> ss_per_minute s then (Some ''MINUTE_BUDGET_EXCEEDED'', s1)
            else (None, s1))
      else (None, s))"

definition ss_consume_call :: "string \<Rightarrow> time \<Rightarrow> svc \<Rightarrow> svc" where
  "ss_consume_call run_id now s =
     (let s1 = (if ss_per_run s > 0 then
                  (let c = (if length (ss_counts s) > 2000 then drop (length (ss_counts s) - 1000) (ss_counts s)
                            else ss_counts s)
                   in s\<lparr>ss_counts := AList.update run_id (Suc (case map_of c run_id of None \<Rightarrow> 0 | Some n \<Rightarrow> n)) c\<rparr>)
                else s)
      in if ss_per_minute s1 > 0 then s1\<lparr>ss_window := ss_window s1 @ [now]\<rparr> else s1)"

text \<open>The three clock readings of one call, and what the client does.\<close>

definition ss_evaluate ::
  "string \<Rightarrow> time \<Rightarrow> time \<Rightarrow> time \<Rightarrow> time \<Rightarrow> string + decision \<Rightarrow> svc \<Rightarrow> decision \<times> bool \<times> svc" where
  "ss_evaluate run_id deadline t1 t2 t3 client s =
     (case ss_check_rate_limits run_id t1 s of
        (Some err, s1) \<Rightarrow> ((decision_of ''budget_exceeded'')\<lparr>dc_reason_code := err\<rparr>, False, s1)
      | (None, s1) \<Rightarrow>
          (if t2 \<ge> deadline
           then ((decision_of ''budget_exceeded'')\<lparr>dc_reason_code := ''DEADLINE_EXCEEDED''\<rparr>, False, s1)
           else (case client of Inr d \<Rightarrow> d
                 | Inl exc \<Rightarrow> (decision_of ''invalid'')\<lparr>dc_reason_code := ''SERVICE_'' @ exc\<rparr>,
                 True, ss_consume_call run_id t3 s1)))"

definition ss_close :: "svc \<Rightarrow> svc" where
  "ss_close s = s\<lparr>ss_counts := [], ss_window := []\<rparr>"

section \<open>A run of the service, with the history of the calls that reached the client\<close>

datatype svc_event =
    Evaluate string time time time time "string + decision"
  | Finish string

fun ss_run :: "svc_event list \<Rightarrow> svc \<Rightarrow> (string \<times> time) list \<Rightarrow> svc \<times> (string \<times> time) list" where
  "ss_run [] s hist = (s, hist)"
| "ss_run (Evaluate r dl t1 t2 t3 c # es) s hist =
     (let (_, called, s1) = ss_evaluate r dl t1 t2 t3 c s
      in ss_run es s1 (if called then hist @ [(r, t3)] else hist))"
| "ss_run (Finish r # es) s hist = ss_run es (ss_finish_run r s) hist"

text \<open>The clock does not run backwards along the events.\<close>

fun ss_timed :: "time \<Rightarrow> svc_event list \<Rightarrow> bool" where
  "ss_timed t [] = True"
| "ss_timed t (Evaluate r dl t1 t2 t3 c # es) = (t \<le> t1 \<and> t1 \<le> t2 \<and> t2 \<le> t3 \<and> ss_timed t3 es)"
| "ss_timed t (Finish r # es) = ss_timed t es"

definition calls_between :: "time \<Rightarrow> time \<Rightarrow> (string \<times> time) list \<Rightarrow> nat" where
  "calls_between a b hist = length (filter (\<lambda>c. a < snd c \<and> snd c \<le> b) hist)"

text \<open>Every logged call younger than a minute is in the window, and no minute holds too many.\<close>

definition ss_inv :: "time \<Rightarrow> svc \<Rightarrow> (string \<times> time) list \<Rightarrow> bool" where
  "ss_inv now s hist \<longleftrightarrow> (\<forall>(_, t) \<in> set hist. t \<le> now) \<and>
     (\<forall>x. now \<le> x \<longrightarrow> filter (\<lambda>t. x - t < 60) (map snd hist) = filter (\<lambda>t. x - t < 60) (ss_window s)) \<and>
     (\<forall>x. int (calls_between (x - 60) x hist) \<le> ss_per_minute s)"

lemma calls_between_append:
  "calls_between a b (hist @ [(r, t)]) = calls_between a b hist + (if a < t \<and> t \<le> b then 1 else 0)"
  by (simp add: calls_between_def)

lemma ss_check_params [simp]:
  "ss_per_minute (snd (ss_check_rate_limits r t s)) = ss_per_minute s"
  "ss_per_run (snd (ss_check_rate_limits r t s)) = ss_per_run s"
  by (auto simp: ss_check_rate_limits_def Let_def)

lemma filter_window_mono:
  "(y :: time) \<le> x \<Longrightarrow> filter (\<lambda>t. y - t < 60 \<and> x - t < 60) ts = filter (\<lambda>t. x - t < 60) ts"
  by (auto intro!: filter_cong)

lemma ss_inv_check:
  assumes "ss_inv now s hist" and "now \<le> t"
  shows "ss_inv t (snd (ss_check_rate_limits r t s)) hist"
proof -
  have "filter (\<lambda>u. x - u < 60) (map snd hist) = filter (\<lambda>u. x - u < 60) (ss_window (snd (ss_check_rate_limits r t s)))"
    if "t \<le> x" for x
    using assms that by (auto simp: ss_inv_def ss_check_rate_limits_def Let_def filter_window_mono)
  then show ?thesis using assms by (auto simp: ss_inv_def)
qed

lemma ss_inv_consume:
  assumes inv: "ss_inv t1 s hist" and le: "t1 \<le> t3" and pos: "ss_per_minute s > 0"
    and free: "int (length (filter (\<lambda>t. t1 - t < 60) (ss_window s))) < ss_per_minute s"
  shows "ss_inv t3 (ss_consume_call r t3 s) (hist @ [(r, t3)])"
proof -
  have w: "ss_window (ss_consume_call r t3 s) = ss_window s @ [t3]"
    "ss_per_minute (ss_consume_call r t3 s) = ss_per_minute s"
    using pos by (auto simp: ss_consume_call_def Let_def)
  have old: "\<forall>(_, t) \<in> set hist. t \<le> t1" using inv by (simp add: ss_inv_def)
  have "int (calls_between (x - 60) x (hist @ [(r, t3)])) \<le> ss_per_minute s" for x
  proof (cases "x - 60 < t3 \<and> t3 \<le> x")
    case True
    have "calls_between (x - 60) x hist \<le> length (filter (\<lambda>t. t1 - t < 60) (map snd hist))"
    proof -
      have "calls_between (x - 60) x hist = length (filter (\<lambda>t. x - 60 < t \<and> t \<le> x) (map snd hist))"
        by (simp add: calls_between_def filter_map o_def case_prod_beta)
      also have "\<dots> = length (filter (\<lambda>t. x - 60 < t \<and> t \<le> x) (filter (\<lambda>t. t1 - t < 60) (map snd hist)))"
        using True le by (auto simp: filter_filter intro!: arg_cong [where f = length] filter_cong)
      also have "\<dots> \<le> length (filter (\<lambda>t. t1 - t < 60) (map snd hist))" by (rule length_filter_le)
      finally show ?thesis .
    qed
    also have "\<dots> = length (filter (\<lambda>t. t1 - t < 60) (ss_window s))"
      using inv by (simp add: ss_inv_def)
    finally show ?thesis using free True by (simp add: calls_between_append)
  next
    case False
    then show ?thesis using inv by (auto simp: calls_between_append ss_inv_def)
  qed
  moreover have "filter (\<lambda>t. x - t < 60) (map snd (hist @ [(r, t3)])) = filter (\<lambda>t. x - t < 60) (ss_window s @ [t3])"
    if "t3 \<le> x" for x
    using inv le that by (simp add: ss_inv_def)
  ultimately show ?thesis using old le w by (force simp: ss_inv_def)
qed

lemma ss_inv_later: "ss_inv t s hist \<Longrightarrow> t \<le> t' \<Longrightarrow> ss_inv t' s hist"
  by (force simp: ss_inv_def)

lemma ss_inv_finish: "ss_inv t s hist \<Longrightarrow> ss_inv t (ss_finish_run r s) hist"
  by (simp add: ss_inv_def ss_finish_run_def)

lemma ss_check_None_window:
  assumes "ss_check_rate_limits r t s = (None, s1)" and "ss_per_minute s > 0"
  shows "int (length (filter (\<lambda>u. t - u < 60) (ss_window s1))) < ss_per_minute s1"
  using assms by (auto simp: ss_check_rate_limits_def Let_def split: if_splits)

lemma ss_run_inv:
  "ss_inv t s hist \<Longrightarrow> ss_timed t es \<Longrightarrow> ss_per_minute s > 0 \<Longrightarrow> ss_run es s hist = (s', hist') \<Longrightarrow>
   \<exists>t'. ss_inv t' s' hist' \<and> ss_per_minute s' = ss_per_minute s"
proof (induction es s hist arbitrary: t rule: ss_run.induct)
  case (2 r dl t1 t2 t3 c es s hist)
  obtain err s1 where chk: "ss_check_rate_limits r t1 s = (err, s1)" by fastforce
  have i1: "ss_inv t1 s1 hist" and pm: "ss_per_minute s1 = ss_per_minute s"
    using ss_inv_check [of t s hist t1 r] ss_check_params(1) [of r t1 s] "2.prems" chk by auto
  show ?case
  proof (cases "err = None \<and> t2 < dl")
    case True
    let ?s = "ss_consume_call r t3 s1"
    obtain d where ev: "ss_evaluate r dl t1 t2 t3 c s = (d, True, ?s)"
      using True chk by (simp add: ss_evaluate_def)
    have "ss_inv t3 ?s (hist @ [(r, t3)])"
      using True chk i1 pm "2.prems" ss_check_None_window [of r t1 s s1]
      by (intro ss_inv_consume [of t1]) auto
    moreover have "ss_per_minute ?s = ss_per_minute s"
      using pm by (auto simp: ss_consume_call_def Let_def)
    ultimately show ?thesis
      using "2.IH" [OF ev [symmetric] refl refl, of t3] "2.prems" by (simp add: ev)
  next
    case False
    have "\<exists>d. ss_evaluate r dl t1 t2 t3 c s = (d, False, s1)"
      using False chk by (cases err) (simp_all add: ss_evaluate_def)
    then obtain d where ev: "ss_evaluate r dl t1 t2 t3 c s = (d, False, s1)" by blast
    have "t1 \<le> t3" using "2.prems"(2) by simp
    then have "ss_inv t3 s1 hist" by (rule ss_inv_later [OF i1])
    then show ?thesis
      using "2.IH" [OF ev [symmetric] refl refl, of t3] "2.prems" pm by (simp add: ev)
  qed
next
  case (3 r es s hist)
  then show ?case by (auto simp: ss_finish_run_def intro: ss_inv_finish [unfolded ss_finish_run_def])
qed auto

section \<open>Properties\<close>

text \<open>
  The minute budget: whatever calls arrive, no interval of sixty seconds contains more
  than \<open>max_calls_per_minute\<close> calls that reached the client.
\<close>

theorem minute_budget:
  assumes "0 < per_minute" and "ss_timed t es"
  shows "int (calls_between (x - 60) x (snd (ss_run es (ss_new per_run per_minute) []))) \<le> per_minute"
proof -
  obtain s' hist' where run: "ss_run es (ss_new per_run per_minute) [] = (s', hist')" by fastforce
  have "ss_inv t (ss_new per_run per_minute) []"
    using assms(1) by (simp add: ss_inv_def ss_new_def calls_between_def)
  then obtain t' where "ss_inv t' s' hist'" "ss_per_minute s' = per_minute"
    using ss_run_inv [OF _ assms(2) _ run] assms(1) by (auto simp: ss_new_def)
  then show ?thesis using run by (auto simp: ss_inv_def)
qed

theorem minute_budget_witness:
  "int (calls_between (0 - 60 + 59) 59 (snd (ss_run [Evaluate ''r'' 9 0 1 2 (Inl ''E''), Evaluate ''r'' 9 3 4 5 (Inl ''E'')]
     (ss_new 6 1) []))) \<le> 1"
  using minute_budget [of 1 0 "[Evaluate ''r'' 9 0 1 2 (Inl ''E''), Evaluate ''r'' 9 3 4 5 (Inl ''E'')]" 59 6]
  by simp

text \<open>
  One call: it reaches the client only while fewer than \<open>max_calls_per_run\<close> are charged to its
  run, and then charges one; one refused for any reason charges nothing.
\<close>

lemma one_call:
  assumes "ss_evaluate r dl t1 t2 t3 c s = (d, called, s')" and "0 < ss_per_run s" and "length (ss_counts s) \<le> 2000"
  shows "(called \<longrightarrow> int (ss_count r s) < ss_per_run s) \<and> ss_per_run s' = ss_per_run s \<and>
    ss_counts s' = (if called then AList.update r (Suc (ss_count r s)) (ss_counts s) else ss_counts s)"
proof -
  obtain err s1 where chk: "ss_check_rate_limits r t1 s = (err, s1)" by fastforce
  have s1: "ss_counts s1 = ss_counts s" "ss_per_run s1 = ss_per_run s" "ss_per_minute s1 = ss_per_minute s"
    using chk by (auto simp: ss_check_rate_limits_def Let_def split: if_splits)
  have "err = None \<Longrightarrow> int (ss_count r s) < ss_per_run s"
    using chk assms(2) by (auto simp: ss_check_rate_limits_def split: if_splits)
  moreover have "ss_counts (ss_consume_call r t3 s1) = AList.update r (Suc (ss_count r s)) (ss_counts s)"
    "ss_per_run (ss_consume_call r t3 s1) = ss_per_run s"
    using assms(2,3) s1 by (simp_all add: ss_consume_call_def ss_count_def Let_def)
  ultimately show ?thesis
    using assms(1) chk s1 by (cases err) (auto simp: ss_evaluate_def split: if_splits)
qed

fun run_ids :: "svc_event list \<Rightarrow> string set" where
  "run_ids [] = {}"
| "run_ids (Evaluate r dl t1 t2 t3 c # es) = insert r (run_ids es)"
| "run_ids (Finish r # es) = run_ids es"

lemma finite_run_ids: "finite (run_ids es)"
  by (induction es rule: run_ids.induct) auto

lemma ss_run_budget:
  assumes "0 < ss_per_run s" and "Finish r \<notin> set es" and "od_wf (ss_counts s)"
    and "fst ` set (ss_counts s) \<union> run_ids es \<subseteq> ids" "finite ids" "card ids \<le> 2000"
    and "count_list (map fst hist) r = ss_count r s" "int (ss_count r s) \<le> ss_per_run s"
  shows "int (count_list (map fst (snd (ss_run es s hist))) r) \<le> ss_per_run s"
  using assms
proof (induction es s hist rule: ss_run.induct)
  case (2 r1 dl t1 t2 t3 c es s hist)
  obtain d called s' where e: "ss_evaluate r1 dl t1 t2 t3 c s = (d, called, s')" by (metis prod_cases3)
  have "length (ss_counts s) = card (fst ` set (ss_counts s))"
    using 2(4) by (metis distinct_card length_map set_map)
  also have "\<dots> \<le> 2000" using 2(5-7) by (meson Un_subset_iff card_mono le_trans)
  finally have len: "length (ss_counts s) \<le> 2000" .
  note one = one_call [OF e 2(2) len]
  have keys: "fst ` set (ss_counts s') \<subseteq> insert r1 (fst ` set (ss_counts s))" and wf: "od_wf (ss_counts s')"
    using one 2(4) by (auto simp: od_simps)
  have count: "ss_count r s' = ss_count r s + (if called \<and> r1 = r then 1 else 0)"
    using one by (simp add: ss_count_def od_simps)
  have "int (count_list (map fst (snd (ss_run es s' (if called then hist @ [(r1, t3)] else hist)))) r) \<le> ss_per_run s'"
  proof (rule 2(1) [OF e [symmetric] refl])
    show "int (ss_count r s') \<le> ss_per_run s'" using one count 2(9) by auto
    show "count_list (map fst (if called then hist @ [(r1, t3)] else hist)) r = ss_count r s'" using count 2(8) by simp
    show "fst ` set (ss_counts s') \<union> run_ids es \<subseteq> ids" using keys 2(5) by auto
  qed (use 2(2-9) one wf in auto)
  then show ?case using e one by simp
next
  case (3 r1 es s hist)
  have "ss_count r (ss_finish_run r1 s) = ss_count r s" using 3(3) by (auto simp: ss_finish_run_def ss_count_def od_simps)
  moreover have "fst ` set (ss_counts (ss_finish_run r1 s)) \<union> run_ids es \<subseteq> ids"
    using 3(5) by (auto simp: ss_finish_run_def od_simps)
  ultimately show ?case using 3 by (simp add: ss_finish_run_def)
qed simp

text \<open>
  C39: The run budget: whatever calls of whatever runs arrive, as long as a run is not finished
  and no more than 2000 runs are known (beyond them the service forgets the oldest), at most
  \<open>max_calls_per_run\<close> of its calls reach the client.
\<close>

theorem run_budget:
  assumes "0 < per_run" and "Finish r \<notin> set es" and "card (run_ids es) \<le> 2000"
  shows "int (count_list (map fst (snd (ss_run es (ss_new per_run per_minute) []))) r) \<le> per_run"
  using ss_run_budget [of "ss_new per_run per_minute" r es "run_ids es" "[]"] assms finite_run_ids
  by (simp add: ss_new_def ss_count_def)

theorem run_budget_witness:
  "int (count_list (map fst (snd (ss_run
      [Evaluate ''r'' 9 0 1 2 (Inl ''E''), Finish ''q'', Evaluate ''r'' 9 3 4 5 (Inl ''E''), Evaluate ''r'' 9 6 7 8 (Inl ''E'')]
      (ss_new 2 60) []))) ''r'') \<le> 2"
  by (rule run_budget) simp_all

end
