(* ===== verification/Py_Values.thy ===== *)
theory Py_Values
  imports Prelude
begin

text \<open>
  The Python values a flow computes with (\<^verbatim>\<open>tg_signer/core/flow_context.py\<close> and its clients):
  what a configuration, a JSON text or a regular expression can give a variable, the
  conversions of the language the source applies to them (\<^verbatim>\<open>bool\<close>, \<^verbatim>\<open>str\<close>, \<^verbatim>\<open>float\<close>, \<^verbatim>\<open>int\<close>,
  \<^verbatim>\<open>==\<close>, \<^verbatim>\<open>in\<close>), the string methods it uses, and exceptions as values. A float is a real, an
  infinity or a NaN; its shortest decimal representation is the parameter \<open>fr\<close> of \<open>py_str\<close>.
  A tuple is a list here, sets do not occur, and \<open>PObj\<close> is an opaque object such as a node.
  A negative nonzero exponent, an underscore and the words for the infinities are part of the
  float syntax; the digits of \<^verbatim>\<open>str.isdigit\<close> below 256 include three superscripts that
  \<^verbatim>\<open>int()\<close> rejects.
\<close>

section \<open>Values and exceptions\<close>

datatype pyfloat = Fin real | Inf bool | NaN

datatype pkey = KS string | KI int

datatype py =
    PNone
  | PBool bool
  | PInt int
  | PFloat pyfloat
  | PStr string
  | PList "py list"
  | PDict "(pkey \<times> py) list"
  | PObj string

type_synonym pydict = "(string, py) odict"

text \<open>What the engine reads of an exception: its class, its text and the attributes of the
  controlled terminations.\<close>

record exc =
  ex_class :: string
  ex_message :: string
  ex_timeout :: bool
  ex_failure_code :: "string option"
  ex_disposition :: "string option"
  ex_non_retryable :: bool

definition exc_of :: "string \<Rightarrow> string \<Rightarrow> exc" where
  "exc_of cls msg = \<lparr>ex_class = cls, ex_message = msg, ex_timeout = (cls = ''TimeoutError''),
     ex_failure_code = None, ex_disposition = None, ex_non_retryable = False\<rparr>"

definition str_dict :: "pydict \<Rightarrow> py" where
  "str_dict d = PDict (map (\<lambda>(k, v). (KS k, v)) d)"

fun py_truthy :: "py \<Rightarrow> bool" where
  "py_truthy PNone = False"
| "py_truthy (PBool b) = b"
| "py_truthy (PInt i) = (i \<noteq> 0)"
| "py_truthy (PFloat f) = (f \<noteq> Fin 0)"
| "py_truthy (PStr s) = (s \<noteq> [])"
| "py_truthy (PList xs) = (xs \<noteq> [])"
| "py_truthy (PDict d) = (d \<noteq> [])"
| "py_truthy (PObj i) = True"

section \<open>Floats\<close>

fun fl_eq :: "pyfloat \<Rightarrow> pyfloat \<Rightarrow> bool" where
  "fl_eq (Fin a) (Fin b) = (a = b)"
| "fl_eq (Inf a) (Inf b) = (a = b)"
| "fl_eq _ _ = False"

text \<open>\<open>Inf True\<close> is the negative infinity.\<close>

fun fl_less :: "pyfloat \<Rightarrow> pyfloat \<Rightarrow> bool" where
  "fl_less (Fin a) (Fin b) = (a < b)"
| "fl_less (Inf a) (Fin b) = a"
| "fl_less (Fin a) (Inf b) = (\<not> b)"
| "fl_less (Inf a) (Inf b) = (a \<and> \<not> b)"
| "fl_less _ _ = False"

definition fl_le :: "pyfloat \<Rightarrow> pyfloat \<Rightarrow> bool" where
  "fl_le a b \<longleftrightarrow> fl_less a b \<or> fl_eq a b"

section \<open>Strings\<close>

definition startswith :: "string \<Rightarrow> string \<Rightarrow> bool" where
  "startswith s p \<longleftrightarrow> take (length p) s = p"

definition endswith :: "string \<Rightarrow> string \<Rightarrow> bool" where
  "endswith s p \<longleftrightarrow> length p \<le> length s \<and> drop (length s - length p) s = p"

fun py_contains :: "string \<Rightarrow> string \<Rightarrow> bool" where
  "py_contains sub [] = (sub = [])"
| "py_contains sub (c # cs) = (startswith (c # cs) sub \<or> py_contains sub cs)"

definition py_lower :: "string \<Rightarrow> string" where
  "py_lower = map (\<lambda>c. let n = of_char c :: nat in
     if (65 \<le> n \<and> n \<le> 90) \<or> (192 \<le> n \<and> n \<le> 222 \<and> n \<noteq> 215) then char_of (n + 32) else c)"

definition py_upper :: "string \<Rightarrow> string" where
  "py_upper s = concat (map (\<lambda>c. let n = of_char c :: nat in
     if (97 \<le> n \<and> n \<le> 122) \<or> (224 \<le> n \<and> n \<le> 254 \<and> n \<noteq> 247) then [char_of (n - 32)]
     else if n = 223 then ''SS'' else [c]) s)"

text \<open>\<^verbatim>\<open>s.split(c)\<close>: at least one part.\<close>

fun split_on :: "char \<Rightarrow> string \<Rightarrow> string list" where
  "split_on d [] = [[]]"
| "split_on d (c # cs) = (if c = d then [] # split_on d cs
     else (case split_on d cs of [] \<Rightarrow> [[c]] | p # ps \<Rightarrow> (c # p) # ps))"

fun join_with :: "string \<Rightarrow> string list \<Rightarrow> string" where
  "join_with sep [] = []"
| "join_with sep [x] = x"
| "join_with sep (x # y # zs) = x @ sep @ join_with sep (y # zs)"

definition ascii_digit :: "char \<Rightarrow> bool" where
  "ascii_digit c \<longleftrightarrow> (let n = of_char c :: nat in 48 \<le> n \<and> n \<le> 57)"

definition py_isdigit :: "string \<Rightarrow> bool" where
  "py_isdigit s \<longleftrightarrow> s \<noteq> [] \<and> list_all (\<lambda>c. ascii_digit c \<or> (of_char c :: nat) \<in> {178, 179, 185}) s"

definition digits_nat :: "string \<Rightarrow> nat" where
  "digits_nat s = fold (\<lambda>c a. 10 * a + (of_char c - 48)) s 0"

text \<open>\<^verbatim>\<open>int(s)\<close> of a string for which \<^verbatim>\<open>isdigit\<close> holds.\<close>

definition int_of_digits :: "string \<Rightarrow> int option" where
  "int_of_digits s = (if list_all ascii_digit s then Some (int (digits_nat s)) else None)"

text \<open>\<^verbatim>\<open>str(n)\<close> of an integer.\<close>

fun str_nat :: "nat \<Rightarrow> string" where
  "str_nat n = (if n < 10 then [char_of (48 + n)] else str_nat (n div 10) @ [char_of (48 + n mod 10)])"

declare str_nat.simps [simp del]

definition str_int :: "int \<Rightarrow> string" where
  "str_int i = (if i < 0 then ''-'' @ str_nat (nat (- i)) else str_nat (nat i))"

section \<open>\<^verbatim>\<open>float(s)\<close> of a string\<close>

text \<open>Digits with single underscores between them, and the rest.\<close>

fun digitpart :: "bool \<Rightarrow> string \<Rightarrow> string \<times> string" where
  "digitpart started [] = ([], [])"
| "digitpart started (c # cs) =
     (if ascii_digit c then (case digitpart True cs of (d, r) \<Rightarrow> (c # d, r))
      else if started \<and> c = CHR ''_'' \<and> cs \<noteq> [] \<and> ascii_digit (hd cs) then digitpart started cs
      else ([], c # cs))"

definition float_exponent :: "string \<Rightarrow> int option" where
  "float_exponent s =
     (case s of [] \<Rightarrow> Some 0
      | e # r \<Rightarrow>
        if e \<noteq> CHR ''e'' \<and> e \<noteq> CHR ''E'' then None
        else (let neg = startswith r ''-''; r2 = (if neg \<or> startswith r ''+'' then tl r else r)
              in case digitpart False r2 of (d, rest) \<Rightarrow>
                   if d = [] \<or> rest \<noteq> [] then None
                   else Some (if neg then - int (digits_nat d) else int (digits_nat d))))"

definition float_decimal :: "string \<Rightarrow> real option" where
  "float_decimal s =
     (case digitpart False s of (whole, r) \<Rightarrow>
       (case (if startswith r ''.'' then digitpart False (tl r) else ([], r)) of (fracpart, r2) \<Rightarrow>
         if whole = [] \<and> fracpart = [] then None
         else (case float_exponent r2 of None \<Rightarrow> None
               | Some e \<Rightarrow>
                 (let m = real (digits_nat whole) + real (digits_nat fracpart) / 10 ^ length fracpart
                  in Some (if e < 0 then m / 10 ^ nat (- e) else m * 10 ^ nat e)))))"

definition parse_float :: "string \<Rightarrow> pyfloat option" where
  "parse_float text =
     (let s = py_strip text; neg = startswith s ''-'';
          u = (if neg \<or> startswith s ''+'' then tl s else s); l = py_lower u
      in if l \<in> {''inf'', ''infinity''} then Some (Inf neg)
         else if l = ''nan'' then Some NaN
         else map_option (\<lambda>x. Fin (if neg then - x else x)) (float_decimal u))"

section \<open>Conversions and comparisons\<close>

fun num_of :: "py \<Rightarrow> pyfloat option" where
  "num_of (PBool b) = Some (Fin (of_bool b))"
| "num_of (PInt i) = Some (Fin (of_int i))"
| "num_of (PFloat f) = Some f"
| "num_of _ = None"

text \<open>\<^verbatim>\<open>float(v)\<close>; \<open>None\<close> is a \<^verbatim>\<open>ValueError\<close> or a \<^verbatim>\<open>TypeError\<close>.\<close>

definition py_float :: "py \<Rightarrow> pyfloat option" where
  "py_float v = (case v of PStr s \<Rightarrow> parse_float s | _ \<Rightarrow> num_of v)"

fun py_eq :: "py \<Rightarrow> py \<Rightarrow> bool" and py_eqs :: "py list \<Rightarrow> py list \<Rightarrow> bool"
  and py_sub :: "(pkey \<times> py) list \<Rightarrow> (pkey \<times> py) list \<Rightarrow> bool" where
  "py_eq PNone w = (w = PNone)"
| "py_eq (PStr s) w = (w = PStr s)"
| "py_eq (PObj i) w = (w = PObj i)"
| "py_eq (PList xs) w = (case w of PList ys \<Rightarrow> py_eqs xs ys | _ \<Rightarrow> False)"
| "py_eq (PDict d) w = (case w of PDict e \<Rightarrow> length d = length e \<and> py_sub d e | _ \<Rightarrow> False)"
| "py_eq v w = (case (num_of v, num_of w) of (Some a, Some b) \<Rightarrow> fl_eq a b | _ \<Rightarrow> False)"
| "py_eqs [] ys = (ys = [])"
| "py_eqs (x # xs) ys = (case ys of [] \<Rightarrow> False | y # zs \<Rightarrow> py_eq x y \<and> py_eqs xs zs)"
| "py_sub [] e = True"
| "py_sub ((k, v) # d) e = ((case map_of e k of None \<Rightarrow> False | Some w \<Rightarrow> py_eq v w) \<and> py_sub d e)"

definition hex_digit :: "nat \<Rightarrow> char" where
  "hex_digit n = (if n < 10 then char_of (48 + n) else char_of (87 + n))"

text \<open>\<^verbatim>\<open>repr\<close> of a string: single quotes unless it holds one and no double quote.\<close>

definition repr_str :: "string \<Rightarrow> string" where
  "repr_str s =
     (let q = (if CHR 0x27 \<in> set s \<and> CHR 0x22 \<notin> set s then CHR 0x22 else CHR 0x27)
      in [q] @ concat (map (\<lambda>c. let n = of_char c :: nat in
           if c = q \<or> n = 92 then [CHR 0x5C, c]
           else if n = 9 then [CHR 0x5C, CHR ''t''] else if n = 10 then [CHR 0x5C, CHR ''n'']
           else if n = 13 then [CHR 0x5C, CHR ''r'']
           else if n < 32 \<or> (127 \<le> n \<and> n \<le> 160) \<or> n = 173
                then [CHR 0x5C, CHR ''x'', hex_digit (n div 16), hex_digit (n mod 16)]
           else [c]) s) @ [q])"

fun py_repr :: "(py \<Rightarrow> string) \<Rightarrow> py \<Rightarrow> string" where
  "py_repr fr PNone = ''None''"
| "py_repr fr (PBool b) = (if b then ''True'' else ''False'')"
| "py_repr fr (PInt i) = str_int i"
| "py_repr fr (PStr s) = repr_str s"
| "py_repr fr (PList xs) = ''['' @ join_with '', '' (map (py_repr fr) xs) @ '']''"
| "py_repr fr (PDict d) = ''{'' @ join_with '', ''
     (map (\<lambda>(k, v). (case k of KS s \<Rightarrow> repr_str s | KI i \<Rightarrow> str_int i) @ '': '' @ py_repr fr v) d) @ ''}''"
| "py_repr fr v = fr v"

definition py_str :: "(py \<Rightarrow> string) \<Rightarrow> py \<Rightarrow> string" where
  "py_str fr v = (case v of PStr s \<Rightarrow> s | _ \<Rightarrow> py_repr fr v)"

text \<open>\<^verbatim>\<open>v in xs\<close> for a list.\<close>

definition py_mem :: "py \<Rightarrow> py list \<Rightarrow> bool" where
  "py_mem v xs \<longleftrightarrow> list_ex (\<lambda>x. py_eq x v) xs"

section \<open>\<^verbatim>\<open>int(v)\<close>\<close>

text \<open>\<^verbatim>\<open>int(v)\<close>: \<open>None\<close> is a \<^verbatim>\<open>ValueError\<close> or a \<^verbatim>\<open>TypeError\<close>. A text is digits with single
  underscores, an optional sign and blanks around it.\<close>

definition int_of_str :: "string \<Rightarrow> int option" where
  "int_of_str text =
     (let s = py_strip text; neg = startswith s ''-''; u = (if neg \<or> startswith s ''+'' then tl s else s)
      in case digitpart False u of (d, rest) \<Rightarrow>
           if d = [] \<or> rest \<noteq> [] then None
           else Some (if neg then - int (digits_nat d) else int (digits_nat d)))"

definition py_int :: "py \<Rightarrow> int option" where
  "py_int v = (case v of PStr s \<Rightarrow> int_of_str s | PInt i \<Rightarrow> Some i | PBool b \<Rightarrow> Some (of_bool b)
     | PFloat (Fin x) \<Rightarrow> Some (if x < 0 then \<lceil>x\<rceil> else \<lfloor>x\<rfloor>) | _ \<Rightarrow> None)"

section \<open>Facts about them\<close>

lemma digits_nat_snoc: "digits_nat (s @ [c]) = 10 * digits_nat s + (of_char c - 48)"
  by (simp add: digits_nat_def)

lemma digits_str_nat: "digits_nat (str_nat n) = n"
proof (induction n rule: str_nat.induct)
  case (1 n)
  show ?case
  proof (cases "n < 10")
    case True
    then show ?thesis by (subst str_nat.simps) (simp add: digits_nat_def)
  next
    case False
    have "n mod 10 < 10" by simp
    then have "48 + n mod 10 < 256" by linarith
    then have "digits_nat (str_nat (n div 10) @ [char_of (48 + n mod 10)]) = n" using 1 False by (simp add: digits_nat_snoc)
    then show ?thesis using False by (subst str_nat.simps) simp
  qed
qed

lemma str_nat_inject [simp]: "str_nat m = str_nat n \<longleftrightarrow> m = n"
  by (metis digits_str_nat)

lemma str_nat_digits: "list_all ascii_digit (str_nat n)"
proof (induction n rule: str_nat.induct)
  case (1 n)
  have "n mod 10 < 10" by simp
  then have "(48 + n mod 10) mod 256 = 48 + n mod 10" by (intro mod_less) linarith
  then have d: "ascii_digit (char_of (48 + n mod 10))" by (simp add: ascii_digit_def)
  show ?case
  proof (cases "n < 10")
    case True
    then show ?thesis using d by (subst str_nat.simps) simp
  next
    case False
    then show ?thesis using d 1 by (subst str_nat.simps) simp
  qed
qed

lemma str_nat_unspaced: "c \<in> set (str_nat i) \<Longrightarrow> \<not> py_space c"
  using str_nat_digits [of i] by (auto simp: list_all_iff ascii_digit_def py_space_def Let_def)

lemma split_on_nonempty: "split_on d s \<noteq> []"
  by (induction s) (auto split: list.splits)

lemma join_split_on: "join_with [d] (split_on d s) = s"
proof (induction s)
  case (Cons c cs)
  obtain p ps where "split_on d cs = p # ps" using split_on_nonempty [of d cs] by (cases "split_on d cs") auto
  with Cons show ?case by (cases ps) auto
qed simp

lemma split_on_clean: "d \<notin> set a \<Longrightarrow> split_on d (a @ d # b) = a # split_on d b"
  by (induction a) auto

lemma split_on_one: "d \<notin> set a \<Longrightarrow> split_on d a = [a]"
  by (induction a) auto

lemma split_join: "ls \<noteq> [] \<Longrightarrow> list_all (\<lambda>l. d \<notin> set l) ls \<Longrightarrow> split_on d (join_with [d] ls) = ls"
  by (induction "[d]" ls rule: join_with.induct) (simp_all add: split_on_clean split_on_one)

lemma startswith_append: "startswith s p \<longleftrightarrow> (\<exists>r. s = p @ r)"
  by (metis append_eq_conv_conj append_take_drop_id startswith_def)

lemma py_contains_iff: "py_contains sub s \<longleftrightarrow> (\<exists>a b. s = a @ sub @ b)"
proof (induction s)
  case (Cons c cs)
  have "(\<exists>a b. c # cs = a @ sub @ b) \<longleftrightarrow> (\<exists>b. c # cs = sub @ b) \<or> (\<exists>a b. cs = a @ sub @ b)"
    by (metis append_Cons append_Nil append_eq_Cons_conv)
  then show ?case using Cons by (simp add: startswith_append)
qed simp

lemma length_py_lower [simp]: "length (py_lower s) = length s"
  by (simp add: py_lower_def)

lemma length_py_strip: "length (py_strip s) \<le> length s"
  by (metis length_dropWhile_le length_rev le_trans py_strip_def)

lemma fl_le_refl_iff: "fl_le a a \<longleftrightarrow> a \<noteq> NaN"
  by (cases a) (auto simp: fl_le_def)

end
