(* ===== verification/Flow_Models.thy ===== *)
theory Flow_Models
  imports Py_Values
begin

text \<open>
  The data of the flow engine, \<^verbatim>\<open>tg_signer/core/flow_models.py\<close> with
  \<^verbatim>\<open>operation_receipts.py\<close>: the enumerations, step outcomes and their serialised form, the
  redaction of sensitive values, and the execution graph with its seven kinds of node. A node
  is its base fields (\<open>node_base\<close>, the class \<^verbatim>\<open>BaseFlowNode\<close>) and its kind, a constructor per
  subclass; subflow and parallel nodes hold graphs, so nodes and graphs are one nested
  datatype. The pydantic validation that builds them from dictionaries is not modelled.
\<close>

section \<open>Enumerations\<close>

datatype parallel_mode = ModeAll | ModeAny | ModeAllSettled
datatype conflict_policy = ConflictFail | FirstWriter | LastWriter | Collect
datatype terminal_policy = TerminalIgnore | StopFlow | BranchTo
datatype node_status = SPending | SRunning | SSuccess | STerminalEarly | SFailed | SSkipped | STimeout
datatype flow_signal = Proceed | HaltSuccess | HaltFail | Branch | RetryNode
datatype op_state = OpNotStarted | OpAttempted | OpConfirmed | OpUnknown

definition terminal_complete :: string where "terminal_complete = ''_TERMINAL_COMPLETE''"
definition terminal_fail :: string where "terminal_fail = ''_TERMINAL_FAIL''"

fun status_value :: "node_status \<Rightarrow> string" where
  "status_value SPending = ''pending''"
| "status_value SRunning = ''running''"
| "status_value SSuccess = ''success''"
| "status_value STerminalEarly = ''terminal_early''"
| "status_value SFailed = ''failed''"
| "status_value SSkipped = ''skipped''"
| "status_value STimeout = ''timeout''"

fun signal_value :: "flow_signal \<Rightarrow> string" where
  "signal_value Proceed = ''proceed''"
| "signal_value HaltSuccess = ''halt_success''"
| "signal_value HaltFail = ''halt_fail''"
| "signal_value Branch = ''branch''"
| "signal_value RetryNode = ''retry_node''"

fun op_state_value :: "op_state \<Rightarrow> string" where
  "op_state_value OpNotStarted = ''not_started''"
| "op_state_value OpAttempted = ''attempted''"
| "op_state_value OpConfirmed = ''confirmed''"
| "op_state_value OpUnknown = ''unknown''"

text \<open>\<^verbatim>\<open>NodeStatus(value)\<close> and \<^verbatim>\<open>FlowSignal(value)\<close>: \<open>None\<close> is the \<^verbatim>\<open>ValueError\<close>.\<close>

definition status_of :: "string \<Rightarrow> node_status option" where
  "status_of s = List.find (\<lambda>x. status_value x = s)
     [SPending, SRunning, SSuccess, STerminalEarly, SFailed, SSkipped, STimeout]"

definition signal_of :: "string \<Rightarrow> flow_signal option" where
  "signal_of s = List.find (\<lambda>x. signal_value x = s) [Proceed, HaltSuccess, HaltFail, Branch, RetryNode]"

definition mode_value :: "parallel_mode \<Rightarrow> string" where
  "mode_value m = (case m of ModeAll \<Rightarrow> ''all'' | ModeAny \<Rightarrow> ''any'' | ModeAllSettled \<Rightarrow> ''all_settled'')"

section \<open>Redaction\<close>

definition sensitive_patterns :: "string list" where
  "sensitive_patterns = [''token'', ''password'', ''secret'', ''api_key'', ''apikey'', ''auth_key'',
     ''session'', ''private_key'', ''credential'']"

definition sensitive_key :: "pkey \<Rightarrow> bool" where
  "sensitive_key k = list_ex (\<lambda>p. py_contains p (py_lower (case k of KS s \<Rightarrow> s | KI i \<Rightarrow> str_int i)))
     sensitive_patterns"

fun redact_sensitive_value :: "py \<Rightarrow> py" where
  "redact_sensitive_value (PStr s) =
     PStr (if length s \<le> 6 then ''***'' else take 2 s @ ''***'' @ drop (length s - 2) s)"
| "redact_sensitive_value (PDict d) = PDict (map (\<lambda>(k, v).
     (k, if sensitive_key k then redact_sensitive_value v
         else (case v of PDict e \<Rightarrow> redact_sensitive_value v | PList e \<Rightarrow> redact_sensitive_value v | _ \<Rightarrow> v))) d)"
| "redact_sensitive_value (PList xs) = PList (map redact_sensitive_value xs)"
| "redact_sensitive_value v = v"

section \<open>Steps, messages and receipts\<close>

record step_outcome =
  so_node_id :: string
  so_status :: node_status
  so_output :: string
  so_extracted :: pydict
  so_matched_terminal :: bool
  so_signal :: flow_signal
  so_target :: "string option"
  so_error :: "exc option"
  so_duration :: real
  so_updates :: bool
  so_details :: pydict

definition step_of :: "string \<Rightarrow> node_status \<Rightarrow> step_outcome" where
  "step_of nid st = \<lparr>so_node_id = nid, so_status = st, so_output = [], so_extracted = [],
     so_matched_terminal = False, so_signal = Proceed, so_target = None, so_error = None,
     so_duration = 0, so_updates = True, so_details = []\<rparr>"

definition opt_str :: "string option \<Rightarrow> py" where
  "opt_str v = (case v of None \<Rightarrow> PNone | Some s \<Rightarrow> PStr s)"

definition redact_dict :: "pydict \<Rightarrow> py" where
  "redact_dict d = redact_sensitive_value (str_dict d)"

definition so_to_dict :: "bool \<Rightarrow> step_outcome \<Rightarrow> pydict" where
  "so_to_dict redact so =
     [(''node_id'', PStr (so_node_id so)), (''status'', PStr (status_value (so_status so))),
      (''output_text'', PStr (so_output so)),
      (''extracted_vars'', if redact then redact_dict (so_extracted so) else str_dict (so_extracted so)),
      (''matched_terminal'', PBool (so_matched_terminal so)), (''signal'', PStr (signal_value (so_signal so))),
      (''target_node_id'', opt_str (so_target so)),
      (''error'', opt_str (map_option ex_message (so_error so))),
      (''duration_ms'', PFloat (Fin (so_duration so))), (''updates_last_output'', PBool (so_updates so)),
      (''details'', str_dict (so_details so))]"

text \<open>The readings of \<open>so_from_dict\<close>; \<open>None\<close> is a missing \<^verbatim>\<open>node_id\<close> or a field of another type than the
  annotated one.\<close>

fun py_as_str :: "py \<Rightarrow> string option" where
  "py_as_str (PStr s) = Some s"
| "py_as_str _ = None"

fun py_as_opt_str :: "py \<Rightarrow> string option option" where
  "py_as_opt_str (PStr s) = Some (Some s)"
| "py_as_opt_str PNone = Some None"
| "py_as_opt_str _ = None"

fun str_keys :: "(pkey \<times> py) list \<Rightarrow> pydict option" where
  "str_keys [] = Some []"
| "str_keys ((KS s, v) # d) = map_option (\<lambda>e. (s, v) # e) (str_keys d)"
| "str_keys ((KI i, v) # d) = None"

fun py_as_dict :: "py \<Rightarrow> pydict option" where
  "py_as_dict (PDict d) = str_keys d"
| "py_as_dict _ = None"

definition get_default :: "pydict \<Rightarrow> string \<Rightarrow> py \<Rightarrow> py" where
  "get_default d k dflt = (case map_of d k of None \<Rightarrow> dflt | Some v \<Rightarrow> v)"

definition so_from_dict :: "pydict \<Rightarrow> step_outcome option" where
  "so_from_dict d =
     (case (Option.bind (map_of d ''node_id'') py_as_str,
            py_as_str (get_default d ''output_text'' (PStr [])),
            py_as_dict (get_default d ''extracted_vars'' (PDict [])),
            py_as_opt_str (get_default d ''target_node_id'' PNone),
            py_as_opt_str (get_default d ''error'' PNone),
            py_float (get_default d ''duration_ms'' (PFloat (Fin 0))),
            py_as_dict (get_default d ''details'' (PDict []))) of
        (Some nid, Some out, Some ev, Some tgt, Some err, Some (Fin dur), Some det) \<Rightarrow>
          Some \<lparr>so_node_id = nid,
            so_status = (case py_as_str (get_default d ''status'' (PStr ''success'')) of None \<Rightarrow> SSuccess
              | Some s \<Rightarrow> (case status_of s of None \<Rightarrow> SSuccess | Some x \<Rightarrow> x)),
            so_output = out, so_extracted = ev,
            so_matched_terminal = py_truthy (get_default d ''matched_terminal'' (PBool False)),
            so_signal = (case py_as_str (get_default d ''signal'' (PStr ''proceed'')) of None \<Rightarrow> Proceed
              | Some s \<Rightarrow> (case signal_of s of None \<Rightarrow> Proceed | Some x \<Rightarrow> x)),
            so_target = tgt,
            so_error = (case err of None \<Rightarrow> None | Some m \<Rightarrow> if m = [] then None else Some (exc_of ''RuntimeError'' m)),
            so_duration = dur,
            so_updates = py_truthy (get_default d ''updates_last_output'' (PBool True)),
            so_details = det\<rparr>
      | _ \<Rightarrow> None)"

record target_message =
  tm_chat_id :: py
  tm_message_id :: int
  tm_thread_id :: "int option"
  tm_kind :: string
  tm_text :: string
  tm_received_at :: real
  tm_source :: string

record op_receipt =
  or_operation_id :: string
  or_node_id :: string
  or_attempt :: int
  or_kind :: string
  or_state :: op_state
  or_remote_id :: "string option"
  or_evidence :: pydict

definition receipt_new :: "string \<Rightarrow> string \<Rightarrow> int \<Rightarrow> string \<Rightarrow> op_receipt" where
  "receipt_new oid nid att kind = \<lparr>or_operation_id = oid, or_node_id = nid, or_attempt = att,
     or_kind = kind, or_state = OpNotStarted, or_remote_id = None, or_evidence = []\<rparr>"

section \<open>Nodes and graphs\<close>

record retry_policy =
  rp_max_attempts :: int
  rp_backoff :: real
  rp_multiplier :: real
  rp_max_backoff :: real
  rp_retry_on :: "string list"

record loop_policy =
  lp_allow_loop :: bool
  lp_max_visits :: int

record node_base =
  nb_id :: string
  nb_name :: string
  nb_next :: "string option"
  nb_on_failure :: "string option"
  nb_terminal_policy :: terminal_policy
  nb_terminal_target :: "string option"
  nb_retry :: retry_policy
  nb_loop :: loop_policy
  nb_timeout :: real
  nb_run_if :: "string option"
  nb_skip_if :: "string option"
  nb_metadata :: pydict

record wait_cfg =
  wc_event_type :: string
  wc_filter_patterns :: "string list"
  wc_success_patterns :: "string list"
  wc_failure_patterns :: "string list"
  wc_semantic :: "pydict option"
  wc_retry_keywords :: "string list"
  wc_retry_interval :: real
  wc_max_retries :: int
  wc_action_node :: "string option"

record extract_cfg =
  xc_source_field :: string
  xc_regex :: string
  xc_export_vars :: "(string, string) odict"

record subflow_cfg =
  sc_input_vars :: "(string, string) odict"
  sc_output_vars :: "(string, string) odict"
  sc_export_vars :: "string list"

record parallel_cfg =
  pc_mode :: parallel_mode
  pc_max_concurrency :: "int option"
  pc_join_strategy :: string
  pc_policy :: conflict_policy

datatype node = Node (nd_base: node_base) (nd_kind: node_kind)
and node_kind =
    Action string pydict
  | WaitEvent wait_cfg
  | Condition "(string, string) odict list" "string option"
  | Extractor extract_cfg
  | Delay real
  | Subflow "graph option" subflow_cfg
  | Parallel "graph list" parallel_cfg
and graph = Graph
  (g_entry: string) (g_nodes: "(string \<times> node) list") (g_max_total_steps: int)
  (g_error_handler: "string option") (g_resume: "string option") (g_failure_limit: "int option")

abbreviation nd_id :: "node \<Rightarrow> string" where "nd_id n \<equiv> nb_id (nd_base n)"

abbreviation g_node :: "graph \<Rightarrow> string \<Rightarrow> node option" where "g_node g i \<equiv> map_of (g_nodes g) i"

text \<open>The defaults of the pydantic models, for concrete graphs.\<close>

definition default_base :: "string \<Rightarrow> node_base" where
  "default_base i = \<lparr>nb_id = i, nb_name = [], nb_next = None, nb_on_failure = None,
     nb_terminal_policy = TerminalIgnore, nb_terminal_target = None,
     nb_retry = \<lparr>rp_max_attempts = 1, rp_backoff = 1, rp_multiplier = 2, rp_max_backoff = 15, rp_retry_on = []\<rparr>,
     nb_loop = \<lparr>lp_allow_loop = False, lp_max_visits = 1\<rparr>, nb_timeout = 25,
     nb_run_if = None, nb_skip_if = None, nb_metadata = []\<rparr>"

definition default_wait :: wait_cfg where
  "default_wait = \<lparr>wc_event_type = ''NEW_MESSAGE'', wc_filter_patterns = [], wc_success_patterns = [],
     wc_failure_patterns = [], wc_semantic = None, wc_retry_keywords = [], wc_retry_interval = 10,
     wc_max_retries = 3, wc_action_node = None\<rparr>"

definition default_parallel :: parallel_cfg where
  "default_parallel = \<lparr>pc_mode = ModeAll, pc_max_concurrency = None, pc_join_strategy = ''merge'',
     pc_policy = ConflictFail\<rparr>"

definition default_subflow :: subflow_cfg where
  "default_subflow = \<lparr>sc_input_vars = [], sc_output_vars = [], sc_export_vars = []\<rparr>"

definition default_graph :: "string \<Rightarrow> node list \<Rightarrow> graph" where
  "default_graph entry ns = Graph entry (map (\<lambda>n. (nd_id n, n)) ns) 30 None None None"

text \<open>How deep subflow and parallel nodes nest.\<close>

fun max_list :: "nat list \<Rightarrow> nat" where
  "max_list [] = 0"
| "max_list (x # xs) = max x (max_list xs)"

fun node_depth :: "node \<Rightarrow> nat" and graph_depth :: "graph \<Rightarrow> nat" where
  "node_depth (Node b k) =
     (case k of Subflow (Some g) c \<Rightarrow> Suc (graph_depth g)
      | Parallel gs c \<Rightarrow> Suc (max_list (map graph_depth gs))
      | _ \<Rightarrow> 0)"
| "graph_depth (Graph e ns m h r l) = max_list (map (\<lambda>p. node_depth (snd p)) ns)"

lemma max_list_le: "x \<in> set xs \<Longrightarrow> x \<le> max_list xs"
  by (induction xs) (auto simp: le_max_iff_disj)

lemma node_depth_le: "g_node g i = Some n \<Longrightarrow> node_depth n \<le> graph_depth g"
  by (cases g) (force dest!: map_of_SomeD intro!: max_list_le)

text \<open>The graphs nested in a node.\<close>

definition nested :: "node \<Rightarrow> graph list" where
  "nested n = (case nd_kind n of Subflow (Some g) c \<Rightarrow> [g] | Parallel gs c \<Rightarrow> gs | _ \<Rightarrow> [])"

fun subgraphs :: "node \<Rightarrow> graph set" where
  "subgraphs (Node b k) = (case k of Subflow (Some g) c \<Rightarrow> {g} | Parallel gs c \<Rightarrow> set gs | _ \<Rightarrow> {})"

lemma subgraphs_depth: "sg \<in> subgraphs nd \<Longrightarrow> graph_depth sg < node_depth nd"
  by (cases nd) (auto split: node_kind.splits option.splits simp: less_Suc_eq_le intro: max_list_le)

lemma set_nested: "set (nested n) = subgraphs n"
  by (cases n) (auto simp: nested_def split: node_kind.splits option.splits)

definition truthy_str :: "string option \<Rightarrow> bool" where
  "truthy_str s \<longleftrightarrow> s \<noteq> None \<and> s \<noteq> Some []"

text \<open>\<^verbatim>\<open>a or b\<close> of optional texts.\<close>

definition str_or :: "string option \<Rightarrow> string option \<Rightarrow> string option" where
  "str_or a b = (if truthy_str a then a else b)"

section \<open>Facts\<close>

lemma status_of_value [simp]: "status_of (status_value s) = Some s"
  by (cases s) (auto simp: status_of_def)

lemma signal_of_value [simp]: "signal_of (signal_value s) = Some s"
  by (cases s) (auto simp: signal_of_def)

lemma str_keys_str_dict [simp]: "str_keys (map (\<lambda>(k, v). (KS k, v)) d) = Some d"
  by (induction d) auto

lemma py_as_dict_str_dict [simp]: "py_as_dict (str_dict d) = Some d"
  by (simp add: str_dict_def)

lemma py_as_opt_str_opt [simp]: "py_as_opt_str (opt_str v) = Some v"
  by (cases v) (auto simp: opt_str_def)

lemma redact_keeps_keys: "redact_sensitive_value (PDict d) = PDict e \<Longrightarrow> map fst e = map fst d"
  by (auto simp: o_def case_prod_beta)

text \<open>The redacted text of a value of a sensitive key shows at most two characters at each end.\<close>

fun masked :: "py \<Rightarrow> bool" where
  "masked (PStr s) = (s = ''***'' \<or> (length s = 7 \<and> take 3 (drop 2 s) = ''***''))"
| "masked (PDict d) = list_all (\<lambda>(k, v). (case v of PStr s \<Rightarrow> sensitive_key k \<longrightarrow> masked v | _ \<Rightarrow> masked v)) d"
| "masked (PList xs) = list_all masked xs"
| "masked v = True"

section \<open>Properties\<close>

text \<open>
  Redaction: in a redacted dictionary, however deep, the text under a sensitive key and
  every text in a list is masked down to two characters at each end, and the keys stay.
\<close>

theorem redaction_masks: "masked (redact_dict d)"
proof -
  have "masked (redact_sensitive_value v)" for v
  proof (induction v rule: redact_sensitive_value.induct)
    case (2 d)
    show ?case
    proof (simp add: list_all_iff, intro ballI)
      fix p assume p: "p \<in> set d"
      obtain k v where kv: "p = (k, v)" by fastforce
      have "masked (redact_sensitive_value v)" if "sensitive_key k"
        using 2 p kv that by (auto split: py.splits)
      moreover have "masked (redact_sensitive_value v)" if "\<not> sensitive_key k" "v = PDict e \<or> v = PList f" for e f
        using 2 p kv that by (auto split: py.splits)
      ultimately show "case case p of (k, v) \<Rightarrow> (k, if sensitive_key k then redact_sensitive_value v
         else (case v of PDict e \<Rightarrow> redact_sensitive_value v | PList e \<Rightarrow> redact_sensitive_value v | _ \<Rightarrow> v)) of
         (k, v) \<Rightarrow> (case v of PStr s \<Rightarrow> sensitive_key k \<longrightarrow> masked v | _ \<Rightarrow> masked v)"
        using kv by (cases v; cases "sensitive_key k") auto
    qed
  qed (auto simp: list_all_iff)
  then show ?thesis by (simp add: redact_dict_def split: py.splits)
qed

text \<open>
  Round trip: a step outcome read back from its serialised form is the outcome, with its
  error as a \<^verbatim>\<open>RuntimeError\<close> of the same text and an error with no text lost.
\<close>

theorem step_outcome_roundtrip:
  "so_from_dict (so_to_dict False so) = Some (so\<lparr>so_error :=
     (case so_error so of None \<Rightarrow> None | Some e \<Rightarrow> if ex_message e = [] then None
       else Some (exc_of ''RuntimeError'' (ex_message e)))\<rparr>)"
  by (cases "so_error so") (auto simp: so_from_dict_def so_to_dict_def get_default_def py_float_def)

end
