(* ===== verification/Flow_Context.thy ===== *)
theory Flow_Context
  imports Flow_Models
begin

text \<open>
  \<^verbatim>\<open>tg_signer/core/flow_context.py\<close>: the scoped context of a flow run (system, account,
  variables, steps), the operation receipts, the paths into the scopes, and the evaluator of
  conditions. An exception an operation raises is \<open>Inl\<close>. The regular expression engine is the
  field \<open>re_search\<close> of an environment; template rendering is not modelled. The context holds
  the node under \<^verbatim>\<open>system["last_action_node"]\<close> in a field of its own, with an opaque object
  under that key. \<open>eval_cond\<close> is the recursion of \<^verbatim>\<open>eval_condition\<close> on the parts of a compound
  expression, whose scope is built once here because no part changes the context.
\<close>

record re_match =
  rm_groups :: "string option list"
  rm_named :: "(string, string option) odict"

datatype re_result = ReError string | NoMatch | Matched re_match

record py_env =
  re_search :: "string \<Rightarrow> string \<Rightarrow> re_result"
  py_fr :: "py \<Rightarrow> string"

section \<open>Splitting outside quotes and parentheses\<close>

fun push_char :: "char \<Rightarrow> string list \<Rightarrow> string list" where
  "push_char c [] = [[c]]"
| "push_char c (p # ps) = (c # p) # ps"

text \<open>The scan of \<^verbatim>\<open>_split_top_level\<close> from one index on: \<open>left\<close> splits are left (\<open>None\<close>: any
  number), \<open>quote\<close> is the open quote and \<open>depth\<close> the open parentheses. The separators are not
  empty.\<close>

fun split_scan :: "string \<Rightarrow> nat option \<Rightarrow> char option \<Rightarrow> nat \<Rightarrow> string \<Rightarrow> string list" where
  "split_scan sep left quote depth [] = [[]]"
| "split_scan sep left quote depth (c # cs) =
     (case quote of
        Some q \<Rightarrow> push_char c (split_scan sep left (if c = q then None else quote) depth cs)
      | None \<Rightarrow>
        if c = CHR 0x27 \<or> c = CHR 0x22 then push_char c (split_scan sep left (Some c) depth cs)
        else if c = CHR ''('' then push_char c (split_scan sep left None (Suc depth) cs)
        else if c = CHR '')'' then push_char c (split_scan sep left None (depth - 1) cs)
        else if depth = 0 \<and> left \<noteq> Some 0 \<and> startswith (c # cs) sep
             then [] # split_scan sep (map_option (\<lambda>n. n - 1) left) None 0 (drop (length sep - 1) cs)
        else push_char c (split_scan sep left None depth cs))"

definition split_top_level :: "string \<Rightarrow> string \<Rightarrow> nat option \<Rightarrow> string list" where
  "split_top_level expr sep maxsplit = split_scan sep maxsplit None 0 expr"

section \<open>The context\<close>

record flow_ctx =
  fc_system :: pydict
  fc_last_action :: "node option"
  fc_account :: pydict
  fc_vars :: pydict
  fc_outcomes :: "(string, step_outcome) odict"
  fc_history :: "step_outcome list"
  fc_last_output :: string
  fc_topic_outputs :: "(int \<times> int, string) odict"
  fc_receipts :: "op_receipt list"
  fc_last_received :: string
  fc_targets :: "target_message list"
  fc_side_effect :: bool

definition ctx_new :: "pydict \<Rightarrow> pydict \<Rightarrow> flow_ctx" where
  "ctx_new system account = \<lparr>fc_system = system, fc_last_action = None, fc_account = account, fc_vars = [],
     fc_outcomes = [], fc_history = [], fc_last_output = [], fc_topic_outputs = [], fc_receipts = [],
     fc_last_received = [], fc_targets = [], fc_side_effect = False\<rparr>"

definition begin_operation :: "string \<Rightarrow> string \<Rightarrow> int \<Rightarrow> string \<Rightarrow> flow_ctx \<Rightarrow> flow_ctx" where
  "begin_operation oid nid attempt kind c =
     c\<lparr>fc_receipts := fc_receipts c @ [receipt_new oid nid attempt kind]\<rparr>"

text \<open>The receipt an operation id stands for is the latest one; an update changes that one.\<close>

definition get_operation_receipt :: "string \<Rightarrow> flow_ctx \<Rightarrow> op_receipt option" where
  "get_operation_receipt oid c = List.find (\<lambda>r. or_operation_id r = oid) (rev (fc_receipts c))"

fun update_first :: "('a \<Rightarrow> bool) \<Rightarrow> ('a \<Rightarrow> 'a) \<Rightarrow> 'a list \<Rightarrow> 'a list" where
  "update_first P f [] = []"
| "update_first P f (x # xs) = (if P x then f x # xs else x # update_first P f xs)"

definition update_receipt :: "string \<Rightarrow> (op_receipt \<Rightarrow> op_receipt) \<Rightarrow> flow_ctx \<Rightarrow> exc + flow_ctx" where
  "update_receipt oid f c =
     (case get_operation_receipt oid c of None \<Rightarrow> Inl (exc_of ''KeyError'' oid)
      | Some r \<Rightarrow> Inr (c\<lparr>fc_receipts := rev (update_first (\<lambda>r. or_operation_id r = oid) f (rev (fc_receipts c)))\<rparr>))"

definition mark_operation_attempted :: "string \<Rightarrow> string option \<Rightarrow> flow_ctx \<Rightarrow> exc + flow_ctx" where
  "mark_operation_attempted oid remote c =
     update_receipt oid (\<lambda>r. r\<lparr>or_state := OpAttempted, or_remote_id := remote\<rparr>) c"

definition mark_operation_confirmed :: "string \<Rightarrow> pydict \<Rightarrow> flow_ctx \<Rightarrow> exc + flow_ctx" where
  "mark_operation_confirmed oid evidence c =
     update_receipt oid (\<lambda>r. r\<lparr>or_state := OpConfirmed, or_evidence := evidence\<rparr>) c"

definition set_last_output :: "string \<Rightarrow> int option \<Rightarrow> int option \<Rightarrow> flow_ctx \<Rightarrow> flow_ctx" where
  "set_last_output out chat thread c =
     (case (chat, thread) of
        (Some i, Some t) \<Rightarrow> c\<lparr>fc_topic_outputs := AList.update (i, t) out (fc_topic_outputs c)\<rparr>
      | _ \<Rightarrow> c\<lparr>fc_last_output := out\<rparr>)"

definition get_last_output :: "int option \<Rightarrow> int option \<Rightarrow> flow_ctx \<Rightarrow> string" where
  "get_last_output chat thread c =
     (case (chat, thread) of
        (Some i, Some t) \<Rightarrow> (case map_of (fc_topic_outputs c) (i, t) of None \<Rightarrow> [] | Some s \<Rightarrow> s)
      | _ \<Rightarrow> fc_last_output c)"

definition set_var :: "string \<Rightarrow> py \<Rightarrow> flow_ctx \<Rightarrow> flow_ctx" where
  "set_var k v c = c\<lparr>fc_vars := AList.update k v (fc_vars c)\<rparr>"

definition get_var :: "string \<Rightarrow> py \<Rightarrow> flow_ctx \<Rightarrow> py" where
  "get_var k dflt c = get_default (fc_vars c) k dflt"

definition has_var :: "string \<Rightarrow> flow_ctx \<Rightarrow> bool" where
  "has_var k c \<longleftrightarrow> map_of (fc_vars c) k \<noteq> None"

definition update_dict :: "('k, 'v) odict \<Rightarrow> ('k, 'v) odict \<Rightarrow> ('k, 'v) odict" where
  "update_dict d e = fold (\<lambda>(k, v). AList.update k v) e d"

definition record_step_outcome :: "step_outcome \<Rightarrow> flow_ctx \<Rightarrow> flow_ctx" where
  "record_step_outcome so c =
     (let c1 = c\<lparr>fc_outcomes := AList.update (so_node_id so) so (fc_outcomes c),
                 fc_history := fc_history c @ [so]\<rparr>;
          c2 = (if so_output so \<noteq> [] \<and> so_updates so then c1\<lparr>fc_last_output := so_output so\<rparr> else c1)
      in if so_extracted so \<noteq> [] then c2\<lparr>fc_vars := update_dict (fc_vars c2) (so_extracted so)\<rparr> else c2)"

section \<open>Scopes and paths\<close>

definition step_obj :: "step_outcome \<Rightarrow> py" where
  "step_obj so = str_dict (update_dict
     [(''output'', PStr (so_output so)), (''status'', PStr (status_value (so_status so))),
      (''matched_terminal'', PBool (so_matched_terminal so))] (so_extracted so))"

fun steps_dict :: "nat \<Rightarrow> step_outcome list \<Rightarrow> pydict \<Rightarrow> pydict" where
  "steps_dict i [] d = d"
| "steps_dict i (so # sos) d =
     steps_dict (Suc i) sos (AList.update (str_nat i) (step_obj so) (AList.update (so_node_id so) (step_obj so) d))"

definition build_scope_dict :: "string \<Rightarrow> flow_ctx \<Rightarrow> py" where
  "build_scope_dict default_output c =
     (let out = (if fc_last_output c \<noteq> [] then fc_last_output c else default_output);
          steps = str_dict (steps_dict 1 (map snd (fc_outcomes c)) [])
      in str_dict [(''system'', str_dict (fc_system c)), (''account'', str_dict (fc_account c)),
           (''vars'', str_dict (fc_vars c)), (''steps'', steps), (''step'', steps),
           (''prev'', str_dict [(''output'', PStr out)]), (''last_output'', PStr out),
           (''last_received_text'', PStr (fc_last_received c))])"

definition value_error :: "string \<Rightarrow> exc" where
  "value_error s = exc_of ''ValueError'' (''invalid literal for int() with base 10: '' @ repr_str s)"

fun resolve_tokens :: "py \<Rightarrow> string list \<Rightarrow> exc + py" where
  "resolve_tokens cur [] = Inr cur"
| "resolve_tokens cur (t # ts) =
     (case cur of
        PDict d \<Rightarrow>
          (case map_of d (KS t) of
             Some v \<Rightarrow> resolve_tokens v ts
           | None \<Rightarrow>
             if py_isdigit t then
               (case int_of_digits t of None \<Rightarrow> Inl (value_error t)
                | Some i \<Rightarrow> (case map_of d (KI i) of Some v \<Rightarrow> resolve_tokens v ts | None \<Rightarrow> Inr PNone))
             else Inr PNone)
      | PList xs \<Rightarrow>
          if py_isdigit t then
            (case int_of_digits t of None \<Rightarrow> Inl (value_error t)
             | Some i \<Rightarrow> if 0 \<le> i \<and> nat i < length xs then resolve_tokens (xs ! nat i) ts else Inr PNone)
          else Inr PNone
      | _ \<Rightarrow> Inr PNone)"

definition resolve_path :: "py \<Rightarrow> string \<Rightarrow> exc + py" where
  "resolve_path data path = resolve_tokens data (split_on CHR ''.'' path)"

definition ctx_get :: "string \<Rightarrow> py \<Rightarrow> flow_ctx \<Rightarrow> exc + py" where
  "ctx_get path dflt c =
     (case resolve_path (build_scope_dict [] c) path of
        Inl e \<Rightarrow> Inl e | Inr v \<Rightarrow> Inr (if v \<noteq> PNone then v else dflt))"

section \<open>Operands\<close>

definition quoted_by :: "char \<Rightarrow> string \<Rightarrow> bool" where
  "quoted_by q s \<longleftrightarrow> startswith s [q] \<and> endswith s [q]"

definition eval_operand :: "py \<Rightarrow> string \<Rightarrow> exc + py" where
  "eval_operand sc raw_part =
     (let text = py_strip raw_part; low = py_lower text;
          is_int = py_isdigit text \<or> (startswith text ''-'' \<and> py_isdigit (tl text));
          as_int = (if startswith text ''-'' then map_option uminus (int_of_digits (tl text)) else int_of_digits text)
      in if text = [] then Inr (PStr [])
         else if quoted_by CHR 0x27 text \<or> quoted_by CHR 0x22 text then Inr (PStr (butlast (tl text)))
         else if low = ''true'' then Inr (PBool True)
         else if low = ''false'' then Inr (PBool False)
         else if low = ''none'' \<or> low = ''null'' then Inr PNone
         else if is_int \<and> as_int \<noteq> None then Inr (PInt (the as_int))
         else (case parse_float text of
                 Some f \<Rightarrow> Inr (PFloat f)
               | None \<Rightarrow>
                 (case resolve_path sc text of
                    Inl e \<Rightarrow> Inl e
                  | Inr v \<Rightarrow> Inr (if v \<noteq> PNone then v else PStr text))))"

section \<open>Comparisons of two operands\<close>

text \<open>A rule that applies to an expression gives \<open>Some\<close> of its value.\<close>

type_synonym rule = "(exc + bool) option"

definition on_operands :: "py \<Rightarrow> string \<Rightarrow> string \<Rightarrow> (py \<Rightarrow> py \<Rightarrow> bool) \<Rightarrow> rule" where
  "on_operands sc expr sep f =
     (if \<not> py_contains sep expr then None
      else (case split_top_level expr sep (Some 1) of
         [a, b] \<Rightarrow> Some (case eval_operand sc a of Inl e \<Rightarrow> Inl e
           | Inr v \<Rightarrow> (case eval_operand sc b of Inl e \<Rightarrow> Inl e | Inr w \<Rightarrow> Inr (f v w)))
       | _ \<Rightarrow> None))"

definition contains_value :: "py_env \<Rightarrow> py \<Rightarrow> py \<Rightarrow> bool" where
  "contains_value env target src =
     (case src of PList xs \<Rightarrow> py_mem target xs
      | _ \<Rightarrow> py_contains (py_str (py_fr env) target) (py_str (py_fr env) src))"

text \<open>The first operator of a group that occurs decides, even when its split fails.\<close>

fun op_group :: "py \<Rightarrow> string \<Rightarrow> (string \<times> (py \<Rightarrow> py \<Rightarrow> bool)) list \<Rightarrow> rule" where
  "op_group sc expr [] = None"
| "op_group sc expr ((sep, f) # ops) =
     (if py_contains sep expr then on_operands sc expr sep f else op_group sc expr ops)"

definition rule_in :: "py_env \<Rightarrow> py \<Rightarrow> string \<Rightarrow> rule" where
  "rule_in env sc expr = op_group sc expr
     [('' not in '', \<lambda>t s. \<not> contains_value env t s), ('' in '', \<lambda>t s. contains_value env t s)]"

definition rule_contains :: "py_env \<Rightarrow> py \<Rightarrow> string \<Rightarrow> rule" where
  "rule_contains env sc expr = op_group sc expr
     [('' not contains '', \<lambda>s t. \<not> contains_value env t s), ('' contains '', \<lambda>s t. contains_value env t s)]"

definition str_or_empty :: "py_env \<Rightarrow> py \<Rightarrow> string" where
  "str_or_empty env v = (if py_truthy v then py_str (py_fr env) v else [])"

definition rule_matches :: "py_env \<Rightarrow> py \<Rightarrow> string \<Rightarrow> rule" where
  "rule_matches env sc expr = on_operands sc expr '' matches ''
     (\<lambda>s p. case re_search env (str_or_empty env p) (str_or_empty env s) of Matched m \<Rightarrow> True | _ \<Rightarrow> False)"

definition num_compare :: "(pyfloat \<Rightarrow> pyfloat \<Rightarrow> bool) \<Rightarrow> py \<Rightarrow> py \<Rightarrow> bool" where
  "num_compare f v w = (case (py_float v, py_float w) of (Some a, Some b) \<Rightarrow> f a b | _ \<Rightarrow> False)"

definition rule_order :: "py \<Rightarrow> string \<Rightarrow> rule" where
  "rule_order sc expr = op_group sc expr
     [('' >= '', num_compare (\<lambda>a b. fl_le b a)), ('' <= '', num_compare fl_le),
      ('' > '', num_compare (\<lambda>a b. fl_less b a)), ('' < '', num_compare fl_less)]"

definition is_bool :: "py \<Rightarrow> bool" where
  "is_bool v = (case v of PBool b \<Rightarrow> True | _ \<Rightarrow> False)"

definition loose_eq :: "py_env \<Rightarrow> py \<Rightarrow> py \<Rightarrow> bool" where
  "loose_eq env v w =
     (if num_of v \<noteq> None \<and> num_of w \<noteq> None then py_eq v w
      else if is_bool v \<or> is_bool w then py_truthy v = py_truthy w
      else py_str (py_fr env) v = py_str (py_fr env) w)"

definition rule_equal :: "py_env \<Rightarrow> py \<Rightarrow> string \<Rightarrow> rule" where
  "rule_equal env sc expr = on_operands sc expr '' == '' (loose_eq env)"

definition rule_differ :: "py_env \<Rightarrow> py \<Rightarrow> string \<Rightarrow> rule" where
  "rule_differ env sc expr = on_operands sc expr '' != '' (\<lambda>v w. \<not> loose_eq env v w)"

definition path_truth :: "py \<Rightarrow> string \<Rightarrow> exc + bool" where
  "path_truth sc path = (case resolve_path sc path of Inl e \<Rightarrow> Inl e | Inr v \<Rightarrow> Inr (py_truthy v))"

definition negate :: "exc + bool \<Rightarrow> exc + bool" where
  "negate r = (case r of Inl e \<Rightarrow> Inl e | Inr b \<Rightarrow> Inr (\<not> b))"

definition rule_truth :: "py \<Rightarrow> string \<Rightarrow> exc + bool" where
  "rule_truth sc expr =
     (if startswith expr ''!'' then negate (path_truth sc (py_strip (drop 1 expr)))
      else if startswith expr ''not '' then negate (path_truth sc (py_strip (drop 4 expr)))
      else if expr \<noteq> [] then path_truth sc expr else Inr True)"

fun first_rule :: "rule list \<Rightarrow> exc + bool \<Rightarrow> exc + bool" where
  "first_rule [] dflt = dflt"
| "first_rule (None # rs) dflt = first_rule rs dflt"
| "first_rule (Some r # rs) dflt = r"

definition eval_simple :: "py_env \<Rightarrow> py \<Rightarrow> string \<Rightarrow> exc + bool" where
  "eval_simple env sc expr =
     first_rule [rule_in env sc expr, rule_contains env sc expr, rule_matches env sc expr,
                 rule_order sc expr, rule_equal env sc expr, rule_differ env sc expr]
                (rule_truth sc expr)"

section \<open>Compound expressions\<close>

text \<open>The scan that tells whether the first parenthesis closes only at the end: the flag and the
  depth after \<^verbatim>\<open>expr[:-1]\<close>.\<close>

fun outer_scan :: "nat \<Rightarrow> string \<Rightarrow> bool \<times> nat" where
  "outer_scan depth [] = (True, depth)"
| "outer_scan depth (c # cs) =
     (if c = CHR ''('' then outer_scan (Suc depth) cs
      else if c = CHR '')'' then (if depth \<le> 1 then (False, 0) else outer_scan (depth - 1) cs)
      else outer_scan depth cs)"

function strip_parens :: "string \<Rightarrow> string" where
  "strip_parens expr =
     (if startswith expr ''('' \<and> endswith expr '')'' \<and> outer_scan 0 (butlast expr) = (True, 1)
      then strip_parens (py_strip (butlast (tl expr))) else expr)"
  by auto
termination
proof (relation "measure length")
  fix expr
  assume "startswith expr ''('' \<and> endswith expr '')'' \<and> outer_scan 0 (butlast expr) = (True, 1)"
  then have "expr \<noteq> []" by (auto simp: startswith_def)
  then show "(py_strip (butlast (tl expr)), expr) \<in> measure length"
    using length_py_strip [of "butlast (tl expr)"] by (cases expr) auto
qed simp

declare strip_parens.simps [simp del]

lemma length_strip_parens: "length (strip_parens s) \<le> length s"
proof (induction s rule: strip_parens.induct)
  case (1 s)
  show ?case
  proof (cases "startswith s ''('' \<and> endswith s '')'' \<and> outer_scan 0 (butlast s) = (True, 1)")
    case True
    then have "length (strip_parens s) \<le> length (py_strip (butlast (tl s)))"
      using 1 by (simp add: strip_parens.simps [of s])
    also have "\<dots> \<le> length (butlast (tl s))" by (rule length_py_strip)
    also have "\<dots> \<le> length s" by simp
    finally show ?thesis .
  next
    case False
    show ?thesis by (subst strip_parens.simps, subst if_not_P [OF False]) simp
  qed
qed

lemma join_push_char: "ps \<noteq> [] \<Longrightarrow> join_with sep (push_char c ps) = c # join_with sep ps"
  by (cases ps; cases "tl ps") auto

lemma push_char_nonempty [simp]: "push_char c ps \<noteq> []"
  by (cases ps) auto

lemma split_scan_nonempty [simp]: "split_scan sep left quote depth s \<noteq> []"
  by (cases s) (auto split: option.splits)

lemma startswith_split:
  "startswith (c # cs) sep \<Longrightarrow> sep \<noteq> [] \<Longrightarrow> c # cs = sep @ drop (length sep - 1) cs"
  by (cases sep) (auto simp: startswith_append)

lemma join_split_scan: "sep \<noteq> [] \<Longrightarrow> join_with sep (split_scan sep left quote depth s) = s"
proof (induction sep left quote depth s rule: split_scan.induct)
  case (2 sep left quote depth c cs)
  have sep: "join_with sep ([] # ps) = sep @ join_with sep ps" if "ps \<noteq> []" for ps
    using that by (cases ps) auto
  show ?case
  proof (cases quote)
    case (Some q)
    then show ?thesis using "2.IH"(6) [OF Some] "2.prems" Some by (cases "c = q") (simp_all add: join_push_char)
  next
    case None
    note [simp] = None join_push_char
    show ?thesis
    proof (cases "c = CHR 0x27 \<or> c = CHR 0x22")
      case True
      then show ?thesis using "2.IH"(1) [OF None True] "2.prems" by simp
    next
      case q: False
      show ?thesis
      proof (cases "c = CHR ''('' \<or> c = CHR '')''")
        case True
        then show ?thesis using "2.IH"(2) [OF None q] "2.IH"(3) [OF None q] "2.prems" by auto
      next
        case p: False
        then have p: "c \<noteq> CHR ''(''" "c \<noteq> CHR '')''" by auto
        show ?thesis
        proof (cases "depth = 0 \<and> left \<noteq> Some 0 \<and> startswith (c # cs) sep")
          case True
          then have "join_with sep (split_scan sep left quote depth (c # cs)) = sep @ drop (length sep - 1) cs"
            using "2.IH"(4) [OF None q p True] "2.prems" p q by (simp add: sep)
          also have "\<dots> = c # cs" using True "2.prems" startswith_split [of c cs sep] by simp
          finally show ?thesis .
        next
          case False
          then show ?thesis using "2.IH"(5) [OF None q p False] "2.prems" p q by (simp del: de_Morgan_conj)
        qed
      qed
    qed
  qed
qed simp

lemma length_push_char: "ps \<noteq> [] \<Longrightarrow> length (push_char c ps) = length ps"
  by (cases ps) auto

lemma split_scan_count: "left = Some n \<Longrightarrow> length (split_scan sep left quote depth s) \<le> Suc n"
proof (induction sep left quote depth s arbitrary: n rule: split_scan.induct)
  case (2 sep left quote depth c cs)
  note [simp] = length_push_char
  show ?case
  proof (cases quote)
    case (Some q)
    then show ?thesis using "2.IH"(6) [OF Some] "2.prems" Some by (cases "c = q") simp_all
  next
    case None
    note [simp] = None
    show ?thesis
    proof (cases "c = CHR 0x27 \<or> c = CHR 0x22")
      case True
      then show ?thesis using "2.IH"(1) [OF None True] "2.prems" by simp
    next
      case q: False
      show ?thesis
      proof (cases "c = CHR ''('' \<or> c = CHR '')''")
        case True
        then show ?thesis using "2.IH"(2) [OF None q] "2.IH"(3) [OF None q] "2.prems" by auto
      next
        case p: False
        then have p: "c \<noteq> CHR ''(''" "c \<noteq> CHR '')''" by auto
        show ?thesis
        proof (cases "depth = 0 \<and> left \<noteq> Some 0 \<and> startswith (c # cs) sep")
          case True
          then show ?thesis using "2.IH"(4) [OF None q p True, of "n - 1"] "2.prems" p q by (cases n) simp_all
        next
          case False
          then show ?thesis using "2.IH"(5) [OF None q p False] "2.prems" p q by (simp del: de_Morgan_conj)
        qed
      qed
    qed
  qed
qed simp

lemma join_with_part: "x \<in> set ps \<Longrightarrow> length ps > 1 \<Longrightarrow> sep \<noteq> [] \<Longrightarrow> length x < length (join_with sep ps)"
proof (induction sep ps rule: join_with.induct)
  case (3 sep x y zs)
  then show ?case by (cases zs) (auto simp: less_Suc_eq_le trans_le_add2 intro: trans_less_add2)
qed auto

lemma split_top_level_part:
  "x \<in> set (split_top_level expr sep m) \<Longrightarrow> length (split_top_level expr sep m) > 1 \<Longrightarrow> sep \<noteq> [] \<Longrightarrow>
   length x < length expr"
  using join_with_part [of x "split_top_level expr sep m" sep]
  by (simp add: split_top_level_def join_split_scan)

fun any_res :: "('a \<Rightarrow> exc + bool) \<Rightarrow> 'a list \<Rightarrow> exc + bool" where
  "any_res f [] = Inr False"
| "any_res f (x # xs) = (case f x of Inl e \<Rightarrow> Inl e | Inr True \<Rightarrow> Inr True | Inr False \<Rightarrow> any_res f xs)"

fun all_res :: "('a \<Rightarrow> exc + bool) \<Rightarrow> 'a list \<Rightarrow> exc + bool" where
  "all_res f [] = Inr True"
| "all_res f (x # xs) = (case f x of Inl e \<Rightarrow> Inl e | Inr True \<Rightarrow> all_res f xs | Inr False \<Rightarrow> Inr False)"

lemma any_res_cong [fundef_cong]: "xs = ys \<Longrightarrow> (\<And>x. x \<in> set ys \<Longrightarrow> f x = g x) \<Longrightarrow> any_res f xs = any_res g ys"
  by (induction xs arbitrary: ys) (auto split: sum.splits bool.splits)

lemma all_res_cong [fundef_cong]: "xs = ys \<Longrightarrow> (\<And>x. x \<in> set ys \<Longrightarrow> f x = g x) \<Longrightarrow> all_res f xs = all_res g ys"
  by (induction xs arbitrary: ys) (auto split: sum.splits bool.splits)

text \<open>The compound parts of an expression with the outer parentheses stripped.\<close>

datatype parts = PNot string | POr "string list" | PAnd "string list" | PSimple string

definition compound :: "string \<Rightarrow> parts" where
  "compound x =
     (if startswith x ''not '' \<and> startswith (py_strip (drop 4 x)) ''('' then PNot (py_strip (drop 4 x))
      else if startswith x ''!'' \<and> startswith (py_strip (drop 1 x)) ''('' then PNot (py_strip (drop 1 x))
      else (let ors = split_top_level x '' or '' None; ands = split_top_level x '' and '' None
            in if py_contains '' or '' x \<and> length ors > 1 then POr (map py_strip ors)
               else if py_contains '' and '' x \<and> length ands > 1 then PAnd (map py_strip ands)
               else PSimple x))"

fun parts_of :: "parts \<Rightarrow> string set" where
  "parts_of (PNot s) = {s}"
| "parts_of (POr ss) = set ss"
| "parts_of (PAnd ss) = set ss"
| "parts_of (PSimple s) = {}"

lemma startswith_length: "startswith x p \<Longrightarrow> length p \<le> length x"
  by (auto simp: startswith_append)

lemma strip_less: "length u < n \<Longrightarrow> length (py_strip u) < n"
  using length_py_strip [of u] by simp

lemma compound_smaller: "s \<in> parts_of (compound x) \<Longrightarrow> length s < length x"
  using startswith_length [of x "''not ''"] startswith_length [of x "''!''"]
  by (auto simp: compound_def Let_def intro!: strip_less intro: split_top_level_part split: if_splits)

function eval_cond :: "py_env \<Rightarrow> py \<Rightarrow> string \<Rightarrow> exc + bool" where
  "eval_cond env sc expr =
     (if expr = [] then Inr True
      else (case compound (strip_parens (py_strip expr)) of
              PNot s \<Rightarrow> negate (eval_cond env sc s)
            | POr ss \<Rightarrow> any_res (eval_cond env sc) ss
            | PAnd ss \<Rightarrow> all_res (eval_cond env sc) ss
            | PSimple x \<Rightarrow> eval_simple env sc x))"
  by auto
termination
proof (relation "measure (\<lambda>(env, sc, expr). length expr)")
  have le: "length s < length (expr :: string)" if "s \<in> parts_of (compound (strip_parens (py_strip expr)))" for s expr
    using compound_smaller [OF that] length_strip_parens [of "py_strip expr"] length_py_strip [of expr] by simp
  show "((env, sc, s), env, sc, expr) \<in> measure (\<lambda>(env, sc, expr). length expr)"
    if "compound (strip_parens (py_strip expr)) = PNot s" for env sc expr s
    using le [of s expr] that by simp
  show "((env, sc, s), env, sc, expr) \<in> measure (\<lambda>(env, sc, expr). length expr)"
    if "compound (strip_parens (py_strip expr)) = POr ss" "s \<in> set ss" for env sc expr s ss
    using le [of s expr] that by simp
  show "((env, sc, s), env, sc, expr) \<in> measure (\<lambda>(env, sc, expr). length expr)"
    if "compound (strip_parens (py_strip expr)) = PAnd ss" "s \<in> set ss" for env sc expr s ss
    using le [of s expr] that by simp
qed auto

declare eval_cond.simps [simp del]

definition eval_condition :: "py_env \<Rightarrow> string \<Rightarrow> string \<Rightarrow> flow_ctx \<Rightarrow> exc + bool" where
  "eval_condition env expr default_output c = eval_cond env (build_scope_dict default_output c) expr"

section \<open>Operation receipts\<close>

lemma find_update_same:
  "(\<And>x. P x \<Longrightarrow> P (f x)) \<Longrightarrow> List.find P (update_first P f xs) = map_option f (List.find P xs)"
  by (induction xs) auto

lemma find_update_other:
  "(\<And>x. P x \<Longrightarrow> \<not> Q x \<and> \<not> Q (f x)) \<Longrightarrow> List.find Q (update_first P f xs) = List.find Q xs"
  by (induction xs) auto

lemma length_update_first [simp]: "length (update_first P f xs) = length xs"
  by (induction xs) auto

lemma receipt_update:
  assumes "update_receipt oid f c = Inr c'" and "\<And>r. or_operation_id (f r) = or_operation_id r"
  shows "get_operation_receipt oid c' = map_option f (get_operation_receipt oid c)"
    and "j \<noteq> oid \<Longrightarrow> get_operation_receipt j c' = get_operation_receipt j c"
    and "length (fc_receipts c') = length (fc_receipts c)"
  using assms find_update_other [of "\<lambda>r. or_operation_id r = oid" "\<lambda>r. or_operation_id r = j" f "rev (fc_receipts c)"]
  by (auto simp: update_receipt_def get_operation_receipt_def find_update_same split: option.splits)

section \<open>Properties\<close>

text \<open>
  An attempt that is confirmed: the operation begun last under an id is the one marked
  attempted and confirmed; its receipt then carries the evidence and the remote id, and every
  other operation's receipt is untouched.
\<close>

theorem operation_confirmed:
  assumes "mark_operation_attempted oid remote (begin_operation oid nid att kind c) = Inr c1"
    and "mark_operation_confirmed oid evidence c1 = Inr c2"
  shows "get_operation_receipt oid c2 = Some ((receipt_new oid nid att kind)
      \<lparr>or_state := OpConfirmed, or_remote_id := remote, or_evidence := evidence\<rparr>)
    \<and> (\<forall>j. j \<noteq> oid \<longrightarrow> get_operation_receipt j c2 = get_operation_receipt j c)"
proof -
  have "get_operation_receipt oid (begin_operation oid nid att kind c) = Some (receipt_new oid nid att kind)"
    by (simp add: get_operation_receipt_def begin_operation_def receipt_new_def)
  moreover have "j \<noteq> oid \<Longrightarrow> get_operation_receipt j (begin_operation oid nid att kind c) = get_operation_receipt j c" for j
    by (simp add: get_operation_receipt_def begin_operation_def receipt_new_def)
  ultimately show ?thesis
    using receipt_update(1,2) [OF assms(1) [unfolded mark_operation_attempted_def]]
      receipt_update(1,2) [OF assms(2) [unfolded mark_operation_confirmed_def]] by simp
qed

theorem operation_confirmed_witness:
  "\<exists>c1 c2. mark_operation_attempted ''op'' (Some ''7'') (begin_operation ''op'' ''n'' 1 ''send'' (ctx_new [] [])) = Inr c1
    \<and> mark_operation_confirmed ''op'' [] c1 = Inr c2
    \<and> map_option or_state (get_operation_receipt ''op'' c2) = Some OpConfirmed"
proof -
  let ?c = "begin_operation ''op'' ''n'' 1 ''send'' (ctx_new [] [])"
  obtain c1 where c1: "mark_operation_attempted ''op'' (Some ''7'') ?c = Inr c1"
    by (simp add: mark_operation_attempted_def update_receipt_def get_operation_receipt_def begin_operation_def receipt_new_def ctx_new_def)
  then obtain c2 where c2: "mark_operation_confirmed ''op'' [] c1 = Inr c2"
    by (auto simp: mark_operation_attempted_def mark_operation_confirmed_def update_receipt_def
        get_operation_receipt_def begin_operation_def receipt_new_def ctx_new_def)
  from operation_confirmed [OF c1 c2] c1 c2 show ?thesis by auto
qed

end
