(* ===== verification/Flow_Conditions.thy ===== *)
theory Flow_Conditions
  imports Flow_Context
begin

text \<open>
  What the evaluator of \<open>Flow_Context\<close> makes of a written expression: a Boolean expression
  (\<open>bexp\<close>) over simple conditions, written with a pair of parentheses around each operand,
  evaluates to its Boolean value, whatever words and operators stand in the quoted texts of
  the simple conditions. The conditions hold no parentheses: the scan that strips the outer
  pair does not skip quoted ones (\<open>quoted_parenthesis_misread\<close>).
\<close>

section \<open>Scanning a written expression\<close>

fun end_quote :: "char option \<Rightarrow> string \<Rightarrow> char option" where
  "end_quote q [] = q"
| "end_quote None (c # cs) = end_quote (if c = CHR 0x27 \<or> c = CHR 0x22 then Some c else None) cs"
| "end_quote (Some q) (c # cs) = end_quote (if c = q then None else Some q) cs"

definition no_parens :: "string \<Rightarrow> bool" where
  "no_parens s \<longleftrightarrow> CHR ''('' \<notin> set s \<and> CHR '')'' \<notin> set s"

definition condition_ok :: "string \<Rightarrow> bool" where
  "condition_ok a \<longleftrightarrow> a \<noteq> [] \<and> py_strip a = a \<and> no_parens a \<and> end_quote None a = None \<and>
     split_top_level a '' or '' None = [a] \<and> split_top_level a '' and '' None = [a]"

text \<open>A text that is passed over inside parentheses.\<close>

definition passed :: "string \<Rightarrow> bool" where
  "passed w \<longleftrightarrow> (\<forall>sep left d rest. split_scan sep left None (Suc d) (w @ rest)
       = foldr push_char w (split_scan sep left None (Suc d) rest))
     \<and> (\<forall>d rest. outer_scan (Suc d) (w @ rest) = outer_scan (Suc d) rest)"

lemma split_scan_plain:
  "no_parens w \<Longrightarrow> split_scan sep left q (Suc d) (w @ rest) = foldr push_char w (split_scan sep left (end_quote q w) (Suc d) rest)"
proof (induction w arbitrary: q)
  case (Cons c w)
  then show ?case by (cases q) (auto simp: no_parens_def)
qed simp

lemma outer_scan_plain: "no_parens w \<Longrightarrow> outer_scan d (w @ rest) = outer_scan d rest"
  by (induction w) (auto simp: no_parens_def)

lemma passed_plain: "no_parens w \<Longrightarrow> end_quote None w = None \<Longrightarrow> passed w"
  by (simp add: passed_def split_scan_plain outer_scan_plain)

lemma passed_append: "passed u \<Longrightarrow> passed v \<Longrightarrow> passed (u @ v)"
  by (simp add: passed_def)

lemma passed_parens: "passed w \<Longrightarrow> passed (''('' @ w @ '')'')"
  by (simp add: passed_def)

lemma split_scan_parens:
  "passed w \<Longrightarrow> split_scan sep left None 0 (''('' @ w @ '')'' @ rest)
     = foldr push_char (''('' @ w @ '')'') (split_scan sep left None 0 rest)"
  by (simp add: passed_def)

lemma foldr_push: "foldr push_char w ([] # ps) = w # ps"
  by (induction w) auto

lemma foldr_push_one: "foldr push_char w (p # ps) = (w @ p) # ps"
  by (induction w) auto

section \<open>Written expressions\<close>

datatype bexp = BCond string | BNot bexp | BOr bexp bexp | BAnd bexp bexp

fun written :: "bexp \<Rightarrow> string" where
  "written (BCond a) = a"
| "written (BNot e) = ''not ('' @ written e @ '')''"
| "written (BOr a b) = ''('' @ written a @ '') or ('' @ written b @ '')''"
| "written (BAnd a b) = ''('' @ written a @ '') and ('' @ written b @ '')''"

fun conditions_ok :: "bexp \<Rightarrow> bool" where
  "conditions_ok (BCond a) = condition_ok a"
| "conditions_ok (BNot e) = conditions_ok e"
| "conditions_ok (BOr a b) = (conditions_ok a \<and> conditions_ok b)"
| "conditions_ok (BAnd a b) = (conditions_ok a \<and> conditions_ok b)"

fun bvalue :: "(string \<Rightarrow> exc + bool) \<Rightarrow> bexp \<Rightarrow> exc + bool" where
  "bvalue f (BCond a) = f a"
| "bvalue f (BNot e) = (case bvalue f e of Inl x \<Rightarrow> Inl x | Inr b \<Rightarrow> Inr (\<not> b))"
| "bvalue f (BOr a b) = (case bvalue f a of Inl x \<Rightarrow> Inl x | Inr True \<Rightarrow> Inr True | Inr False \<Rightarrow> bvalue f b)"
| "bvalue f (BAnd a b) = (case bvalue f a of Inl x \<Rightarrow> Inl x | Inr True \<Rightarrow> bvalue f b | Inr False \<Rightarrow> Inr False)"

lemma passed_written: "conditions_ok e \<Longrightarrow> passed (written e)"
proof (induction e)
  case (BNot e)
  then show ?case
    using passed_append [of "''not ''" "''('' @ written e @ '')''"] passed_parens [of "written e"]
    by (simp add: passed_plain no_parens_def)
next
  case (BOr a b)
  then show ?case
    using passed_append [of "''('' @ written a @ '')''" "'' or '' @ ''('' @ written b @ '')''"]
      passed_append [of "'' or ''" "''('' @ written b @ '')''"]
      passed_parens [of "written a"] passed_parens [of "written b"]
    by (simp add: passed_plain no_parens_def)
next
  case (BAnd a b)
  then show ?case
    using passed_append [of "''('' @ written a @ '')''" "'' and '' @ ''('' @ written b @ '')''"]
      passed_append [of "'' and ''" "''('' @ written b @ '')''"]
      passed_parens [of "written a"] passed_parens [of "written b"]
    by (simp add: passed_plain no_parens_def)
qed (auto simp: condition_ok_def passed_plain)

lemma py_strip_ends: "\<not> py_space c \<Longrightarrow> \<not> py_space d \<Longrightarrow> py_strip (c # u @ [d]) = c # u @ [d]"
  by (simp add: py_strip_def)

lemma written_strip: "conditions_ok e \<Longrightarrow> py_strip (written e) = written e \<and> written e \<noteq> []"
proof (cases e)
  case (BCond a)
  then show "conditions_ok e \<Longrightarrow> ?thesis" by (simp add: condition_ok_def)
next
  case (BNot a)
  then show ?thesis using py_strip_ends [of "CHR ''n''" "CHR '')''" "''ot ('' @ written a"]
    by (simp add: py_space_def)
next
  case (BOr a b)
  then show ?thesis
    using py_strip_ends [of "CHR ''(''" "CHR '')''" "written a @ '') or ('' @ written b"]
    by (simp add: py_space_def)
next
  case (BAnd a b)
  then show ?thesis
    using py_strip_ends [of "CHR ''(''" "CHR '')''" "written a @ '') and ('' @ written b"]
    by (simp add: py_space_def)
qed

lemma outer_scan_binary: "passed w \<Longrightarrow> outer_scan 0 (''('' @ w @ '')'' @ rest) = (False, 0)"
  by (simp add: passed_def)

lemma outer_scan_one: "passed w \<Longrightarrow> outer_scan 0 (''('' @ w) = (True, 1)"
proof -
  assume "passed w"
  then have "outer_scan (Suc 0) (w @ []) = outer_scan (Suc 0) []" unfolding passed_def by blast
  then show ?thesis by simp
qed

lemma strip_parens_other: "\<not> startswith s ''('' \<Longrightarrow> strip_parens s = s"
  by (subst strip_parens.simps) simp

lemma strip_parens_binary:
  "passed w \<Longrightarrow> r \<noteq> [] \<Longrightarrow> strip_parens (''('' @ w @ '')'' @ r) = ''('' @ w @ '')'' @ r"
  using outer_scan_binary [of w "butlast r"]
  by (subst strip_parens.simps) (simp add: butlast_append)

lemma strip_parens_pair:
  assumes "passed w" "py_strip w = w" "strip_parens w = w"
  shows "strip_parens (''('' @ w @ '')'') = w"
proof -
  have "startswith (''('' @ w @ '')'') ''(''" by (simp add: startswith_append)
  moreover have "endswith (''('' @ w @ '')'') '')''" by (simp add: endswith_def)
  moreover have "outer_scan 0 (butlast (''('' @ w @ '')'')) = (True, 1)"
    using outer_scan_one [OF assms(1)] by (simp add: butlast_append)
  ultimately show ?thesis using assms by (subst strip_parens.simps) (simp add: butlast_append)
qed

lemma no_parens_start: "no_parens s \<Longrightarrow> \<not> startswith s ''(''"
  by (auto simp: no_parens_def startswith_append)

lemma written_strip_parens: "conditions_ok e \<Longrightarrow> strip_parens (written e) = written e"
proof (cases e)
  case (BCond a)
  then show "conditions_ok e \<Longrightarrow> ?thesis"
    by (simp add: condition_ok_def strip_parens_other no_parens_start)
next
  case (BNot a)
  then show ?thesis by (simp add: strip_parens_other startswith_append)
next
  case (BOr a b)
  then show "conditions_ok e \<Longrightarrow> ?thesis"
    using strip_parens_binary [of "written a" "'' or ('' @ written b @ '')''"] passed_written [of a] by simp
next
  case (BAnd a b)
  then show "conditions_ok e \<Longrightarrow> ?thesis"
    using strip_parens_binary [of "written a" "'' and ('' @ written b @ '')''"] passed_written [of a] by simp
qed

section \<open>Its parts\<close>

lemma split_written_pair:
  assumes "passed u" "passed v" "\<not> startswith (op @ ''('' @ v @ '')'') sep"
    and "\<forall>k. 0 < k \<and> k < length op \<longrightarrow> \<not> startswith (drop k op @ ''('' @ v @ '')'') sep"
    and "no_parens op" "CHR 0x27 \<notin> set op" "CHR 0x22 \<notin> set op"
  shows "split_top_level (''('' @ u @ '')'' @ op @ ''('' @ v @ '')'') sep None = [''('' @ u @ '')'' @ op @ ''('' @ v @ '')'']"
proof -
  let ?v = "''('' @ v @ '')''"
  have v: "split_scan sep None None 0 ?v = [?v]"
    using split_scan_parens [OF assms(2), of sep None "[]"] by (simp add: foldr_push_one)
  have "split_scan sep None None 0 (w @ ?v) = [w @ ?v]"
    if "\<forall>k < length w. \<not> startswith (drop k w @ ?v) sep" "set w \<subseteq> set op" for w
    using that
  proof (induction w)
    case (Cons c w)
    have "split_scan sep None None 0 (w @ ?v) = [w @ ?v]"
      using Cons by (intro Cons.IH) (auto dest: spec [of _ "Suc _"])
    moreover have "\<not> startswith (c # w @ ?v) sep" using Cons.prems(1) by (auto dest: spec [of _ 0])
    moreover have "c \<notin> {CHR 0x27, CHR 0x22, CHR ''('', CHR '')''}"
      using Cons.prems assms(5-7) by (auto simp: no_parens_def)
    ultimately show ?case by simp
  qed (use v in simp)
  from this [of op] have "split_scan sep None None 0 (op @ ?v) = [op @ ?v]"
    using assms(3,4) by (metis append_self_conv2 drop0 gr0I order_refl)
  then show ?thesis
    using split_scan_parens [OF assms(1), of sep None "op @ ?v"] by (simp add: split_top_level_def foldr_push_one)
qed

lemma py_contains_mid: "py_contains op (''('' @ u @ '')'' @ op @ r)"
  unfolding py_contains_iff by (metis append.assoc)

lemma split_at_op:
  assumes "passed u" "passed v" "op = CHR '' '' # op'"
  shows "split_top_level (''('' @ u @ '')'' @ op @ ''('' @ v @ '')'') op None = [''('' @ u @ '')'', ''('' @ v @ '')'']"
proof -
  have "split_scan op None None 0 (''('' @ v @ '')'') = [''('' @ v @ '')'']"
    using split_scan_parens [OF assms(2), of op None "[]"] by (simp add: foldr_push_one)
  moreover have "startswith (op @ ''('' @ v @ '')'') op" by (simp add: startswith_def)
  ultimately have "split_scan op None None 0 (op @ ''('' @ v @ '')'') = [[], ''('' @ v @ '')'']"
    using assms(3) by simp
  then show ?thesis
    using split_scan_parens [OF assms(1), of op None "op @ ''('' @ v @ '')''"]
    by (simp add: split_top_level_def foldr_push_one)
qed

lemma pair_strip: "py_strip (''('' @ w @ '')'') = ''('' @ w @ '')''"
  using py_strip_ends [of "CHR ''(''" "CHR '')''" w] by (simp add: py_space_def)

lemma compound_not: "passed w \<Longrightarrow> compound (''not ('' @ w @ '')'') = PNot (''('' @ w @ '')'')"
proof -
  have "startswith (''not ('' @ w @ '')'') ''not ''" by (simp add: startswith_append)
  moreover have "py_strip (drop 4 (''not ('' @ w @ '')'')) = ''('' @ w @ '')''" using pair_strip [of w] by simp
  ultimately show ?thesis by (simp add: compound_def startswith_def)
qed

lemma compound_or:
  assumes "passed u" "passed v"
  shows "compound (''('' @ u @ '') or ('' @ v @ '')'') = POr [''('' @ u @ '')'', ''('' @ v @ '')'']"
proof -
  have "split_top_level (''('' @ u @ '') or ('' @ v @ '')'') '' or '' None = [''('' @ u @ '')'', ''('' @ v @ '')'']"
    using split_at_op [OF assms, of "'' or ''" "''or ''"] by simp
  moreover have "py_contains '' or '' (''('' @ u @ '') or ('' @ v @ '')'')"
    using py_contains_mid [of "'' or ''" u "''('' @ v @ '')''"] by simp
  ultimately show ?thesis
    using pair_strip [of u] pair_strip [of v] by (simp add: compound_def Let_def startswith_def)
qed

lemma compound_and:
  assumes "passed u" "passed v"
  shows "compound (''('' @ u @ '') and ('' @ v @ '')'') = PAnd [''('' @ u @ '')'', ''('' @ v @ '')'']"
proof -
  have "split_top_level (''('' @ u @ '') and ('' @ v @ '')'') '' and '' None = [''('' @ u @ '')'', ''('' @ v @ '')'']"
    using split_at_op [OF assms, of "'' and ''" "''and ''"] by simp
  moreover have "py_contains '' and '' (''('' @ u @ '') and ('' @ v @ '')'')"
    using py_contains_mid [of "'' and ''" u "''('' @ v @ '')''"] by simp
  moreover have "split_top_level (''('' @ u @ '')'' @ '' and '' @ ''('' @ v @ '')'') '' or '' None
      = [''('' @ u @ '')'' @ '' and '' @ ''('' @ v @ '')'']"
    by (rule split_written_pair [OF assms])
      (auto simp: startswith_def no_parens_def less_Suc_eq numeral_eq_Suc)
  ultimately show ?thesis
    using pair_strip [of u] pair_strip [of v] by (simp add: compound_def Let_def startswith_def)
qed

lemma compound_cond: "condition_ok a \<Longrightarrow> compound a = PSimple a"
proof -
  assume a: "condition_ok a"
  have "\<not> startswith (py_strip (drop n a)) ''(''" for n
  proof -
    have "set (py_strip (drop n a)) \<subseteq> set a" using set_py_strip [of "drop n a"] set_drop_subset [of n a] by blast
    with a show ?thesis by (auto simp: condition_ok_def no_parens_def startswith_append)
  qed
  with a show ?thesis by (simp add: compound_def condition_ok_def Let_def)
qed

lemma eval_cond_pair:
  assumes "conditions_ok e"
  shows "eval_cond env sc (''('' @ written e @ '')'') = eval_cond env sc (written e)"
proof -
  have "strip_parens (py_strip (''('' @ written e @ '')'')) = strip_parens (py_strip (written e))"
    using assms pair_strip strip_parens_pair [of "written e"] by (simp add: passed_written written_strip written_strip_parens)
  then show ?thesis
    using written_strip [OF assms]
    by (subst eval_cond.simps, subst (2) eval_cond.simps) simp
qed

section \<open>Properties\<close>


definition no_regex :: py_env where
  "no_regex = \<lparr>re_search = (\<lambda>p s. NoMatch), py_fr = (\<lambda>v. [])\<rparr>"

definition sample_ctx :: flow_ctx where
  "sample_ctx = (ctx_new [] [])\<lparr>fc_vars := [(''x'', PStr ''cats or dogs''), (''n'', PInt 5), (''p'', PStr '')'')]\<rparr>"


text \<open>The scan for the outer parentheses counts the one inside the quotes, so the same comparison
  is true without its parentheses and false with them.\<close>

lemma quoted_parenthesis_misread:
  "eval_condition no_regex ''vars.p == \")\"'' [] sample_ctx = Inr True"
  "eval_condition no_regex ''(vars.p == \")\")'' [] sample_ctx = Inr False"
  by code_simp+

text \<open>
  Splitting loses nothing: joined with the separator the parts are the expression again,
  there is at least one, and at most one more than the splits allowed.
\<close>

theorem split_top_level_roundtrip:
  assumes "sep \<noteq> []"
  shows "join_with sep (split_top_level expr sep m) = expr \<and> split_top_level expr sep m \<noteq> []
    \<and> (\<forall>n. m = Some n \<longrightarrow> length (split_top_level expr sep m) \<le> Suc n)"
  using assms split_scan_count by (auto simp: split_top_level_def join_split_scan)

theorem split_top_level_roundtrip_witness:
  "split_top_level ''a == \"b == c\" == d'' '' == '' (Some 1) = [''a'', ''\"b == c\" == d'']
    \<and> join_with '' == '' (split_top_level ''a == \"b == c\" == d'' '' == '' (Some 1)) = ''a == \"b == c\" == d''"
proof -
  have "split_top_level ''a == \"b == c\" == d'' '' == '' (Some 1) = [''a'', ''\"b == c\" == d'']" by code_simp
  then show ?thesis using split_top_level_roundtrip [of "'' == ''" "''a == \"b == c\" == d''" "Some 1"] by simp
qed

end
