(* ===== verification/Flow_Text.thy ===== *)
theory Flow_Text
  imports Py_Values
begin

text \<open>
  The text functions at the head of \<^verbatim>\<open>tg_signer/core/flow_engine.py\<close>: loose matching of retry
  keywords and the masking of credentials in traces. The negations that forbid a retry are
  Chinese phrases, outside the characters modelled; whether the normalised text holds one is
  the parameter \<open>negated\<close>. The regular expression of the masking is written out as a scan.
\<close>

text \<open>The punctuation and symbol characters (categories P and S) below 256.\<close>

definition punct_or_symbol :: "char \<Rightarrow> bool" where
  "punct_or_symbol c \<longleftrightarrow> (let n = of_char c :: nat in
     (33 \<le> n \<and> n \<le> 47) \<or> (58 \<le> n \<and> n \<le> 64) \<or> (91 \<le> n \<and> n \<le> 96) \<or> (123 \<le> n \<and> n \<le> 126) \<or>
     (161 \<le> n \<and> n \<le> 169) \<or> n = 171 \<or> n = 172 \<or> (174 \<le> n \<and> n \<le> 177) \<or> n = 180 \<or>
     (182 \<le> n \<and> n \<le> 184) \<or> n = 187 \<or> n = 191 \<or> n = 215 \<or> n = 247)"

definition normalize_text_for_matching :: "string \<Rightarrow> string" where
  "normalize_text_for_matching text = filter (\<lambda>c. \<not> py_space c \<and> \<not> punct_or_symbol c) (py_lower text)"

text \<open>Longer keywords first, in the order given among equals.\<close>

definition sorted_keywords :: "string list \<Rightarrow> string list" where
  "sorted_keywords ks = sort_key (\<lambda>k. - int (length k)) (filter (\<lambda>k. k \<noteq> [] \<and> py_strip k \<noteq> []) ks)"

definition matches_retry_keyword :: "(string \<Rightarrow> bool) \<Rightarrow> string \<Rightarrow> string list \<Rightarrow> string option" where
  "matches_retry_keyword negated text keywords =
     (if text = [] \<or> keywords = [] then None
      else (let t = normalize_text_for_matching text
            in if t = [] then None
               else if negated t then None
               else map_option py_strip (List.find (\<lambda>k. normalize_text_for_matching k \<noteq> []
                      \<and> py_contains (normalize_text_for_matching k) t) (sorted_keywords keywords))))"

section \<open>Masking credentials\<close>

definition word_char :: "char \<Rightarrow> bool" where
  "word_char c \<longleftrightarrow> (let n = of_char c :: nat in
     (48 \<le> n \<and> n \<le> 57) \<or> (65 \<le> n \<and> n \<le> 90) \<or> (97 \<le> n \<and> n \<le> 122) \<or> n = 95 \<or>
     n \<in> {170, 178, 179, 181, 185, 186, 188, 189, 190} \<or> (192 \<le> n \<and> n \<noteq> 215 \<and> n \<noteq> 247))"

definition credential_words :: "string list" where
  "credential_words = [''token'', ''password'', ''secret'', ''api_key'', ''api-key'', ''apikey'', ''session'', ''credential'']"

definition value_end :: "char \<Rightarrow> bool" where
  "value_end c \<longleftrightarrow> py_space c \<or> c = CHR '','' \<or> c = CHR '';''"

text \<open>What follows the value, when the text after a credential word gives it one.\<close>

definition value_rest :: "string \<Rightarrow> string option" where
  "value_rest r =
     (let r1 = dropWhile py_space r; v = dropWhile py_space (tl r1)
      in if (r \<noteq> [] \<and> word_char (hd r)) \<or> r1 = [] \<or> hd r1 \<notin> {CHR '':'', CHR ''=''} \<or> v = [] \<or> value_end (hd v) then None
         else Some (dropWhile (\<lambda>c. \<not> value_end c) v))"

text \<open>A credential at the head of the text: the word, and what follows its value.\<close>

definition credential_match :: "string \<Rightarrow> (string \<times> string) option" where
  "credential_match s =
     (case List.find (\<lambda>k. startswith (py_lower s) k) credential_words of None \<Rightarrow> None
      | Some k \<Rightarrow> map_option (\<lambda>rest. (take (length k) s, rest)) (value_rest (drop (length k) s)))"

lemma length_after_colon:
  "dropWhile P u \<noteq> [] \<Longrightarrow> length (dropWhile Q (dropWhile P (tl (dropWhile P u)))) < length u"
proof -
  assume "dropWhile P u \<noteq> []"
  then have "length (tl (dropWhile P u)) < length (dropWhile P u)" by simp
  also have "\<dots> \<le> length u" by (rule length_dropWhile_le)
  finally show ?thesis
    using length_dropWhile_le [of Q "dropWhile P (tl (dropWhile P u))"] length_dropWhile_le [of P "tl (dropWhile P u)"]
    by linarith
qed

lemma value_rest_shorter: "value_rest r = Some rest \<Longrightarrow> length rest < length r"
  unfolding value_rest_def Let_def
  by (simp only: option.inject option.distinct split: if_splits) (metis length_after_colon)

lemma credential_match_shorter: "credential_match s = Some (k, r) \<Longrightarrow> length r < length s"
  by (auto simp: credential_match_def split: option.splits dest!: value_rest_shorter)

text \<open>\<open>inside\<close>: the character before is a word character.\<close>

function redact_scan :: "bool \<Rightarrow> string \<Rightarrow> string" where
  "redact_scan inside [] = []"
| "redact_scan inside (c # cs) =
     (case (if inside then None else credential_match (c # cs)) of
        Some (k, r) \<Rightarrow> k @ ''=***'' @ redact_scan True r
      | None \<Rightarrow> c # redact_scan (word_char c) cs)"
  by pat_completeness auto
termination
  by (relation "measure (\<lambda>(_, s). length s)") (auto split: if_splits dest: credential_match_shorter)

definition redact_trace_text :: "string \<Rightarrow> string" where
  "redact_trace_text s = redact_scan False s"

end
