(* ===== verification/Event_Bus.thy ===== *)
theory Event_Bus
  imports Py_Values
begin

text \<open>
  \<^verbatim>\<open>tg_signer/core/flow_event_bus.py\<close>: the bus that hands Telegram message events to the
  flows waiting for them. A subscriber is a bounded queue under a key of chat and topic; the
  bus keeps a short history per key, replays it to a new subscriber, and counts per queue what
  it could not deliver. The \<^verbatim>\<open>asyncio.Queue\<close>s live in the state of the bus, under a number per
  queue. The digest that tells two revisions of a message apart is the parameter \<open>digest\<close> of
  \<open>event_init\<close>. No method suspends, so each is one step.
\<close>

section \<open>Events\<close>

record tg_event =
  ev_event_id :: string
  ev_chat_id :: py
  ev_thread_id :: "int option"
  ev_message_id :: int
  ev_sender_id :: "int option"
  ev_type :: string
  ev_text :: string
  ev_occurred_at :: time
  ev_is_outgoing :: bool
  ev_buttons :: "py list"
  ev_revision :: string

definition opt_int_text :: "int option \<Rightarrow> string" where
  "opt_int_text v = (case v of None \<Rightarrow> ''None'' | Some i \<Rightarrow> str_int i)"

text \<open>\<^verbatim>\<open>__post_init__\<close>, the digest being the one of the fields it serialises.\<close>

definition event_init :: "(py \<Rightarrow> string) \<Rightarrow> (tg_event \<Rightarrow> string) \<Rightarrow> tg_event \<Rightarrow> tg_event" where
  "event_init fr digest e =
     (let r = digest e in e\<lparr>ev_revision := r,
        ev_event_id := ''msg_'' @ py_str fr (ev_chat_id e) @ ''_'' @ opt_int_text (ev_thread_id e) @ ''_''
          @ str_int (ev_message_id e) @ ''_'' @ py_lower (ev_type e) @ ''_'' @ take 16 r\<rparr>)"

definition normalize_chat_id :: "py \<Rightarrow> py" where
  "normalize_chat_id cid = (case py_int cid of None \<Rightarrow> cid | Some i \<Rightarrow> PInt i)"

section \<open>A bounded queue\<close>

definition queue_put :: "nat \<Rightarrow> 'e \<Rightarrow> 'e list \<Rightarrow> 'e list option" where
  "queue_put maxsize e q = (if maxsize \<noteq> 0 \<and> maxsize \<le> length q then None else Some (q @ [e]))"

definition queue_get :: "'e list \<Rightarrow> ('e \<times> 'e list) option" where
  "queue_get q = (case q of [] \<Rightarrow> None | e # es \<Rightarrow> Some (e, es))"

record delivery_stats =
  ds_dropped :: nat
  ds_evicted :: nat
  ds_oldest :: "time option"
  ds_newest :: "time option"

definition no_stats :: delivery_stats where
  "no_stats = \<lparr>ds_dropped = 0, ds_evicted = 0, ds_oldest = None, ds_newest = None\<rparr>"

definition record_drop :: "tg_event \<Rightarrow> delivery_stats \<Rightarrow> delivery_stats" where
  "record_drop e s = \<lparr>ds_dropped = ds_dropped s + 1, ds_evicted = ds_evicted s,
     ds_oldest = Some (case ds_oldest s of None \<Rightarrow> ev_occurred_at e | Some t \<Rightarrow> min t (ev_occurred_at e)),
     ds_newest = Some (case ds_newest s of None \<Rightarrow> ev_occurred_at e | Some t \<Rightarrow> max t (ev_occurred_at e))\<rparr>"

text \<open>Offering an event to a channel with its statistics: in the channel or counted.\<close>

definition offer :: "('q \<Rightarrow> tg_event \<Rightarrow> 'q option) \<Rightarrow> tg_event \<Rightarrow> 'q \<times> delivery_stats \<Rightarrow> 'q \<times> delivery_stats" where
  "offer put e qs = (case qs of (q, s) \<Rightarrow> (case put q e of Some q' \<Rightarrow> (q', s) | None \<Rightarrow> (q, record_drop e s)))"

locale bounded_channel =
  fixes put :: "'q \<Rightarrow> tg_event \<Rightarrow> 'q option" and items :: "'q \<Rightarrow> tg_event list" and capacity :: nat
  assumes accept: "put q e = Some q' \<Longrightarrow> items q' = items q @ [e]"
    and refuse: "put q e = None \<longleftrightarrow> capacity \<le> length (items q)"
begin

definition offers :: "tg_event list \<Rightarrow> 'q \<times> delivery_stats \<Rightarrow> 'q \<times> delivery_stats" where
  "offers es qs = fold (offer put) es qs"

lemma offers_items:
  "length (items q) \<le> capacity \<Longrightarrow> offers es (q, s) = (q', s') \<Longrightarrow>
   items q' = items q @ take (capacity - length (items q)) es
     \<and> ds_dropped s' = ds_dropped s + (length es - (capacity - length (items q))) \<and> ds_evicted s' = ds_evicted s"
proof (induction es arbitrary: q s)
  case (Cons e es)
  show ?case
  proof (cases "put q e")
    case None
    then have "capacity - length (items q) = 0" using refuse by simp
    then show ?thesis using Cons.IH [of q "record_drop e s"] Cons.prems None
      by (auto simp: offers_def offer_def record_drop_def)
  next
    case (Some r)
    then have r: "items r = items q @ [e]" "length (items q) < capacity"
      using accept [OF Some] refuse [of q e] by auto
    then have "capacity - length (items q) = Suc (capacity - length (items r))" by simp
    then show ?thesis using Cons.IH [of r s] Cons.prems Some r by (auto simp: offers_def offer_def)
  qed
qed (simp add: offers_def)

lemma nothing_lost:
  assumes "length (items q) \<le> capacity" and "offers es (q, s) = (q', s')"
  shows "length (items q') + ds_dropped s' = length (items q) + ds_dropped s + length es"
  using offers_items [OF assms] assms(1) by (auto simp: min_def)

end

section \<open>The bus\<close>

type_synonym bus_key = "py \<times> int option"

record bus =
  eb_subscribers :: "(bus_key, nat list) odict"
  eb_history :: "(bus_key, tg_event list) odict"
  eb_buffer_size :: nat
  eb_ttl :: time
  eb_queue_size :: nat
  eb_max_keys :: nat
  eb_last_published :: "(bus_key, time) odict"
  eb_evictions :: "(bus_key, nat) odict"
  eb_queues :: "(nat, tg_event list) odict"
  eb_stats :: "(nat, delivery_stats) odict"
  eb_next :: nat

definition bus_new :: "int \<Rightarrow> time \<Rightarrow> int \<Rightarrow> int \<Rightarrow> exc + bus" where
  "bus_new buffer_size ttl queue_size max_keys =
     (if buffer_size < 1 \<or> queue_size < 1 \<or> max_keys < 1
      then Inl (exc_of ''ValueError'' ''Event buffer, queue and history key limits must be positive'')
      else Inr \<lparr>eb_subscribers = [], eb_history = [], eb_buffer_size = nat buffer_size, eb_ttl = ttl,
        eb_queue_size = nat queue_size, eb_max_keys = nat max_keys, eb_last_published = [], eb_evictions = [],
        eb_queues = [], eb_stats = [], eb_next = 0\<rparr>)"

definition get_delivery_stats :: "nat \<Rightarrow> bus \<Rightarrow> delivery_stats" where
  "get_delivery_stats q b = look (eb_stats b) q no_stats"

definition bus_offer :: "nat \<Rightarrow> tg_event \<Rightarrow> bus \<Rightarrow> bus" where
  "bus_offer q e b =
     (case queue_put (eb_queue_size b) e (look (eb_queues b) q []) of
        Some es \<Rightarrow> b\<lparr>eb_queues := AList.update q es (eb_queues b)\<rparr>
      | None \<Rightarrow> b\<lparr>eb_stats := AList.update q (record_drop e (get_delivery_stats q b)) (eb_stats b)\<rparr>)"

definition drop_key :: "bus_key \<Rightarrow> bus \<Rightarrow> bus" where
  "drop_key k b = b\<lparr>eb_history := AList.delete k (eb_history b),
     eb_last_published := AList.delete k (eb_last_published b), eb_evictions := AList.delete k (eb_evictions b)\<rparr>"

fun evict_keys :: "time \<Rightarrow> bus_key list \<Rightarrow> bus \<Rightarrow> bus \<times> nat" where
  "evict_keys now [] b = (b, 0)"
| "evict_keys now (k # ks) b =
     (if now - look (eb_last_published b) k 0 > eb_ttl b \<or> length (eb_history b) > eb_max_keys b
      then (case evict_keys now ks (drop_key k b) of (b', n) \<Rightarrow> (b', Suc n))
      else evict_keys now ks b)"

definition evict_inactive_histories :: "time \<Rightarrow> bus \<Rightarrow> bus \<times> nat" where
  "evict_inactive_histories now b =
     evict_keys now (sort_key (\<lambda>k. look (eb_last_published b) k 0)
       (filter (\<lambda>k. look (eb_subscribers b) k [] = []) (map fst (eb_history b)))) b"

text \<open>The event types that a subscription to \<open>want\<close> (\<open>None\<close> or empty: any) replays.\<close>

definition matches_type :: "string option \<Rightarrow> string \<Rightarrow> bool" where
  "matches_type want t =
     (case want of
        None \<Rightarrow> py_upper t \<in> {''NEW_MESSAGE'', ''EDITED_MESSAGE''}
      | Some w \<Rightarrow> if w = [] \<or> py_upper w \<in> {''ANY'', ''ALL''} then py_upper t \<in> {''NEW_MESSAGE'', ''EDITED_MESSAGE''}
                  else py_upper t = py_upper w)"

definition replayed :: "time \<Rightarrow> time \<Rightarrow> int option \<Rightarrow> string option \<Rightarrow> time option \<Rightarrow> tg_event \<Rightarrow> bool" where
  "replayed now ttl min_message_id event_type since e \<longleftrightarrow>
     \<not> now - ev_occurred_at e > ttl \<and> \<not> ev_is_outgoing e \<and> matches_type event_type (ev_type e) \<and>
     (case min_message_id of
        Some m \<Rightarrow> ev_message_id e > m
      | None \<Rightarrow> (case since of Some t \<Rightarrow> ev_occurred_at e \<ge> t | None \<Rightarrow> now - ev_occurred_at e \<le> 5))"

definition bus_subscribe ::
  "py \<Rightarrow> int option \<Rightarrow> int option \<Rightarrow> string option \<Rightarrow> time option \<Rightarrow> time \<Rightarrow> bus \<Rightarrow> nat \<times> bus" where
  "bus_subscribe chat thread min_message_id event_type since now b =
     (let key = (normalize_chat_id chat, thread); q = eb_next b;
          b1 = b\<lparr>eb_next := Suc q, eb_queues := AList.update q [] (eb_queues b),
                 eb_subscribers := AList.update key (look (eb_subscribers b) key [] @ [q]) (eb_subscribers b)\<rparr>;
          n = look (eb_evictions b) key 0;
          b2 = (if n \<noteq> 0 then b1\<lparr>eb_stats := AList.update q (no_stats\<lparr>ds_evicted := n\<rparr>) (eb_stats b1)\<rparr> else b1)
      in (q, fold (bus_offer q)
               (filter (replayed now (eb_ttl b) min_message_id event_type since) (look (eb_history b) key [])) b2))"

definition bus_unsubscribe :: "py \<Rightarrow> int option \<Rightarrow> nat \<Rightarrow> bus \<Rightarrow> bus" where
  "bus_unsubscribe chat thread q b =
     (let key = (normalize_chat_id chat, thread); qs = look (eb_subscribers b) key []
      in if q \<notin> set qs then b
         else if remove1 q qs = [] then b\<lparr>eb_subscribers := AList.delete key (eb_subscribers b)\<rparr>
         else b\<lparr>eb_subscribers := AList.update key (remove1 q qs) (eb_subscribers b)\<rparr>)"

definition last_n :: "nat \<Rightarrow> 'a list \<Rightarrow> 'a list" where
  "last_n n xs = drop (length xs - n) xs"

text \<open>One key of a \<^verbatim>\<open>publish\<close>; the same revision as the latest of its message is not published again.\<close>

definition published_before :: "tg_event \<Rightarrow> time \<Rightarrow> bus_key \<Rightarrow> bus \<Rightarrow> bool" where
  "published_before e now key b =
     (case List.find (\<lambda>x. ev_message_id x = ev_message_id e \<and> ev_thread_id x = ev_thread_id e
               \<and> ev_type x = ev_type e \<and> now - ev_occurred_at x \<le> eb_ttl b) (rev (look (eb_history b) key [])) of
        None \<Rightarrow> False | Some x \<Rightarrow> ev_event_id x = ev_event_id e)"

definition publish_key :: "tg_event \<Rightarrow> time \<Rightarrow> bus_key \<Rightarrow> bus \<Rightarrow> bus" where
  "publish_key e now key b =
     (let buf = look (eb_history b) key [];
          b1 = b\<lparr>eb_last_published := AList.update key now (eb_last_published b),
                 eb_history := AList.update key buf (eb_history b)\<rparr>
      in if published_before e now key b then b1
         else (let buf2 = buf @ [e];
                   b2 = b1\<lparr>eb_history := AList.update key
                          (filter (\<lambda>x. now - ev_occurred_at x \<le> eb_ttl b) (last_n (eb_buffer_size b) buf2)) (eb_history b1)\<rparr>;
                   n = length buf2 - eb_buffer_size b;
                   b3 = (if n \<noteq> 0 then b2\<lparr>eb_evictions := AList.update key (look (eb_evictions b) key 0 + n) (eb_evictions b2)\<rparr>
                         else b2)
               in fold (\<lambda>q. bus_offer q e) (look (eb_subscribers b) key []) b3))"

definition bus_publish :: "tg_event \<Rightarrow> bool \<Rightarrow> time \<Rightarrow> bus \<Rightarrow> bus" where
  "bus_publish e include_legacy_scope now b =
     (let chat = normalize_chat_id (ev_chat_id e);
          keys = (chat, ev_thread_id e) # (if include_legacy_scope \<and> ev_thread_id e \<noteq> None then [(chat, None)] else [])
      in fst (evict_inactive_histories now (fold (publish_key e now) keys b)))"

definition bus_clear :: "py option \<Rightarrow> bus \<Rightarrow> bus" where
  "bus_clear chat b =
     (case chat of
        None \<Rightarrow> b\<lparr>eb_subscribers := [], eb_history := [], eb_last_published := [], eb_evictions := [], eb_stats := []\<rparr>
      | Some cid \<Rightarrow>
          (let mine = (\<lambda>k. fst k = normalize_chat_id cid);
               qs = concat (map snd (filter (\<lambda>e. mine (fst e)) (eb_subscribers b)));
               dead = map fst (filter (\<lambda>e. mine (fst e)) (eb_history b))
           in b\<lparr>eb_stats := fold AList.delete qs (eb_stats b),
                eb_subscribers := filter (\<lambda>e. \<not> mine (fst e)) (eb_subscribers b),
                eb_history := filter (\<lambda>e. \<not> mine (fst e)) (eb_history b),
                eb_last_published := fold AList.delete dead (eb_last_published b),
                eb_evictions := fold AList.delete dead (eb_evictions b)\<rparr>))"

definition bus_get_history :: "py \<Rightarrow> int option \<Rightarrow> int option \<Rightarrow> int \<Rightarrow> time \<Rightarrow> bus \<Rightarrow> tg_event list" where
  "bus_get_history chat thread min_message_id limit now b =
     (let buf = filter (\<lambda>e. now - ev_occurred_at e \<le> eb_ttl b) (look (eb_history b) (normalize_chat_id chat, thread) []);
          buf2 = (case min_message_id of None \<Rightarrow> buf | Some m \<Rightarrow> filter (\<lambda>e. ev_message_id e \<ge> m) buf)
      in last_n (nat (max 1 limit)) buf2)"

text \<open>The consumer takes the head of its queue.\<close>

definition bus_take :: "nat \<Rightarrow> bus \<Rightarrow> (tg_event \<times> bus) option" where
  "bus_take q b = (case queue_get (look (eb_queues b) q []) of None \<Rightarrow> None
     | Some (e, es) \<Rightarrow> Some (e, b\<lparr>eb_queues := AList.update q es (eb_queues b)\<rparr>))"

section \<open>What an offer changes\<close>

interpretation chan: bounded_channel "\<lambda>q e. queue_put (Suc n) e q" "\<lambda>q. q" "Suc n" for n
  by unfold_locales (auto simp: queue_put_def split: if_splits)

abbreviation channel :: "nat \<Rightarrow> bus \<Rightarrow> tg_event list \<times> delivery_stats" where
  "channel q b \<equiv> (look (eb_queues b) q [], get_delivery_stats q b)"

lemma bus_offer_params [simp]:
  "eb_queue_size (bus_offer q e b) = eb_queue_size b" "eb_buffer_size (bus_offer q e b) = eb_buffer_size b"
  "eb_ttl (bus_offer q e b) = eb_ttl b" "eb_max_keys (bus_offer q e b) = eb_max_keys b"
  "eb_history (bus_offer q e b) = eb_history b" "eb_subscribers (bus_offer q e b) = eb_subscribers b"
  "eb_last_published (bus_offer q e b) = eb_last_published b" "eb_evictions (bus_offer q e b) = eb_evictions b"
  "eb_next (bus_offer q e b) = eb_next b"
  by (auto simp: bus_offer_def split: option.splits)

lemma bus_offers_params [simp]:
  "eb_queue_size (fold (\<lambda>q. bus_offer q e) qs b) = eb_queue_size b"
  "eb_buffer_size (fold (\<lambda>q. bus_offer q e) qs b) = eb_buffer_size b"
  "eb_max_keys (fold (\<lambda>q. bus_offer q e) qs b) = eb_max_keys b"
  "eb_history (fold (\<lambda>q. bus_offer q e) qs b) = eb_history b"
  "eb_subscribers (fold (\<lambda>q. bus_offer q e) qs b) = eb_subscribers b"
  "eb_next (fold (\<lambda>q. bus_offer q e) qs b) = eb_next b"
  by (induction qs arbitrary: b) auto

lemma bus_replay_params [simp]:
  "eb_queue_size (fold (bus_offer q) es b) = eb_queue_size b"
  "eb_buffer_size (fold (bus_offer q) es b) = eb_buffer_size b"
  "eb_max_keys (fold (bus_offer q) es b) = eb_max_keys b"
  "eb_history (fold (bus_offer q) es b) = eb_history b"
  "eb_subscribers (fold (bus_offer q) es b) = eb_subscribers b"
  "eb_next (fold (bus_offer q) es b) = eb_next b"
  by (induction es arbitrary: b) auto

lemma channel_offer:
  "channel j (bus_offer q e b) = (if j = q then offer (\<lambda>es e. queue_put (eb_queue_size b) e es) e (channel q b) else channel j b)"
  by (auto simp: bus_offer_def offer_def get_delivery_stats_def split: option.splits)

lemma channel_offers:
  "distinct qs \<Longrightarrow> channel j (fold (\<lambda>q. bus_offer q e) qs b) =
   (if j \<in> set qs then offer (\<lambda>es e. queue_put (eb_queue_size b) e es) e (channel j b) else channel j b)"
proof (induction qs arbitrary: b)
  case (Cons q qs)
  then show ?case using channel_offer [where j = j and q = q and e = e and b = b] by (cases "j = q") auto
qed simp

lemma channel_replay:
  assumes "eb_queue_size b = Suc n"
  shows "channel q (fold (bus_offer q) es b) = chan.offers n es (channel q b)"
  using assms
proof (induction es arbitrary: b)
  case (Cons e es)
  then show ?case using channel_offer [where j = q and q = q and e = e and b = b] by (simp add: chan.offers_def)
qed (simp add: chan.offers_def)

lemma drop_key_fields [simp]:
  "eb_queues (drop_key k b) = eb_queues b" "eb_stats (drop_key k b) = eb_stats b"
  "eb_subscribers (drop_key k b) = eb_subscribers b" "eb_queue_size (drop_key k b) = eb_queue_size b"
  "eb_buffer_size (drop_key k b) = eb_buffer_size b" "eb_max_keys (drop_key k b) = eb_max_keys b"
  "eb_next (drop_key k b) = eb_next b" "eb_history (drop_key k b) = AList.delete k (eb_history b)"
  by (simp_all add: drop_key_def)

lemma evict_keys_fields:
  "eb_queues (fst (evict_keys now ks b)) = eb_queues b" "eb_stats (fst (evict_keys now ks b)) = eb_stats b"
  "eb_subscribers (fst (evict_keys now ks b)) = eb_subscribers b"
  "eb_queue_size (fst (evict_keys now ks b)) = eb_queue_size b"
  "eb_buffer_size (fst (evict_keys now ks b)) = eb_buffer_size b"
  "eb_max_keys (fst (evict_keys now ks b)) = eb_max_keys b"
  "eb_next (fst (evict_keys now ks b)) = eb_next b"
  by (induction ks arbitrary: b) (simp_all add: case_prod_beta)

lemma evict_keys_history:
  "set (eb_history (fst (evict_keys now ks b))) \<subseteq> set (eb_history b)
    \<and> length (eb_history (fst (evict_keys now ks b))) \<le> length (eb_history b)"
proof (induction ks arbitrary: b)
  case (Cons k ks)
  have "set (eb_history (fst (evict_keys now ks (drop_key k b)))) \<subseteq> set (eb_history b)"
    "length (eb_history (fst (evict_keys now ks (drop_key k b)))) \<le> length (eb_history b)"
    using Cons [of "drop_key k b"] order.trans [OF _ od_length_delete_le [of k "eb_history b"]]
    by (auto simp: od_set_delete)
  then show ?case using Cons [of b] by (simp add: case_prod_beta)
qed simp

section \<open>The bounds\<close>

definition bus_bounded :: "bus \<Rightarrow> bool" where
  "bus_bounded b \<longleftrightarrow> 0 < eb_queue_size b \<and> (\<forall>e \<in> set (eb_history b). length (snd e) \<le> eb_buffer_size b) \<and>
     (\<forall>e \<in> set (eb_queues b). length (snd e) \<le> eb_queue_size b)"

lemma look_bound: "\<forall>e \<in> set d. P (snd e) \<Longrightarrow> P z \<Longrightarrow> P (look d k z)"
  by (force simp: look_def dest: map_of_SomeD split: option.splits)

lemma bounded_update: "\<forall>e \<in> set d. P (snd e) \<Longrightarrow> P v \<Longrightarrow> \<forall>e \<in> set (AList.update k v d). P (snd e)"
  using set_update_subset [of k v d] by fastforce

lemma bus_offer_bounded: "bus_bounded b \<Longrightarrow> bus_bounded (bus_offer q e b)"
proof -
  assume b: "bus_bounded b"
  show ?thesis
  proof (cases "queue_put (eb_queue_size b) e (look (eb_queues b) q [])")
    case None
    with b show ?thesis by (simp add: bus_offer_def bus_bounded_def)
  next
    case (Some es)
    then have "length es \<le> eb_queue_size b" using b by (auto simp: queue_put_def bus_bounded_def split: if_splits)
    then show ?thesis
      using b Some bounded_update [of "eb_queues b" "\<lambda>es. length es \<le> eb_queue_size b" es q]
      by (simp add: bus_offer_def bus_bounded_def)
  qed
qed

lemma fold_bounded: "bus_bounded b \<Longrightarrow> (\<And>x b. bus_bounded b \<Longrightarrow> bus_bounded (f x b)) \<Longrightarrow> bus_bounded (fold f xs b)"
  by (induction xs arbitrary: b) auto

lemma publish_key_bounded:
  assumes b: "bus_bounded b"
  shows "bus_bounded (publish_key e now key b)"
proof -
  define buf where "buf = look (eb_history b) key []"
  define kept where "kept = filter (\<lambda>x. now - ev_occurred_at x \<le> eb_ttl b) (last_n (eb_buffer_size b) (buf @ [e]))"
  have "length buf \<le> eb_buffer_size b"
    using b look_bound [of "eb_history b" "\<lambda>es. length es \<le> eb_buffer_size b" "[]" key] by (simp add: buf_def bus_bounded_def)
  then have 1: "\<forall>x \<in> set (AList.update key buf (eb_history b)). length (snd x) \<le> eb_buffer_size b"
    using b by (intro bounded_update [of _ "\<lambda>es. length es \<le> eb_buffer_size b"]) (simp_all add: bus_bounded_def)
  have "length kept \<le> eb_buffer_size b"
    unfolding kept_def by (rule order.trans [OF length_filter_le]) (simp add: last_n_def)
  with 1 have 2: "\<forall>x \<in> set (AList.update key kept (AList.update key buf (eb_history b))). length (snd x) \<le> eb_buffer_size b"
    by (rule bounded_update [of _ "\<lambda>es. length es \<le> eb_buffer_size b"])
  show ?thesis
    unfolding publish_key_def Let_def using 1 2 b
    by (auto simp: buf_def [symmetric] kept_def [symmetric] intro!: fold_bounded bus_offer_bounded)
      (auto simp: bus_bounded_def)
qed

lemma evict_bounded: "bus_bounded b \<Longrightarrow> bus_bounded (fst (evict_inactive_histories now b))"
  using evict_keys_history [THEN conjunct1, THEN subsetD]
  by (fastforce simp: bus_bounded_def evict_inactive_histories_def evict_keys_fields)

lemma evict_keys_limit:
  "length (eb_history (fst (evict_keys now ks b))) \<le> eb_max_keys b
    \<or> fst ` set (eb_history (fst (evict_keys now ks b))) \<subseteq> fst ` set (eb_history b) - set ks"
proof (induction ks arbitrary: b)
  case (Cons k ks)
  show ?case
  proof (cases "now - look (eb_last_published b) k 0 > eb_ttl b \<or> length (eb_history b) > eb_max_keys b")
    case True
    then show ?thesis using Cons [of "drop_key k b"] by (auto simp: case_prod_beta od_keys_delete)
  next
    case False
    then have "length (eb_history (fst (evict_keys now (k # ks) b))) \<le> length (eb_history b)"
      using evict_keys_history [of now ks b] by simp
    with False show ?thesis by simp
  qed
qed auto

text \<open>The operations as the steps of a run.\<close>

datatype bus_op =
    Publish tg_event bool time
  | Subscribe py "int option" "int option" "string option" "time option" time
  | Unsubscribe py "int option" nat
  | Take nat
  | Sweep time
  | ClearBus "py option"

fun bus_apply :: "bus_op \<Rightarrow> bus \<Rightarrow> bus" where
  "bus_apply (Publish e legacy now) b = bus_publish e legacy now b"
| "bus_apply (Subscribe chat th m et since now) b = snd (bus_subscribe chat th m et since now b)"
| "bus_apply (Unsubscribe chat th q) b = bus_unsubscribe chat th q b"
| "bus_apply (Take q) b = (case bus_take q b of None \<Rightarrow> b | Some (e, b') \<Rightarrow> b')"
| "bus_apply (Sweep now) b = fst (evict_inactive_histories now b)"
| "bus_apply (ClearBus chat) b = bus_clear chat b"

lemma bus_apply_bounded: "bus_bounded b \<Longrightarrow> bus_bounded (bus_apply op b)"
proof (cases op)
  case (Publish e legacy now)
  then show "bus_bounded b \<Longrightarrow> ?thesis"
    by (simp add: bus_publish_def Let_def publish_key_bounded evict_bounded)
next
  case (Subscribe chat th m et since now)
  assume b: "bus_bounded b"
  then have "\<forall>e \<in> set (AList.update (eb_next b) [] (eb_queues b)). length (snd e) \<le> eb_queue_size b"
    by (intro bounded_update [of _ "\<lambda>es. length es \<le> eb_queue_size b"]) (simp_all add: bus_bounded_def)
  then show ?thesis using b Subscribe
    by (auto simp: bus_subscribe_def Let_def intro!: fold_bounded bus_offer_bounded) (auto simp: bus_bounded_def)
next
  case (Take q)
  assume b: "bus_bounded b"
  then have "length (look (eb_queues b) q []) \<le> eb_queue_size b"
    by (intro look_bound [of _ "\<lambda>es. length es \<le> eb_queue_size b"]) (simp_all add: bus_bounded_def)
  then have "\<forall>e \<in> set (AList.update q es (eb_queues b)). length (snd e) \<le> eb_queue_size b"
    if "look (eb_queues b) q [] = e # es" for e es
    using b that by (intro bounded_update [of _ "\<lambda>es. length es \<le> eb_queue_size b"]) (simp_all add: bus_bounded_def)
  then show ?thesis using b Take
    by (auto simp: bus_take_def queue_get_def bus_bounded_def split: list.splits)
next
  case (ClearBus chat)
  then show "bus_bounded b \<Longrightarrow> ?thesis" by (auto simp: bus_clear_def bus_bounded_def Let_def split: option.splits)
next
  case (Unsubscribe chat th q)
  then show "bus_bounded b \<Longrightarrow> ?thesis" by (simp add: bus_unsubscribe_def Let_def bus_bounded_def)
qed (simp add: evict_bounded)

lemma channel_publish_key:
  assumes "distinct (look (eb_subscribers b) key [])"
  shows "channel q (publish_key e now key b) =
    (if q \<in> set (look (eb_subscribers b) key []) \<and> \<not> published_before e now key b
     then offer (\<lambda>es e. queue_put (eb_queue_size b) e es) e (channel q b) else channel q b)"
proof -
  have *: "channel q (fold (\<lambda>q. bus_offer q e) (look (eb_subscribers b) key []) c) =
     (if q \<in> set (look (eb_subscribers b) key []) then offer (\<lambda>es e. queue_put (eb_queue_size b) e es) e (channel q b)
      else channel q b)"
    if "eb_queues c = eb_queues b" "eb_stats c = eb_stats b" "eb_queue_size c = eb_queue_size b" for c
    using channel_offers [OF assms, where j = q and e = e and b = c] that by (simp add: get_delivery_stats_def)
  show ?thesis
  proof (cases "published_before e now key b")
    case True
    then show ?thesis by (simp add: publish_key_def Let_def get_delivery_stats_def)
  next
    case False
    show ?thesis unfolding publish_key_def Let_def if_not_P [OF False]
      by (subst *) (simp_all add: False)
  qed
qed

lemma bus_apply_sizes: "eb_buffer_size (bus_apply op b) = eb_buffer_size b \<and> eb_queue_size (bus_apply op b) = eb_queue_size b"
proof (cases op)
  case (Publish e legacy now)
  have "eb_buffer_size (publish_key e now key b) = eb_buffer_size b \<and> eb_queue_size (publish_key e now key b) = eb_queue_size b" for key b
    by (simp add: publish_key_def Let_def)
  with Publish show ?thesis
    by (simp add: bus_publish_def Let_def evict_inactive_histories_def evict_keys_fields)
next
  case (Subscribe chat th m et since now)
  then show ?thesis by (simp add: bus_subscribe_def Let_def)
qed (auto simp: bus_unsubscribe_def bus_take_def bus_clear_def Let_def evict_inactive_histories_def evict_keys_fields
      split: option.splits)

section \<open>Properties\<close>


text \<open>
  A subscription opens with the past it asked for: its new queue holds, in order, the
  events of the history that are not expired, not outgoing, of the wanted type and beyond the
  watermark, as many as fit; the rest are counted as dropped and the evictions of the key are
  reported, so that with the subscription's count nothing of the history is lost unnoticed.
\<close>

theorem subscribe_replays:
  assumes "bus_subscribe chat thread min_message_id event_type since now b = (q, b')"
    and "0 < eb_queue_size b"
  shows "let key = (normalize_chat_id chat, thread);
             wanted = filter (replayed now (eb_ttl b) min_message_id event_type since) (look (eb_history b) key [])
         in q = eb_next b \<and> q \<in> set (look (eb_subscribers b') key [])
            \<and> look (eb_queues b') q [] = take (eb_queue_size b) wanted
            \<and> (map_of (eb_stats b) q = None \<longrightarrow>
                 ds_dropped (get_delivery_stats q b') = length wanted - eb_queue_size b
                 \<and> ds_evicted (get_delivery_stats q b') = look (eb_evictions b) key 0)"
proof -
  obtain n where n: "eb_queue_size b = Suc n" using assms(2) by (cases "eb_queue_size b") auto
  define key where "key = (normalize_chat_id chat, thread)"
  define wanted where "wanted = filter (replayed now (eb_ttl b) min_message_id event_type since) (look (eb_history b) key [])"
  define b1 where "b1 = b\<lparr>eb_next := Suc (eb_next b), eb_queues := AList.update (eb_next b) [] (eb_queues b),
     eb_subscribers := AList.update key (look (eb_subscribers b) key [] @ [eb_next b]) (eb_subscribers b)\<rparr>"
  define b2 where "b2 = (if look (eb_evictions b) key 0 \<noteq> 0
     then b1\<lparr>eb_stats := AList.update (eb_next b) (no_stats\<lparr>ds_evicted := look (eb_evictions b) key 0\<rparr>) (eb_stats b1)\<rparr> else b1)"
  have q: "q = eb_next b" and b': "b' = fold (bus_offer (eb_next b)) wanted b2"
    using assms(1) by (auto simp: bus_subscribe_def Let_def key_def wanted_def b1_def b2_def split: if_splits)
  have b2: "eb_queue_size b2 = Suc n" "look (eb_queues b2) q [] = []"
      "look (eb_subscribers b2) key [] = look (eb_subscribers b) key [] @ [q]"
      "map_of (eb_stats b) q = None \<longrightarrow> ds_dropped (get_delivery_stats q b2) = 0
         \<and> ds_evicted (get_delivery_stats q b2) = look (eb_evictions b) key 0"
    by (simp_all add: b2_def b1_def n q get_delivery_stats_def no_stats_def)
  have "chan.offers n wanted (channel q b2) = channel q b'"
    using channel_replay [OF b2(1), of q wanted] by (simp add: b' q)
  then have "look (eb_queues b') q [] = take (Suc n) wanted
      \<and> ds_dropped (get_delivery_stats q b') = ds_dropped (get_delivery_stats q b2) + (length wanted - Suc n)
      \<and> ds_evicted (get_delivery_stats q b') = ds_evicted (get_delivery_stats q b2)"
    using chan.offers_items [of "[]" n wanted "get_delivery_stats q b2"] b2(2) by simp
  then show ?thesis
    using b2 n q by (simp add: Let_def key_def [symmetric] wanted_def [symmetric] b')
qed

text \<open>
  The bus stays bounded: after any sequence of operations no history is longer than the
  buffer size and no queue than the queue size, and a sweep leaves at most the allowed number of
  histories, unless all that are left have subscribers.
\<close>

theorem bus_run_bounded:
  assumes "bus_new bs ttl qs mk = Inr b0" and "fold bus_apply ops b0 = b"
  shows "(\<forall>key. length (look (eb_history b) key []) \<le> nat bs) \<and> (\<forall>q. length (look (eb_queues b) q []) \<le> nat qs)
    \<and> (\<forall>now. let b' = fst (evict_inactive_histories now b) in length (eb_history b') \<le> eb_max_keys b
         \<or> (\<forall>key \<in> fst ` set (eb_history b'). look (eb_subscribers b') key [] \<noteq> []))"
proof -
  have "bus_bounded b0" using assms(1) by (auto simp: bus_new_def bus_bounded_def split: if_splits)
  then have bb: "bus_bounded b" unfolding assms(2) [symmetric] by (rule fold_bounded) (rule bus_apply_bounded)
  have "eb_buffer_size b = nat bs \<and> eb_queue_size b = nat qs"
  proof -
    have "eb_buffer_size (fold bus_apply ops b0) = eb_buffer_size b0 \<and> eb_queue_size (fold bus_apply ops b0) = eb_queue_size b0"
      by (induction ops arbitrary: b0) (simp_all add: bus_apply_sizes)
    then show ?thesis using assms by (auto simp: bus_new_def split: if_splits)
  qed
  moreover have "look (eb_subscribers (fst (evict_inactive_histories now b))) key [] \<noteq> []"
    if "\<not> length (eb_history (fst (evict_inactive_histories now b))) \<le> eb_max_keys b"
      "key \<in> fst ` set (eb_history (fst (evict_inactive_histories now b)))" for now key
    using that evict_keys_limit [of now _ b] unfolding evict_inactive_histories_def
    by (fastforce simp: evict_keys_fields)
  moreover have "length (look (eb_history b) key []) \<le> eb_buffer_size b" for key
    using bb by (intro look_bound [of _ "\<lambda>es. length es \<le> eb_buffer_size b"]) (simp_all add: bus_bounded_def)
  moreover have "length (look (eb_queues b) q []) \<le> eb_queue_size b" for q
    using bb by (intro look_bound [of _ "\<lambda>es. length es \<le> eb_queue_size b"]) (simp_all add: bus_bounded_def)
  ultimately show ?thesis unfolding Let_def by metis
qed

definition sample_event :: "int \<Rightarrow> tg_event" where
  "sample_event i = event_init (\<lambda>v. []) (\<lambda>e. []) \<lparr>ev_event_id = [], ev_chat_id = PInt 9, ev_thread_id = None,
     ev_message_id = i, ev_sender_id = None, ev_type = ''NEW_MESSAGE'', ev_text = ''ok'', ev_occurred_at = 1,
     ev_is_outgoing = False, ev_buttons = [], ev_revision = []\<rparr>"

definition sample_bus :: bus where
  "sample_bus = (case bus_new 2 300 1 5 of Inr b \<Rightarrow> b)"


theorem subscribe_replays_witness:
  "look (eb_queues (snd (bus_subscribe (PInt 9) None (Some 1) None None 4
     (bus_publish (sample_event 2) False 3 (bus_publish (sample_event 1) False 2 sample_bus))))) 0 [] = [sample_event 2]"
proof -
  let ?b = "bus_publish (sample_event 2) False 3 (bus_publish (sample_event 1) False 2 sample_bus)"
  let ?s = "bus_subscribe (PInt 9) None (Some 1) None None 4 ?b"
  have all: "?s = (0, snd ?s) \<and> 0 < eb_queue_size ?b \<and> take (eb_queue_size ?b) (filter (replayed 4 (eb_ttl ?b) (Some 1) None None)
      (look (eb_history ?b) (normalize_chat_id (PInt 9), None) [])) = [sample_event 2]"
    by code_simp
  have a: "?s = (0, snd ?s)" and b: "0 < eb_queue_size ?b"
    and c: "take (eb_queue_size ?b) (filter (replayed 4 (eb_ttl ?b) (Some 1) None None)
      (look (eb_history ?b) (normalize_chat_id (PInt 9), None) [])) = [sample_event 2]" using all by blast+
  show ?thesis using subscribe_replays [OF a b] unfolding Let_def c by blast
qed

theorem bus_run_bounded_witness:
  "length (look (eb_history (fold bus_apply [Publish (sample_event 1) False 1, Publish (sample_event 2) False 1,
     Publish (sample_event 3) False 1] sample_bus)) (PInt 9, None) []) \<le> 2"
proof -
  have a: "bus_new 2 300 1 5 = Inr sample_bus" by (simp add: sample_bus_def bus_new_def)
  show ?thesis using bus_run_bounded [OF a refl] by (metis nat_numeral)
qed

end
