(* ===== verification/Flow_Engine.thy ===== *)
theory Flow_Engine
  imports Flow_Context Flow_Text Event_Bus Semantic_Policy
begin

text \<open>
  \<^verbatim>\<open>tg_signer/core/flow_engine.py\<close>: \<^verbatim>\<open>PulseFlowEngine\<close>, which runs an execution graph. The state
  is the flow context, the bookkeeping of a run (\<open>run_state\<close>) and a world of the type \<open>'w\<close>: the
  environment (\<open>flow_env\<close>) gives for a world what the awaited calls and the clocks yield and
  the world after. \<open>fe_exec\<close> is the executor under the deadline of its node, \<open>fe_cut\<close> whether
  the deadline of a subflow or parallel node passes, \<open>fe_inbox\<close> what the iterations of a wait
  for a message observe up to its deadline. The branches of a parallel node run on contexts of
  their own; each has the world \<open>fe_fork\<close> gives it, so that any interleaving of their awaited
  calls is a choice of these worlds. An exception is \<open>Inl\<close>; a cancellation from outside, the
  log messages and the observations sent to the semantic service are left out. The texts of
  the source are Chinese where they are replaced by English ones here.
\<close>

section \<open>The environment\<close>

datatype wait_obs =
    Late delivery_stats
  | Silent delivery_stats delivery_stats
  | Arrived delivery_stats tg_event delivery_stats delivery_stats
  | Cut

record 'w flow_env =
  fe_py :: py_env
  fe_json :: "string \<Rightarrow> py option"
  fe_negated :: "string \<Rightarrow> bool"
  fe_has_bus :: bool
  fe_exec :: "node \<Rightarrow> flow_ctx \<Rightarrow> 'w \<Rightarrow> (exc + step_outcome) \<times> flow_ctx \<times> 'w"
  fe_cut :: "node \<Rightarrow> real \<Rightarrow> 'w \<Rightarrow> 'w option"
  fe_inbox :: "node \<Rightarrow> flow_ctx \<Rightarrow> 'w \<Rightarrow> wait_obs list \<times> 'w"
  fe_semantic :: "node \<Rightarrow> tg_event \<Rightarrow> 'w \<Rightarrow> decision option \<times> 'w"
  fe_on_start :: "node \<Rightarrow> flow_ctx \<Rightarrow> 'w \<Rightarrow> flow_ctx \<times> 'w"
  fe_on_finish :: "node \<Rightarrow> step_outcome \<Rightarrow> flow_ctx \<Rightarrow> 'w \<Rightarrow> flow_ctx \<times> 'w"
  fe_sleep :: "real \<Rightarrow> 'w \<Rightarrow> 'w"
  fe_clock :: "'w \<Rightarrow> real"
  fe_now :: "'w \<Rightarrow> real"
  fe_fork :: "nat \<Rightarrow> 'w \<Rightarrow> 'w"
  fe_join :: "'w list \<Rightarrow> 'w"

type_synonym 'w step_result = "(exc + step_outcome) \<times> flow_ctx \<times> 'w"

text \<open>\<^verbatim>\<open>a or b\<close> of values.\<close>

definition py_or :: "py \<Rightarrow> py \<Rightarrow> py" where
  "py_or a b = (if py_truthy a then a else b)"

definition dict_get :: "pydict \<Rightarrow> string \<Rightarrow> py" where
  "dict_get d k = get_default d k PNone"

text \<open>\<^verbatim>\<open>round(x, 2)\<close>, halves to the even neighbour.\<close>

definition round2 :: "real \<Rightarrow> real" where
  "round2 x = (let y = x * 100; f = \<lfloor>y\<rfloor>; d = y - of_int f
     in of_int (if d < 1/2 \<or> (d = 1/2 \<and> even f) then f else f + 1) / 100)"

definition normalize_target :: "string option \<Rightarrow> string" where
  "normalize_target target =
     (if \<not> truthy_str target then terminal_complete
      else (let t = py_strip (the target)
            in if py_upper t \<in> {''COMPLETE'', ''SUCCESS'', ''DONE'', terminal_complete} then terminal_complete
               else if py_upper t \<in> {''FAIL'', ''FAILED'', ''ERROR'', terminal_fail} then terminal_fail
               else t))"

section \<open>Compiled regular expressions\<close>

definition compile_regex :: "(string \<Rightarrow> exc + 'p) \<Rightarrow> string \<Rightarrow> (string, 'p) odict \<Rightarrow> (exc + 'p) \<times> (string, 'p) odict" where
  "compile_regex compile pattern cache =
     (case map_of cache pattern of
        Some p \<Rightarrow> (Inr p, od_move_to_end pattern cache)
      | None \<Rightarrow>
          (case compile pattern of Inl e \<Rightarrow> (Inl e, cache)
           | Inr p \<Rightarrow> (let c1 = AList.update pattern p cache in (Inr p, if length c1 > 256 then tl c1 else c1))))"

section \<open>Simple nodes\<close>

fun condition_target :: "py_env \<Rightarrow> flow_ctx \<Rightarrow> (string, string) odict list \<Rightarrow> (string \<times> string) option" where
  "condition_target env c [] = None"
| "condition_target env c (case1 # cases) =
     (let expr = look case1 ''condition'' []; target = map_of case1 ''target_id''
      in if truthy_str target \<and> eval_condition env expr [] c = Inr True then Some (expr, the target)
         else condition_target env c cases)"

definition run_condition_node :: "'w flow_env \<Rightarrow> string \<Rightarrow> (string, string) odict list \<Rightarrow> string option \<Rightarrow> flow_ctx \<Rightarrow> step_outcome" where
  "run_condition_node env nid cases default_target c =
     (case condition_target (fe_py env) c cases of
        Some (expr, target) \<Rightarrow> (step_of nid SSuccess)\<lparr>so_signal := Branch, so_target := Some (normalize_target (Some target)),
          so_output := ''Condition matched: '' @ expr @ '' -> '' @ target, so_updates := False\<rparr>
      | None \<Rightarrow>
          (let t = normalize_target (str_or default_target (Some terminal_fail))
           in (step_of nid SSuccess)\<lparr>so_signal := Branch, so_target := Some t,
                so_output := ''Condition default branch -> '' @ t, so_updates := False\<rparr>))"

text \<open>The exported groups of a match.\<close>

fun match_exports :: "re_match \<Rightarrow> (string, string) odict \<Rightarrow> pydict \<Rightarrow> exc + pydict" where
  "match_exports m [] ex = Inr ex"
| "match_exports m ((k, var) # exports) ex =
     (case map_of (rm_named m) k of
        Some g \<Rightarrow> match_exports m exports (AList.update var (opt_str g) ex)
      | None \<Rightarrow>
          if py_isdigit k then
            (case int_of_digits k of None \<Rightarrow> Inl (value_error k)
             | Some i \<Rightarrow> match_exports m exports
                 (if nat i < length (rm_groups m) then AList.update var (opt_str (rm_groups m ! nat i)) ex else ex))
          else match_exports m exports
                 (if 1 < length (rm_groups m) then AList.update var (opt_str (rm_groups m ! 1)) ex else ex))"

fun json_exports :: "py \<Rightarrow> (string, string) odict \<Rightarrow> bool \<times> pydict \<Rightarrow> exc + bool \<times> pydict" where
  "json_exports data [] st = Inr st"
| "json_exports data ((k, var) # exports) st =
     (case resolve_path data k of Inl e \<Rightarrow> Inl e
      | Inr v \<Rightarrow> json_exports data exports (if v \<noteq> PNone then (True, AList.update var v (snd st)) else st))"

definition up_to_last :: "char \<Rightarrow> string \<Rightarrow> string" where
  "up_to_last c s = rev (dropWhile (\<lambda>x. x \<noteq> c) (rev s))"

text \<open>The first braced or bracketed piece of a text, as far as it reaches.\<close>

fun find_json :: "string \<Rightarrow> string option" where
  "find_json [] = None"
| "find_json (c # cs) =
     (if c = CHR ''{'' \<and> CHR ''}'' \<in> set cs then Some (c # up_to_last CHR ''}'' cs)
      else if c = CHR ''['' \<and> CHR '']'' \<in> set cs then Some (c # up_to_last CHR '']'' cs)
      else find_json cs)"

definition extract_json :: "(string \<Rightarrow> py option) \<Rightarrow> string \<Rightarrow> py" where
  "extract_json json text =
     (case json text of Some v \<Rightarrow> v
      | None \<Rightarrow> (case find_json text of None \<Rightarrow> PNone
         | Some t \<Rightarrow> (case json t of Some v \<Rightarrow> v | None \<Rightarrow> PNone)))"

definition extract_values :: "'w flow_env \<Rightarrow> node_base \<Rightarrow> extract_cfg \<Rightarrow> string \<Rightarrow> exc + bool \<times> pydict" where
  "extract_values env b x text =
     (case (if xc_regex x \<noteq> [] \<and> text \<noteq> [] then
              (case re_search (fe_py env) (xc_regex x) text of
                 ReError m \<Rightarrow> Inl (exc_of ''error'' m)
               | NoMatch \<Rightarrow> Inr (False, [])
               | Matched m \<Rightarrow> (case match_exports m (xc_export_vars x) [] of Inl e \<Rightarrow> Inl e | Inr ex \<Rightarrow> Inr (True, ex)))
            else Inr (False, [])) of
        Inl e \<Rightarrow> Inl e
      | Inr st \<Rightarrow>
          if py_truthy (dict_get (nb_metadata b) ''extract_json'') \<and> text \<noteq> [] then
            (let data = extract_json (fe_json env) text
             in if data \<noteq> PNone then json_exports data (xc_export_vars x) st else Inr st)
          else Inr st)"

definition extractor_source :: "'w flow_env \<Rightarrow> extract_cfg \<Rightarrow> flow_ctx \<Rightarrow> exc + string" where
  "extractor_source env x c =
     (let fallback = (\<lambda>t. if t = [] then fc_last_output c else t)
      in if xc_source_field x = [] then Inr (fc_last_output c)
         else (case resolve_path (build_scope_dict [] c) (xc_source_field x) of
                 Inl e \<Rightarrow> Inl e
               | Inr v \<Rightarrow> Inr (fallback (str_or_empty (fe_py env) v))))"

definition set_vars :: "pydict \<Rightarrow> flow_ctx \<Rightarrow> flow_ctx" where
  "set_vars ex c = fold (\<lambda>(k, v). set_var k v) ex c"

definition run_extractor_node :: "'w flow_env \<Rightarrow> node_base \<Rightarrow> extract_cfg \<Rightarrow> flow_ctx \<Rightarrow> (exc + step_outcome) \<times> flow_ctx" where
  "run_extractor_node env b x c =
     (case extractor_source env x c of Inl e \<Rightarrow> (Inl e, c)
      | Inr text \<Rightarrow>
          (case extract_values env b x text of Inl e \<Rightarrow> (Inl e, c)
           | Inr (matched, ex) \<Rightarrow>
               (let c1 = set_vars ex c
                in if py_truthy (get_default (nb_metadata b) ''required'' (PBool False)) \<and> \<not> matched
                   then (Inr ((step_of (nb_id b) SFailed)\<lparr>so_output := ''Extractor '' @ nb_id b @ '' failed: pattern '' @ CHR 0x27 #
                           xc_regex x @ CHR 0x27 # '' did not match and is required'', so_updates := False\<rparr>), c1)
                   else (Inr ((step_of (nb_id b) SSuccess)\<lparr>so_extracted := ex,
                           so_output := ''Extracted '' @ str_nat (length ex) @ '' variables'', so_updates := False\<rparr>), c1))))"

text \<open>The time a node gets, and a delay under it: the deadline is armed first, so a delay as long
  as the deadline does not end before it.\<close>

definition node_timeout :: "node_base \<Rightarrow> real" where
  "node_timeout b = (if nb_timeout b > 0 then nb_timeout b else 25)"

definition timeout_exc :: exc where
  "timeout_exc = exc_of ''TimeoutError'' []"

definition run_delay_node :: "'w flow_env \<Rightarrow> node_base \<Rightarrow> real \<Rightarrow> flow_ctx \<Rightarrow> 'w \<Rightarrow> 'w step_result" where
  "run_delay_node env b seconds c w =
     (let d = max 0 seconds
      in if d \<ge> node_timeout b then (Inl timeout_exc, c, fe_sleep env (node_timeout b) w)
         else (Inr ((step_of (nb_id b) SSuccess)\<lparr>so_output := ''Delayed for '' @ py_str (py_fr (fe_py env)) (PFloat (Fin d)) @ ''s'',
                 so_updates := False\<rparr>), c, if d > 0 then fe_sleep env d w else w))"

section \<open>Waiting for a message\<close>

text \<open>What a wait node looks for: chat, topic, and the watermark, as the metadata and the context
  give them.\<close>

record wait_scope =
  wp_chat :: py
  wp_thread :: py
  wp_min :: py
  wp_since :: py

definition opt_int :: "int option \<Rightarrow> py" where
  "opt_int v = (case v of None \<Rightarrow> PNone | Some i \<Rightarrow> PInt i)"

definition wait_chat :: "node_base \<Rightarrow> flow_ctx \<Rightarrow> exc + py" where
  "wait_chat b c =
     (let m = dict_get (nb_metadata b) ''chat_id''
      in if m \<noteq> PNone then Inr m
         else if py_truthy (dict_get (fc_system c) ''chat_id'') then Inr (dict_get (fc_system c) ''chat_id'')
         else ctx_get ''chat.id'' PNone c)"

definition sent_watermark :: "flow_ctx \<Rightarrow> py" where
  "sent_watermark c = py_or (dict_get (fc_system c) ''last_sent_message_id'') (dict_get (fc_system c) ''last_message_id'')"

definition wait_scope_of :: "node_base \<Rightarrow> flow_ctx \<Rightarrow> py \<Rightarrow> wait_scope" where
  "wait_scope_of b c chat = \<lparr>wp_chat = chat,
     wp_thread = py_or (dict_get (nb_metadata b) ''message_thread_id'') (dict_get (fc_system c) ''message_thread_id''),
     wp_min = (let m = dict_get (nb_metadata b) ''min_message_id'' in if m \<noteq> PNone then m else sent_watermark c),
     wp_since = py_or (py_or (dict_get (nb_metadata b) ''since_timestamp'') (dict_get (fc_system c) ''last_action_started_at''))
       (dict_get (fc_system c) ''last_action_finished_at'')\<rparr>"

text \<open>The watermark: \<open>Inr True\<close> when the event lies beyond it. A watermark that is not a number
  raises when it is compared.\<close>

definition beyond_watermark :: "wait_scope \<Rightarrow> tg_event \<Rightarrow> exc + bool" where
  "beyond_watermark p e =
     (if wp_min p \<noteq> PNone then
        (case py_int (wp_min p) of
           Some m \<Rightarrow> Inr (\<not> ev_message_id e \<le> m)
         | None \<Rightarrow> if wp_min p = PFloat NaN then Inr True
             else Inl (exc_of (case wp_min p of PFloat f \<Rightarrow> ''OverflowError'' | _ \<Rightarrow> ''TypeError'') []))
      else if wp_since p \<noteq> PNone then
        (case num_of (wp_since p) of
           Some t \<Rightarrow> Inr (\<not> fl_less (Fin (ev_occurred_at e)) t)
         | None \<Rightarrow> Inl (exc_of ''TypeError'' []))
      else Inr True)"

definition event_admitted :: "py_env \<Rightarrow> node_base \<Rightarrow> wait_cfg \<Rightarrow> wait_scope \<Rightarrow> tg_event \<Rightarrow> exc + bool" where
  "event_admitted env b wc p e =
     (if py_str (py_fr env) (ev_chat_id e) \<noteq> py_str (py_fr env) (wp_chat p) then Inr False
      else if wp_thread p \<noteq> PNone \<and> \<not> py_eq (opt_int (ev_thread_id e)) (wp_thread p) then Inr False
      else if ev_is_outgoing e then Inr False
      else if (let w = py_upper (wc_event_type wc) in
               if wc_event_type wc \<noteq> [] \<and> w \<notin> {''ANY'', ''ALL''} then py_upper (ev_type e) \<noteq> w
               else ev_type e \<notin> {''NEW_MESSAGE'', ''EDITED_MESSAGE''}) then Inr False
      else if (let s = dict_get (nb_metadata b) ''sender_id'' in s \<noteq> PNone \<and> \<not> py_eq (opt_int (ev_sender_id e)) s) then Inr False
      else beyond_watermark p e)"

definition has_gap :: "delivery_stats \<Rightarrow> bool" where
  "has_gap s \<longleftrightarrow> ds_dropped s \<noteq> 0 \<or> ds_evicted s \<noteq> 0"

definition opt_time :: "time option \<Rightarrow> py" where
  "opt_time t = (case t of None \<Rightarrow> PNone | Some x \<Rightarrow> PFloat (Fin x))"

definition gap_outcome :: "string \<Rightarrow> py \<Rightarrow> delivery_stats \<Rightarrow> step_outcome" where
  "gap_outcome nid chat s = (step_of nid SFailed)\<lparr>so_output := ''event delivery gap'', so_updates := False,
     so_details := [(''chat_id'', chat), (''failure_category'', PStr ''event_gap''), (''result'', PStr ''unknown''),
       (''event_gap'', str_dict [(''dropped_events'', PInt (int (ds_dropped s))),
          (''history_evicted_events'', PInt (int (ds_evicted s))), (''oldest_dropped_at'', opt_time (ds_oldest s)),
          (''newest_dropped_at'', opt_time (ds_newest s))])]\<rparr>"

definition reply_timeout :: "string \<Rightarrow> py \<Rightarrow> string list \<Rightarrow> step_outcome" where
  "reply_timeout nid chat unmatched = (step_of nid STimeout)\<lparr>
     so_output := (if unmatched = [] then ''reply timeout'' else ''reply timeout, unmatched: '' @ take 150 (py_strip (last unmatched))),
     so_updates := (unmatched \<noteq> []),
     so_details := [(''chat_id'', chat), (''unmatched_count'', PInt (int (length unmatched))),
       (''failure_category'', PStr (if unmatched \<noteq> [] then ''other'' else ''reply_timeout''))]\<rparr>"

definition event_details :: "tg_event \<Rightarrow> pydict" where
  "event_details e = [(''message_id'', PInt (ev_message_id e)), (''sender_id'', opt_int (ev_sender_id e)),
     (''chat_id'', ev_chat_id e), (''event_type'', PStr (ev_type e))]"

definition record_success_event :: "tg_event \<Rightarrow> flow_ctx \<Rightarrow> flow_ctx" where
  "record_success_event e c = c\<lparr>fc_last_received := ev_text e, fc_targets := fc_targets c @
     [\<lparr>tm_chat_id = ev_chat_id e, tm_message_id = ev_message_id e, tm_thread_id = ev_thread_id e,
       tm_kind = (if ev_text e \<noteq> [] then ''text'' else ''other''), tm_text = ev_text e,
       tm_received_at = ev_occurred_at e, tm_source = ''event''\<rparr>]\<rparr>"

definition set_system :: "string \<Rightarrow> py \<Rightarrow> flow_ctx \<Rightarrow> flow_ctx" where
  "set_system k v c = c\<lparr>fc_system := AList.update k v (fc_system c)\<rparr>"

definition pop_system :: "string \<Rightarrow> flow_ctx \<Rightarrow> flow_ctx" where
  "pop_system k c = c\<lparr>fc_system := AList.delete k (fc_system c)\<rparr>"

definition pattern_hit :: "py_env \<Rightarrow> string list \<Rightarrow> string \<Rightarrow> exc + bool" where
  "pattern_hit env ps text = any_res (\<lambda>p. case re_search env p text of ReError m \<Rightarrow> Inl (exc_of ''error'' m)
     | NoMatch \<Rightarrow> Inr False | Matched m \<Rightarrow> Inr True) ps"

definition success_rules :: "wait_cfg \<Rightarrow> string list" where
  "success_rules wc = (if wc_success_patterns wc \<noteq> [] then wc_success_patterns wc else wc_filter_patterns wc)"

text \<open>What an admitted event without a retry keyword leads to: an outcome, or more waiting with
  (\<open>Unmatched\<close>) its text counted as unmatched. The semantic assistance may settle an unmatched text;
  its thresholds come from the node, and one that is no number settles nothing.\<close>

datatype verdict = Verdict step_outcome flow_ctx | Unmatched

definition assist_policy :: "pydict \<Rightarrow> policy option" where
  "assist_policy sem =
     (case (py_float (get_default sem ''min_probability'' (PFloat (Fin (97/100)))),
            py_float (get_default sem ''min_margin'' (PFloat (Fin (1/4))))) of
        (Some (Fin mp), Some (Fin mm)) \<Rightarrow> Some \<lparr>po_mode = ''assist'', po_goal = [], po_min_probability = mp, po_min_margin = mm\<rparr>
      | _ \<Rightarrow> None)"

definition reply_outcome :: "string \<Rightarrow> node_status \<Rightarrow> tg_event \<Rightarrow> step_outcome" where
  "reply_outcome nid st e = (step_of nid st)\<lparr>so_output := ev_text e, so_details := event_details e\<rparr>"

definition assist_verdict ::
  "'w flow_env \<Rightarrow> node \<Rightarrow> wait_cfg \<Rightarrow> py \<Rightarrow> tg_event \<Rightarrow> delivery_stats \<Rightarrow> flow_ctx \<Rightarrow> 'w \<Rightarrow> verdict \<times> 'w" where
  "assist_verdict env nd wc chat e after_stats c w =
     (case wc_semantic wc of
        Some sem \<Rightarrow>
          (if \<not> py_eq (dict_get sem ''mode'') (PStr ''assist'') then (Unmatched, w)
           else case assist_policy sem of None \<Rightarrow> (Unmatched, w)
             | Some pol \<Rightarrow>
               (case fe_semantic env nd e w of
                  (None, w1) \<Rightarrow> (Unmatched, w1)
                | (Some d, w1) \<Rightarrow>
                    (case result_disposition d pol ''unmatched'' of
                       Succeed \<Rightarrow> if has_gap after_stats then (Verdict (gap_outcome (nd_id nd) chat after_stats) c, w1)
                                  else (Verdict (reply_outcome (nd_id nd) SSuccess e) (record_success_event e c), w1)
                     | Fail \<Rightarrow> (Verdict (reply_outcome (nd_id nd) SFailed e) c, w1)
                     | _ \<Rightarrow> (Unmatched, w1))))
      | None \<Rightarrow> (Unmatched, w))"

definition event_verdict ::
  "'w flow_env \<Rightarrow> node \<Rightarrow> wait_cfg \<Rightarrow> py \<Rightarrow> string \<Rightarrow> tg_event \<Rightarrow> delivery_stats \<Rightarrow> flow_ctx \<Rightarrow> 'w \<Rightarrow> (exc + verdict) \<times> 'w" where
  "event_verdict env nd wc chat key e after_stats c w =
     (case pattern_hit (fe_py env) (wc_failure_patterns wc) (ev_text e) of
        Inl x \<Rightarrow> (Inl x, w)
      | Inr True \<Rightarrow> (Inr (Verdict (reply_outcome (nd_id nd) SFailed e) (pop_system key c)), w)
      | Inr False \<Rightarrow>
          if success_rules wc = []
          then (Inr (Verdict (reply_outcome (nd_id nd) SSuccess e) (record_success_event e c)), w)
          else (case pattern_hit (fe_py env) (success_rules wc) (ev_text e) of
                  Inl x \<Rightarrow> (Inl x, w)
                | Inr True \<Rightarrow> (Inr (Verdict (reply_outcome (nd_id nd) SSuccess e) (record_success_event e (pop_system key c))), w)
                | Inr False \<Rightarrow> (case assist_verdict env nd wc chat e after_stats c w of (v, w1) \<Rightarrow> (Inr v, w1))))"

record wait_state =
  ws_retry :: int
  ws_scope :: wait_scope
  ws_unmatched :: "string list"

definition retry_key :: "string \<Rightarrow> string" where
  "retry_key nid = ''reply_retry_count:'' @ nid"

definition resend_action :: "graph \<Rightarrow> wait_cfg \<Rightarrow> flow_ctx \<Rightarrow> node option" where
  "resend_action g wc c =
     (case (if truthy_str (wc_action_node wc) then g_node g (the (wc_action_node wc)) else None) of
        Some a \<Rightarrow> Some a | None \<Rightarrow> fc_last_action c)"

definition other_failure :: "tg_event \<Rightarrow> pydict" where
  "other_failure e = AList.update ''failure_category'' (PStr ''other'') (event_details e)"

datatype retried = Finished step_outcome | Resent wait_state

text \<open>A reply with a retry keyword: the flow restarts, the action is sent again, or the retries
  are used up.\<close>

definition retry_reply ::
  "'w flow_env \<Rightarrow> graph \<Rightarrow> node \<Rightarrow> wait_cfg \<Rightarrow> tg_event \<Rightarrow> wait_state \<Rightarrow> flow_ctx \<Rightarrow> 'w \<Rightarrow> retried \<times> flow_ctx \<times> 'w" where
  "retry_reply env g nd wc e st c w =
     (if ws_retry st < wc_max_retries wc then
        (let w1 = fe_sleep env (wc_retry_interval wc) w; n = ws_retry st + 1;
             c1 = set_system (retry_key (nd_id nd)) (PInt n) c;
             entry = dict_get (nb_metadata (nd_base nd)) ''retry_entry_node_id'';
             text = py_str (py_fr (fe_py env)) entry
         in if py_truthy entry then
              (Finished ((step_of (nd_id nd) SSuccess)\<lparr>so_output := ''flow retry scheduled'', so_signal := Branch,
                 so_target := Some text, so_updates := False,
                 so_details := event_details e @ [(''retry_count'', PInt n), (''retry_entry_node_id'', entry),
                   (''retry_flow_restart'', PBool True)]\<rparr>), c1, w1)
            else (case resend_action g wc c1 of
                    None \<Rightarrow> (Finished ((step_of (nd_id nd) SFailed)\<lparr>so_output := ''no action to send again'',
                               so_details := other_failure e\<rparr>), c1, w1)
                  | Some a \<Rightarrow>
                      (case fe_exec env a c1 w1 of
                         (Inl x, c2, w2) \<Rightarrow> (Finished ((step_of (nd_id nd) SFailed)\<lparr>so_output := ''resend error: '' @ ex_message x,
                               so_error := Some x, so_details := other_failure e\<rparr>), c2, w2)
                       | (Inr o1, c2, w2) \<Rightarrow>
                           if so_status o1 \<noteq> SSuccess
                           then (Finished ((step_of (nd_id nd) SFailed)\<lparr>so_output := ''resend failed: '' @ so_output o1,
                                   so_details := other_failure e\<rparr>), c2, w2)
                           else (Resent \<lparr>ws_retry = n,
                                   ws_scope = (ws_scope st)\<lparr>wp_since := PFloat (Fin (fe_now env w1)), wp_min := sent_watermark c2\<rparr>,
                                   ws_unmatched = []\<rparr>, c2, w2))))
      else (Finished ((step_of (nd_id nd) SFailed)\<lparr>so_output := ''retries used up: '' @ ev_text e,
              so_details := event_details e @ [(''failure_category'', PStr ''retry_exhausted''), (''retry_count'', PInt (ws_retry st)),
                (''max_retries'', PInt (wc_max_retries wc)), (''last_reply'', PStr (ev_text e))]\<rparr>), c, w))"

fun wait_loop ::
  "'w flow_env \<Rightarrow> graph \<Rightarrow> node \<Rightarrow> wait_cfg \<Rightarrow> wait_obs list \<Rightarrow> wait_state \<Rightarrow> flow_ctx \<Rightarrow> 'w \<Rightarrow> 'w step_result" where
  "wait_loop env g nd wc [] st c w = (Inr (reply_timeout (nd_id nd) (wp_chat (ws_scope st)) (ws_unmatched st)), c, w)"
| "wait_loop env g nd wc (Cut # obs) st c w = (Inl timeout_exc, c, w)"
| "wait_loop env g nd wc (Late s # obs) st c w =
     (Inr (if has_gap s then gap_outcome (nd_id nd) (wp_chat (ws_scope st)) s
           else reply_timeout (nd_id nd) (wp_chat (ws_scope st)) (ws_unmatched st)), c, w)"
| "wait_loop env g nd wc (Silent s s' # obs) st c w =
     (Inr (if has_gap s then gap_outcome (nd_id nd) (wp_chat (ws_scope st)) s
           else if has_gap s' then gap_outcome (nd_id nd) (wp_chat (ws_scope st)) s'
           else reply_timeout (nd_id nd) (wp_chat (ws_scope st)) (ws_unmatched st)), c, w)"
| "wait_loop env g nd wc (Arrived s e s1 s2 # obs) st c w =
     (if has_gap s then (Inr (gap_outcome (nd_id nd) (wp_chat (ws_scope st)) s), c, w)
      else if has_gap s1 then (Inr (gap_outcome (nd_id nd) (wp_chat (ws_scope st)) s1), c, w)
      else (case event_admitted (fe_py env) (nd_base nd) wc (ws_scope st) e of
              Inl x \<Rightarrow> (Inl x, c, w)
            | Inr False \<Rightarrow> wait_loop env g nd wc obs st c w
            | Inr True \<Rightarrow>
                if matches_retry_keyword (fe_negated env) (ev_text e) (wc_retry_keywords wc) \<notin> {None, Some []}
                then (case retry_reply env g nd wc e st c w of
                        (Finished o1, c1, w1) \<Rightarrow> (Inr o1, c1, w1)
                      | (Resent st1, c1, w1) \<Rightarrow> wait_loop env g nd wc obs st1 c1 w1)
                else (case event_verdict env nd wc (wp_chat (ws_scope st)) (retry_key (nd_id nd)) e s2 c w of
                        (Inl x, w1) \<Rightarrow> (Inl x, c, w1)
                      | (Inr (Verdict o1 c1), w1) \<Rightarrow> (Inr o1, c1, w1)
                      | (Inr Unmatched, w1) \<Rightarrow>
                          wait_loop env g nd wc obs (st\<lparr>ws_unmatched := ws_unmatched st @ [ev_text e]\<rparr>) c w1)))"

definition run_wait_event_node :: "'w flow_env \<Rightarrow> graph \<Rightarrow> node \<Rightarrow> wait_cfg \<Rightarrow> flow_ctx \<Rightarrow> 'w \<Rightarrow> 'w step_result" where
  "run_wait_event_node env g nd wc c w =
     (case wait_chat (nd_base nd) c of
        Inl x \<Rightarrow> (Inl x, c, w)
      | Inr chat \<Rightarrow>
          if chat = PNone then
            (Inr ((step_of (nd_id nd) SFailed)\<lparr>so_output := ''no chat_id'', so_updates := False\<rparr>), c, w)
          else (case py_int (py_or (get_default (fc_system c) (retry_key (nd_id nd)) (PInt 0)) (PInt 0)) of
                  None \<Rightarrow> (Inl (exc_of ''ValueError'' []), c, w)
                | Some n \<Rightarrow>
                    (case fe_inbox env nd c w of (obs, w1) \<Rightarrow>
                       wait_loop env g nd wc obs \<lparr>ws_retry = n, ws_scope = wait_scope_of (nd_base nd) c chat, ws_unmatched = []\<rparr> c w1)))"

section \<open>Runs: their result and bookkeeping\<close>

record metrics =
  mt_total_steps :: nat
  mt_unique_nodes :: nat
  mt_succeeded :: nat
  mt_failed :: nat
  mt_skipped :: nat
  mt_timeouts :: nat
  mt_total_duration :: real
  mt_avg_duration :: real
  mt_slowest :: "(string \<times> real) option"

record flow_result =
  fr_status :: string
  fr_business :: string
  fr_path :: "string list"
  fr_steps :: nat
  fr_duration :: real
  fr_trace :: "py list"
  fr_metrics :: metrics
  fr_receipts :: "py list"
  fr_error :: "string option"
  fr_failure_code :: "string option"
  fr_failure_category :: "string option"
  fr_non_retryable :: bool
  fr_disposition :: "string option"
  fr_target_message :: "string option"
  fr_targets :: "target_message list"
  fr_last_output :: string
  fr_last_received :: string

record run_state =
  rs_current :: "string option"
  rs_path :: "string list"
  rs_visits :: "(string, nat) odict"
  rs_steps :: nat
  rs_failures :: int
  rs_error :: "string option"
  rs_code :: "string option"
  rs_category :: "string option"
  rs_non_retryable :: bool
  rs_disposition :: "string option"

definition receipt_dict :: "op_receipt \<Rightarrow> py" where
  "receipt_dict r = str_dict [(''operation_id'', PStr (or_operation_id r)), (''node_id'', PStr (or_node_id r)),
     (''attempt'', PInt (or_attempt r)), (''kind'', PStr (or_kind r)), (''state'', PStr (op_state_value (or_state r))),
     (''remote_id'', opt_str (or_remote_id r)), (''evidence'', str_dict (or_evidence r))]"

text \<open>The outcomes a trace or the metrics describe.\<close>

definition run_outcomes :: "string list \<Rightarrow> flow_ctx \<Rightarrow> step_outcome list" where
  "run_outcomes path c = (if fc_history c \<noteq> [] then fc_history c else List.map_filter (\<lambda>i. map_of (fc_outcomes c) i) path)"

definition trace_entry :: "step_outcome \<Rightarrow> py" where
  "trace_entry so = str_dict [(''node_id'', PStr (so_node_id so)), (''status'', PStr (status_value (so_status so))),
     (''duration_ms'', PFloat (Fin (so_duration so))), (''output'', PStr (redact_trace_text (so_output so))),
     (''output_text'', PStr (redact_trace_text (so_output so))), (''extracted_vars'', redact_dict (so_extracted so)),
     (''matched_terminal'', PBool (so_matched_terminal so)), (''signal'', PStr (signal_value (so_signal so))),
     (''target_node_id'', opt_str (so_target so)),
     (''error'', opt_str (map_option (\<lambda>e. redact_trace_text (ex_message e)) (so_error so))),
     (''details'', str_dict (so_details so))]"

definition build_trace :: "string list \<Rightarrow> flow_ctx \<Rightarrow> py list" where
  "build_trace path c = map trace_entry (run_outcomes path c)"

fun slowest :: "(string \<times> real) option \<Rightarrow> real \<Rightarrow> step_outcome list \<Rightarrow> (string \<times> real) option" where
  "slowest best m [] = best"
| "slowest best m (so # sos) =
     (if so_duration so > m then slowest (Some (so_node_id so, so_duration so)) (so_duration so) sos else slowest best m sos)"

definition calculate_metrics :: "string list \<Rightarrow> flow_ctx \<Rightarrow> real \<Rightarrow> metrics" where
  "calculate_metrics path c dur =
     (let os = run_outcomes path c; count = (\<lambda>P. length (filter (\<lambda>so. P (so_status so)) os))
      in \<lparr>mt_total_steps = length path, mt_unique_nodes = length (remdups path),
          mt_succeeded = count (\<lambda>s. s = SSuccess \<or> s = STerminalEarly), mt_failed = count (\<lambda>s. s = STimeout \<or> s = SFailed),
          mt_skipped = count (\<lambda>s. s = SSkipped), mt_timeouts = count (\<lambda>s. s = STimeout), mt_total_duration = dur,
          mt_avg_duration = (if os = [] then 0 else round2 (sum_list (map so_duration os) / real (length os))),
          mt_slowest = slowest None (- 1) os\<rparr>)"

definition is_wait :: "node option \<Rightarrow> bool" where
  "is_wait n \<longleftrightarrow> (case n of Some (Node b (WaitEvent wc)) \<Rightarrow> True | _ \<Rightarrow> False)"

definition business_status :: "graph \<Rightarrow> bool \<Rightarrow> flow_ctx \<Rightarrow> string" where
  "business_status g ok c =
     (let os = map snd (fc_outcomes c)
      in if ok \<and> list_ex (\<lambda>so. py_eq (dict_get (so_details so) ''business_status'') (PStr ''partial'')) os then ''partial''
         else if list_ex (\<lambda>r. or_state r = OpUnknown) (fc_receipts c) then ''unknown''
         else if ok \<and> list_ex (\<lambda>so. is_wait (g_node g (so_node_id so)) \<and> so_status so = SSuccess) os then ''confirmed''
         else if ok then ''not_evaluated'' else ''failed'')"

definition target_text :: "flow_ctx \<Rightarrow> string option" where
  "target_text c = (if fc_last_received c \<noteq> [] then Some (fc_last_received c)
     else if fc_targets c \<noteq> [] then Some (tm_text (last (fc_targets c))) else None)"

definition flow_outcome :: "graph \<Rightarrow> run_state \<Rightarrow> real \<Rightarrow> flow_ctx \<Rightarrow> flow_result" where
  "flow_outcome g st dur c =
     (let ok = (rs_current st = Some terminal_complete);
          current = (if truthy_str (rs_current st) then the (rs_current st) else ''unknown'');
          err = (if truthy_str (rs_error st) then the (rs_error st) else ''Workflow failed at node '' @ current)
      in \<lparr>fr_status = (if ok then ''success'' else ''failed''), fr_business = business_status g ok c,
          fr_path = rs_path st, fr_steps = rs_steps st, fr_duration = dur, fr_trace = build_trace (rs_path st) c,
          fr_metrics = calculate_metrics (rs_path st) c dur, fr_receipts = map receipt_dict (fc_receipts c),
          fr_error = (if ok then None else Some (redact_trace_text err)),
          fr_failure_code = (if ok then None else rs_code st),
          fr_failure_category = (if ok then None else rs_category st),
          fr_non_retryable = (\<not> ok \<and> rs_non_retryable st),
          fr_disposition = (if ok then None else rs_disposition st),
          fr_target_message = target_text c, fr_targets = fc_targets c,
          fr_last_output = fc_last_output c, fr_last_received = fc_last_received c\<rparr>)"

section \<open>Subflows and parallel branches\<close>

type_synonym 'w runner = "graph \<Rightarrow> flow_ctx \<Rightarrow> 'w \<Rightarrow> (exc + flow_result) \<times> flow_ctx \<times> 'w"

text \<open>The context of a nested run: copies of the system, account and variables and the last output.\<close>

definition nested_ctx :: "flow_ctx \<Rightarrow> flow_ctx" where
  "nested_ctx c = (ctx_new (fc_system c) (fc_account c))
     \<lparr>fc_last_action := fc_last_action c, fc_vars := fc_vars c, fc_last_output := fc_last_output c\<rparr>"

definition map_inputs :: "(string, string) odict \<Rightarrow> flow_ctx \<Rightarrow> flow_ctx \<Rightarrow> flow_ctx" where
  "map_inputs inputs c sub = fold (\<lambda>(target, src) d. if has_var src c then set_var target (get_var src PNone c) d else d) inputs sub"

definition copy_output :: "flow_ctx \<Rightarrow> string \<Rightarrow> string \<Rightarrow> pydict \<times> flow_ctx \<Rightarrow> pydict \<times> flow_ctx" where
  "copy_output sub sub_k parent_k st =
     (case map_of (fc_vars sub) sub_k of None \<Rightarrow> st
      | Some v \<Rightarrow> (AList.update parent_k v (fst st), set_var parent_k v (snd st)))"

definition map_outputs :: "subflow_cfg \<Rightarrow> flow_ctx \<Rightarrow> pydict \<times> flow_ctx \<Rightarrow> pydict \<times> flow_ctx" where
  "map_outputs sc sub st =
     fold (\<lambda>k. copy_output sub k k) (sc_export_vars sc)
       (fold (\<lambda>(sub_k, parent_k). copy_output sub sub_k parent_k) (sc_output_vars sc) st)"

definition run_subflow_node :: "'w flow_env \<Rightarrow> 'w runner \<Rightarrow> node_base \<Rightarrow> graph option \<Rightarrow> subflow_cfg \<Rightarrow> flow_ctx \<Rightarrow> 'w \<Rightarrow> 'w step_result" where
  "run_subflow_node env run b sub_graph sc c w =
     (case sub_graph of
        None \<Rightarrow> (Inr ((step_of (nb_id b) SFailed)\<lparr>so_output := ''SubflowNode has no subflow_graph'', so_updates := False\<rparr>), c, w)
      | Some sg \<Rightarrow>
          (case run sg (map_inputs (sc_input_vars sc) c (nested_ctx c)) w of
             (Inl x, sub, w1) \<Rightarrow> (Inl x, c, w1)
           | (Inr r, sub, w1) \<Rightarrow>
               (let ok = (fr_status r = ''success'');
                    (ex, c1) = (if ok then map_outputs sc sub ([], c) else ([], c))
                in (Inr ((step_of (nb_id b) (if ok then SSuccess else SFailed))
                     \<lparr>so_output := ''Subflow finished with status: '' @ fr_status r, so_extracted := ex\<rparr>), c1, w1))))"

text \<open>The branches in order, each in the world \<open>fe_fork\<close> gives it, and the worlds they leave.\<close>

fun run_branches :: "'w flow_env \<Rightarrow> 'w runner \<Rightarrow> flow_ctx \<Rightarrow> 'w \<Rightarrow> nat \<Rightarrow> graph list \<Rightarrow> ((exc + flow_result) \<times> flow_ctx \<times> 'w) list" where
  "run_branches env run c w i [] = []"
| "run_branches env run c w i (g # gs) = run g (nested_ctx c) (fe_fork env i w) # run_branches env run c w (Suc i) gs"

definition branch_ok :: "(exc + flow_result) \<times> flow_ctx \<times> 'w \<Rightarrow> bool" where
  "branch_ok r = (case fst r of Inl x \<Rightarrow> False | Inr res \<Rightarrow> fr_status res = ''success'')"

text \<open>The values the successful branches wrote, per variable in branch order: a value equal to the
  one before the fork is no write.\<close>

definition branch_writes :: "pydict \<Rightarrow> pydict \<Rightarrow> (string, py list) odict \<Rightarrow> (string, py list) odict" where
  "branch_writes before after written = fold (\<lambda>(k, v) d.
     case map_of before k of
       Some u \<Rightarrow> if py_eq v u then d else AList.update k (look d k [] @ [v]) d
     | None \<Rightarrow> AList.update k (look d k [] @ [v]) d) after written"

definition written_values :: "string \<Rightarrow> flow_ctx \<Rightarrow> ((exc + flow_result) \<times> flow_ctx \<times> 'w) list \<Rightarrow> (string, py list) odict" where
  "written_values strategy c rs = fold (\<lambda>r d. if branch_ok r \<and> strategy = ''merge''
     then branch_writes (fc_vars c) (fc_vars (fst (snd r))) d else d) rs []"

definition conflicting :: "py list \<Rightarrow> bool" where
  "conflicting vs = (case vs of [] \<Rightarrow> False | v # us \<Rightarrow> list_ex (\<lambda>u. \<not> py_eq u v) us)"

definition conflicts_of :: "(string, py list) odict \<Rightarrow> string list" where
  "conflicts_of written = map fst (filter (\<lambda>e. conflicting (snd e)) written)"

definition merge_value :: "conflict_policy \<Rightarrow> py list \<Rightarrow> py" where
  "merge_value p vs = (if p = Collect \<and> conflicting vs then PList vs else if p = FirstWriter then hd vs else last vs)"

definition merged_vars :: "conflict_policy \<Rightarrow> (string, py list) odict \<Rightarrow> pydict" where
  "merged_vars p written = map (\<lambda>(k, vs). (k, merge_value p vs)) written"

definition branch_success :: "parallel_mode \<Rightarrow> nat \<Rightarrow> nat \<Rightarrow> bool" where
  "branch_success mode succeeded failed = (case mode of ModeAll \<Rightarrow> failed = 0 | ModeAny \<Rightarrow> succeeded > 0 | ModeAllSettled \<Rightarrow> True)"

definition branch_receipts :: "string \<Rightarrow> nat \<Rightarrow> flow_ctx \<Rightarrow> op_receipt list" where
  "branch_receipts nid i c = map (\<lambda>r. r\<lparr>or_operation_id := nid @ ''.branch'' @ str_nat i @ ''.'' @ or_operation_id r\<rparr>) (fc_receipts c)"

definition metrics_dict :: "metrics \<Rightarrow> py" where
  "metrics_dict m = str_dict [(''total_steps'', PInt (int (mt_total_steps m))), (''unique_nodes_count'', PInt (int (mt_unique_nodes m))),
     (''succeeded_steps'', PInt (int (mt_succeeded m))), (''failed_steps'', PInt (int (mt_failed m))),
     (''skipped_steps'', PInt (int (mt_skipped m))), (''timeout_steps'', PInt (int (mt_timeouts m))),
     (''total_duration_ms'', PFloat (Fin (mt_total_duration m))), (''avg_step_duration_ms'', PFloat (Fin (mt_avg_duration m))),
     (''slowest_step'', case mt_slowest m of None \<Rightarrow> PNone
        | Some (i, d) \<Rightarrow> str_dict [(''node_id'', PStr i), (''duration_ms'', PFloat (Fin d))])]"

definition branch_detail :: "string \<Rightarrow> nat \<Rightarrow> (exc + flow_result) \<times> flow_ctx \<times> 'w \<Rightarrow> py" where
  "branch_detail nid i r =
     (case fst r of
        Inl x \<Rightarrow> str_dict [(''branch_index'', PInt (int i)), (''status'', PStr ''failed''), (''error'', PStr (ex_message x))]
      | Inr res \<Rightarrow> str_dict [(''branch_index'', PInt (int i)), (''status'', PStr (fr_status res)),
          (''path'', PList (map PStr (fr_path res))), (''trace'', PList (fr_trace res)), (''metrics'', metrics_dict (fr_metrics res)),
          (''error'', opt_str (fr_error res)), (''business_status'', PStr (fr_business res)),
          (''operation_receipts'', PList (map receipt_dict (branch_receipts nid i (fst (snd r)))))])"

definition finished_receipts :: "string \<Rightarrow> ((exc + flow_result) \<times> flow_ctx \<times> 'w) list \<Rightarrow> op_receipt list" where
  "finished_receipts nid rs = concat (map (\<lambda>(i, r). case fst r of Inl x \<Rightarrow> [] | Inr res \<Rightarrow> branch_receipts nid i (fst (snd r)))
     (enumerate 0 rs))"

definition join_branches ::
  "node_base \<Rightarrow> parallel_cfg \<Rightarrow> flow_ctx \<Rightarrow> ((exc + flow_result) \<times> flow_ctx \<times> 'w) list \<Rightarrow> step_outcome \<times> flow_ctx" where
  "join_branches b pc c rs =
     (let succeeded = length (filter branch_ok rs); failed = length (filter (\<lambda>r. \<not> branch_ok r) rs);
          written = written_values (pc_join_strategy pc) c rs;
          conflicts = conflicts_of written;
          refused = (conflicts \<noteq> [] \<and> pc_policy pc = ConflictFail);
          ok = (branch_success (pc_mode pc) succeeded failed \<and> \<not> refused);
          merged = (if refused then [] else merged_vars (pc_policy pc) written);
          c1 = (if ok \<and> pc_join_strategy pc = ''merge'' then c\<lparr>fc_vars := update_dict (fc_vars c) merged\<rparr> else c);
          receipts = finished_receipts (nb_id b) rs;
          c2 = c1\<lparr>fc_receipts := fc_receipts c1 @ receipts\<rparr>;
          business = (if list_ex (\<lambda>r. or_state r = OpUnknown) receipts then ''unknown''
                      else if failed \<noteq> 0 \<and> succeeded \<noteq> 0 then ''partial'' else if failed \<noteq> 0 then ''failed'' else ''confirmed'')
      in ((step_of (nb_id b) (if ok then SSuccess else SFailed))
            \<lparr>so_output := ''ParallelNode branches finished: '' @ str_nat succeeded @ '' succeeded, '' @ str_nat failed
                @ '' failed (mode='' @ mode_value (pc_mode pc) @ '')'',
              so_extracted := merged, so_updates := False,
              so_details := [(''branches'', PList (map (\<lambda>(i, r). branch_detail (nb_id b) i r) (enumerate 0 rs))),
                (''execution_status'', PStr ''completed''), (''business_status'', PStr business),
                (''variable_conflicts'', PList (map PStr conflicts))]\<rparr>, c2))"

definition run_parallel_node :: "'w flow_env \<Rightarrow> 'w runner \<Rightarrow> node_base \<Rightarrow> graph list \<Rightarrow> parallel_cfg \<Rightarrow> flow_ctx \<Rightarrow> 'w \<Rightarrow> 'w step_result" where
  "run_parallel_node env run b gs pc c w =
     (if gs = [] then (Inr ((step_of (nb_id b) SSuccess)\<lparr>so_output := ''ParallelNode has no branches'', so_updates := False\<rparr>), c, w)
      else (let rs = run_branches env run c w 0 gs
            in case join_branches b pc c rs of (so, c1) \<Rightarrow> (Inr so, c1, fe_join env (map (\<lambda>r. snd (snd r)) rs))))"

section \<open>One node\<close>

text \<open>\<^verbatim>\<open>_execute_node\<close> under \<^verbatim>\<open>wait_for\<close>: a nested run that is cut leaves the context as it was.\<close>

definition execute_node :: "'w flow_env \<Rightarrow> 'w runner \<Rightarrow> graph \<Rightarrow> node \<Rightarrow> flow_ctx \<Rightarrow> 'w \<Rightarrow> 'w step_result" where
  "execute_node env run g nd c w =
     (let b = nd_base nd; nested = (\<lambda>r. case fe_cut env nd (node_timeout b) w of Some w1 \<Rightarrow> (Inl timeout_exc, c, w1) | None \<Rightarrow> r)
      in case nd_kind nd of
           Action t ps \<Rightarrow> fe_exec env nd (set_system ''last_action_node'' (PObj (nb_id b)) c\<lparr>fc_last_action := Some nd\<rparr>) w
         | Condition cases dflt \<Rightarrow> (Inr (run_condition_node env (nb_id b) cases dflt c), c, w)
         | Extractor x \<Rightarrow> (case run_extractor_node env b x c of (r, c1) \<Rightarrow> (r, c1, w))
         | Delay seconds \<Rightarrow> run_delay_node env b seconds c w
         | Subflow sg sc \<Rightarrow> nested (run_subflow_node env run b sg sc c w)
         | Parallel gs pc \<Rightarrow> nested (run_parallel_node env run b gs pc c w)
         | WaitEvent wc \<Rightarrow>
             if fe_has_bus env then run_wait_event_node env g nd wc c w
             else (Inr ((step_of (nb_id b) SFailed)\<lparr>so_output := ''WaitEventNode '' @ nb_id b @ '' failed: no event bus'',
                     so_updates := False\<rparr>), c, w))"

section \<open>Attempts\<close>

definition backoff :: "retry_policy \<Rightarrow> nat \<Rightarrow> real" where
  "backoff rp attempt = min (rp_backoff rp * rp_multiplier rp ^ (attempt - 1)) (rp_max_backoff rp)"

definition side_effect_seen :: "flow_ctx \<Rightarrow> bool" where
  "side_effect_seen c \<longleftrightarrow> fc_side_effect c \<or> py_truthy (get_default (fc_system c) ''side_effect_started'' (PBool False))"

definition must_not_retry :: "retry_policy \<Rightarrow> exc \<Rightarrow> flow_ctx \<Rightarrow> bool" where
  "must_not_retry rp x c \<longleftrightarrow> ex_non_retryable x \<or> side_effect_seen c \<or>
     (rp_retry_on rp \<noteq> [] \<and> ex_class x \<notin> set (rp_retry_on rp) \<and> \<not> (ex_timeout x \<and> ''TimeoutError'' \<in> set (rp_retry_on rp)))"

definition failed_step :: "string \<Rightarrow> exc \<Rightarrow> real \<Rightarrow> step_outcome" where
  "failed_step nid x dur = (step_of nid (if ex_timeout x then STimeout else SFailed))\<lparr>so_error := Some x,
     so_output := (if ex_message x \<noteq> [] then ex_message x else if ex_timeout x then ''TimeoutError'' else ''Execution error''),
     so_duration := dur\<rparr>"

text \<open>The attempts at a node, of which \<open>left\<close> are left and \<open>k\<close> were made, and how many were made in all.\<close>

fun attempt_loop :: "nat \<Rightarrow> nat \<Rightarrow> 'w flow_env \<Rightarrow> 'w runner \<Rightarrow> graph \<Rightarrow> node \<Rightarrow> flow_ctx \<Rightarrow> 'w \<Rightarrow> step_outcome option \<times> flow_ctx \<times> 'w \<times> nat" where
  "attempt_loop 0 k env run g nd c w = (None, c, w, k)"
| "attempt_loop (Suc left) k env run g nd c w =
     (let rp = nb_retry (nd_base nd); again = (\<lambda>c1 w1. attempt_loop left (Suc k) env run g nd c1 (fe_sleep env (backoff rp (Suc k)) w1))
      in case execute_node env run g nd c w of
           (Inr so, c1, w1) \<Rightarrow> if so_signal so \<noteq> RetryNode \<or> left = 0 then (Some so, c1, w1, Suc k) else again c1 w1
         | (Inl x, c1, w1) \<Rightarrow>
             if must_not_retry rp x c1 \<or> left = 0
             then (Some (failed_step (nd_id nd) x (round2 ((fe_clock env w1 - fe_clock env w) * 1000))), c1, w1, Suc k)
             else again c1 w1)"

text \<open>The outcome the run records: a retry signal that is left over is a failure.\<close>

definition settled_outcome :: "string \<Rightarrow> step_outcome option \<Rightarrow> step_outcome" where
  "settled_outcome nid r = (case r of None \<Rightarrow> step_of nid SFailed
     | Some so \<Rightarrow> if so_signal so = RetryNode then so\<lparr>so_status := SFailed, so_signal := Proceed\<rparr> else so)"

section \<open>The steps of a run\<close>

definition loop_limit_error :: "node \<Rightarrow> nat \<Rightarrow> string list \<Rightarrow> exc" where
  "loop_limit_error nd n path =
     (let lp = nb_loop (nd_base nd)
      in exc_of ''FlowLoopLimitExceededError'' (''Node '' @ nd_id nd @
        (if lp_allow_loop lp
         then '' loop limit exceeded ('' @ str_nat n @ ''/'' @ str_int (lp_max_visits lp) @ '', path: ''
         else '' loop not allowed (visited '' @ str_nat n @ '' times, path: '') @ join_with '' -> '' path @ '')''))"

definition visit_refused :: "loop_policy \<Rightarrow> nat \<Rightarrow> bool" where
  "visit_refused lp n \<longleftrightarrow> (if lp_allow_loop lp then int n > lp_max_visits lp else n > 1)"

text \<open>Whether the guards skip the node, with the reason.\<close>

definition guard_skips :: "py_env \<Rightarrow> node_base \<Rightarrow> flow_ctx \<Rightarrow> exc + string option" where
  "guard_skips env b c =
     (case (if truthy_str (nb_skip_if b) then eval_condition env (the (nb_skip_if b)) [] c else Inr False) of
        Inl x \<Rightarrow> Inl x
      | Inr True \<Rightarrow> Inr (Some (''Condition skip_if '' @ the (nb_skip_if b) @ '' evaluated to True''))
      | Inr False \<Rightarrow>
          (case (if truthy_str (nb_run_if b) then eval_condition env (the (nb_run_if b)) [] c else Inr True) of
             Inl x \<Rightarrow> Inl x
           | Inr True \<Rightarrow> Inr None
           | Inr False \<Rightarrow> Inr (Some (''Condition run_if '' @ the (nb_run_if b) @ '' evaluated to False''))))"

text \<open>The text of a failed step: its output, else its error, else \<open>dflt\<close>.\<close>

definition failure_text :: "step_outcome \<Rightarrow> string \<Rightarrow> string" where
  "failure_text so dflt =
     (if so_output so \<noteq> [] then so_output so
      else case so_error so of Some x \<Rightarrow> if ex_message x \<noteq> [] then ex_message x else dflt | None \<Rightarrow> dflt)"

definition controlled_error :: "exc \<Rightarrow> bool" where
  "controlled_error x \<longleftrightarrow> truthy_str (ex_failure_code x) \<or> truthy_str (ex_disposition x) \<or> ex_non_retryable x"

definition controlled_detail :: "step_outcome \<Rightarrow> bool" where
  "controlled_detail so \<longleftrightarrow> dict_get (so_details so) ''semantic_disposition'' \<in> {PStr ''review'', PStr ''stop''}"

text \<open>What the outcome tells about a controlled termination, noted in the bookkeeping.\<close>

definition note_failure :: "py_env \<Rightarrow> step_outcome \<Rightarrow> run_state \<Rightarrow> run_state" where
  "note_failure env so st =
     (let st1 = (case so_error so of
                   Some x \<Rightarrow> if controlled_error x
                     then st\<lparr>rs_code := ex_failure_code x, rs_disposition := ex_disposition x, rs_non_retryable := True\<rparr> else st
                 | None \<Rightarrow> st);
          cat = dict_get (so_details so) ''failure_category'';
          st2 = (if py_truthy cat then
                   (let s = st1\<lparr>rs_category := Some (py_str (py_fr env) cat)\<rparr>
                    in if py_eq cat (PStr ''retry_exhausted'') then s\<lparr>rs_non_retryable := True\<rparr> else s)
                 else st1)
      in case dict_get (so_details so) ''semantic_disposition'' of
           PStr d \<Rightarrow> if d = ''review'' then st2\<lparr>rs_disposition := Some d, rs_non_retryable := True, rs_code := Some ''semantic_review_required''\<rparr>
                     else if d = ''stop'' then st2\<lparr>rs_disposition := Some d, rs_non_retryable := True, rs_code := Some ''semantic_stop_requested''\<rparr>
                     else st2
         | _ \<Rightarrow> st2)"

definition controlled :: "step_outcome \<Rightarrow> bool" where
  "controlled so \<longleftrightarrow> (case so_error so of Some x \<Rightarrow> controlled_error x | None \<Rightarrow> False) \<or> controlled_detail so"

definition succeeded :: "step_outcome \<Rightarrow> bool" where
  "succeeded so \<longleftrightarrow> so_status so \<in> {SSuccess, STerminalEarly}"

definition failed :: "step_outcome \<Rightarrow> bool" where
  "failed so \<longleftrightarrow> so_status so \<in> {SFailed, STimeout}"

definition count_failure :: "step_outcome \<Rightarrow> run_state \<Rightarrow> run_state" where
  "count_failure so st = (if succeeded so then st\<lparr>rs_failures := 0\<rparr>
     else if failed so then st\<lparr>rs_failures := rs_failures st + 1\<rparr> else st)"

definition circuit_tripped :: "graph \<Rightarrow> step_outcome \<Rightarrow> run_state \<Rightarrow> bool" where
  "circuit_tripped g so st \<longleftrightarrow> failed so \<and> (case g_failure_limit g of None \<Rightarrow> False | Some l \<Rightarrow> rs_failures st \<ge> l)"

datatype progress = Onward run_state | Finish run_state

definition go_to :: "string option \<Rightarrow> run_state \<Rightarrow> progress" where
  "go_to target st = Onward (st\<lparr>rs_current := Some (normalize_target target)\<rparr>)"

definition end_at :: "string \<Rightarrow> run_state \<Rightarrow> progress" where
  "end_at target st = Finish (st\<lparr>rs_current := Some target\<rparr>)"

text \<open>The signals, the terminal policy, and the way on.\<close>

definition advance :: "graph \<Rightarrow> node \<Rightarrow> step_outcome \<Rightarrow> run_state \<Rightarrow> progress" where
  "advance g nd so st =
     (let b = nd_base nd; terminal_hit = so_matched_terminal so \<and> succeeded so
      in if so_signal so = HaltSuccess then end_at terminal_complete st
         else if so_signal so = HaltFail then
           end_at terminal_fail (st\<lparr>rs_error := Some (failure_text so (''Node '' @ nb_id b @ '' halted with failure''))\<rparr>)
         else if so_signal so = Branch \<and> truthy_str (so_target so) then
           go_to (so_target so) (if py_truthy (dict_get (so_details so) ''retry_flow_restart'') then st\<lparr>rs_visits := []\<rparr> else st)
         else if terminal_hit \<and> nb_terminal_policy b = StopFlow then end_at terminal_complete st
         else if terminal_hit \<and> nb_terminal_policy b = BranchTo then
           go_to (str_or (nb_terminal_target b) (str_or (nb_next b) (Some terminal_complete))) st
         else if so_status so \<in> {SSuccess, STerminalEarly, SSkipped} then go_to (str_or (nb_next b) (Some terminal_complete)) st
         else
           (let st1 = st\<lparr>rs_error := Some (failure_text so (''Node '' @ nb_id b @ '' failed''))\<rparr>;
                fallback = (if \<not> truthy_str (nb_on_failure b) \<and> truthy_str (g_error_handler g) \<and> Some (nb_id b) \<noteq> g_error_handler g
                            then g_error_handler g else nb_on_failure b)
            in go_to (str_or fallback (Some terminal_fail)) st1))"

text \<open>Where the run goes after a recorded outcome: a controlled termination and the circuit breaker
  end it, otherwise it advances.\<close>

definition progress_of :: "py_env \<Rightarrow> graph \<Rightarrow> node \<Rightarrow> step_outcome \<Rightarrow> run_state \<Rightarrow> progress" where
  "progress_of env g nd so st =
     (let st1 = note_failure env so st; st2 = count_failure so st1;
          code = (if truthy_str (rs_code st1) then the (rs_code st1)
                  else case rs_disposition st1 of None \<Rightarrow> ''None'' | Some d \<Rightarrow> d)
      in if controlled so then
           end_at terminal_fail (st1\<lparr>rs_error := Some (failure_text so
              (''Node '' @ nd_id nd @ '' controlled termination: '' @ code))\<rparr>)
         else if circuit_tripped g so st2 then
           end_at terminal_fail (st2\<lparr>rs_error := Some (''Circuit breaker triggered: consecutive failures reached ''
             @ (case g_failure_limit g of None \<Rightarrow> ''None'' | Some l \<Rightarrow> str_int l))\<rparr>)
         else advance g nd so st2)"

text \<open>After the attempts: the outcome is recorded, and the hook is called unless the run was ended.\<close>

definition after_node ::
  "'w flow_env \<Rightarrow> graph \<Rightarrow> node \<Rightarrow> step_outcome \<Rightarrow> run_state \<Rightarrow> flow_ctx \<Rightarrow> 'w \<Rightarrow> progress \<times> flow_ctx \<times> 'w" where
  "after_node env g nd so st c w =
     (let c1 = record_step_outcome so c; p = progress_of (fe_py env) g nd so st;
          st2 = count_failure so (note_failure (fe_py env) so st)
      in if controlled so \<or> circuit_tripped g so st2 then (p, c1, w)
         else (case fe_on_finish env nd so c1 w of (c2, w2) \<Rightarrow> (p, c2, w2)))"

definition skip_node :: "'w flow_env \<Rightarrow> node \<Rightarrow> string \<Rightarrow> run_state \<Rightarrow> flow_ctx \<Rightarrow> 'w \<Rightarrow> progress \<times> flow_ctx \<times> 'w" where
  "skip_node env nd reason st c w =
     (let so = (step_of (nd_id nd) SSkipped)\<lparr>so_output := reason, so_updates := False\<rparr>
      in case fe_on_finish env nd so (record_step_outcome so c) w of
           (c1, w1) \<Rightarrow> (go_to (str_or (nb_next (nd_base nd)) (Some terminal_complete)) st, c1, w1))"

text \<open>One pass of the loop at a node that was found.\<close>

definition visit_node ::
  "'w flow_env \<Rightarrow> 'w runner \<Rightarrow> graph \<Rightarrow> node \<Rightarrow> run_state \<Rightarrow> flow_ctx \<Rightarrow> 'w \<Rightarrow> (exc + progress) \<times> flow_ctx \<times> 'w" where
  "visit_node env run g nd st c w =
     (let n = Suc (look (rs_visits st) (nd_id nd) 0);
          st1 = st\<lparr>rs_steps := Suc (rs_steps st), rs_path := rs_path st @ [nd_id nd],
                   rs_visits := AList.update (nd_id nd) n (rs_visits st)\<rparr>
      in if visit_refused (nb_loop (nd_base nd)) n then (Inl (loop_limit_error nd n (rs_path st1)), c, w)
         else (case fe_on_start env nd c w of (c1, w1) \<Rightarrow>
           (case guard_skips (fe_py env) (nd_base nd) c1 of
              Inl x \<Rightarrow> (Inl x, c1, w1)
            | Inr (Some reason) \<Rightarrow> (case skip_node env nd reason st1 c1 w1 of (p, c2, w2) \<Rightarrow> (Inr p, c2, w2))
            | Inr None \<Rightarrow>
                (case attempt_loop (nat (rp_max_attempts (nb_retry (nd_base nd)))) 0 env run g nd c1 w1 of
                   (r, c2, w2, k) \<Rightarrow>
                     (case after_node env g nd (settled_outcome (nd_id nd) r) st1 c2 w2 of
                        (p, c3, w3) \<Rightarrow> (Inr p, c3, w3))))))"

definition at_rest :: "string option \<Rightarrow> bool" where
  "at_rest i \<longleftrightarrow> \<not> truthy_str i \<or> i \<in> {Some terminal_complete, Some terminal_fail}"

text \<open>The loop; \<open>left\<close> is \<^verbatim>\<open>max_total_steps - total_steps\<close>, never below 0.\<close>

fun run_loop ::
  "'w flow_env \<Rightarrow> 'w runner \<Rightarrow> graph \<Rightarrow> nat \<Rightarrow> run_state \<Rightarrow> flow_ctx \<Rightarrow> 'w \<Rightarrow> (exc + run_state) \<times> flow_ctx \<times> 'w" where
  "run_loop env run g left st c w =
     (if at_rest (rs_current st) then (Inr st, c, w)
      else (case left of
        0 \<Rightarrow> (Inr (st\<lparr>rs_current := Some terminal_fail,
               rs_error := Some (''Flow step limit exceeded: '' @ str_int (g_max_total_steps g))\<rparr>), c, w)
      | Suc left1 \<Rightarrow>
          (case g_node g (the (rs_current st)) of
             None \<Rightarrow> (Inr (st\<lparr>rs_current := Some terminal_fail, rs_error := Some (''Node not found: '' @ terminal_fail)\<rparr>), c, w)
           | Some nd \<Rightarrow>
               (case visit_node env run g nd st c w of
                  (Inl x, c1, w1) \<Rightarrow> (Inl x, c1, w1)
                | (Inr (Finish st1), c1, w1) \<Rightarrow> (Inr st1, c1, w1)
                | (Inr (Onward st1), c1, w1) \<Rightarrow> run_loop env run g left1 st1 c1 w1))))"

declare run_loop.simps [simp del]

definition start_state :: "graph \<Rightarrow> run_state" where
  "start_state g = \<lparr>rs_current = str_or (g_resume g) (Some (g_entry g)), rs_path = [], rs_visits = [], rs_steps = 0,
     rs_failures = 0, rs_error = None, rs_code = None, rs_category = None, rs_non_retryable = False, rs_disposition = None\<rparr>"

definition run_graph :: "'w flow_env \<Rightarrow> 'w runner \<Rightarrow> graph \<Rightarrow> flow_ctx \<Rightarrow> 'w \<Rightarrow> (exc + flow_result) \<times> flow_ctx \<times> 'w" where
  "run_graph env run g c w =
     (case run_loop env run g (nat (g_max_total_steps g)) (start_state g) c w of
        (Inl x, c1, w1) \<Rightarrow> (Inl x, c1, w1)
      | (Inr st, c1, w1) \<Rightarrow> (Inr (flow_outcome g st (round2 ((fe_clock env w1 - fe_clock env w) * 1000)) c1), c1, w1))"

text \<open>The nested runs: \<open>depth\<close> levels of subflows and branches; the deepest a graph needs is its depth.\<close>

fun run_depth :: "nat \<Rightarrow> 'w flow_env \<Rightarrow> graph \<Rightarrow> flow_ctx \<Rightarrow> 'w \<Rightarrow> (exc + flow_result) \<times> flow_ctx \<times> 'w" where
  "run_depth 0 env g c w = (Inl (exc_of ''RecursionError'' []), c, w)"
| "run_depth (Suc depth) env g c w = run_graph env (run_depth depth env) g c w"

definition flow_run :: "'w flow_env \<Rightarrow> graph \<Rightarrow> flow_ctx \<Rightarrow> 'w \<Rightarrow> (exc + flow_result) \<times> flow_ctx \<times> 'w" where
  "flow_run env g c w = run_depth (Suc (graph_depth g)) env g c w"

end
