(* ===== verification/Flow_Run.thy ===== *)
theory Flow_Run
  imports Flow_Engine
begin

text \<open>
  What holds of the runs of \<open>Flow_Engine\<close>: nested runs never exhaust their depth, so a run
  satisfies the equation of the source; and over a whole run, the outcomes it records decide
  where it goes. A run is followed by the inductive relation \<open>reaches\<close>, one step per visit of
  a node, and its invariant \<open>run_inv\<close> is proved by rule induction. Where the recorded history
  matters, the callbacks and the executor are required to leave it to the engine
  (\<open>history_kept\<close>), as those of the repository do.
\<close>

section \<open>The depth of nested runs\<close>

lemma run_branches_cong:
  "(\<And>sg. sg \<in> set gs \<Longrightarrow> run1 sg = run2 sg) \<Longrightarrow> run_branches env run1 c w i gs = run_branches env run2 c w i gs"
  by (induction gs arbitrary: i) auto

lemma execute_node_cong:
  assumes "\<And>sg. sg \<in> subgraphs nd \<Longrightarrow> run1 sg = run2 sg"
  shows "execute_node env run1 g nd c w = execute_node env run2 g nd c w"
proof (cases nd)
  case (Node b k)
  show ?thesis
  proof (cases k)
    case (Subflow sg sc)
    then show ?thesis using assms Node by (cases sg) (simp_all add: execute_node_def run_subflow_node_def)
  next
    case (Parallel gs pc)
    then have "run_branches env run1 c w 0 gs = run_branches env run2 c w 0 gs"
      using assms Node by (intro run_branches_cong) simp
    then have "run_parallel_node env run1 b gs pc c w = run_parallel_node env run2 b gs pc c w"
      by (simp add: run_parallel_node_def Let_def)
    then show ?thesis by (simp add: Node Parallel execute_node_def Let_def split: option.split)
  qed (simp_all add: Node execute_node_def)
qed

lemma attempt_loop_cong:
  assumes "\<And>sg. sg \<in> subgraphs nd \<Longrightarrow> run1 sg = run2 sg"
  shows "attempt_loop left k env run1 g nd = attempt_loop left k env run2 g nd"
proof -
  have "attempt_loop left k env run1 g nd c w = attempt_loop left k env run2 g nd c w" for c w
  proof (induction left arbitrary: k c w)
    case (Suc left)
    have "execute_node env run1 g nd c w = execute_node env run2 g nd c w" by (rule execute_node_cong [OF assms])
    then show ?case unfolding attempt_loop.simps Let_def Suc by simp
  qed simp
  then show ?thesis by blast
qed

lemma run_loop_cong:
  assumes "\<And>nd i sg. g_node g i = Some nd \<Longrightarrow> sg \<in> subgraphs nd \<Longrightarrow> run1 sg = run2 sg"
  shows "run_loop env run1 g left st c w = run_loop env run2 g left st c w"
proof (induction left arbitrary: st c w)
  case 0
  then show ?case by (subst (1 2) run_loop.simps) simp
next
  case (Suc left)
  have "visit_node env run1 g nd st c w = visit_node env run2 g nd st c w"
    if "g_node g (the (rs_current st)) = Some nd" for nd
  proof -
    have al: "attempt_loop n k env run1 g nd = attempt_loop n k env run2 g nd" for n k
      by (rule attempt_loop_cong) (use assms that in blast)
    show ?thesis unfolding visit_node_def al by (rule refl)
  qed
  then show ?case using Suc
    by (subst (1 2) run_loop.simps) (simp cong: option.case_cong sum.case_cong prod.case_cong progress.case_cong)
qed

lemma run_depth_enough:
  "graph_depth g < d \<Longrightarrow> graph_depth g < d' \<Longrightarrow> run_depth d env g = run_depth d' env g"
proof (induction d arbitrary: g d')
  case (Suc d)
  then obtain d2 where d': "d' = Suc d2" by (cases d') auto
  have "run_depth d env sg = run_depth d2 env sg"
    if "g_node g i = Some nd" "sg \<in> subgraphs nd" for nd i sg
    using Suc.IH [of sg d2] Suc.prems d' node_depth_le [OF that(1)] subgraphs_depth [OF that(2)] by simp
  then have "run_loop env (run_depth d env) g left st c w = run_loop env (run_depth d2 env) g left st c w" for left st c w
    by (rule run_loop_cong)
  then show ?case by (simp add: d' fun_eq_iff run_graph_def)
qed simp

lemma flow_run_depth: "graph_depth g < d \<Longrightarrow> run_depth d env g c w = flow_run env g c w"
  using run_depth_enough [of g d "Suc (graph_depth g)" env] by (simp add: flow_run_def del: run_depth.simps)

lemma flow_run_equation: "flow_run env g c w = run_graph env (flow_run env) g c w"
proof -
  have "run_depth (graph_depth g) env sg = flow_run env sg"
    if "g_node g i = Some nd" "sg \<in> subgraphs nd" for nd i sg
    using node_depth_le [OF that(1)] subgraphs_depth [OF that(2)] by (intro ext flow_run_depth) simp
  then have "run_loop env (run_depth (graph_depth g) env) g left st c w = run_loop env (flow_run env) g left st c w" for left st c w
    by (rule run_loop_cong)
  then show ?thesis by (simp add: flow_run_def [of env g] run_graph_def)
qed

section \<open>The context a node leaves\<close>

definition history_kept :: "'w flow_env \<Rightarrow> bool" where
  "history_kept env \<longleftrightarrow>
     (\<forall>nd c w. fc_history (fst (fe_on_start env nd c w)) = fc_history c) \<and>
     (\<forall>nd so c w. fc_history (fst (fe_on_finish env nd so c w)) = fc_history c) \<and>
     (\<forall>nd c w. fc_history (fst (snd (fe_exec env nd c w))) = fc_history c)"

named_theorems history "context updates that leave the history alone"

lemma history_set_var [history]: "fc_history (set_var k v c) = fc_history c"
  by (simp add: set_var_def)

lemma history_set_vars [history]: "fc_history (set_vars ex c) = fc_history c"
  by (induction ex arbitrary: c) (auto simp: set_vars_def history)

lemma history_system [history]:
  "fc_history (set_system k v c) = fc_history c" "fc_history (pop_system k c) = fc_history c"
  "fc_history (record_success_event e c) = fc_history c"
  by (simp_all add: set_system_def pop_system_def record_success_event_def)

lemma history_exec: "history_kept env \<Longrightarrow> fe_exec env nd c w = (r, c1, w1) \<Longrightarrow> fc_history c1 = fc_history c"
  by (metis fst_conv history_kept_def snd_conv)

lemma history_start: "history_kept env \<Longrightarrow> fe_on_start env nd c w = (c1, w1) \<Longrightarrow> fc_history c1 = fc_history c"
  by (metis fst_conv history_kept_def)

lemma history_finish: "history_kept env \<Longrightarrow> fe_on_finish env nd so c w = (c1, w1) \<Longrightarrow> fc_history c1 = fc_history c"
  by (metis fst_conv history_kept_def)

lemma history_copy [history]: "fc_history (snd (copy_output sub a b st)) = fc_history (snd st)"
  by (auto simp: copy_output_def history split: option.splits)

lemma history_outputs [history]: "fc_history (snd (map_outputs sc sub st)) = fc_history (snd st)"
proof -
  have "fc_history (snd (fold (\<lambda>(a, b). copy_output sub a b) xs st)) = fc_history (snd st)" for xs st
    by (induction xs arbitrary: st) (auto simp: history)
  moreover have "fc_history (snd (fold (\<lambda>k. copy_output sub k k) xs st)) = fc_history (snd st)" for xs st
    by (induction xs arbitrary: st) (auto simp: history)
  ultimately show ?thesis by (simp add: map_outputs_def)
qed

lemma history_join: "join_branches b pc c rs = (so, c1) \<Longrightarrow> fc_history c1 = fc_history c"
  by (auto simp: join_branches_def Let_def split: if_splits)

lemma history_retry:
  "history_kept env \<Longrightarrow> retry_reply env g nd wc e st c w = (r, c1, w1) \<Longrightarrow> fc_history c1 = fc_history c"
  by (auto simp: retry_reply_def Let_def history split: if_splits option.splits sum.splits prod.splits dest!: history_exec)

lemma history_verdict:
  "event_verdict env nd wc chat key e s c w = (Inr (Verdict so c1), w1) \<Longrightarrow> fc_history c1 = fc_history c"
  by (auto simp: event_verdict_def assist_verdict_def history split: sum.splits bool.splits if_splits option.splits
      prod.splits disposition.splits)

text \<open>The ways one observed message can take a wait.\<close>

lemma wait_arrived:
  assumes "wait_loop env g nd wc (Arrived s e s1 s2 # obs) st c w = (r, c', w')"
  obtains (gap) t where "has_gap t" "r = Inr (gap_outcome (nd_id nd) (wp_chat (ws_scope st)) t)" "c' = c"
  | (error) x where "r = Inl x" "c' = c"
  | (other) "wait_loop env g nd wc obs st c w = (r, c', w')"
  | (finished) o1 where "retry_reply env g nd wc e st c w = (Finished o1, c', w')" "r = Inr o1"
  | (resent) st1 c1 w1 where "retry_reply env g nd wc e st c w = (Resent st1, c1, w1)"
      "wait_loop env g nd wc obs st1 c1 w1 = (r, c', w')"
  | (verdict) o1 where "\<not> has_gap s" "\<not> has_gap s1" "event_admitted (fe_py env) (nd_base nd) wc (ws_scope st) e = Inr True"
      "event_verdict env nd wc (wp_chat (ws_scope st)) (retry_key (nd_id nd)) e s2 c w = (Inr (Verdict o1 c'), w')" "r = Inr o1"
  | (unmatched) w1 where "wait_loop env g nd wc obs (st\<lparr>ws_unmatched := ws_unmatched st @ [ev_text e]\<rparr>) c w1 = (r, c', w')"
proof -
  let ?adm = "event_admitted (fe_py env) (nd_base nd) wc (ws_scope st) e"
  let ?kw = "matches_retry_keyword (fe_negated env) (ev_text e) (wc_retry_keywords wc) \<notin> {None, Some []}"
  let ?ver = "event_verdict env nd wc (wp_chat (ws_scope st)) (retry_key (nd_id nd)) e s2 c w"
  show thesis
  proof (cases "has_gap s \<or> has_gap s1")
    case True
    then show thesis using assms gap by (auto split: if_splits)
  next
    case gapless: False
    show thesis
    proof (cases ?adm)
      case (Inl x)
      then show thesis using assms gapless error [of x] by auto
    next
      case adm: (Inr b)
      show thesis
      proof (cases b)
        case False
        then show thesis using assms gapless adm other by simp
      next
        case True
        note [simp] = adm True
        show thesis
        proof (cases ?kw)
          case kw: True
          obtain q c1 w1 where q: "retry_reply env g nd wc e st c w = (q, c1, w1)" by (metis prod_cases3)
          show thesis using assms gapless kw q finished resent by (cases q) simp_all
        next
          case kw: False
          obtain v w1 where v: "?ver = (v, w1)" by fastforce
          have eq: "wait_loop env g nd wc (Arrived s e s1 s2 # obs) st c w = (case v of Inl x \<Rightarrow> (Inl x, c, w1)
             | Inr (Verdict o1 c1) \<Rightarrow> (Inr o1, c1, w1)
             | Inr Unmatched \<Rightarrow> wait_loop env g nd wc obs (st\<lparr>ws_unmatched := ws_unmatched st @ [ev_text e]\<rparr>) c w1)"
            using gapless kw v by (simp split: sum.split verdict.split)
          show thesis
          proof (cases v)
            case (Inl x)
            then show thesis using assms eq error [of x] by simp
          next
            case (Inr vd)
            show thesis
            proof (cases vd)
              case (Verdict o1 c1)
              then show thesis using assms eq v Inr gapless adm True verdict [of o1] by simp
            next
              case Unmatched
              then show thesis using assms eq Inr unmatched by simp
            qed
          qed
        qed
      qed
    qed
  qed
qed

lemma history_wait:
  "history_kept env \<Longrightarrow> wait_loop env g nd wc obs st c w = (r, c1, w1) \<Longrightarrow> fc_history c1 = fc_history c"
proof (induction obs arbitrary: st c w)
  case (Cons a obs)
  show ?case
  proof (cases a)
    case (Arrived s e s1 s2)
    note IH = Cons.IH [OF Cons.prems(1)]
    from Cons.prems(2) show ?thesis unfolding Arrived
    proof (cases rule: wait_arrived)
      case other
      then show ?thesis by (rule IH)
    next
      case (finished o1)
      then show ?thesis using history_retry [OF Cons.prems(1)] by blast
    next
      case (resent st1 c2 w2)
      from history_retry [OF Cons.prems(1) this(1)] IH [OF this(2)] show ?thesis by simp
    next
      case (verdict o1)
      from history_verdict [OF this(4)] show ?thesis .
    next
      case (unmatched w2)
      then show ?thesis by (rule IH)
    qed simp_all
  qed (use Cons.prems in auto)
qed simp

lemma history_execute:
  assumes "history_kept env" and "execute_node env run g nd c w = (r, c1, w1)"
  shows "fc_history c1 = fc_history c"
proof (cases nd)
  case (Node b k)
  show ?thesis
  proof (cases k)
    case (Action t ps)
    then show ?thesis using assms Node history_exec [OF assms(1), of nd _ w r c1 w1] by (auto simp: execute_node_def history)
  next
    case (WaitEvent wc)
    then show ?thesis using assms(2) Node history_wait [OF assms(1)]
      by (auto simp: execute_node_def run_wait_event_node_def split: if_splits sum.splits option.splits prod.splits)
  next
    case (Extractor x)
    then show ?thesis using assms(2) Node
      by (auto simp: execute_node_def run_extractor_node_def Let_def history split: sum.splits prod.splits if_splits)
  next
    case (Delay seconds)
    then show ?thesis using assms(2) Node by (auto simp: execute_node_def run_delay_node_def Let_def split: if_splits)
  next
    case (Subflow sg sc)
    have "fc_history (snd (map_outputs sc sub ([], c))) = fc_history c" for sub by (simp add: history)
    then show ?thesis using assms(2) Node Subflow
      by (auto simp: execute_node_def run_subflow_node_def Let_def split: option.splits sum.splits prod.splits if_splits)
        (metis snd_conv)+
  next
    case (Parallel gs pc)
    then show ?thesis using assms(2) Node history_join
      by (auto simp: execute_node_def run_parallel_node_def Let_def split: option.splits prod.splits if_splits)
  qed (use assms(2) Node in \<open>auto simp: execute_node_def\<close>)
qed

lemma history_attempts:
  assumes "history_kept env"
  shows "attempt_loop left k env run g nd c w = (r, c1, w1, k1) \<Longrightarrow> fc_history c1 = fc_history c"
proof (induction left arbitrary: k c w)
  case (Suc left)
  obtain q c2 w2 where q: "execute_node env run g nd c w = (q, c2, w2)" by (metis prod_cases3)
  then have "fc_history c2 = fc_history c" by (rule history_execute [OF assms])
  then show ?case using Suc.prems Suc.IH [of "Suc k" c2] q
    by (cases q) (auto simp: Let_def split: if_splits)
qed simp

section \<open>The steps of a run\<close>

definition entered :: "node \<Rightarrow> run_state \<Rightarrow> run_state" where
  "entered nd st = st\<lparr>rs_steps := Suc (rs_steps st), rs_path := rs_path st @ [nd_id nd],
     rs_visits := AList.update (nd_id nd) (Suc (look (rs_visits st) (nd_id nd) 0)) (rs_visits st)\<rparr>"

lemma history_record [simp]: "fc_history (record_step_outcome so c) = fc_history c @ [so]"
  by (simp add: record_step_outcome_def Let_def)

lemma skip_progress:
  assumes "so_status so = SSkipped" "so_signal so = Proceed" "\<not> so_matched_terminal so" "so_error so = None" "so_details so = []"
  shows "progress_of env g nd so st = go_to (str_or (nb_next (nd_base nd)) (Some terminal_complete)) st"
  using assms
  by (simp add: progress_of_def Let_def controlled_def controlled_detail_def note_failure_def dict_get_def
      get_default_def circuit_tripped_def failed_def count_failure_def succeeded_def advance_def)

text \<open>A visit ends in one outcome; the bookkeeping after it depends on the outcome alone, and the
  outcome is what the history gains.\<close>

lemma visit_progress:
  assumes "visit_node env run g nd st c w = (Inr p, c1, w1)"
  obtains so where "p = progress_of (fe_py env) g nd so (entered nd st)"
    and "\<not> visit_refused (nb_loop (nd_base nd)) (Suc (look (rs_visits st) (nd_id nd) 0))"
    and "history_kept env \<Longrightarrow> fc_history c1 = fc_history c @ [so]"
proof -
  let ?st = "entered nd st"
  obtain c2 w2 where s: "fe_on_start env nd c w = (c2, w2)" by fastforce
  have ok: "\<not> visit_refused (nb_loop (nd_base nd)) (Suc (look (rs_visits st) (nd_id nd) 0))"
    using assms by (auto simp: visit_node_def Let_def)
  obtain q where q: "guard_skips (fe_py env) (nd_base nd) c2 = Inr q"
    using assms s ok by (auto simp: visit_node_def Let_def split: sum.splits)
  show thesis
  proof (cases q)
    case (Some reason)
    let ?so = "(step_of (nd_id nd) SSkipped)\<lparr>so_output := reason, so_updates := False\<rparr>"
    obtain c3 w3 where f: "fe_on_finish env nd ?so (record_step_outcome ?so c2) w2 = (c3, w3)" by fastforce
    have "progress_of (fe_py env) g nd ?so ?st = go_to (str_or (nb_next (nd_base nd)) (Some terminal_complete)) ?st"
      by (rule skip_progress) (simp_all add: step_of_def)
    then have "p = progress_of (fe_py env) g nd ?so ?st \<and> c1 = c3"
      using assms s ok q Some f by (auto simp: visit_node_def Let_def skip_node_def entered_def)
    then show thesis using that [of ?so] ok history_finish [OF _ f] history_start [OF _ s] by simp
  next
    case None
    obtain r c3 w3 k where a: "attempt_loop (nat (rp_max_attempts (nb_retry (nd_base nd)))) 0 env run g nd c2 w2 = (r, c3, w3, k)"
      by (metis prod_cases4)
    let ?so = "settled_outcome (nd_id nd) r"
    obtain c4 w4 where f: "fe_on_finish env nd ?so (record_step_outcome ?so c3) w3 = (c4, w4)" by fastforce
    have "p = progress_of (fe_py env) g nd ?so ?st \<and> (c1 = record_step_outcome ?so c3 \<or> c1 = c4)"
      using assms s ok q None a f
      by (auto simp: visit_node_def Let_def entered_def after_node_def split: if_splits)
    then show thesis
      using that [of ?so] ok history_finish [OF _ f] history_start [OF _ s] history_attempts [OF _ a] by auto
  qed
qed

fun progress_state :: "progress \<Rightarrow> run_state" where
  "progress_state (Onward st) = st"
| "progress_state (Finish st) = st"

named_theorems bookkeeping "what the steps of the bookkeeping leave alone"

lemma note_failure_fields [bookkeeping]:
  "rs_steps (note_failure env so st) = rs_steps st" "rs_path (note_failure env so st) = rs_path st"
  "rs_visits (note_failure env so st) = rs_visits st" "rs_failures (note_failure env so st) = rs_failures st"
  "rs_current (note_failure env so st) = rs_current st"
  by (auto simp: note_failure_def Let_def split: option.splits py.splits)

lemma count_failure_fields [bookkeeping]:
  "rs_steps (count_failure so st) = rs_steps st" "rs_path (count_failure so st) = rs_path st"
  "rs_non_retryable (count_failure so st) = rs_non_retryable st"
  by (auto simp: count_failure_def)

lemma go_to_fields [bookkeeping]:
  "rs_steps (progress_state (go_to t st)) = rs_steps st" "rs_path (progress_state (go_to t st)) = rs_path st"
  "rs_failures (progress_state (go_to t st)) = rs_failures st"
  "rs_steps (progress_state (end_at s st)) = rs_steps st" "rs_path (progress_state (end_at s st)) = rs_path st"
  "rs_failures (progress_state (end_at s st)) = rs_failures st"
  by (simp_all add: go_to_def end_at_def)

lemma advance_fields [bookkeeping]:
  "rs_steps (progress_state (advance g nd so st)) = rs_steps st" "rs_path (progress_state (advance g nd so st)) = rs_path st"
  "rs_failures (progress_state (advance g nd so st)) = rs_failures st"
  by (simp_all add: advance_def Let_def bookkeeping)

lemma progress_fields [bookkeeping]:
  "rs_steps (progress_state (progress_of env g nd so st)) = rs_steps st"
  "rs_path (progress_state (progress_of env g nd so st)) = rs_path st"
  by (simp_all add: progress_of_def Let_def bookkeeping)

lemma entered_fields [bookkeeping]:
  "rs_steps (entered nd st) = Suc (rs_steps st)" "rs_path (entered nd st) = rs_path st @ [nd_id nd]"
  "rs_failures (entered nd st) = rs_failures st"
  by (simp_all add: entered_def)

lemma visit_steps:
  assumes "visit_node env run g nd st c w = (Inr p, c1, w1)"
  shows "rs_steps (progress_state p) = Suc (rs_steps st) \<and> rs_path (progress_state p) = rs_path st @ [nd_id nd]"
  using assms by (rule visit_progress) (simp add: bookkeeping)

text \<open>The configurations a run reaches; every step visits a node and goes on.\<close>

inductive reaches :: "'w flow_env \<Rightarrow> 'w runner \<Rightarrow> graph \<Rightarrow> run_state \<Rightarrow> flow_ctx \<Rightarrow> 'w \<Rightarrow> run_state \<Rightarrow> flow_ctx \<Rightarrow> 'w \<Rightarrow> bool"
  for env run g st0 c0 w0 where
  start: "reaches env run g st0 c0 w0 st0 c0 w0"
| visit: "reaches env run g st0 c0 w0 st c w \<Longrightarrow> \<not> at_rest (rs_current st) \<Longrightarrow>
    g_node g (the (rs_current st)) = Some nd \<Longrightarrow> visit_node env run g nd st c w = (Inr (Onward st1), c1, w1) \<Longrightarrow>
    reaches env run g st0 c0 w0 st1 c1 w1"

lemma reaches_more:
  assumes "reaches env run g st1 c1 w1 st c w"
    and "reaches env run g st0 c0 w0 st1 c1 w1"
  shows "reaches env run g st0 c0 w0 st c w"
  using assms by (induction rule: reaches.induct) (auto intro: reaches.visit)

text \<open>How a run ends, from the last configuration it reaches.\<close>

inductive ends_as :: "'w flow_env \<Rightarrow> 'w runner \<Rightarrow> graph \<Rightarrow> run_state \<Rightarrow> flow_ctx \<Rightarrow> 'w \<Rightarrow> run_state \<Rightarrow> flow_ctx \<Rightarrow> 'w \<Rightarrow> bool"
  for env run g where
  rest: "at_rest (rs_current st) \<Longrightarrow> ends_as env run g st c w st c w"
| limit: "\<not> at_rest (rs_current st) \<Longrightarrow>
    ends_as env run g st c w (st\<lparr>rs_current := Some terminal_fail, rs_error := Some m\<rparr>) c w"
| finish: "\<not> at_rest (rs_current st) \<Longrightarrow> g_node g (the (rs_current st)) = Some nd \<Longrightarrow>
    visit_node env run g nd st c w = (Inr (Finish st1), c1, w1) \<Longrightarrow> ends_as env run g st c w st1 c1 w1"

lemma run_loop_reaches:
  "run_loop env run g left st c w = (Inr st', c', w') \<Longrightarrow>
   \<exists>s1 c1 w1. reaches env run g st c w s1 c1 w1 \<and> ends_as env run g s1 c1 w1 st' c' w'
     \<and> rs_steps st' \<le> rs_steps st + left"
proof (induction left arbitrary: st c w)
  case 0
  have "ends_as env run g st c w st' c' w' \<and> rs_steps st' \<le> rs_steps st"
    using 0 by (subst (asm) run_loop.simps) (auto split: if_splits intro: ends_as.intros)
  then show ?case using reaches.start by fastforce
next
  case (Suc left)
  show ?case
  proof (cases "at_rest (rs_current st)")
    case True
    then show ?thesis using Suc.prems
      by (subst (asm) run_loop.simps) (auto intro!: exI [of _ st] exI [of _ c] exI [of _ w] reaches.start ends_as.rest)
  next
    case go: False
    note prems = Suc.prems [unfolded run_loop.simps [of env run g "Suc left" st c w]]
    show ?thesis
    proof (cases "g_node g (the (rs_current st))")
      case None
      then have "ends_as env run g st c w st' c' w' \<and> rs_steps st' = rs_steps st"
        using prems go by (auto intro: ends_as.limit)
      then show ?thesis using reaches.start by fastforce
    next
      case (Some nd)
      obtain q c1 w1 where v: "visit_node env run g nd st c w = (q, c1, w1)" by (metis prod_cases3)
      then obtain p where p: "q = Inr p" using prems go Some by (cases q) auto
      note steps = visit_steps [OF v [unfolded p]]
      show ?thesis
      proof (cases p)
        case (Finish st1)
        then have "ends_as env run g st c w st' c' w' \<and> rs_steps st' = Suc (rs_steps st)"
          using prems go Some v p steps ends_as.finish [OF go Some] by auto
        then show ?thesis using reaches.start by fastforce
      next
        case (Onward st1)
        then have "run_loop env run g left st1 c1 w1 = (Inr st', c', w')" using prems go Some v p by simp
        from Suc.IH [OF this] obtain s2 c2 w2 where
          "reaches env run g st1 c1 w1 s2 c2 w2" "ends_as env run g s2 c2 w2 st' c' w'" "rs_steps st' \<le> rs_steps st1 + left"
          by blast
        moreover have "reaches env run g st c w st1 c1 w1"
          by (rule reaches.visit [OF reaches.start go Some]) (use v p Onward in simp)
        ultimately show ?thesis using reaches_more steps Onward by fastforce
      qed
    qed
  qed
qed

section \<open>What the recorded outcomes decide\<close>

text \<open>The failures since the last success; skipped nodes do not count.\<close>

definition trailing :: "step_outcome list \<Rightarrow> nat" where
  "trailing hs = fold (\<lambda>so n. if succeeded so then 0 else if failed so then Suc n else n) hs 0"

definition tripped :: "graph \<Rightarrow> step_outcome list \<Rightarrow> bool" where
  "tripped g hs \<longleftrightarrow> hs \<noteq> [] \<and> failed (last hs) \<and>
     (case g_failure_limit g of None \<Rightarrow> False | Some l \<Rightarrow> int (trailing hs) \<ge> l)"

definition failure_route :: "graph \<Rightarrow> node \<Rightarrow> string option" where
  "failure_route g nd = (if \<not> truthy_str (nb_on_failure (nd_base nd)) \<and> truthy_str (g_error_handler g) \<and> Some (nd_id nd) \<noteq> g_error_handler g
     then g_error_handler g else nb_on_failure (nd_base nd))"

text \<open>The outcomes from which a run may end in success: a success or a skip, a signal that asks
  for it, or a failure whose failure route is the successful end itself.\<close>

definition may_complete :: "graph \<Rightarrow> node \<Rightarrow> step_outcome \<Rightarrow> bool" where
  "may_complete g nd so \<longleftrightarrow> so_status so \<in> {SSuccess, STerminalEarly, SSkipped} \<or> so_signal so = HaltSuccess
     \<or> (so_signal so = Branch \<and> normalize_target (so_target so) = terminal_complete)
     \<or> (truthy_str (failure_route g nd) \<and> normalize_target (failure_route g nd) = terminal_complete)"

lemma terminal_simps [simp]:
  "terminal_complete \<noteq> terminal_fail" "terminal_fail \<noteq> terminal_complete"
  "truthy_str (Some terminal_complete)" "truthy_str (Some terminal_fail)"
  "normalize_target (Some terminal_complete) = terminal_complete"
  "normalize_target (Some terminal_fail) = terminal_fail"
  by code_simp+

lemma trailing_append [simp]:
  "trailing (hs @ [so]) = (if succeeded so then 0 else if failed so then Suc (trailing hs) else trailing hs)"
  by (simp add: trailing_def)

lemma count_failure_trailing:
  "rs_failures st = int (trailing hs) \<Longrightarrow> rs_failures (count_failure so st) = int (trailing (hs @ [so]))"
  by (simp add: count_failure_def)

lemma note_controlled: "controlled so \<Longrightarrow> rs_non_retryable (note_failure env so st)"
  by (auto simp: controlled_def controlled_detail_def note_failure_def Let_def split: option.splits py.splits if_splits)

lemma circuit_tripped_iff:
  "rs_failures st = int (trailing (hs @ [so])) \<Longrightarrow> circuit_tripped g so st \<longleftrightarrow> tripped g (hs @ [so])"
  by (auto simp: circuit_tripped_def tripped_def split: option.splits)

lemma advance_complete:
  "rs_current (progress_state (advance g nd so st)) = Some terminal_complete \<Longrightarrow> may_complete g nd so"
  by (auto simp: advance_def Let_def may_complete_def failure_route_def go_to_def end_at_def succeeded_def str_or_def
      split: if_splits)

text \<open>The bookkeeping after the outcomes \<open>hs\<close>; at the end (\<open>over\<close>) the last of them may have ended the run.\<close>

definition hist_inv :: "graph \<Rightarrow> step_outcome list \<Rightarrow> run_state \<Rightarrow> bool" where
  "hist_inv g hs st \<longleftrightarrow> length hs = rs_steps st \<and> length (rs_path st) = rs_steps st \<and> rs_failures st = int (trailing hs)
     \<and> (\<forall>so \<in> set hs. \<not> controlled so) \<and> (\<forall>k. \<not> tripped g (take k hs))
     \<and> (rs_current st = Some terminal_complete \<longrightarrow> hs = [] \<or> (\<exists>nd. may_complete g nd (last hs)))"

definition end_inv :: "graph \<Rightarrow> step_outcome list \<Rightarrow> run_state \<Rightarrow> bool" where
  "end_inv g hs st \<longleftrightarrow> length hs = rs_steps st \<and> length (rs_path st) = rs_steps st
     \<and> (\<forall>so \<in> set (butlast hs). \<not> controlled so) \<and> (\<forall>k < length hs. \<not> tripped g (take k hs))
     \<and> (hs \<noteq> [] \<and> controlled (last hs) \<longrightarrow> rs_current st = Some terminal_fail \<and> rs_non_retryable st)
     \<and> (tripped g hs \<longrightarrow> rs_current st = Some terminal_fail)
     \<and> (rs_current st = Some terminal_complete \<longrightarrow> hs = [] \<or> (\<exists>nd. may_complete g nd (last hs)))"

lemma tripped_Nil [simp]: "\<not> tripped g []"
  by (simp add: tripped_def)

lemma hist_end: "hist_inv g hs st \<Longrightarrow> end_inv g hs st"
proof -
  assume h: "hist_inv g hs st"
  then have "\<not> tripped g (take (length hs) hs)" unfolding hist_inv_def by blast
  with h show ?thesis by (auto simp: hist_inv_def end_inv_def dest: in_set_butlastD)
qed

lemma progress_end:
  assumes h: "hist_inv g hs st" and p: "p = progress_of env g nd so (entered nd st)"
  shows "end_inv g (hs @ [so]) (progress_state p)"
    and "p = Onward st1 \<Longrightarrow> hist_inv g (hs @ [so]) st1"
proof -
  let ?st = "entered nd st" and ?n = "note_failure env so (entered nd st)"
  let ?c = "count_failure so ?n"
  have f: "rs_failures ?n = int (trailing hs)" using h by (simp add: hist_inv_def bookkeeping)
  then have fc: "rs_failures ?c = int (trailing (hs @ [so]))" by (rule count_failure_trailing)
  then have trip: "circuit_tripped g so ?c \<longleftrightarrow> tripped g (hs @ [so])" by (rule circuit_tripped_iff)
  have prefix: "\<not> tripped g (take k (hs @ [so]))" if "k \<le> length hs" for k
    using h that by (simp add: hist_inv_def)
  have len: "length (hs @ [so]) = rs_steps (progress_state p)" "length (rs_path (progress_state p)) = rs_steps (progress_state p)"
    using h p by (simp_all add: hist_inv_def bookkeeping)
  have nd: "\<not> controlled so \<and> \<not> tripped g (hs @ [so]) \<Longrightarrow> p = advance g nd so ?c"
    using p trip by (simp add: progress_of_def Let_def)
  have ended: "controlled so \<or> tripped g (hs @ [so]) \<Longrightarrow> \<exists>m s. p = end_at terminal_fail (s\<lparr>rs_error := m\<rparr>)
      \<and> (controlled so \<longrightarrow> rs_non_retryable s)"
    using p trip note_controlled [of so env ?st] by (auto simp: progress_of_def Let_def)
  show "end_inv g (hs @ [so]) (progress_state p)"
  proof (cases "controlled so \<or> tripped g (hs @ [so])")
    case True
    then show ?thesis using ended prefix len h by (auto simp: end_inv_def end_at_def hist_inv_def)
  next
    case False
    then show ?thesis using nd prefix len h advance_complete [of g nd so ?c]
      by (auto simp: end_inv_def hist_inv_def)
  qed
  assume on: "p = Onward st1"
  then have ok: "\<not> controlled so" "\<not> tripped g (hs @ [so])" using ended by (auto simp: end_at_def)
  then have adv: "advance g nd so ?c = Onward st1" using nd on by simp
  have "rs_failures st1 = int (trailing (hs @ [so]))"
    using advance_fields(3) [of g nd so ?c] fc unfolding adv by simp
  moreover have "\<not> tripped g (take k (hs @ [so]))" for k using prefix ok by (cases "k \<le> length hs") auto
  moreover have "rs_current st1 = Some terminal_complete \<Longrightarrow> may_complete g nd so"
    using advance_complete [of g nd so ?c] unfolding adv by simp
  ultimately show "hist_inv g (hs @ [so]) st1" using len on ok h by (auto simp: hist_inv_def)
qed

lemma reaches_hist:
  assumes "reaches env run g (start_state g) c0 w0 st c w" and "history_kept env"
  shows "\<exists>hs. fc_history c = fc_history c0 @ hs \<and> hist_inv g hs st"
  using assms(1)
proof (induction rule: reaches.induct)
  case start
  then show ?case by (intro exI [of _ "[]"]) (simp add: hist_inv_def start_state_def trailing_def)
next
  case (visit st c w nd st1 c1 w1)
  then obtain hs where hs: "fc_history c = fc_history c0 @ hs" "hist_inv g hs st" by blast
  from visit.hyps(4) obtain so where "Onward st1 = progress_of (fe_py env) g nd so (entered nd st)"
    "fc_history c1 = fc_history c @ [so]" using assms(2) by (auto elim: visit_progress)
  then show ?case using progress_end(2) [OF hs(2)] hs(1) by (metis append.assoc)
qed

lemma run_summary:
  assumes "history_kept env" and "run_loop env run g left (start_state g) c w = (Inr st, c', w')"
  shows "\<exists>hs. fc_history c' = fc_history c @ hs \<and> end_inv g hs st"
proof -
  obtain s1 c1 w1 where r: "reaches env run g (start_state g) c w s1 c1 w1" "ends_as env run g s1 c1 w1 st c' w'"
    using run_loop_reaches [OF assms(2)] by blast
  obtain hs where hs: "fc_history c1 = fc_history c @ hs" "hist_inv g hs s1" using reaches_hist [OF r(1) assms(1)] by blast
  from r(2) show ?thesis
  proof cases
    case rest
    then show ?thesis using hs hist_end by blast
  next
    case (limit m)
    then show ?thesis using hs hist_end [OF hs(2)] by (auto simp: end_inv_def hist_inv_def)
  next
    case (finish nd)
    from finish(3) obtain so where "Finish st = progress_of (fe_py env) g nd so (entered nd s1)"
      "fc_history c' = fc_history c1 @ [so]" using assms(1) by (auto elim: visit_progress)
    then show ?thesis using progress_end(1) [OF hs(2)] hs(1) by (metis append.assoc progress_state.simps(2))
  qed
qed

lemma flow_run_cases:
  assumes "flow_run env g c w = (Inr r, c', w')"
  obtains st t where "run_loop env (flow_run env) g (nat (g_max_total_steps g)) (start_state g) c w = (Inr st, c', w')"
    and "r = flow_outcome g st t c'"
  using assms unfolding flow_run_equation [of env g] run_graph_def by (auto split: sum.splits prod.splits)

lemma flow_outcome_simps [simp]:
  "fr_steps (flow_outcome g st t c) = rs_steps st" "fr_path (flow_outcome g st t c) = rs_path st"
  "fr_status (flow_outcome g st t c) = ''success'' \<longleftrightarrow> rs_current st = Some terminal_complete"
  "fr_status (flow_outcome g st t c) = ''failed'' \<longleftrightarrow> rs_current st \<noteq> Some terminal_complete"
  "fr_non_retryable (flow_outcome g st t c) \<longleftrightarrow> rs_current st \<noteq> Some terminal_complete \<and> rs_non_retryable st"
  by (simp_all add: flow_outcome_def Let_def)

text \<open>A run takes no more steps than it may, each of them on its path.\<close>

lemma path_bounded:
  assumes "flow_run env g c w = (Inr r, c', w')"
  shows "fr_steps r \<le> nat (g_max_total_steps g) \<and> length (fr_path r) = fr_steps r"
proof -
  obtain st t where run: "run_loop env (flow_run env) g (nat (g_max_total_steps g)) (start_state g) c w = (Inr st, c', w')"
    and r: "r = flow_outcome g st t c'"
    using assms by (rule flow_run_cases)
  have len: "rs_steps s1 = length (rs_path s1)" if "reaches env (flow_run env) g (start_state g) c w s1 c1 w1" for s1 c1 w1
    using that by (induction rule: reaches.induct) (auto simp: start_state_def dest!: visit_steps)
  obtain s1 c1 w1 where re: "reaches env (flow_run env) g (start_state g) c w s1 c1 w1" "ends_as env (flow_run env) g s1 c1 w1 st c' w'"
    and le: "rs_steps st \<le> rs_steps (start_state g) + nat (g_max_total_steps g)"
    using run_loop_reaches [OF run] by blast
  have "length (rs_path st) = rs_steps st"
    using re(2) len [OF re(1)] by (cases rule: ends_as.cases) (auto dest!: visit_steps)
  with le r show ?thesis by (simp add: start_state_def)
qed

end
