(* ===== verification/Flow_Sample.thy ===== *)
theory Flow_Sample
  imports Flow_Run
begin

text \<open>
  Environments and graphs to apply the properties of runs to, and the lemmas the property theories share: \<open>plain_env\<close> gives each node id the answer of its
  executor and has no hooks, no messages and no time.
\<close>

definition plain_env :: "(string \<Rightarrow> exc + step_outcome) \<Rightarrow> unit flow_env" where
  "plain_env answer = \<lparr>fe_py = \<lparr>re_search = (\<lambda>p s. NoMatch), py_fr = (\<lambda>v. [])\<rparr>, fe_json = (\<lambda>s. None),
     fe_negated = (\<lambda>s. False), fe_has_bus = True, fe_exec = (\<lambda>nd c w. (answer (nd_id nd), c, w)), fe_cut = (\<lambda>nd t w. None),
     fe_inbox = (\<lambda>nd c w. ([], w)), fe_semantic = (\<lambda>nd e w. (None, w)), fe_on_start = (\<lambda>nd c w. (c, w)),
     fe_on_finish = (\<lambda>nd so c w. (c, w)), fe_sleep = (\<lambda>t w. w), fe_clock = (\<lambda>w. 0), fe_now = (\<lambda>w. 0),
     fe_fork = (\<lambda>i w. w), fe_join = (\<lambda>ws. ())\<rparr>"

lemma plain_history [simp]: "history_kept (plain_env answer)"
  by (simp add: history_kept_def plain_env_def)

definition action :: "string \<Rightarrow> string option \<Rightarrow> node" where
  "action i next_id = Node ((default_base i)\<lparr>nb_next := next_id\<rparr>) (Action ''SEND_TEXT'' [])"

definition all_ok :: "string \<Rightarrow> exc + step_outcome" where
  "all_ok i = Inr (step_of i SSuccess)"

definition all_fail :: "string \<Rightarrow> exc + step_outcome" where
  "all_fail i = Inr (step_of i SFailed)"

definition nested_graph :: graph where
  "nested_graph = default_graph ''s'' [Node (default_base ''s'') (Subflow (Some (default_graph ''a'' [action ''a'' None])) default_subflow)]"

definition fallback_graph :: graph where
  "fallback_graph = default_graph ''a''
     [Node ((default_base ''a'')\<lparr>nb_on_failure := Some ''b''\<rparr>) (Action ''SEND_TEXT'' []), action ''b'' None]"

definition fail_a :: "string \<Rightarrow> exc + step_outcome" where
  "fail_a i = Inr (step_of i (if i = ''a'' then SFailed else SSuccess))"

lemma inr_result:
  assumes "\<not> isl (fst (flow_run env g c ()))"
  obtains r where "flow_run env g c () = (Inr r, fst (snd (flow_run env g c ())), ())"
  using assms by (cases "flow_run env g c ()") (auto simp: isl_def, metis sum.exhaust_sel)

text \<open>The run of \<open>fallback_graph\<close> whose first node fails.\<close>

lemma fallback_run:
  "\<not> isl (fst (flow_run (plain_env fail_a) fallback_graph (ctx_new [] []) ()))
    \<and> fr_status (projr (fst (flow_run (plain_env fail_a) fallback_graph (ctx_new [] []) ()))) = ''success''
    \<and> fr_path (projr (fst (flow_run (plain_env fail_a) fallback_graph (ctx_new [] []) ()))) = [''a'', ''b'']
    \<and> fr_steps (projr (fst (flow_run (plain_env fail_a) fallback_graph (ctx_new [] []) ()))) = 2
    \<and> list_all (\<lambda>so. dict_get (so_details so) ''retry_flow_restart'' = PNone)
         (fc_history (fst (snd (flow_run (plain_env fail_a) fallback_graph (ctx_new [] []) ()))))"
  by code_simp

end
