(* ===== verification/Flow_Run_Props.thy ===== *)
theory Flow_Run_Props
  imports Flow_Sample
begin

text \<open>
  The properties of whole runs of the flow engine, from the lemmas of \<open>Flow_Run\<close>.
\<close>

section \<open>Properties\<close>



text \<open>
  C5: A run is bounded: it visits at most \<open>max_total_steps\<close> nodes, whatever its loops, and its
  path lists exactly the nodes it counted.
\<close>

theorem run_steps_bounded:
  assumes "flow_run env g c w = (Inr r, c', w')"
  shows "fr_steps r \<le> nat (g_max_total_steps g) \<and> length (fr_path r) = fr_steps r"
  using path_bounded [OF assms] by simp

text \<open>A loop that would never end.\<close>

definition loop_graph :: graph where
  "loop_graph = Graph ''a'' [(''a'', Node ((default_base ''a'')\<lparr>nb_next := Some ''a'', nb_loop := \<lparr>lp_allow_loop = True, lp_max_visits = 99\<rparr>\<rparr>)
     (Action ''SEND_TEXT'' []))] 3 None None None"

theorem run_steps_bounded_witness:
  "\<exists>r. fst (flow_run (plain_env all_ok) loop_graph (ctx_new [] []) ()) = Inr r \<and> fr_steps r \<le> 3"
proof -
  have "\<not> isl (fst (flow_run (plain_env all_ok) loop_graph (ctx_new [] []) ()))" by code_simp
  then obtain r c' where r: "flow_run (plain_env all_ok) loop_graph (ctx_new [] []) () = (Inr r, c', ())"
    by (cases "flow_run (plain_env all_ok) loop_graph (ctx_new [] []) ()") (auto simp: isl_def, metis sum.exhaust_sel)
  show ?thesis using run_steps_bounded [OF r] r by (auto simp: loop_graph_def)
qed



text \<open>
  C2: Controlled terminations end the run: when a recorded outcome carries a non-retryable
  error, a failure code, or a semantic review or stop, it is the last of the run, no node runs
  after it, and the run is reported as failed and not to be retried.
\<close>

theorem controlled_ends_run:
  assumes "history_kept env" and "flow_run env g c w = (Inr r, c', w')"
  shows "\<exists>hs. fc_history c' = fc_history c @ hs \<and> length hs = fr_steps r
    \<and> (\<forall>i < length hs. controlled (hs ! i) \<longrightarrow> Suc i = length hs \<and> fr_status r = ''failed'' \<and> fr_non_retryable r)"
proof -
  obtain st t where run: "run_loop env (flow_run env) g (nat (g_max_total_steps g)) (start_state g) c w = (Inr st, c', w')"
    and r: "r = flow_outcome g st t c'"
    using assms(2) by (rule flow_run_cases)
  obtain hs where hs: "fc_history c' = fc_history c @ hs" "end_inv g hs st"
    using run_summary [OF assms(1) run] by blast
  have "Suc i = length hs \<and> rs_current st = Some terminal_fail \<and> rs_non_retryable st"
    if "i < length hs" "controlled (hs ! i)" for i
  proof (cases "Suc i = length hs")
    case True
    then have "i = length hs - 1" "hs \<noteq> []" using that by auto
    then have "hs ! i = last hs" by (simp add: last_conv_nth)
    then show ?thesis using hs(2) that True by (auto simp: end_inv_def)
  next
    case False
    then have "i < length (butlast hs)" using that by simp
    then have "hs ! i \<in> set (butlast hs)" using nth_butlast [of i hs] nth_mem [of i "butlast hs"] by simp
    then show ?thesis using hs(2) that by (auto simp: end_inv_def)
  qed
  then show ?thesis using hs r by (auto simp: end_inv_def)
qed

definition review_at_a :: "string \<Rightarrow> exc + step_outcome" where
  "review_at_a i = (if i = ''a'' then Inl ((exc_of ''SemanticReviewRequired'' ''review'')\<lparr>ex_non_retryable := True\<rparr>) else all_ok i)"

theorem controlled_ends_run_witness:
  "\<exists>r. fst (flow_run (plain_env review_at_a) fallback_graph (ctx_new [] []) ()) = Inr r \<and> fr_steps r = 1 \<and> fr_non_retryable r"
proof -
  let ?f = "flow_run (plain_env review_at_a) fallback_graph (ctx_new [] []) ()"
  have all: "\<not> isl (fst ?f) \<and> fr_steps (projr (fst ?f)) = 1 \<and> map controlled (fc_history (fst (snd ?f))) = [True]"
    by code_simp
  then obtain r where r: "?f = (Inr r, fst (snd ?f), ())" by (blast intro: inr_result)
  have "fr_steps (projr (fst ?f)) = 1" using all by blast
  then have "fr_steps r = 1" using r by (metis fst_conv sum.sel(2))
  moreover have "map controlled (fc_history (fst (snd ?f))) = [True]" using all by blast
  moreover have "fc_history (ctx_new [] []) = []" by (simp add: ctx_new_def)
  ultimately obtain "fr_non_retryable r"
    using controlled_ends_run [OF plain_history r] by (metis append_Nil less_one map_eq_Cons_conv nth_Cons_0)
  with \<open>fr_steps r = 1\<close> r show ?thesis by (metis fst_conv)
qed

text \<open>
  The circuit breaker: with a limit of consecutive failures no node runs once the outcomes
  since the last success hold that many failures, skips not counting, and a run that reaches
  the limit is reported as failed.
\<close>

theorem failure_limit_ends_run:
  assumes "history_kept env" and "flow_run env g c w = (Inr r, c', w')" and "g_failure_limit g = Some l"
  shows "\<exists>hs. fc_history c' = fc_history c @ hs
    \<and> (\<forall>k \<le> length hs. 0 < k \<and> failed (hs ! (k - 1)) \<and> int (trailing (take k hs)) \<ge> l \<longrightarrow> k = length hs \<and> fr_status r = ''failed'')"
proof -
  obtain st t where run: "run_loop env (flow_run env) g (nat (g_max_total_steps g)) (start_state g) c w = (Inr st, c', w')"
    and r: "r = flow_outcome g st t c'"
    using assms(2) by (rule flow_run_cases)
  obtain hs where hs: "fc_history c' = fc_history c @ hs" "end_inv g hs st"
    using run_summary [OF assms(1) run] by blast
  have "k = length hs \<and> rs_current st = Some terminal_fail"
    if "k \<le> length hs" "0 < k" "failed (hs ! (k - 1))" "int (trailing (take k hs)) \<ge> l" for k
  proof -
    have "last (take k hs) = hs ! (k - 1)" using that by (subst last_conv_nth) (auto simp: min_def)
    then have t: "tripped g (take k hs)" using that assms(3) by (auto simp: tripped_def)
    then have "k = length hs" using hs(2) that by (cases "k < length hs") (auto simp: end_inv_def)
    then show ?thesis using t hs(2) by (simp add: end_inv_def)
  qed
  then show ?thesis using hs r by (intro exI [of _ hs]) auto
qed

definition breaker_graph :: graph where
  "breaker_graph = Graph ''a'' [(''a'', Node ((default_base ''a'')\<lparr>nb_on_failure := Some ''b''\<rparr>) (Action ''SEND_TEXT'' [])),
     (''b'', Node ((default_base ''b'')\<lparr>nb_on_failure := Some ''c''\<rparr>) (Action ''SEND_TEXT'' [])), (''c'', action ''c'' None)] 30 None None (Some 2)"

theorem failure_limit_ends_run_witness:
  "\<exists>r. fst (flow_run (plain_env all_fail) breaker_graph (ctx_new [] []) ()) = Inr r \<and> fr_status r = ''failed''"
proof -
  let ?f = "flow_run (plain_env all_fail) breaker_graph (ctx_new [] []) ()"
  have all: "\<not> isl (fst ?f) \<and> length (fc_history (fst (snd ?f))) = 2 \<and> failed (fc_history (fst (snd ?f)) ! 1)
    \<and> int (trailing (take 2 (fc_history (fst (snd ?f))))) \<ge> 2" by code_simp
  then obtain r where r: "?f = (Inr r, fst (snd ?f), ())" by (blast intro: inr_result)
  have l: "g_failure_limit breaker_graph = Some 2" by (simp add: breaker_graph_def)
  have h: "length (fc_history (fst (snd ?f))) = 2" "failed (fc_history (fst (snd ?f)) ! 1)"
    "int (trailing (take 2 (fc_history (fst (snd ?f))))) \<ge> 2" using all by blast+
  have "fc_history (ctx_new [] []) = []" by (simp add: ctx_new_def)
  then obtain "fr_status r = ''failed''" using failure_limit_ends_run [OF plain_history r l] h by fastforce
  then show ?thesis using r by (metis fst_conv)
qed

end
