(* ===== verification/Flow_Node_Props.thy ===== *)
theory Flow_Node_Props
  imports Flow_Sample
begin

text \<open>
  The properties of single nodes of the flow engine: attempts and retries, the confirmation a
  wait for a message needs, the join of parallel branches, and the isolation of subflows.
\<close>

section \<open>Attempts\<close>

lemma attempts_count:
  "attempt_loop left k env run g nd c w = (r, c1, w1, k1) \<Longrightarrow> k1 \<le> k + left \<and> (left > 0 \<longrightarrow> k < k1)"
proof (induction left arbitrary: k c w)
  case (Suc left)
  obtain q c2 w2 where q: "execute_node env run g nd c w = (q, c2, w2)" by (metis prod_cases3)
  show ?case using Suc.prems Suc.IH [of "Suc k" c2] q
    by (cases q) (fastforce simp: Let_def split: if_splits)+
qed simp


text \<open>An executor that sends, notes the side effect, and then fails.\<close>

definition sends_then_fails :: "unit flow_env" where
  "sends_then_fails = (plain_env all_ok)\<lparr>fe_exec := (\<lambda>nd c w. (Inl (exc_of ''ConnectionError'' ''lost''),
     set_system ''side_effect_started'' (PBool True) c, w))\<rparr>"

definition retrying :: node where
  "retrying = Node ((default_base ''a'')\<lparr>nb_retry := \<lparr>rp_max_attempts = 3, rp_backoff = 1, rp_multiplier = 2,
     rp_max_backoff = 15, rp_retry_on = []\<rparr>\<rparr>) (Action ''SEND_TEXT'' [])"


section \<open>Waiting\<close>

lemma retry_finished:
  "retry_reply env g nd wc e st c w = (Finished so, c', w') \<Longrightarrow> so_status so \<noteq> SSuccess \<or> so_signal so = Branch"
  by (auto simp: retry_reply_def Let_def step_of_def split: if_splits option.splits sum.splits prod.splits)

lemma retry_scope:
  "retry_reply env g nd wc e st c w = (Resent st1, c', w') \<Longrightarrow>
   wp_chat (ws_scope st1) = wp_chat (ws_scope st) \<and> wp_thread (ws_scope st1) = wp_thread (ws_scope st)"
  by (auto simp: retry_reply_def Let_def split: if_splits option.splits sum.splits prod.splits)

text \<open>Why a text confirms a wait: no rules are set, a success rule matches, or the semantic
  assistance settles it, in each case without a failure rule that matches.\<close>

definition confirms :: "'w flow_env \<Rightarrow> wait_cfg \<Rightarrow> string \<Rightarrow> delivery_stats \<Rightarrow> bool" where
  "confirms env wc text after_stats \<longleftrightarrow> pattern_hit (fe_py env) (wc_failure_patterns wc) text = Inr False \<and>
     (success_rules wc = [] \<or> pattern_hit (fe_py env) (success_rules wc) text = Inr True
      \<or> (wc_semantic wc \<noteq> None \<and> \<not> has_gap after_stats))"

lemma verdict_confirms:
  assumes "event_verdict env nd wc chat key e s2 c w = (Inr (Verdict so c'), w')" and "so_status so = SSuccess"
  shows "so_output so = ev_text e \<and> confirms env wc (ev_text e) s2"
  using assms
  by (auto simp: event_verdict_def assist_verdict_def confirms_def reply_outcome_def gap_outcome_def step_of_def
      split: sum.splits bool.splits if_splits option.splits prod.splits disposition.splits)

text \<open>One of the observations confirms the outcome.\<close>

definition confirmed_by :: "'w flow_env \<Rightarrow> node \<Rightarrow> wait_cfg \<Rightarrow> py \<Rightarrow> py \<Rightarrow> step_outcome \<Rightarrow> wait_obs list \<Rightarrow> bool" where
  "confirmed_by env nd wc chat thread so obs \<longleftrightarrow> (\<exists>s e s1 s2 p. Arrived s e s1 s2 \<in> set obs \<and> \<not> has_gap s \<and> \<not> has_gap s1
    \<and> wp_chat p = chat \<and> wp_thread p = thread \<and> event_admitted (fe_py env) (nd_base nd) wc p e = Inr True
    \<and> so_output so = ev_text e \<and> confirms env wc (ev_text e) s2)"

lemma confirmed_later: "confirmed_by env nd wc chat thread so obs \<Longrightarrow> confirmed_by env nd wc chat thread so (a # obs)"
  unfolding confirmed_by_def by (elim exE conjE) (intro exI conjI, rule list.set_intros(2), assumption+)

lemma wait_loop_success:
  assumes "wait_loop env g nd wc obs st c w = (Inr so, c', w')" and "so_status so = SSuccess" and "so_signal so \<noteq> Branch"
  shows "confirmed_by env nd wc (wp_chat (ws_scope st)) (wp_thread (ws_scope st)) so obs"
  using assms(1)
proof (induction obs arbitrary: st c w)
  case Nil
  then show ?case using assms(2) by (auto simp: reply_timeout_def step_of_def)
next
  case (Cons a obs)
  show ?case
  proof (cases a)
    case (Arrived s e s1 s2)
    from Cons.prems [unfolded Arrived] show ?thesis
    proof (cases rule: wait_arrived)
      case (gap t)
      then show ?thesis using assms(2) by (simp add: gap_outcome_def step_of_def)
    next
      case other
      from Cons.IH [OF this] show ?thesis by (rule confirmed_later)
    next
      case (finished o1)
      then show ?thesis using assms(2,3) retry_finished [OF finished(1)] by simp
    next
      case (resent st1 c1 w1)
      from Cons.IH [OF this(2)] retry_scope [OF this(1)] show ?thesis by (simp add: confirmed_later)
    next
      case (verdict o1)
      then have "so_output so = ev_text e \<and> confirms env wc (ev_text e) s2" using verdict_confirms [OF verdict(4)] assms(2) by simp
      then show ?thesis unfolding confirmed_by_def Arrived
        by (intro exI [of _ s] exI [of _ e] exI [of _ s1] exI [of _ s2] exI [of _ "ws_scope st"]) (simp add: verdict(1-3))
    next
      case (unmatched w1)
      from Cons.IH [OF this] show ?thesis by (simp add: confirmed_later)
    qed simp
  qed (use Cons.prems assms(2) in \<open>auto simp: reply_timeout_def gap_outcome_def step_of_def split: if_splits\<close>)
qed


definition inbox_env :: "wait_obs list \<Rightarrow> unit flow_env" where
  "inbox_env obs = (plain_env all_ok)\<lparr>fe_inbox := (\<lambda>nd c w. (obs, w))\<rparr>"

definition waiting :: node where
  "waiting = Node ((default_base ''w'')\<lparr>nb_metadata := [(''chat_id'', PInt 9), (''min_message_id'', PInt 1)]\<rparr>) (WaitEvent default_wait)"


section \<open>Two corners of the source\<close>

text \<open>A delay as long as its node's deadline is cut, every time.\<close>

lemma delay_at_deadline:
  "node_timeout b \<le> seconds \<Longrightarrow> fst (run_delay_node env b seconds c w) = Inl timeout_exc"
  by (simp add: run_delay_node_def Let_def le_max_iff_disj)

text \<open>The error of a missing node names the terminal instead of the node.\<close>

lemma missing_node_unnamed:
  "fr_error (projr (fst (flow_run (plain_env all_ok) (default_graph ''a'' [action ''a'' (Some ''gone'')]) (ctx_new [] []) ())))
    = Some ''Node not found: _TERMINAL_FAIL''"
  by code_simp

end
