(* ===== verification/Flow_Nested_Props.thy ===== *)
theory Flow_Nested_Props
  imports Flow_Sample
begin

text \<open>
  The properties of the nodes that run other graphs (the join of parallel branches and the
  isolation of subflows) and of the loop guard.
\<close>

section \<open>What the branches wrote\<close>

definition branch_write :: "flow_ctx \<Rightarrow> string \<Rightarrow> (exc + flow_result) \<times> flow_ctx \<times> 'w \<Rightarrow> py list" where
  "branch_write c k r =
     (case map_of (fc_vars (fst (snd r))) k of
        None \<Rightarrow> []
      | Some v \<Rightarrow> (case map_of (fc_vars c) k of None \<Rightarrow> [v] | Some u \<Rightarrow> if py_eq v u then [] else [v]))"

definition all_writes :: "flow_ctx \<Rightarrow> string \<Rightarrow> ((exc + flow_result) \<times> flow_ctx \<times> 'w) list \<Rightarrow> py list" where
  "all_writes c k rs = concat (map (branch_write c k) (filter branch_ok rs))"

lemma look_None: "look d k [] = [] \<Longrightarrow> (\<forall>e \<in> set d. snd e \<noteq> []) \<Longrightarrow> map_of d k = None"
  by (auto simp: look_def split: option.splits dest!: map_of_SomeD)

lemma branch_writes_look:
  assumes "od_wf after" and "\<forall>e \<in> set d. snd e \<noteq> []"
  shows "look (branch_writes before after d) k [] = look d k [] @
      (case map_of after k of None \<Rightarrow> [] | Some v \<Rightarrow> (case map_of before k of None \<Rightarrow> [v] | Some u \<Rightarrow> if py_eq v u then [] else [v]))"
    and "\<forall>e \<in> set (branch_writes before after d). snd e \<noteq> []"
proof -
  let ?f = "\<lambda>(k, v) d. case map_of before k of
       Some u \<Rightarrow> if py_eq v u then d else AList.update k (look d k [] @ [v]) d
     | None \<Rightarrow> AList.update k (look d k [] @ [v]) d"
  have ne: "\<forall>e \<in> set (?f x d). snd e \<noteq> []" if "\<forall>e \<in> set d. snd e \<noteq> []" for x and d :: "(string, py list) odict"
    using that set_update_subset [of "fst x" "look d (fst x) [] @ [snd x]" d]
    by (cases x) (auto split: option.splits)
  have "look (fold ?f after d) k [] = look d k [] @
      (case map_of after k of None \<Rightarrow> [] | Some v \<Rightarrow> (case map_of before k of None \<Rightarrow> [v] | Some u \<Rightarrow> if py_eq v u then [] else [v]))
    \<and> (\<forall>e \<in> set (fold ?f after d). snd e \<noteq> [])"
    using assms
  proof (induction after arbitrary: d)
    case (Cons x xs)
    obtain j v where x: "x = (j, v)" by fastforce
    have "map_of xs j = None" using Cons.prems(1) x by (simp add: map_of_eq_None_iff image_iff)
    then show ?case using Cons.IH [of "?f x d"] Cons.prems ne [of d x] x
      by (cases "k = j") (auto split: option.splits)
  qed simp
  then show "look (branch_writes before after d) k [] = look d k [] @
      (case map_of after k of None \<Rightarrow> [] | Some v \<Rightarrow> (case map_of before k of None \<Rightarrow> [v] | Some u \<Rightarrow> if py_eq v u then [] else [v]))"
    and "\<forall>e \<in> set (branch_writes before after d). snd e \<noteq> []"
    by (simp_all add: branch_writes_def)
qed

lemma written_look:
  assumes "\<forall>r \<in> set rs. od_wf (fc_vars (fst (snd r)))"
  shows "look (written_values ''merge'' c rs) k [] = all_writes c k rs"
    and "\<forall>e \<in> set (written_values ''merge'' c rs). snd e \<noteq> []"
proof -
  let ?f = "\<lambda>r d. if branch_ok r \<and> ''merge'' = ''merge'' then branch_writes (fc_vars c) (fc_vars (fst (snd r))) d else d"
  have "look (fold ?f rs d) k [] = look d k [] @ all_writes c k rs \<and> (\<forall>e \<in> set (fold ?f rs d). snd e \<noteq> [])"
    if "\<forall>e \<in> set d. snd e \<noteq> []" for d
    using assms that
  proof (induction rs arbitrary: d)
    case (Cons r rs)
    have "od_wf (fc_vars (fst (snd r)))" using Cons.prems by simp
    note b = branch_writes_look [OF this Cons.prems(2), of "fc_vars c"]
    show ?case using Cons.IH [of "?f r d"] Cons.prems b
      by (auto simp: all_writes_def branch_write_def split: option.splits)
  qed (simp add: all_writes_def)
  from this [of "[]"] show "look (written_values ''merge'' c rs) k [] = all_writes c k rs"
    and "\<forall>e \<in> set (written_values ''merge'' c rs). snd e \<noteq> []"
    by (simp_all add: written_values_def)
qed

lemma written_wf: "od_wf (written_values s c rs)"
proof -
  have 1: "od_wf (branch_writes before after d)" if "od_wf d" for before after d
    using that
  proof (induction after arbitrary: d)
    case (Cons x xs)
    obtain j v where x: "x = (j, v)" by fastforce
    have step: "branch_writes before (x # xs) d = branch_writes before xs
        (case map_of before j of Some u \<Rightarrow> if py_eq v u then d else AList.update j (look d j [] @ [v]) d
         | None \<Rightarrow> AList.update j (look d j [] @ [v]) d)"
      by (simp add: branch_writes_def x)
    show ?case unfolding step by (rule Cons.IH) (use Cons.prems in \<open>auto split: option.split\<close>)
  qed (simp add: branch_writes_def)
  have "od_wf (fold (\<lambda>r d. if branch_ok r \<and> s = ''merge'' then branch_writes (fc_vars c) (fc_vars (fst (snd r))) d else d) rs d)"
    if "od_wf d" for d
    using that
  proof (induction rs arbitrary: d)
    case (Cons r rs)
    then show ?case using 1 [of d "fc_vars c" "fc_vars (fst (snd r))"] by (cases "branch_ok r \<and> s = ''merge''") simp_all
  qed simp
  then show ?thesis by (simp add: written_values_def)
qed

lemma update_dict_map_of: "od_wf e \<Longrightarrow> map_of (update_dict d e) k = (case map_of e k of None \<Rightarrow> map_of d k | Some v \<Rightarrow> Some v)"
proof (induction e arbitrary: d)
  case (Cons x e)
  obtain j v where x: "x = (j, v)" by fastforce
  have "map_of e j = None" using Cons.prems x by (simp add: map_of_eq_None_iff image_iff)
  then show ?case using Cons x by (auto simp: update_dict_def od_map_of_update split: option.splits)
qed (simp add: update_dict_def)

lemma conflicts_iff:
  assumes "\<forall>r \<in> set rs. od_wf (fc_vars (fst (snd r)))"
  shows "conflicts_of (written_values ''merge'' c rs) \<noteq> [] \<longleftrightarrow> (\<exists>k. conflicting (all_writes c k rs))"
proof -
  let ?w = "written_values ''merge'' c rs"
  have "conflicts_of ?w \<noteq> [] \<longleftrightarrow> (\<exists>e \<in> set ?w. conflicting (snd e))"
    by (auto simp: conflicts_of_def filter_empty_conv)
  also have "\<dots> \<longleftrightarrow> (\<exists>k. conflicting (look ?w k []))"
  proof
    assume "\<exists>e \<in> set ?w. conflicting (snd e)"
    then obtain k v where "(k, v) \<in> set ?w" "conflicting v" by auto
    then have "map_of ?w k = Some v" using written_wf map_of_is_SomeI by fast
    with \<open>conflicting v\<close> show "\<exists>k. conflicting (look ?w k [])" by (auto simp: look_def intro!: exI [of _ k])
  next
    assume "\<exists>k. conflicting (look ?w k [])"
    then obtain k where k: "conflicting (look ?w k [])" by blast
    then obtain v where "map_of ?w k = Some v" by (cases "map_of ?w k") (simp_all add: look_def conflicting_def)
    with k show "\<exists>e \<in> set ?w. conflicting (snd e)" by (force simp: look_def dest: map_of_SomeD)
  qed
  finally show ?thesis by (simp add: written_look [OF assms])
qed

section \<open>Properties\<close>


definition wrote :: "string \<Rightarrow> (exc + flow_result) \<times> flow_ctx \<times> unit" where
  "wrote v = (Inr (flow_outcome nested_graph ((start_state nested_graph)\<lparr>rs_current := Some terminal_complete\<rparr>) 0 (ctx_new [] [])),
     (ctx_new [] [])\<lparr>fc_vars := [(''x'', PStr v)]\<rparr>, ())"

definition raised :: "(exc + flow_result) \<times> flow_ctx \<times> unit" where
  "raised = (Inl (exc_of ''RuntimeError'' ''boom''), ctx_new [] [], ())"


text \<open>The variables of a join that failed reach the context all the same, when its outcome is
  recorded: the outcome carries them.\<close>

lemma failed_join_still_merges:
  "let (so, c') = join_branches (default_base ''p'') default_parallel (ctx_new [] []) [wrote ''1'', raised]
   in so_status so = SFailed \<and> fc_vars c' = [] \<and> fc_vars (record_step_outcome so c') = [(''x'', PStr ''1'')]"
  by code_simp

section \<open>Subflows\<close>

text \<open>Only the variables differ, and only at the given keys.\<close>

definition vars_only :: "string set \<Rightarrow> flow_ctx \<Rightarrow> flow_ctx \<Rightarrow> bool" where
  "vars_only keys c c' \<longleftrightarrow> (\<exists>v. c' = c\<lparr>fc_vars := v\<rparr>) \<and> (\<forall>j. j \<notin> keys \<longrightarrow> map_of (fc_vars c') j = map_of (fc_vars c) j)"

lemma vars_only_refl: "vars_only keys c c"
  unfolding vars_only_def by (metis flow_ctx.surjective flow_ctx.update_convs(4))

lemma vars_only_trans: "vars_only keys c c1 \<Longrightarrow> vars_only keys c1 c2 \<Longrightarrow> vars_only keys c c2"
  by (auto simp: vars_only_def)

lemma copy_output_frame: "b \<in> keys \<Longrightarrow> vars_only keys (snd st) (snd (copy_output sub a b st))"
  by (auto simp: copy_output_def set_var_def vars_only_refl split: option.splits)
    (auto simp: vars_only_def od_map_of_update)

lemma map_outputs_frame:
  "vars_only (snd ` set (sc_output_vars sc) \<union> set (sc_export_vars sc)) (snd st) (snd (map_outputs sc sub st))"
proof -
  let ?keys = "snd ` set (sc_output_vars sc) \<union> set (sc_export_vars sc)"
  have A: "vars_only ?keys (snd st) (snd (fold (\<lambda>(a, b). copy_output sub a b) xs st))" if "snd ` set xs \<subseteq> ?keys" for xs st
    using that
  proof (induction xs arbitrary: st)
    case (Cons x xs)
    then have "vars_only ?keys (snd st) (snd (copy_output sub (fst x) (snd x) st))" by (intro copy_output_frame) auto
    from vars_only_trans [OF this Cons.IH] Cons.prems show ?case by (simp add: case_prod_beta)
  qed (simp add: vars_only_refl)
  have B: "vars_only ?keys (snd st) (snd (fold (\<lambda>k. copy_output sub k k) xs st))" if "set xs \<subseteq> ?keys" for xs st
    using that
  proof (induction xs arbitrary: st)
    case (Cons x xs)
    then have "vars_only ?keys (snd st) (snd (copy_output sub x x st))" by (intro copy_output_frame) auto
    from vars_only_trans [OF this Cons.IH] Cons.prems show ?case by simp
  qed (simp add: vars_only_refl)
  show ?thesis unfolding map_outputs_def by (rule vars_only_trans [OF A [OF Un_upper1] B [OF Un_upper2]])
qed

text \<open>
  C8: Subflows are isolated: whatever a nested run does, it leaves the context of the outer run
  as it was but for the variables it declares as outputs or exports, and leaves it untouched
  when it does not succeed; so an operation it attempted has no receipt in the outer run.
\<close>

theorem subflow_isolated:
  assumes "run_subflow_node env run b sg sc c w = (r, c', w')"
  shows "vars_only (snd ` set (sc_output_vars sc) \<union> set (sc_export_vars sc)) c c' \<and> fc_receipts c' = fc_receipts c
    \<and> ((\<forall>so. r = Inr so \<longrightarrow> so_status so \<noteq> SSuccess) \<longrightarrow> c' = c)"
proof -
  have "c' = c \<or> (\<exists>sub so. c' = snd (map_outputs sc sub ([], c)) \<and> r = Inr so \<and> so_status so = SSuccess)"
  proof (cases sg)
    case (Some g)
    obtain q sub w1 where q: "run g (map_inputs (sc_input_vars sc) c (nested_ctx c)) w = (q, sub, w1)" by (metis prod_cases3)
    obtain ex c1 where o: "map_outputs sc sub ([], c) = (ex, c1)" by fastforce
    show ?thesis
    proof (cases q)
      case (Inr res)
      have "run_subflow_node env run b sg sc c w =
        (let ok = (fr_status res = ''success''); (ex, c1) = (if ok then (ex, c1) else ([], c))
         in (Inr ((step_of (nb_id b) (if ok then SSuccess else SFailed))
              \<lparr>so_output := ''Subflow finished with status: '' @ fr_status res, so_extracted := ex\<rparr>), c1, w1))"
        unfolding run_subflow_node_def Some option.case q Inr sum.case prod.case o by (rule refl)
      then have "(r, c', w') = (let ok = (fr_status res = ''success''); (ex, c1) = (if ok then (ex, c1) else ([], c))
         in (Inr ((step_of (nb_id b) (if ok then SSuccess else SFailed))
              \<lparr>so_output := ''Subflow finished with status: '' @ fr_status res, so_extracted := ex\<rparr>), c1, w1))"
        using assms by simp
      then have "c' = c \<or> (c' = c1 \<and> (\<exists>so. r = Inr so \<and> so_status so = SSuccess))"
        by (cases "fr_status res = ''success''") (simp_all add: step_of_def)
      then show ?thesis using o by (metis snd_conv)
    qed (use assms q Some in \<open>simp add: run_subflow_node_def\<close>)
  qed (use assms in \<open>simp add: run_subflow_node_def\<close>)
  then show ?thesis
  proof
    assume "c' = c"
    then show ?thesis by (simp add: vars_only_refl)
  next
    assume "\<exists>sub so. c' = snd (map_outputs sc sub ([], c)) \<and> r = Inr so \<and> so_status so = SSuccess"
    then obtain sub so where s: "c' = snd (map_outputs sc sub ([], c))" "r = Inr so" "so_status so = SSuccess" by blast
    then have "vars_only (snd ` set (sc_output_vars sc) \<union> set (sc_export_vars sc)) c c'"
      using map_outputs_frame [of sc "([], c)" sub] by simp
    then show ?thesis using s by (auto simp: vars_only_def)
  qed
qed

text \<open>A nested run that sends, then exports \<open>x\<close> and a variable of its own.\<close>

definition sending_env :: "unit flow_env" where
  "sending_env = (plain_env all_ok)\<lparr>fe_exec := (\<lambda>nd c w. (Inr (step_of (nd_id nd) SSuccess),
     set_var ''y'' (PInt 2) (set_var ''x'' (PInt 1) (begin_operation ''op'' (nd_id nd) 1 ''send'' c)), w))\<rparr>"

theorem subflow_isolated_witness:
  "fc_receipts (fst (snd (run_subflow_node sending_env (flow_run sending_env) (default_base ''s'')
     (Some (default_graph ''a'' [action ''a'' None])) (default_subflow\<lparr>sc_export_vars := [''x'']\<rparr>) (ctx_new [] []) ()))) = []"
proof -
  let ?r = "run_subflow_node sending_env (flow_run sending_env) (default_base ''s'')
     (Some (default_graph ''a'' [action ''a'' None])) (default_subflow\<lparr>sc_export_vars := [''x'']\<rparr>) (ctx_new [] []) ()"
  obtain r c' where r: "?r = (r, c', ())" by (metis old.unit.exhaust prod_cases3)
  show ?thesis using subflow_isolated [OF r] r by (simp add: ctx_new_def)
qed

section \<open>Loops\<close>

definition restarts :: "step_outcome \<Rightarrow> bool" where
  "restarts so \<longleftrightarrow> py_truthy (dict_get (so_details so) ''retry_flow_restart'')"

lemma visits_progress:
  "\<not> restarts so \<Longrightarrow> rs_visits (progress_state (progress_of env g nd so st)) = rs_visits st"
proof -
  assume r: "\<not> restarts so"
  have c: "rs_visits (count_failure so s) = rs_visits s" for s by (simp add: count_failure_def)
  have "rs_visits (progress_state (advance g nd so s)) = rs_visits s" for s
    using r by (simp add: advance_def Let_def go_to_def end_at_def restarts_def)
  then show ?thesis by (simp add: progress_of_def Let_def c bookkeeping) (simp add: end_at_def c bookkeeping)
qed

definition visits_ok :: "graph \<Rightarrow> run_state \<Rightarrow> bool" where
  "visits_ok g st \<longleftrightarrow> (\<forall>i. look (rs_visits st) i 0 = count_list (rs_path st) i)
     \<and> (\<forall>i. count_list (rs_path st) i > 0 \<longrightarrow> (\<exists>k nd. g_node g k = Some nd \<and> nd_id nd = i
          \<and> \<not> visit_refused (nb_loop (nd_base nd)) (count_list (rs_path st) i)))"

lemma visits_step:
  assumes "visits_ok g st" and "g_node g (the (rs_current st)) = Some nd" and "\<not> restarts so"
    and "p = progress_of env g nd so (entered nd st)"
    and "\<not> visit_refused (nb_loop (nd_base nd)) (Suc (look (rs_visits st) (nd_id nd) 0))"
  shows "visits_ok g (progress_state p)"
proof -
  have "rs_visits (progress_state p) = AList.update (nd_id nd) (Suc (look (rs_visits st) (nd_id nd) 0)) (rs_visits st)"
    using visits_progress [OF assms(3)] assms(4) by (simp add: entered_def)
  moreover have "rs_path (progress_state p) = rs_path st @ [nd_id nd]" using assms(4) by (simp add: bookkeeping)
  ultimately show ?thesis using assms(1,2,5) unfolding visits_ok_def by (simp add: count_list_append) blast
qed

lemma reaches_visits:
  assumes "reaches env run g (start_state g) c0 w0 st c w" and "history_kept env"
  shows "\<exists>hs. fc_history c = fc_history c0 @ hs \<and> ((\<forall>so \<in> set hs. \<not> restarts so) \<longrightarrow> visits_ok g st)"
  using assms(1)
proof (induction rule: reaches.induct)
  case start
  then show ?case by (intro exI [of _ "[]"]) (simp add: visits_ok_def start_state_def)
next
  case (visit st c w nd st1 c1 w1)
  then obtain hs where hs: "fc_history c = fc_history c0 @ hs" "(\<forall>so \<in> set hs. \<not> restarts so) \<longrightarrow> visits_ok g st" by blast
  from visit.hyps(4) obtain so where so: "Onward st1 = progress_of (fe_py env) g nd so (entered nd st)"
    "\<not> visit_refused (nb_loop (nd_base nd)) (Suc (look (rs_visits st) (nd_id nd) 0))"
    "fc_history c1 = fc_history c @ [so]" using assms(2) by (auto elim: visit_progress)
  from visits_step [OF _ visit.hyps(3) _ so(1,2)]
  have "visits_ok g st \<Longrightarrow> \<not> restarts so \<Longrightarrow> visits_ok g st1" unfolding progress_state.simps .
  then show ?case using hs so(3) by (intro exI [of _ "hs @ [so]"]) auto
qed

text \<open>
  C6: The loop guard: unless a reply asked for the flow to be restarted, a run visits a node
  that allows no loop at most once and any other at most \<open>max_visits\<close> times.
\<close>

theorem loop_guard:
  assumes "history_kept env" and "flow_run env g c w = (Inr r, c', w')"
    and "\<forall>so \<in> set (drop (length (fc_history c)) (fc_history c')). \<not> restarts so"
    and "i \<in> set (fr_path r)"
  shows "\<exists>k nd. g_node g k = Some nd \<and> nd_id nd = i \<and>
    (if lp_allow_loop (nb_loop (nd_base nd)) then int (count_list (fr_path r) i) \<le> lp_max_visits (nb_loop (nd_base nd))
     else count_list (fr_path r) i = 1)"
proof -
  obtain st t where run: "run_loop env (flow_run env) g (nat (g_max_total_steps g)) (start_state g) c w = (Inr st, c', w')"
    and r: "r = flow_outcome g st t c'"
    using assms(2) by (rule flow_run_cases)
  obtain s1 c1 w1 where re: "reaches env (flow_run env) g (start_state g) c w s1 c1 w1" "ends_as env (flow_run env) g s1 c1 w1 st c' w'"
    using run_loop_reaches [OF run] by blast
  obtain hs where hs: "fc_history c1 = fc_history c @ hs" "(\<forall>so \<in> set hs. \<not> restarts so) \<longrightarrow> visits_ok g s1"
    using reaches_visits [OF re(1) assms(1)] by blast
  from re(2) have "visits_ok g st"
  proof cases
    case (finish nd)
    from finish(3) obtain so where so: "Finish st = progress_of (fe_py env) g nd so (entered nd s1)"
      "\<not> visit_refused (nb_loop (nd_base nd)) (Suc (look (rs_visits s1) (nd_id nd) 0))"
      "fc_history c' = fc_history c1 @ [so]" using assms(1) by (auto elim: visit_progress)
    have "visits_ok g s1 \<and> \<not> restarts so" using hs assms(3) so(3) by simp
    with visits_step [OF _ finish(2) _ so(1,2)] show ?thesis unfolding progress_state.simps by blast
  qed (use hs assms(3) in \<open>auto simp: visits_ok_def\<close>)
  moreover have "count_list (fr_path r) i > 0" using assms(4) count_list_0_iff [of "fr_path r" i] by simp
  moreover have path: "fr_path r = rs_path st" using r by simp
  ultimately obtain k nd where nd: "g_node g k = Some nd" "nd_id nd = i"
    "\<not> visit_refused (nb_loop (nd_base nd)) (count_list (fr_path r) i)"
    unfolding visits_ok_def by metis
  with \<open>count_list (fr_path r) i > 0\<close> show ?thesis
    by (intro exI [of _ k] exI [of _ nd]) (auto simp: visit_refused_def split: if_splits)
qed

theorem loop_guard_witness:
  "\<exists>nd. g_node fallback_graph ''b'' = Some nd \<and> count_list (fr_path (projr (fst (flow_run (plain_env fail_a) fallback_graph (ctx_new [] []) ())))) ''b'' = 1"
proof -
  let ?f = "flow_run (plain_env fail_a) fallback_graph (ctx_new [] []) ()"
  obtain r where r: "?f = (Inr r, fst (snd ?f), ())" using fallback_run by (blast intro: inr_result)
  have p: "fr_path (projr (fst ?f)) = [''a'', ''b'']" using fallback_run by blast
  then have i: "''b'' \<in> set (fr_path r)" "projr (fst ?f) = r" using r by (metis fst_conv list.set_intros sum.sel(2))+
  have h: "\<forall>so \<in> set (drop (length (fc_history (ctx_new [] []))) (fc_history (fst (snd ?f)))). \<not> restarts so"
    using fallback_run by (auto simp: ctx_new_def restarts_def list_all_iff)
  from loop_guard [OF plain_history r h i(1)] show ?thesis
    unfolding i(2) by (auto simp: fallback_graph_def default_graph_def action_def default_base_def split: if_splits)
qed

end
