(* ===== verification/Graph_Search.thy ===== *)
theory Graph_Search
  imports Py_Values
begin

text \<open>
  The depth-first search of the validators of flow graphs (\<^verbatim>\<open>_dfs\<close> in \<^verbatim>\<open>flow_normalizer.py\<close>,
  \<^verbatim>\<open>workflow_engine.py\<close>), over what they differ in: the ids it steps over, the neighbours of an
  id, which ids may be visited again, and what is done on entering one. The visited set is a
  list in the order of the visits; the recursion of the source is bounded by its stack, which
  never holds an id twice, so that the number of ids is enough fuel (\<open>search_fuel\<close>).
\<close>

section \<open>The search\<close>

record ('a, 'v) walk =
  wk_outside :: "'a \<Rightarrow> bool"
  wk_next :: "'a \<Rightarrow> 'a list"
  wk_loops :: "'a \<Rightarrow> bool"
  wk_enter :: "'a \<Rightarrow> 'v \<Rightarrow> exc + 'v"
  wk_cycle_error :: "'a list \<Rightarrow> 'a \<Rightarrow> exc"

text \<open>\<^verbatim>\<open>rec_stack[rec_stack.index(cur):]\<close>.\<close>

definition cycle_at :: "'a \<Rightarrow> 'a list \<Rightarrow> 'a list" where
  "cycle_at cur stack = dropWhile (\<lambda>x. x \<noteq> cur) stack"

fun search :: "('a, 'v) walk \<Rightarrow> nat \<Rightarrow> 'a list \<Rightarrow> 'a list \<Rightarrow> 'a list \<times> 'v \<Rightarrow> exc + 'a list \<times> 'v" where
  "search K n stack [] s = Inr s"
| "search K n stack (cur # todo) s =
     (if wk_outside K cur then search K n stack todo s
      else if cur \<in> set stack then
        (if list_all (wk_loops K) (cycle_at cur stack) then search K n stack todo s
         else Inl (wk_cycle_error K (cycle_at cur stack) cur))
      else if cur \<in> set (fst s) then search K n stack todo s
      else (case n of
              0 \<Rightarrow> Inl (exc_of ''RecursionError'' [])
            | Suc m \<Rightarrow>
                (case wk_enter K cur (snd s) of
                   Inl x \<Rightarrow> Inl x
                 | Inr v \<Rightarrow>
                     (case search K m (stack @ [cur]) (wk_next K cur) (fst s @ [cur], v) of
                        Inl x \<Rightarrow> Inl x
                      | Inr s1 \<Rightarrow> search K n stack todo s1))))"

text \<open>From the entry, then from every id not visited yet.\<close>

definition search_all :: "('a, 'v) walk \<Rightarrow> 'a list \<Rightarrow> 'a \<Rightarrow> 'v \<Rightarrow> exc + 'a list \<times> 'a list \<times> 'v" where
  "search_all K keys entry v =
     (case search K (length keys) [] [entry] ([], v) of
        Inl x \<Rightarrow> Inl x
      | Inr s \<Rightarrow> (case search K (length keys) [] keys s of
                   Inl x \<Rightarrow> Inl x
                 | Inr (vis, v1) \<Rightarrow> Inr (fst s, vis, v1)))"

lemma cycle_at_subset: "set (cycle_at cur stack) \<subseteq> set stack"
  by (auto simp: cycle_at_def dest: set_dropWhileD)

lemma cycle_at_last: "cur \<in> set stack \<Longrightarrow> last stack \<in> set (cycle_at cur stack)"
  by (induction stack) (auto simp: cycle_at_def)

lemma cycle_at_start: "cur \<in> set stack \<Longrightarrow> cur \<in> set (cycle_at cur stack)"
  by (induction stack) (auto simp: cycle_at_def)

section \<open>What the search finds\<close>

locale edge_search =
  fixes K :: "('a, 'v) walk" and keys :: "'a list"
  assumes inside: "\<not> wk_outside K x \<longleftrightarrow> x \<in> set keys"
begin

definition edges :: "('a \<times> 'a) set" where
  "edges = {(x, y). x \<in> set keys \<and> y \<in> set keys \<and> y \<in> set (wk_next K x)}"

text \<open>The edges that leave an id that may not be visited again.\<close>

definition plain :: "('a \<times> 'a) set" where
  "plain = {(x, y). (x, y) \<in> edges \<and> \<not> wk_loops K x}"

text \<open>What is finished: its plain edges stay inside and form no cycle.\<close>

definition settled :: "'a set \<Rightarrow> bool" where
  "settled F \<longleftrightarrow> plain `` F \<subseteq> F \<and> acyclic (plain \<inter> F \<times> F)"

lemma settled_empty: "settled {}"
  by (simp add: settled_def acyclic_def)

lemma settled_insert:
  assumes "settled F" and "x \<notin> F" and "plain `` {x} \<subseteq> F"
  shows "settled (insert x F)"
proof -
  define r s where "r = plain \<inter> F \<times> F" and "s = plain \<inter> insert x F \<times> insert x F"
  have into: "y \<in> F" if "(a, y) \<in> s" for a y using that assms unfolding settled_def s_def by blast
  have old: "(a, y) \<in> r" if "(a, y) \<in> s" "a \<noteq> x" for a y using that into [OF that(1)] unfolding r_def s_def by blast
  have "(a, b) \<in> r\<^sup>+ \<or> a = x" if "(a, b) \<in> s\<^sup>+" for a b
    using that
  proof (induction rule: converse_trancl_induct)
    case (base y) then show ?case using old by auto
  next
    case (step y z)
    have "z \<noteq> x" using into [OF step.hyps(1)] assms(2) by auto
    then show ?case using step.IH old [OF step.hyps(1)] by (cases "y = x") (auto intro: trancl_into_trancl2)
  qed
  moreover have "b \<in> F" if "(a, b) \<in> s\<^sup>+" for a b using that by (cases rule: tranclE) (auto dest: into)
  ultimately have "(a, a) \<notin> s\<^sup>+" for a using assms(1,2) unfolding settled_def acyclic_def r_def by metis
  moreover have "plain `` insert x F \<subseteq> insert x F" using assms(1,3) unfolding settled_def by auto
  ultimately show ?thesis unfolding settled_def acyclic_def s_def by simp
qed

text \<open>The state of a search: the stack is open, everything else that was visited is finished.\<close>

definition sane :: "'a list \<Rightarrow> 'a list \<times> 'v \<Rightarrow> bool" where
  "sane stack s \<longleftrightarrow> set stack \<subseteq> set (fst s) \<and> set (fst s) \<subseteq> set keys \<and> distinct (fst s)
     \<and> settled (set (fst s) - set stack) \<and> edges `` (set (fst s) - set stack) \<subseteq> set (fst s)"

lemma sane_start: "sane [] ([], v)"
  by (simp add: sane_def settled_empty)

lemma sane_enter:
  assumes "sane stack s" and "cur \<in> set keys" and "cur \<notin> set (fst s)"
  shows "sane (stack @ [cur]) (fst s @ [cur], v)"
proof -
  have "set (fst s @ [cur]) - set (stack @ [cur]) = set (fst s) - set stack" using assms by (auto simp: sane_def)
  then show ?thesis using assms by (auto simp: sane_def)
qed

lemma sane_leave:
  assumes "sane (stack @ [cur]) s" and "cur \<notin> set stack" and "set (wk_next K cur) \<inter> set keys \<subseteq> set (fst s)"
    and open_ends: "\<And>y. y \<in> set (wk_next K cur) \<Longrightarrow> y \<in> set (stack @ [cur]) \<Longrightarrow> list_all (wk_loops K) (cycle_at y (stack @ [cur]))"
  shows "sane stack s"
proof -
  let ?F = "set (fst s) - set (stack @ [cur])"
  have F: "set (fst s) - set stack = insert cur ?F" using assms(1,2) by (auto simp: sane_def)
  have "plain `` {cur} \<subseteq> ?F"
  proof
    fix y
    assume "y \<in> plain `` {cur}"
    then have y: "y \<in> set keys" "y \<in> set (wk_next K cur)" "\<not> wk_loops K cur" by (auto simp: plain_def edges_def)
    have "y \<notin> set (stack @ [cur])"
    proof
      assume "y \<in> set (stack @ [cur])"
      with open_ends [OF y(2) this] cycle_at_last [OF this] y(3) show False by (auto simp: list_all_iff)
    qed
    then show "y \<in> ?F" using y assms(3) by auto
  qed
  then have "settled (insert cur ?F)" using assms(1) by (intro settled_insert) (auto simp: sane_def)
  moreover have "edges `` insert cur ?F \<subseteq> set (fst s)" using assms(1,3) by (auto simp: sane_def edges_def)
  ultimately show ?thesis using assms(1) unfolding sane_def F by auto
qed

text \<open>The search visits what it is given and leaves nothing open.\<close>

lemma search_visits:
  "search K n stack todo s = Inr s' \<Longrightarrow> sane stack s \<Longrightarrow>
   sane stack s' \<and> set (fst s) \<subseteq> set (fst s') \<and> set todo \<inter> set keys \<subseteq> set (fst s')
    \<and> (\<forall>y \<in> set todo \<inter> set stack. list_all (wk_loops K) (cycle_at y stack))"
proof (induction n arbitrary: stack todo s s')
  case n: (Suc m)
  show ?case using n.prems
  proof (induction todo arbitrary: s)
    case (Cons cur todo)
    show ?case
    proof (cases "wk_outside K cur \<or> cur \<in> set stack \<or> cur \<in> set (fst s)")
      case True
      then have later: "search K (Suc m) stack todo s = Inr s'"
        and "\<not> wk_outside K cur \<and> cur \<in> set stack \<longrightarrow> list_all (wk_loops K) (cycle_at cur stack)"
        using Cons.prems(1) by (auto split: if_splits)
      moreover have "cur \<in> set stack \<Longrightarrow> \<not> wk_outside K cur" using Cons.prems(2) inside by (auto simp: sane_def)
      ultimately show ?thesis using Cons.IH [OF later Cons.prems(2)] True inside [of cur] Cons.prems(2)
        by (auto simp: sane_def)
    next
      case False
      obtain v s1 where v: "wk_enter K cur (snd s) = Inr v"
        and s1: "search K m (stack @ [cur]) (wk_next K cur) (fst s @ [cur], v) = Inr s1"
        and later: "search K (Suc m) stack todo s1 = Inr s'"
        using Cons.prems(1) False by (auto split: sum.splits)
      note sub = n.IH [OF s1 sane_enter [OF Cons.prems(2)]]
      have cur: "cur \<in> set keys" using False inside by auto
      have sane1: "sane stack s1" using sub [OF cur] False by (intro sane_leave [of stack cur s1]) auto
      show ?thesis using Cons.IH [OF later sane1] sub [OF cur] False by auto
    qed
  qed simp
next
  case 0
  then show ?case
  proof (induction todo arbitrary: s)
    case (Cons cur todo)
    then have later: "search K 0 stack todo s = Inr s'" by (auto split: if_splits)
    have "cur \<in> set stack \<Longrightarrow> \<not> wk_outside K cur" using Cons.prems(2) inside by (auto simp: sane_def)
    then show ?case using Cons.prems Cons.IH [OF later Cons.prems(2)] inside [of cur]
      by (auto simp: sane_def split: if_splits)
  qed simp
qed

text \<open>An accepted graph: every id was visited, and no cycle avoids the ids that may be visited again.\<close>

lemma search_all_sound:
  assumes "search_all K keys entry v = Inr (vis1, vis, v')"
  shows "set vis = set keys \<and> acyclic plain \<and> edges `` set vis1 \<subseteq> set vis1 \<and> (entry \<in> set keys \<longrightarrow> entry \<in> set vis1)"
proof -
  obtain s where s: "search K (length keys) [] [entry] ([], v) = Inr s" "vis1 = fst s"
    and t: "search K (length keys) [] keys s = Inr (vis, v')"
    using assms by (auto simp: search_all_def split: sum.splits)
  note one = search_visits [OF s(1) sane_start]
  have two: "sane [] (vis, v')" "set keys \<subseteq> set vis" using search_visits [OF t] one by auto
  then have vis: "set vis = set keys" by (auto simp: sane_def)
  moreover have "plain \<inter> set vis \<times> set vis = plain" unfolding vis plain_def edges_def by auto
  then have "acyclic plain" using two(1) by (simp add: sane_def settled_def)
  ultimately show ?thesis using one s(2) by (auto simp: sane_def)
qed

text \<open>What is visited is reached from what was given.\<close>

lemma search_reaches:
  "search K n stack todo s = Inr s' \<Longrightarrow> set (fst s') \<subseteq> set (fst s) \<union> edges\<^sup>* `` (set todo \<inter> set keys)"
proof (induction n arbitrary: stack todo s s')
  case n: (Suc m)
  show ?case using n.prems
  proof (induction todo arbitrary: s)
    case (Cons cur todo)
    show ?case
    proof (cases "wk_outside K cur \<or> cur \<in> set stack \<or> cur \<in> set (fst s)")
      case True
      then have later: "search K (Suc m) stack todo s = Inr s'" using Cons.prems(1) by (auto split: if_splits)
      show ?thesis using Cons.IH [OF later] by auto
    next
      case False
      obtain v s1 where s1: "search K m (stack @ [cur]) (wk_next K cur) (fst s @ [cur], v) = Inr s1"
        and later: "search K (Suc m) stack todo s1 = Inr s'"
        using Cons.prems(1) False by (auto split: sum.splits)
      have cur: "cur \<in> set keys" using False inside by auto
      have "edges\<^sup>* `` (set (wk_next K cur) \<inter> set keys) \<subseteq> edges\<^sup>* `` {cur}"
        using cur by (auto simp: edges_def intro: converse_rtrancl_into_rtrancl)
      then show ?thesis using Cons.IH [OF later] n.IH [OF s1] cur by fastforce
    qed
  qed simp
next
  case 0
  then show ?case
  proof (induction todo arbitrary: s)
    case (Cons cur todo)
    then have later: "search K 0 stack todo s = Inr s'" by (auto split: if_splits)
    show ?case using Cons.IH [OF later] by auto
  qed simp
qed

text \<open>From one id, exactly what is reached from it.\<close>

lemma search_start_reached:
  assumes "search K n [] [entry] ([], v) = Inr s"
  shows "set (fst s) = edges\<^sup>* `` ({entry} \<inter> set keys)"
proof
  show "set (fst s) \<subseteq> edges\<^sup>* `` ({entry} \<inter> set keys)" using search_reaches [OF assms] by auto
  have closed: "edges `` set (fst s) \<subseteq> set (fst s)" "entry \<in> set keys \<Longrightarrow> entry \<in> set (fst s)"
    using search_visits [OF assms sane_start] by (auto simp: sane_def)
  have "b \<in> set (fst s)" if "(a, b) \<in> edges\<^sup>*" "a \<in> set (fst s)" for a b
    using that closed(1) by (induction rule: rtrancl_induct) auto
  then show "edges\<^sup>* `` ({entry} \<inter> set keys) \<subseteq> set (fst s)" using closed(2) by auto
qed

text \<open>The number of ids is enough fuel: a stack of all of them has nothing new to enter.\<close>

lemma full_stack:
  assumes "length keys \<le> length stack" and "distinct stack" and "set stack \<subseteq> set keys"
  shows "set stack = set keys"
proof (rule card_subset_eq)
  have "card (set keys) \<le> card (set stack)" using assms(1,2) card_length [of keys] by (simp add: distinct_card)
  then show "card (set stack) = card (set keys)" using card_mono [OF finite_set assms(3)] by simp
qed (use assms in simp_all)

lemma search_fuel:
  "length keys \<le> n + length stack \<Longrightarrow> distinct stack \<Longrightarrow> set stack \<subseteq> set keys \<Longrightarrow>
   search K (n + d) stack todo s = search K n stack todo s"
proof (induction n arbitrary: stack todo s)
  case n: (Suc m)
  show ?case
  proof (induction todo arbitrary: s)
    case (Cons cur todo)
    have "search K (m + d) (stack @ [cur]) t u = search K m (stack @ [cur]) t u"
      if "\<not> wk_outside K cur" "cur \<notin> set stack" for t u
      using n.prems that inside by (intro n.IH) auto
    then show ?case using Cons.IH by (auto split: sum.splits)
  qed simp
next
  case 0
  then have full: "set stack = set keys" by (intro full_stack) auto
  show ?case
  proof (induction todo arbitrary: s)
    case (Cons cur todo)
    then show ?case using full inside [of cur] by auto
  qed simp
qed

text \<open>A graph without cycles is accepted, unless entering an id fails.\<close>

lemma search_accepts:
  assumes "acyclic edges" and enters: "\<And>x v. x \<in> set keys \<Longrightarrow> \<exists>v'. wk_enter K x v = Inr v'"
  shows "length keys \<le> n + length stack \<Longrightarrow> distinct stack \<Longrightarrow> set stack \<subseteq> set keys \<Longrightarrow>
    set stack \<times> (set todo \<inter> set keys) \<subseteq> edges\<^sup>+ \<Longrightarrow> \<exists>s'. search K n stack todo s = Inr s'"
proof (induction n arbitrary: stack todo s)
  case n: (Suc m)
  show ?case using n.prems(4)
  proof (induction todo arbitrary: s)
    case (Cons cur todo)
    have rest: "set stack \<times> (set todo \<inter> set keys) \<subseteq> edges\<^sup>+" using Cons.prems by auto
    show ?case
    proof (cases "wk_outside K cur \<or> cur \<in> set (fst s)")
      case True
      have "\<not> wk_outside K cur \<Longrightarrow> cur \<notin> set stack"
        using Cons.prems assms(1) inside by (fastforce simp: acyclic_def)
      then show ?thesis using True Cons.IH [OF rest] by auto
    next
      case False
      then have cur: "cur \<in> set keys" using inside by auto
      have new: "cur \<notin> set stack" using Cons.prems assms(1) cur by (fastforce simp: acyclic_def)
      obtain v where v: "wk_enter K cur (snd s) = Inr v" using enters [OF cur] by blast
      have "set (stack @ [cur]) \<times> (set (wk_next K cur) \<inter> set keys) \<subseteq> edges\<^sup>+"
      proof (intro subrelI)
        fix x y
        assume "(x, y) \<in> set (stack @ [cur]) \<times> (set (wk_next K cur) \<inter> set keys)"
        then have x: "x \<in> insert cur (set stack)" and e: "(cur, y) \<in> edges" using cur by (auto simp: edges_def)
        have "x \<noteq> cur \<Longrightarrow> (x, cur) \<in> edges\<^sup>+" using x Cons.prems cur by auto
        then show "(x, y) \<in> edges\<^sup>+" using e by (cases "x = cur") auto
      qed
      then obtain s1 where "search K m (stack @ [cur]) (wk_next K cur) (fst s @ [cur], v) = Inr s1"
        using n.IH [of "stack @ [cur]"] n.prems(1-3) cur new by fastforce
      then show ?thesis using False new v Cons.IH [OF rest] by auto
    qed
  qed simp
next
  case 0
  then have full: "set stack = set keys" by (intro full_stack) auto
  have "\<not> (\<exists>y \<in> set todo. y \<in> set keys)" using 0(4) assms(1) full by (fastforce simp: acyclic_def)
  then show ?case
  proof (induction todo arbitrary: s)
    case (Cons cur todo)
    then show ?case using full inside [of cur] by auto
  qed simp
qed

text \<open>A search that may visit any id again never fails.\<close>

lemma search_total:
  assumes loops: "\<And>x. wk_loops K x" and enters: "\<And>x v. x \<in> set keys \<Longrightarrow> \<exists>v'. wk_enter K x v = Inr v'"
  shows "length keys \<le> n + length stack \<Longrightarrow> distinct stack \<Longrightarrow> set stack \<subseteq> set keys \<Longrightarrow>
    \<exists>s'. search K n stack todo s = Inr s'"
proof (induction n arbitrary: stack todo s)
  case n: (Suc m)
  show ?case
  proof (induction todo arbitrary: s)
    case (Cons cur todo)
    show ?case
    proof (cases "wk_outside K cur \<or> cur \<in> set stack \<or> cur \<in> set (fst s)")
      case True
      then show ?thesis using Cons.IH loops by (auto simp: list_all_iff)
    next
      case False
      then have cur: "cur \<in> set keys" using inside by auto
      obtain v where v: "wk_enter K cur (snd s) = Inr v" using enters [OF cur] by blast
      obtain s1 where "search K m (stack @ [cur]) (wk_next K cur) (fst s @ [cur], v) = Inr s1"
        using n.IH [of "stack @ [cur]"] n.prems cur False by fastforce
      then show ?thesis using False v Cons.IH by auto
    qed
  qed simp
next
  case 0
  then have full: "set stack = set keys" by (intro full_stack) auto
  show ?case
  proof (induction todo arbitrary: s)
    case (Cons cur todo)
    then show ?case using full inside [of cur] loops by (auto simp: list_all_iff)
  qed simp
qed

lemma search_all_accepts:
  assumes "acyclic edges" and "\<And>x v. x \<in> set keys \<Longrightarrow> \<exists>v'. wk_enter K x v = Inr v'"
  shows "\<exists>r. search_all K keys entry v = Inr r"
proof -
  have "\<exists>s'. search K (length keys) [] todo s = Inr s'" for todo s
    by (rule search_accepts [OF assms]) auto
  then show ?thesis unfolding search_all_def by (metis (no_types, lifting) old.prod.exhaust sum.case(2) prod.case)
qed

end

end
