(* ===== verification/Flow_Validate.thy ===== *)
theory Flow_Validate
  imports Flow_Models Graph_Search "HOL-Library.List_Lexorder" "HOL-Library.Char_ord"
begin

text \<open>
  \<^verbatim>\<open>GraphNormalizer.validate_graph\<close> of \<^verbatim>\<open>tg_signer/core/flow_normalizer.py\<close>, which accepts or
  rejects the execution graphs of a task before they run, and \<^verbatim>\<open>find_unreachable_nodes\<close> of
  \<^verbatim>\<open>flow_mermaid_adapter.py\<close>. The caller's budget and list of warnings are the state
  \<open>vstate\<close>; after an error the source leaves in the budget what was charged so far, which the
  model drops with the state. \<open>validate_at\<close> counts the levels that are left instead of the depth, so that the bound on the
  nesting of the source is the recursion of the model. The Chinese texts are English ones here.
\<close>

section \<open>Limits, state and errors\<close>

definition max_nodes_per_graph :: nat where "max_nodes_per_graph = 50"
definition max_subflow_depth :: nat where "max_subflow_depth = 3"
definition max_parallel_branches :: nat where "max_parallel_branches = 10"
definition max_total_task_nodes :: int where "max_total_task_nodes = 150"

definition sentinels :: "string list" where
  "sentinels = [terminal_complete, terminal_fail, ''COMPLETE'', ''FAIL'']"

record vstate =
  vs_budget :: "(string, int) odict option"
  vs_warnings :: "string list option"

definition graph_error :: "string \<Rightarrow> exc" where
  "graph_error = exc_of ''GraphValidationError''"

definition budget_used :: "(string, int) odict \<Rightarrow> int" where
  "budget_used b = look b ''current_total_nodes'' (look b ''total_nodes'' 0)"

definition budget_limit :: "(string, int) odict \<Rightarrow> int" where
  "budget_limit b = look b ''max_total_task_nodes'' (look b ''max_nodes'' max_total_task_nodes)"

text \<open>The nodes of one graph against the budget of the task; the first graph opens one if there is none.\<close>

definition charge_budget :: "nat \<Rightarrow> nat \<Rightarrow> vstate \<Rightarrow> exc + vstate" where
  "charge_budget depth n v =
     (case vs_budget v of
        Some b \<Rightarrow>
          (let total = budget_used b + int n
           in if total > budget_limit b then Inl (graph_error ''too many nodes in the task'')
              else Inr (v\<lparr>vs_budget := Some (AList.update ''total_nodes'' total (AList.update ''current_total_nodes'' total b))\<rparr>))
      | None \<Rightarrow>
          if depth = 1 then
            (if int n > max_total_task_nodes then Inl (graph_error ''too many nodes in the task'')
             else Inr (v\<lparr>vs_budget := Some [(''current_total_nodes'', int n), (''total_nodes'', int n),
                         (''max_total_task_nodes'', max_total_task_nodes)]\<rparr>))
          else Inr v)"

section \<open>Edges\<close>

definition node_ids :: "graph \<Rightarrow> string list" where
  "node_ids g = map fst (g_nodes g)"

definition target_known :: "graph \<Rightarrow> string option \<Rightarrow> bool" where
  "target_known g t \<longleftrightarrow> \<not> truthy_str t \<or> the t \<in> set sentinels \<or> the t \<in> set (node_ids g)"

text \<open>Where a node may lead, in the order of the source, with the name of the field.\<close>

definition node_targets :: "node \<Rightarrow> (string \<times> string option) list" where
  "node_targets n =
     [(''next_node_id'', nb_next (nd_base n)), (''on_failure_node_id'', nb_on_failure (nd_base n)),
      (''terminal_branch_target'', nb_terminal_target (nd_base n))] @
     (case nd_kind n of
        Condition cases otherwise \<Rightarrow> map (\<lambda>c. (''target_id'', map_of c ''target_id'')) cases @ [(''default_target_id'', otherwise)]
      | _ \<Rightarrow> [])"

definition edge_fault :: "graph \<Rightarrow> exc option" where
  "edge_fault g =
     map_option (\<lambda>(i, field, t). graph_error (i @ '' '' @ field @ '' '' @ the t @ '' does not exist''))
       (List.find (\<lambda>(i, field, t). \<not> target_known g t)
         (concat (map (\<lambda>(i, n). map (\<lambda>(field, t). (i, field, t)) (node_targets n)) (g_nodes g))))"

definition neighbors :: "node \<Rightarrow> string list" where
  "neighbors n = map the (filter truthy_str (map snd (node_targets n)))"

section \<open>Cycles, nested graphs and unreachable nodes\<close>

definition may_repeat :: "graph \<Rightarrow> string \<Rightarrow> bool" where
  "may_repeat g i = (case g_node g i of None \<Rightarrow> True
     | Some n \<Rightarrow> lp_allow_loop (nb_loop (nd_base n)) \<and> lp_max_visits (nb_loop (nd_base n)) > 1)"

fun validate_each :: "(graph \<Rightarrow> vstate \<Rightarrow> exc + vstate) \<Rightarrow> graph list \<Rightarrow> vstate \<Rightarrow> exc + vstate" where
  "validate_each val [] v = Inr v"
| "validate_each val (g # gs) v = (case val g v of Inl x \<Rightarrow> Inl x | Inr v1 \<Rightarrow> validate_each val gs v1)"

definition enter_node :: "(graph \<Rightarrow> vstate \<Rightarrow> exc + vstate) \<Rightarrow> node \<Rightarrow> vstate \<Rightarrow> exc + vstate" where
  "enter_node val n v =
     (case nd_kind n of
        Subflow (Some g) c \<Rightarrow> val g v
      | Parallel gs c \<Rightarrow>
          if length gs > max_parallel_branches then Inl (graph_error ''too many parallel branches'')
          else validate_each val gs v
      | _ \<Rightarrow> Inr v)"

definition cycle_error :: "string list \<Rightarrow> string \<Rightarrow> exc" where
  "cycle_error cycle cur = graph_error (''cycle: '' @ join_with '' -> '' cycle @ '' -> '' @ cur)"

definition flow_walk :: "(graph \<Rightarrow> vstate \<Rightarrow> exc + vstate) \<Rightarrow> graph \<Rightarrow> (string, vstate) walk" where
  "flow_walk val g = \<lparr>wk_outside = (\<lambda>i. i \<in> set sentinels \<or> i \<notin> set (node_ids g)),
     wk_next = (\<lambda>i. case g_node g i of None \<Rightarrow> [] | Some n \<Rightarrow> neighbors n), wk_loops = may_repeat g,
     wk_enter = (\<lambda>i. case g_node g i of None \<Rightarrow> Inr | Some n \<Rightarrow> enter_node val n), wk_cycle_error = cycle_error\<rparr>"

definition search_ids :: "graph \<Rightarrow> string list" where
  "search_ids g = filter (\<lambda>i. i \<notin> set sentinels) (node_ids g)"

definition warn_unreachable :: "graph \<Rightarrow> string list \<Rightarrow> vstate \<Rightarrow> vstate" where
  "warn_unreachable g reached v =
     v\<lparr>vs_warnings := map_option (\<lambda>ws. ws @ map (\<lambda>i. i @ '' unreachable from '' @ g_entry g)
        (sort (filter (\<lambda>i. i \<notin> set reached) (node_ids g)))) (vs_warnings v)\<rparr>"

fun validate_at :: "nat \<Rightarrow> graph \<Rightarrow> vstate \<Rightarrow> exc + vstate" where
  "validate_at left g v =
     (if g_nodes g = [] then Inl (graph_error ''empty graph'')
      else if length (g_nodes g) > max_nodes_per_graph then Inl (graph_error ''too many nodes in the graph'')
      else (case left of
        0 \<Rightarrow> Inl (graph_error ''nested too deep'')
      | Suc l \<Rightarrow>
          (case charge_budget (max_subflow_depth - l) (length (g_nodes g)) v of
             Inl x \<Rightarrow> Inl x
           | Inr v1 \<Rightarrow>
               if g_entry g \<notin> set (node_ids g) then Inl (graph_error ''entry node does not exist'')
               else if \<not> target_known g (g_resume g) then Inl (graph_error ''resume_from_node_id does not exist'')
               else (case edge_fault g of
                       Some x \<Rightarrow> Inl x
                     | None \<Rightarrow>
                         if \<not> target_known g (g_error_handler g) then Inl (graph_error ''error_handler_node_id does not exist'')
                         else (case search_all (flow_walk (validate_at l) g) (search_ids g) (g_entry g) v1 of
                                 Inl x \<Rightarrow> Inl x
                               | Inr (reached, _, v2) \<Rightarrow> Inr (warn_unreachable g reached v2))))))"

declare validate_at.simps [simp del]

text \<open>The entry point; a budget the validator opened itself is not seen by the caller.\<close>

definition validate_graph :: "graph \<Rightarrow> vstate \<Rightarrow> exc + vstate" where
  "validate_graph g v =
     (case validate_at max_subflow_depth g v of
        Inl x \<Rightarrow> Inl x
      | Inr v1 \<Rightarrow> Inr (if vs_budget v = None then v1\<lparr>vs_budget := None\<rparr> else v1))"

end
