(* ===== verification/Flow_Compile.thy ===== *)
theory Flow_Compile
  imports Flow_Validate
begin

text \<open>
  The compilation of the older form of a task, a list of actions, into an execution graph:
  \<^verbatim>\<open>GraphNormalizer._from_linear_actions\<close> of \<^verbatim>\<open>tg_signer/core/flow_normalizer.py\<close>. An action is
  what the pydantic models of \<^verbatim>\<open>tg_signer/config.py\<close> make of it; a setting of a reply that was not
  given explicitly is \<open>None\<close>. The settings the source reads from the environment are the record
  \<open>task_settings\<close>. Actions given as plain dictionaries, which no stored task has, are left out.
\<close>

section \<open>Actions and chats\<close>

datatype action_spec =
    SendText string
  | SendDice string
  | ClickKeyboardByText string
  | ChooseOptionByImage "string option"
  | ReplyByCalculation "string option"
  | ReplyByImageRecognition "string option"
  | ClickButtonByCalculation "string option"
  | KeywordNotify "string list"
  | PluginCall string string "real option" pydict

record sign_action =
  sa_spec :: action_spec
  sa_delay :: "string option"
  sa_continue_on_error :: bool
  sa_skip_if_matched :: "string option"
  sa_stop_flow :: bool
  sa_wait_for_reply :: bool
  sa_success_patterns :: "string list"
  sa_failure_patterns :: "string list"
  sa_reply_timeout :: "real option"
  sa_retry_keywords :: "string list option"
  sa_retry_interval :: "real option"
  sa_retry_max :: "int option"
  sa_semantic_result :: "pydict option"

record sign_chat =
  sh_chat_id :: int
  sh_name :: "string option"
  sh_thread_id :: "int option"

record task_settings =
  ts_action_timeout :: real
  ts_ai_timeout :: real
  ts_reply_timeout :: real
  ts_retry_interval :: real
  ts_retry_max :: int
  ts_retry_keywords :: "string list"

definition ai_action_types :: "string list" where
  "ai_action_types = [''CHOOSE_OPTION_BY_IMAGE'', ''REPLY_BY_IMAGE_RECOGNITION'', ''CLICK_BUTTON_BY_CALCULATION'',
     ''CLICK_BUTTON_BY_CALCULATION_PROBLEM'', ''REPLY_BY_CALCULATION'', ''REPLY_BY_CALCULATION_PROBLEM'']"

definition opt_int :: "int option \<Rightarrow> py" where
  "opt_int v = (case v of None \<Rightarrow> PNone | Some i \<Rightarrow> PInt i)"

section \<open>The node of an action\<close>

definition spec_params :: "action_spec \<Rightarrow> string \<times> pydict" where
  "spec_params s =
     (case s of
        SendText t \<Rightarrow> (''SEND_TEXT'', [(''text'', PStr t)])
      | SendDice d \<Rightarrow> (''SEND_DICE'', [(''dice'', PStr d)])
      | ClickKeyboardByText t \<Rightarrow> (''CLICK_KEYBOARD_BY_TEXT'', [(''text'', PStr t)])
      | ChooseOptionByImage p \<Rightarrow> (''CHOOSE_OPTION_BY_IMAGE'', [(''ai_prompt'', opt_str p)])
      | ClickButtonByCalculation p \<Rightarrow> (''CLICK_BUTTON_BY_CALCULATION'', [(''ai_prompt'', opt_str p)])
      | ReplyByCalculation p \<Rightarrow> (''REPLY_BY_CALCULATION'', [(''ai_prompt'', opt_str p)])
      | ReplyByImageRecognition p \<Rightarrow> (''REPLY_BY_IMAGE_RECOGNITION'', [(''ai_prompt'', opt_str p)])
      | KeywordNotify ks \<Rightarrow> (''KEYWORD_NOTIFY'', [(''keywords'', PList (map PStr ks))])
      | PluginCall n m t ps \<Rightarrow> (''PLUGIN'', [(''plugin_name'', PStr n), (''mode'', PStr m),
          (''timeout'', (case t of None \<Rightarrow> PNone | Some x \<Rightarrow> PFloat (Fin x))), (''params'', str_dict ps)]))"

definition extract_action :: "sign_action \<Rightarrow> string \<times> pydict" where
  "extract_action a =
     (case spec_params (sa_spec a) of (t, ps) \<Rightarrow>
        (t, ps @ (case sa_delay a of None \<Rightarrow> [] | Some d \<Rightarrow> [(''delay'', PStr d)])
          @ [(''skip_if_matched'', opt_str (sa_skip_if_matched a)), (''continue_on_error'', PBool (sa_continue_on_error a)),
             (''stop_flow_on_terminal'', PBool (sa_stop_flow a))]))"

definition action_timeout :: "task_settings \<Rightarrow> sign_action \<Rightarrow> real" where
  "action_timeout s a =
     (case sa_spec a of
        PluginCall n m (Some x) ps \<Rightarrow> max 5 x
      | _ \<Rightarrow> if fst (extract_action a) \<in> set ai_action_types then max (ts_action_timeout s) (ts_ai_timeout s)
            else ts_action_timeout s)"

definition step_id :: "nat \<Rightarrow> string" where "step_id i = ''step_'' @ str_nat i"
definition wait_id :: "nat \<Rightarrow> string" where "wait_id i = ''step_'' @ str_nat i @ ''_wait''"

definition action_node :: "task_settings \<Rightarrow> nat \<Rightarrow> string \<Rightarrow> sign_action \<Rightarrow> node" where
  "action_node s i next_id a =
     (case extract_action a of (t, ps) \<Rightarrow>
        Node ((default_base (step_id i))\<lparr>nb_name := ''Action-'' @ str_nat (Suc i), nb_next := Some next_id,
            nb_on_failure := Some (if sa_continue_on_error a then next_id else terminal_fail),
            nb_terminal_policy := (if sa_stop_flow a then StopFlow else TerminalIgnore),
            nb_timeout := action_timeout s a, nb_metadata := [(''raw_action'', PObj (step_id i))]\<rparr>)
          (Action t ps))"

section \<open>The node that waits for a reply\<close>

definition clamp :: "'a::linorder \<Rightarrow> 'a \<Rightarrow> 'a \<Rightarrow> 'a" where
  "clamp lo hi x = max lo (min hi x)"

definition given :: "'a option \<Rightarrow> 'a \<Rightarrow> 'a" where
  "given v otherwise = (case v of None \<Rightarrow> otherwise | Some x \<Rightarrow> x)"

definition reply_node :: "task_settings \<Rightarrow> sign_chat \<Rightarrow> nat \<Rightarrow> string \<Rightarrow> sign_action \<Rightarrow> node" where
  "reply_node s c i next_id a =
     Node ((default_base (wait_id i))\<lparr>nb_name := ''wait for the reply'', nb_next := Some next_id, nb_on_failure := Some terminal_fail,
         nb_timeout := clamp 30 3600 (given (sa_reply_timeout a) (ts_reply_timeout s)),
         nb_metadata := [(''chat_id'', PInt (sh_chat_id c)), (''chat_name'', opt_str (sh_name c)),
           (''message_thread_id'', opt_int (sh_thread_id c)), (''action_node_id'', PStr (step_id i)),
           (''retry_entry_node_id'', PStr (step_id 0))]\<rparr>)
       (WaitEvent (default_wait\<lparr>wc_event_type := ''ANY'', wc_success_patterns := sa_success_patterns a,
         wc_failure_patterns := sa_failure_patterns a, wc_semantic := sa_semantic_result a,
         wc_retry_keywords := given (sa_retry_keywords a) (ts_retry_keywords s),
         wc_retry_interval := clamp 1 300 (given (sa_retry_interval a) (ts_retry_interval s)),
         wc_max_retries := clamp 0 10 (given (sa_retry_max a) (ts_retry_max s)), wc_action_node := Some (step_id i)\<rparr>))"

section \<open>The graph\<close>

definition step_nodes :: "task_settings \<Rightarrow> sign_chat \<Rightarrow> nat \<Rightarrow> string \<Rightarrow> sign_action \<Rightarrow> (string \<times> node) list" where
  "step_nodes s c i next_id a =
     (if sa_wait_for_reply a
      then [(step_id i, action_node s i (wait_id i) a), (wait_id i, reply_node s c i next_id a)]
      else [(step_id i, action_node s i next_id a)])"

fun linear_nodes :: "task_settings \<Rightarrow> sign_chat \<Rightarrow> nat \<Rightarrow> sign_action list \<Rightarrow> (string \<times> node) list" where
  "linear_nodes s c i [] = []"
| "linear_nodes s c i (a # as) =
     step_nodes s c i (if as = [] then terminal_complete else step_id (Suc i)) a @ linear_nodes s c (Suc i) as"

definition linear_graph :: "task_settings \<Rightarrow> sign_chat \<Rightarrow> sign_action list \<Rightarrow> graph" where
  "linear_graph s c as = Graph (step_id 0) (linear_nodes s c 0 as) 30 None None None"

definition from_linear_actions :: "task_settings \<Rightarrow> sign_chat \<Rightarrow> sign_action list \<Rightarrow> vstate \<Rightarrow> exc + graph \<times> vstate" where
  "from_linear_actions s c as v =
     (if as = [] then Inl (graph_error ''no action configured'')
      else (case validate_graph (linear_graph s c as) v of
              Inl x \<Rightarrow> Inl x
            | Inr v1 \<Rightarrow> Inr (linear_graph s c as, v1)))"

end
