(* ===== verification/Flow_Validate_Props.thy ===== *)
theory Flow_Validate_Props
  imports Flow_Validate
begin

text \<open>
  What the validator promises: the specification \<open>graph_ok\<close> of the graphs it accepts, the
  budget it charges, and that without nested graphs and repeatable nodes it accepts exactly the
  graphs without cycles. The search lemmas come from the locale \<open>edge_search\<close>, interpreted on
  \<open>flow_walk\<close>.
\<close>

section \<open>The edges of a flow\<close>

definition flow_edges :: "graph \<Rightarrow> (string \<times> string) set" where
  "flow_edges g = {(i, j). i \<in> set (search_ids g) \<and> j \<in> set (search_ids g) \<and>
     (\<exists>n. g_node g i = Some n \<and> j \<in> set (neighbors n))}"

text \<open>The edges that leave a node that may not be visited again.\<close>

definition strict_edges :: "graph \<Rightarrow> (string \<times> string) set" where
  "strict_edges g = {(i, j). (i, j) \<in> flow_edges g \<and> \<not> may_repeat g i}"

interpretation flow_search: edge_search "flow_walk val g" "search_ids g" for val g
  by unfold_locales (auto simp: flow_walk_def search_ids_def)

lemma node_ids_node: "i \<in> set (node_ids g) \<longleftrightarrow> (\<exists>n. g_node g i = Some n)"
  using map_of_eq_None_iff [of "g_nodes g" i] by (auto simp: node_ids_def)

lemma search_ids_node: "i \<in> set (search_ids g) \<longleftrightarrow> i \<notin> set sentinels \<and> (\<exists>n. g_node g i = Some n)"
  by (auto simp: search_ids_def node_ids_node)

lemma flow_search_edges: "flow_search.edges val g = flow_edges g"
  unfolding flow_search.edges_def flow_edges_def
  by (auto simp: flow_walk_def search_ids_node split: option.splits)

lemma flow_walk_loops: "wk_loops (flow_walk val g) = may_repeat g"
  by (simp add: flow_walk_def)

lemma flow_search_plain: "flow_search.plain val g = strict_edges g"
  by (simp add: flow_search.plain_def flow_search_edges strict_edges_def flow_walk_loops)

section \<open>The specification\<close>

definition targets_known :: "graph \<Rightarrow> bool" where
  "targets_known g \<longleftrightarrow> target_known g (g_resume g) \<and> target_known g (g_error_handler g) \<and>
     (\<forall>(i, n) \<in> set (g_nodes g). \<forall>(f, t) \<in> set (node_targets n). target_known g t)"

fun graph_ok :: "nat \<Rightarrow> graph \<Rightarrow> bool" where
  "graph_ok 0 g = False"
| "graph_ok (Suc l) g \<longleftrightarrow> 0 < length (g_nodes g) \<and> length (g_nodes g) \<le> max_nodes_per_graph
     \<and> g_entry g \<in> set (node_ids g) \<and> targets_known g \<and> acyclic (strict_edges g)
     \<and> (\<forall>i \<in> set (search_ids g). let n = the (g_node g i) in length (nested n) \<le> max 1 max_parallel_branches \<and> (\<forall>sg \<in> set (nested n). graph_ok l sg))"

text \<open>The nodes of a graph with the nodes of its nested graphs.\<close>

fun total_nodes :: "nat \<Rightarrow> graph \<Rightarrow> nat" where
  "total_nodes 0 g = 0"
| "total_nodes (Suc l) g = length (g_nodes g)
     + sum_list (map (\<lambda>i. sum_list (map (total_nodes l) (nested (the (g_node g i))))) (remdups (search_ids g)))"

section \<open>Entering the nodes\<close>

text \<open>The order in which a search enters is the order of its visited list.\<close>

fun enter_all :: "('a \<Rightarrow> 'v \<Rightarrow> exc + 'v) \<Rightarrow> 'a list \<Rightarrow> 'v \<Rightarrow> exc + 'v" where
  "enter_all f [] v = Inr v"
| "enter_all f (x # xs) v = (case f x v of Inl e \<Rightarrow> Inl e | Inr v1 \<Rightarrow> enter_all f xs v1)"

lemma enter_all_append:
  "enter_all f (xs @ ys) v = (case enter_all f xs v of Inl e \<Rightarrow> Inl e | Inr v1 \<Rightarrow> enter_all f ys v1)"
  by (induction xs arbitrary: v) (auto split: sum.splits)

lemma search_enters:
  "search K n stack todo s = Inr s' \<Longrightarrow>
   \<exists>new. fst s' = fst s @ new \<and> enter_all (wk_enter K) new (snd s) = Inr (snd s')"
proof (induction K n stack todo s arbitrary: s' rule: search.induct)
  case (2 K n stack cur todo s)
  show ?case
  proof (cases "wk_outside K cur \<or> cur \<in> set stack \<or> cur \<in> set (fst s)")
    case True
    then show ?thesis using 2 by (auto split: if_splits)
  next
    case False
    obtain m v s1 where m: "n = Suc m" and v: "wk_enter K cur (snd s) = Inr v"
      and s1: "search K m (stack @ [cur]) (wk_next K cur) (fst s @ [cur], v) = Inr s1"
      and later: "search K n stack todo s1 = Inr s'"
      using 2(6) False by (auto split: sum.splits nat.splits)
    from False have "\<not> wk_outside K cur" "cur \<notin> set stack" "cur \<notin> set (fst s)" by auto
    note sub = 2(4) [OF this m v s1] and rest = 2(5) [OF this m v s1 later]
    obtain new1 where n1: "fst s1 = (fst s @ [cur]) @ new1" "enter_all (wk_enter K) new1 v = Inr (snd s1)" using sub by auto
    obtain new2 where n2: "fst s' = fst s1 @ new2" "enter_all (wk_enter K) new2 (snd s1) = Inr (snd s')" using rest by auto
    show ?thesis using n1 n2 v by (intro exI [of _ "cur # new1 @ new2"]) (simp add: enter_all_append)
  qed
qed simp

lemma search_all_enters:
  assumes "search_all (flow_walk val g) (search_ids g) entry v = Inr (vis1, vis, v')"
  shows "distinct vis \<and> set vis = set (search_ids g) \<and> enter_all (wk_enter (flow_walk val g)) vis v = Inr v'"
proof -
  obtain s where s: "search (flow_walk val g) (length (search_ids g)) [] [entry] ([], v) = Inr s" "vis1 = fst s"
    and t: "search (flow_walk val g) (length (search_ids g)) [] (search_ids g) s = Inr (vis, v')"
    using assms by (auto simp: search_all_def split: sum.splits)
  have "enter_all (wk_enter (flow_walk val g)) vis v = Inr v'"
    using search_enters [OF s(1)] search_enters [OF t] by (auto simp: enter_all_append)
  moreover have "distinct vis"
    using flow_search.search_visits [OF t] flow_search.search_visits [OF s(1) flow_search.sane_start]
    by (auto simp: flow_search.sane_def)
  ultimately show ?thesis using flow_search.search_all_sound [OF assms] by blast
qed

section \<open>The budget\<close>

text \<open>A step that charges \<open>k\<close> nodes to an open budget and never exceeds its limit.\<close>

definition charges :: "int \<Rightarrow> (vstate \<Rightarrow> exc + vstate) \<Rightarrow> bool" where
  "charges k f \<longleftrightarrow> (\<forall>v v' b. f v = Inr v' \<and> vs_budget v = Some b \<and> budget_used b \<le> budget_limit b \<longrightarrow>
     (\<exists>b'. vs_budget v' = Some b' \<and> budget_used b' = budget_used b + k \<and> budget_limit b' = budget_limit b
       \<and> budget_used b' \<le> budget_limit b))"

lemma charges_zero: "charges 0 Inr"
  by (simp add: charges_def)

lemma charges_seq:
  assumes "charges j f" and "charges k h"
  shows "charges (j + k) (\<lambda>v. case f v of Inl x \<Rightarrow> Inl x | Inr v1 \<Rightarrow> h v1)"
  unfolding charges_def
proof (intro allI impI, elim conjE)
  fix v v' b
  assume *: "(case f v of Inl x \<Rightarrow> Inl x | Inr v1 \<Rightarrow> h v1) = Inr v'" "vs_budget v = Some b" "budget_used b \<le> budget_limit b"
  then obtain v1 where v1: "f v = Inr v1" "h v1 = Inr v'" by (auto split: sum.splits)
  obtain b1 where b1: "vs_budget v1 = Some b1" "budget_used b1 = budget_used b + j" "budget_limit b1 = budget_limit b"
      "budget_used b1 \<le> budget_limit b1"
    using assms(1) v1(1) *(2,3) unfolding charges_def by metis
  obtain b2 where "vs_budget v' = Some b2" "budget_used b2 = budget_used b1 + k" "budget_limit b2 = budget_limit b1"
      "budget_used b2 \<le> budget_limit b1"
    using assms(2) v1(2) b1(1,4) unfolding charges_def by metis
  then show "\<exists>b'. vs_budget v' = Some b' \<and> budget_used b' = budget_used b + (j + k) \<and> budget_limit b' = budget_limit b
       \<and> budget_used b' \<le> budget_limit b" using b1 by auto
qed

lemma charges_cong: "(\<And>v v'. f v = Inr v' \<Longrightarrow> h v = Inr v') \<Longrightarrow> charges k h \<Longrightarrow> charges k f"
  unfolding charges_def by blast

lemma charges_enter_all:
  "(\<And>x. x \<in> set xs \<Longrightarrow> charges (c x) (f x)) \<Longrightarrow> charges (sum_list (map c xs)) (enter_all f xs)"
proof (induction xs)
  case Nil
  have "enter_all f [] = Inr" by (rule ext) simp
  then show ?case by (simp add: charges_zero)
next
  case (Cons x xs)
  have "enter_all f (x # xs) = (\<lambda>v. case f x v of Inl e \<Rightarrow> Inl e | Inr v1 \<Rightarrow> enter_all f xs v1)" by (rule ext) simp
  then show ?case using Cons by (simp add: charges_seq)
qed

lemma charges_each:
  "(\<And>g. g \<in> set gs \<Longrightarrow> charges (c g) (val g)) \<Longrightarrow> charges (sum_list (map c gs)) (validate_each val gs)"
proof (induction gs)
  case Nil
  have "validate_each val [] = Inr" by (rule ext) simp
  then show ?case by (simp add: charges_zero)
next
  case (Cons g gs)
  have "validate_each val (g # gs) = (\<lambda>v. case val g v of Inl e \<Rightarrow> Inl e | Inr v1 \<Rightarrow> validate_each val gs v1)" by (rule ext) simp
  then show ?case using Cons by (simp add: charges_seq)
qed

lemma enter_node_each: "enter_node val n v = Inr v' \<Longrightarrow> validate_each val (nested n) v = Inr v'"
  by (auto simp: enter_node_def nested_def split: node_kind.splits option.splits if_splits sum.splits)

lemma charges_budget: "charges (int n) (charge_budget depth n)"
  by (auto simp: charges_def charge_budget_def Let_def budget_used_def budget_limit_def split: if_splits)

lemma charges_warn: "charges 0 (\<lambda>v. Inr (warn_unreachable g vis v))"
  by (auto simp: charges_def warn_unreachable_def)

text \<open>The parts of an accepted graph.\<close>

lemma validate_parts:
  assumes "validate_at (Suc l) g v = Inr v'"
  obtains v1 v2 reached vis where "charge_budget (max_subflow_depth - l) (length (g_nodes g)) v = Inr v1"
    and "search_all (flow_walk (validate_at l) g) (search_ids g) (g_entry g) v1 = Inr (reached, vis, v2)"
    and "v' = warn_unreachable g reached v2" and "0 < length (g_nodes g)" and "length (g_nodes g) \<le> max_nodes_per_graph"
    and "g_entry g \<in> set (node_ids g)" and "target_known g (g_resume g)" and "target_known g (g_error_handler g)"
    and "edge_fault g = None"
  using assms by (auto simp: validate_at.simps split: if_splits sum.splits option.splits prod.splits)

lemma validate_zero: "validate_at 0 g v \<noteq> Inr v'"
  by (simp add: validate_at.simps)

text \<open>An accepted graph entered its nodes one after the other.\<close>

lemma validate_entered:
  assumes "search_all (flow_walk val g) (search_ids g) entry v = Inr (reached, vis, v')"
  shows "distinct vis \<and> set vis = set (search_ids g) \<and>
    enter_all (\<lambda>i. enter_node val (the (g_node g i))) vis v = Inr v'"
proof -
  have "enter_all (wk_enter (flow_walk val g)) xs u = enter_all (\<lambda>i. enter_node val (the (g_node g i))) xs u"
    if "set xs \<subseteq> set (search_ids g)" for xs u
    using that
  proof (induction xs arbitrary: u)
    case (Cons i xs)
    then obtain n where "g_node g i = Some n" using search_ids_node by auto
    then show ?case using Cons by (auto simp: flow_walk_def split: sum.splits)
  qed simp
  then show ?thesis using search_all_enters [OF assms] by (metis order_refl)
qed

lemma charges_validate: "charges (int (total_nodes l g)) (validate_at l g)"
proof (induction l arbitrary: g)
  case 0
  then show ?case by (simp add: charges_def validate_zero)
next
  case (Suc l)
  let ?c = "\<lambda>i. int (sum_list (map (total_nodes l) (nested (the (g_node g i)))))"
  have enter: "charges (?c i) (enter_node (validate_at l) (the (g_node g i)))" for i
  proof -
    have "charges (sum_list (map (\<lambda>sg. int (total_nodes l sg)) (nested (the (g_node g i)))))
        (validate_each (validate_at l) (nested (the (g_node g i))))"
      by (intro charges_each Suc.IH)
    then have "charges (?c i) (validate_each (validate_at l) (nested (the (g_node g i))))"
      by (simp add: int_sum_list o_def)
    then show ?thesis by (rule charges_cong [rotated]) (rule enter_node_each)
  qed
  show ?case
    unfolding charges_def
  proof (intro allI impI, elim conjE)
    fix v v' b
    assume "validate_at (Suc l) g v = Inr v'" and b: "vs_budget v = Some b" "budget_used b \<le> budget_limit b"
    then obtain v1 v2 reached vis where c: "charge_budget (max_subflow_depth - l) (length (g_nodes g)) v = Inr v1"
      and s: "search_all (flow_walk (validate_at l) g) (search_ids g) (g_entry g) v1 = Inr (reached, vis, v2)"
      and v': "v' = warn_unreachable g reached v2" by (elim validate_parts)
    note vis = validate_entered [OF s]
    have "sum_list (map ?c vis) = sum_list (map ?c (remdups (search_ids g)))"
      using vis by (simp only: sum_list_distinct_conv_sum_set distinct_remdups set_remdups)
    then have "charges (sum_list (map ?c (remdups (search_ids g)))) (enter_all (\<lambda>i. enter_node (validate_at l) (the (g_node g i))) vis)"
      using charges_enter_all [of vis ?c "\<lambda>i. enter_node (validate_at l) (the (g_node g i))"] enter by metis
    note both = charges_seq [OF charges_budget [of "length (g_nodes g)" "max_subflow_depth - l"] this]
    have "(case charge_budget (max_subflow_depth - l) (length (g_nodes g)) v of Inl x \<Rightarrow> Inl x
        | Inr v1 \<Rightarrow> enter_all (\<lambda>i. enter_node (validate_at l) (the (g_node g i))) vis v1) = Inr v2" using c vis by simp
    with both b obtain b' where "vs_budget v2 = Some b'" "budget_limit b' = budget_limit b" "budget_used b' \<le> budget_limit b"
      "budget_used b' = budget_used b + (int (length (g_nodes g)) + sum_list (map ?c (remdups (search_ids g))))"
      unfolding charges_def by blast
    then show "\<exists>b'. vs_budget v' = Some b' \<and> budget_used b' = budget_used b + int (total_nodes (Suc l) g)
        \<and> budget_limit b' = budget_limit b \<and> budget_used b' \<le> budget_limit b"
      using v' by (simp add: warn_unreachable_def int_sum_list o_def)
  qed
qed

text \<open>A budget the validator opens is one with nothing charged yet.\<close>

definition fresh_budget :: "(string, int) odict" where
  "fresh_budget = [(''current_total_nodes'', 0), (''total_nodes'', 0), (''max_total_task_nodes'', max_total_task_nodes)]"

lemma validate_opens:
  assumes "vs_budget v = None"
  shows "validate_at max_subflow_depth g v = validate_at max_subflow_depth g (v\<lparr>vs_budget := Some fresh_budget\<rparr>)"
proof -
  have d: "max_subflow_depth = Suc 2" by (simp add: max_subflow_depth_def)
  have "charge_budget 1 n v = charge_budget 1 n (v\<lparr>vs_budget := Some fresh_budget\<rparr>)" for n
    using assms by (simp add: charge_budget_def fresh_budget_def budget_used_def budget_limit_def look_def Let_def)
  then show ?thesis unfolding validate_at.simps [of max_subflow_depth] by (simp add: d)
qed

section \<open>Acceptance implies the specification\<close>

lemma edge_fault_known:
  "edge_fault g = None \<longleftrightarrow> (\<forall>(i, n) \<in> set (g_nodes g). \<forall>(f, t) \<in> set (node_targets n). target_known g t)"
  by (fastforce simp: edge_fault_def find_None_iff)

lemma enter_all_each: "enter_all f xs v = Inr v' \<Longrightarrow> x \<in> set xs \<Longrightarrow> \<exists>u u'. f x u = Inr u'"
  by (induction xs arbitrary: v) (auto split: sum.splits)

lemma validate_each_each: "validate_each val gs v = Inr v' \<Longrightarrow> g \<in> set gs \<Longrightarrow> \<exists>u u'. val g u = Inr u'"
  by (induction gs arbitrary: v) (auto split: sum.splits)

lemma enter_node_size: "enter_node val n v = Inr v' \<Longrightarrow> length (nested n) \<le> max 1 max_parallel_branches"
  by (auto simp: enter_node_def nested_def split: node_kind.splits option.splits if_splits)

lemma validate_ok: "validate_at l g v = Inr v' \<Longrightarrow> graph_ok l g"
proof (induction l arbitrary: g v v')
  case (Suc l)
  from Suc.prems obtain v1 v2 reached vis where s: "search_all (flow_walk (validate_at l) g) (search_ids g) (g_entry g) v1 = Inr (reached, vis, v2)"
    and parts: "0 < length (g_nodes g)" "length (g_nodes g) \<le> max_nodes_per_graph" "g_entry g \<in> set (node_ids g)"
      "target_known g (g_resume g)" "target_known g (g_error_handler g)" "edge_fault g = None"
    by (elim validate_parts)
  note vis = validate_entered [OF s]
  have "acyclic (strict_edges g)" using flow_search.search_all_sound [OF s] by (simp add: flow_search_plain)
  moreover have "length (nested n) \<le> max 1 max_parallel_branches \<and> (\<forall>sg \<in> set (nested n). graph_ok l sg)"
    if i: "i \<in> set (search_ids g)" and n: "n = the (g_node g i)" for i n
  proof -
    have "i \<in> set vis" using vis i by blast
    then obtain u u' where u: "enter_node (validate_at l) n u = Inr u'"
      using enter_all_each [OF conjunct2 [OF conjunct2 [OF vis]]] n by blast
    have "graph_ok l sg" if "sg \<in> set (nested n)" for sg
      using validate_each_each [OF enter_node_each [OF u] that] Suc.IH by blast
    then show ?thesis using enter_node_size [OF u] by blast
  qed
  moreover have "targets_known g" using parts(4-6) unfolding targets_known_def edge_fault_known by simp
  ultimately show ?case using parts(1-3) unfolding graph_ok.simps Let_def by simp
qed (simp add: validate_zero)

lemma validate_accepts_ok: "validate_graph g v = Inr v' \<Longrightarrow> graph_ok max_subflow_depth g"
  using validate_ok [of max_subflow_depth g] by (auto simp: validate_graph_def split: sum.splits)

lemma graph_ok_strict: "graph_ok (Suc l) g \<Longrightarrow> acyclic (strict_edges g)"
  by simp

section \<open>Graphs without nested graphs\<close>

text \<open>The ids a walk from the entry reaches.\<close>

definition reachable_ids :: "graph \<Rightarrow> string set" where
  "reachable_ids g = (flow_edges g)\<^sup>* `` ({g_entry g} \<inter> set (search_ids g))"

definition flat :: "graph \<Rightarrow> bool" where
  "flat g \<longleftrightarrow> list_all (\<lambda>i. nested (the (g_node g i)) = []) (search_ids g)"

lemma enter_flat: "nested n = [] \<Longrightarrow> enter_node val n v = Inr v"
  by (auto simp: enter_node_def nested_def split: node_kind.splits option.splits)

lemma flat_enters: "flat g \<Longrightarrow> i \<in> set (search_ids g) \<Longrightarrow> wk_enter (flow_walk val g) i v = Inr v"
  using search_ids_node [of i g] by (auto simp: flat_def flow_walk_def list_all_iff enter_flat)

lemma flat_entered:
  "flat g \<Longrightarrow> set xs \<subseteq> set (search_ids g) \<Longrightarrow> enter_all (wk_enter (flow_walk val g)) xs v = Inr v"
  by (induction xs arbitrary: v) (auto simp: flat_enters)

lemma search_all_reached:
  assumes "search_all (flow_walk val g) (search_ids g) (g_entry g) v = Inr (reached, vis, v')"
  shows "set reached = reachable_ids g"
proof -
  obtain s where "search (flow_walk val g) (length (search_ids g)) [] [g_entry g] ([], v) = Inr s" "reached = fst s"
    using assms by (auto simp: search_all_def split: sum.splits)
  then show ?thesis using flow_search.search_start_reached by (simp add: reachable_ids_def flow_search_edges)
qed

lemma strict_all: "list_all (\<lambda>i. \<not> may_repeat g i) (search_ids g) \<Longrightarrow> strict_edges g = flow_edges g"
  by (auto simp: strict_edges_def flow_edges_def list_all_iff)

lemma flat_search:
  assumes "flat g" and "acyclic (flow_edges g)"
  shows "\<exists>reached vis. search_all (flow_walk val g) (search_ids g) (g_entry g) v = Inr (reached, vis, v)"
proof -
  have "\<exists>r. search_all (flow_walk val g) (search_ids g) (g_entry g) v = Inr r"
    using assms flat_enters [OF assms(1)] by (intro flow_search.search_all_accepts) (auto simp: flow_search_edges)
  then obtain reached vis v' where r: "search_all (flow_walk val g) (search_ids g) (g_entry g) v = Inr (reached, vis, v')"
    by (metis prod_cases3)
  have "v' = v" using search_all_enters [OF r] flat_entered [OF assms(1)] by (metis Inr_inject order_refl)
  with r show ?thesis by blast
qed

text \<open>The warnings name the ids that are not reachable, in their order.\<close>

definition unreachable_warnings :: "graph \<Rightarrow> string list" where
  "unreachable_warnings g = map (\<lambda>i. i @ '' unreachable from '' @ g_entry g)
     (sort (filter (\<lambda>i. i \<notin> reachable_ids g) (node_ids g)))"

lemma warn_unreachable_reached:
  "set reached = reachable_ids g \<Longrightarrow>
   warn_unreachable g reached v = v\<lparr>vs_warnings := map_option (\<lambda>ws. ws @ unreachable_warnings g) (vs_warnings v)\<rparr>"
  by (simp add: warn_unreachable_def unreachable_warnings_def)

text \<open>What a walk may check before it searches for cycles.\<close>

definition shape_ok :: "graph \<Rightarrow> bool" where
  "shape_ok g \<longleftrightarrow> g_nodes g \<noteq> [] \<and> length (g_nodes g) \<le> max_nodes_per_graph \<and> g_entry g \<in> set (node_ids g)
     \<and> target_known g (g_resume g) \<and> target_known g (g_error_handler g) \<and> edge_fault g = None"

lemma validate_shape:
  "validate_at (Suc l) g v = Inr v' \<longleftrightarrow> shape_ok g \<and>
     (\<exists>v1 reached vis v2. charge_budget (max_subflow_depth - l) (length (g_nodes g)) v = Inr v1
       \<and> search_all (flow_walk (validate_at l) g) (search_ids g) (g_entry g) v1 = Inr (reached, vis, v2)
       \<and> v' = warn_unreachable g reached v2)"
  by (auto simp: validate_at.simps shape_ok_def split: if_splits sum.splits option.splits prod.splits)

lemma charge_warnings: "charge_budget depth n v = Inr v1 \<Longrightarrow> vs_warnings v1 = vs_warnings v"
  by (auto simp: charge_budget_def Let_def split: option.splits if_splits)

lemma flat_warnings:
  assumes "flat g" and "validate_graph g v = Inr v'"
  shows "vs_warnings v' = map_option (\<lambda>ws. ws @ unreachable_warnings g) (vs_warnings v)"
proof -
  obtain w where w: "validate_at (Suc 2) g v = Inr w" "vs_warnings v' = vs_warnings w"
    using assms(2) by (auto simp: validate_graph_def max_subflow_depth_def split: sum.splits)
  obtain v1 reached vis v2 where c: "charge_budget (max_subflow_depth - 2) (length (g_nodes g)) v = Inr v1"
    and r: "search_all (flow_walk (validate_at 2) g) (search_ids g) (g_entry g) v1 = Inr (reached, vis, v2)"
    and e: "w = warn_unreachable g reached v2" using w(1) unfolding validate_shape by blast
  have "v2 = v1" using search_all_enters [OF r] flat_entered [OF assms(1)] by (metis Inr_inject order_refl)
  then show ?thesis using w(2) e charge_warnings [OF c] warn_unreachable_reached [OF search_all_reached [OF r]] by simp
qed

lemma charge_first:
  assumes "length n \<le> max_nodes_per_graph" and "vs_budget v = None"
  shows "\<exists>b. charge_budget 1 (length n) v = Inr (v\<lparr>vs_budget := Some b\<rparr>)"
  using assms by (auto simp: charge_budget_def max_nodes_per_graph_def max_total_task_nodes_def)

lemma validate_flat:
  assumes "flat g" and "list_all (\<lambda>i. \<not> may_repeat g i) (search_ids g)" and "vs_budget v = None"
  shows "validate_graph g v = Inr v' \<longleftrightarrow> shape_ok g \<and> acyclic (flow_edges g)
    \<and> v' = v\<lparr>vs_warnings := map_option (\<lambda>ws. ws @ unreachable_warnings g) (vs_warnings v)\<rparr>"
proof -
  have d: "max_subflow_depth = Suc 2" "max_subflow_depth - 2 = 1" by (simp_all add: max_subflow_depth_def)
  let ?fin = "\<lambda>v. v\<lparr>vs_warnings := map_option (\<lambda>ws. ws @ unreachable_warnings g) (vs_warnings v)\<rparr>"
  have search: "(\<exists>reached vis v2. search_all (flow_walk (validate_at 2) g) (search_ids g) (g_entry g) u = Inr (reached, vis, v2)
      \<and> w = warn_unreachable g reached v2) \<longleftrightarrow> acyclic (flow_edges g) \<and> w = ?fin u" for u w
  proof
    assume "\<exists>reached vis v2. search_all (flow_walk (validate_at 2) g) (search_ids g) (g_entry g) u = Inr (reached, vis, v2)
      \<and> w = warn_unreachable g reached v2"
    then obtain reached vis v2 where r: "search_all (flow_walk (validate_at 2) g) (search_ids g) (g_entry g) u = Inr (reached, vis, v2)"
      and w: "w = warn_unreachable g reached v2" by blast
    have ac: "acyclic (flow_edges g)"
      using flow_search.search_all_sound [OF r] by (simp add: flow_search_plain strict_all [OF assms(2)])
    then obtain r' v' where "search_all (flow_walk (validate_at 2) g) (search_ids g) (g_entry g) u = Inr (r', v', u)"
      using flat_search [OF assms(1)] by blast
    then have "v2 = u" using r by simp
    then show "acyclic (flow_edges g) \<and> w = ?fin u" using ac w warn_unreachable_reached [OF search_all_reached [OF r]] by simp
  next
    assume *: "acyclic (flow_edges g) \<and> w = ?fin u"
    then obtain reached vis where r: "search_all (flow_walk (validate_at 2) g) (search_ids g) (g_entry g) u = Inr (reached, vis, u)"
      using flat_search [OF assms(1)] by blast
    with * show "\<exists>reached vis v2. search_all (flow_walk (validate_at 2) g) (search_ids g) (g_entry g) u = Inr (reached, vis, v2)
      \<and> w = warn_unreachable g reached v2" using warn_unreachable_reached [OF search_all_reached [OF r]] by metis
  qed
  show ?thesis
  proof (cases "shape_ok g")
    case True
    then obtain b where b: "charge_budget 1 (length (g_nodes g)) v = Inr (v\<lparr>vs_budget := Some b\<rparr>)"
      using charge_first assms(3) by (auto simp: shape_ok_def)
    have "validate_at max_subflow_depth g v = Inr w \<longleftrightarrow> acyclic (flow_edges g) \<and> w = ?fin (v\<lparr>vs_budget := Some b\<rparr>)" for w
      unfolding d(1) validate_shape using True d b search by simp
    moreover have "(?fin (v\<lparr>vs_budget := Some b\<rparr>))\<lparr>vs_budget := None\<rparr> = ?fin v" using assms(3) by simp
    moreover have "validate_graph g v = Inr v' \<longleftrightarrow> (\<exists>w. validate_at max_subflow_depth g v = Inr w \<and> v' = w\<lparr>vs_budget := None\<rparr>)"
      using assms(3) by (auto simp: validate_graph_def split: sum.splits)
    ultimately show ?thesis using True by simp
  next
    case False
    then have "validate_at max_subflow_depth g v \<noteq> Inr w" for w unfolding d(1) validate_shape by simp
    then show ?thesis using False by (auto simp: validate_graph_def split: sum.splits)
  qed
qed

section \<open>Properties\<close>

text \<open>
  C12: What the validator accepts is well formed: within the limits on nodes, branches and
  nesting, with an entry and no target that does not exist, every cycle through a node that may
  be visited again, and the same for its nested graphs; all their nodes are charged to the budget
  of the task, once each, and fit into it.
\<close>

theorem validated_graph_ok:
  assumes "validate_graph g v = Inr v'"
  shows "graph_ok max_subflow_depth g \<and>
    (case vs_budget v of
       None \<Rightarrow> vs_budget v' = None \<and> int (total_nodes max_subflow_depth g) \<le> max_total_task_nodes
     | Some b \<Rightarrow> \<exists>b'. vs_budget v' = Some b' \<and> budget_used b' = budget_used b + int (total_nodes max_subflow_depth g)
         \<and> budget_limit b' = budget_limit b \<and> budget_used b' \<le> budget_limit b)"
proof -
  obtain v1 where v1: "validate_at max_subflow_depth g v = Inr v1" and v': "v' = (if vs_budget v = None then v1\<lparr>vs_budget := None\<rparr> else v1)"
    using assms by (auto simp: validate_graph_def split: sum.splits)
  show ?thesis
  proof (cases "vs_budget v")
    case None
    have "budget_used fresh_budget = 0" "budget_limit fresh_budget = max_total_task_nodes"
      by (simp_all add: fresh_budget_def budget_used_def budget_limit_def look_def)
    moreover have "(0 :: int) \<le> max_total_task_nodes" by (simp add: max_total_task_nodes_def)
    ultimately have "int (total_nodes max_subflow_depth g) \<le> max_total_task_nodes"
      using charges_validate [of max_subflow_depth g] v1 unfolding validate_opens [OF None] charges_def by fastforce
    then show ?thesis using validate_ok [OF v1] v' None by simp
  next
    case (Some b)
    have d: "max_subflow_depth = Suc 2" by (simp add: max_subflow_depth_def)
    from v1 [unfolded d] obtain w where "charge_budget (max_subflow_depth - 2) (length (g_nodes g)) v = Inr w"
      by (elim validate_parts)
    then have "budget_used b \<le> budget_limit b" using Some by (auto simp: charge_budget_def Let_def split: if_splits)
    then show ?thesis using charges_validate [of max_subflow_depth g] v1 Some v' validate_ok [OF v1]
      unfolding charges_def by simp
  qed
qed

definition sample_flow :: "(string \<times> string) list \<Rightarrow> graph" where
  "sample_flow es = default_graph ''a'' (map (\<lambda>(i, t). Node ((default_base i)\<lparr>nb_next := Some t\<rparr>) (Delay 1)) es)"

definition chain_flow :: graph where
  "chain_flow = sample_flow [(''a'', ''b''), (''b'', ''COMPLETE'')]"

definition loop_flow :: graph where
  "loop_flow = sample_flow [(''a'', ''b''), (''b'', ''a'')]"

lemma validated_graph_ok_witness: "graph_ok max_subflow_depth chain_flow"
proof -
  have "validate_graph chain_flow \<lparr>vs_budget = None, vs_warnings = None\<rparr> = Inr \<lparr>vs_budget = None, vs_warnings = None\<rparr>"
    by code_simp
  then show ?thesis using validated_graph_ok by blast
qed

lemma loop_free_iff:
  assumes "flat g" and "list_all (\<lambda>i. \<not> may_repeat g i) (search_ids g)"
  shows "validate_graph g \<lparr>vs_budget = None, vs_warnings = Some ws\<rparr> = Inr v' \<longleftrightarrow>
    g_nodes g \<noteq> [] \<and> length (g_nodes g) \<le> max_nodes_per_graph \<and> g_entry g \<in> set (node_ids g)
    \<and> targets_known g \<and> acyclic (flow_edges g)
    \<and> v' = \<lparr>vs_budget = None, vs_warnings = Some (ws @ unreachable_warnings g)\<rparr>"
  unfolding validate_flat [OF assms, of "\<lparr>vs_budget = None, vs_warnings = Some ws\<rparr>", simplified]
  by (auto simp: shape_ok_def targets_known_def edge_fault_known)

text \<open>
  Without nested graphs and without nodes that may be visited again, and with no budget given,
  the validator decides exactly the graphs it means to accept: those of the right size, with an
  entry, known targets and no cycle; and it warns of exactly the ids that no walk from the entry
  reaches.
\<close>

theorem loop_free_decided:
  assumes "flat g" and "list_all (\<lambda>i. \<not> may_repeat g i) (search_ids g)"
  shows "validate_graph g \<lparr>vs_budget = None, vs_warnings = Some ws\<rparr> = Inr v' \<longleftrightarrow>
    g_nodes g \<noteq> [] \<and> length (g_nodes g) \<le> max_nodes_per_graph \<and> g_entry g \<in> set (node_ids g)
    \<and> targets_known g \<and> acyclic (flow_edges g)
    \<and> v' = \<lparr>vs_budget = None, vs_warnings = Some (ws @ unreachable_warnings g)\<rparr>"
  using assms by (rule loop_free_iff)

lemma loop_free_decided_witness: "acyclic (flow_edges chain_flow) \<and> \<not> acyclic (flow_edges loop_flow)"
proof -
  let ?v = "\<lparr>vs_budget = None, vs_warnings = Some []\<rparr>"
  have 1: "flat chain_flow \<and> list_all (\<lambda>i. \<not> may_repeat chain_flow i) (search_ids chain_flow)
      \<and> validate_graph chain_flow ?v = Inr ?v" by code_simp
  have 2: "flat loop_flow \<and> list_all (\<lambda>i. \<not> may_repeat loop_flow i) (search_ids loop_flow)
      \<and> validate_graph loop_flow ?v = Inl (cycle_error [''a'', ''b''] ''a'') \<and> shape_ok loop_flow" by code_simp
  show ?thesis
    using loop_free_decided [of chain_flow "[]"] loop_free_decided [of loop_flow "[]"] 1 2
    by (auto simp: shape_ok_def targets_known_def edge_fault_known)
qed

end
