(* ===== verification/Flow_Valid_Runs.thy ===== *)
theory Flow_Valid_Runs
  imports Flow_Validate_Props Flow_Sample
begin

text \<open>
  The validator and the engine together: what a validated graph may rely on when it runs. The
  engine reads a target through \<^verbatim>\<open>_normalize_target\<close>, which takes words such as \<^verbatim>\<open>done\<close> for the
  ends of a flow and strips spaces, while the validator compares ids as they are; the lemmas are
  about graphs whose ids the engine reads as themselves (\<open>plain_ids\<close>).
\<close>

section \<open>Targets\<close>

definition plain_id :: "string \<Rightarrow> bool" where
  "plain_id i \<longleftrightarrow> i \<noteq> [] \<and> normalize_target (Some i) = i \<and> i \<notin> set sentinels"

text \<open>The keys are the ids of their nodes, and the engine reads them as they are.\<close>

definition plain_ids :: "graph \<Rightarrow> bool" where
  "plain_ids g \<longleftrightarrow> list_all (\<lambda>(i, n). plain_id i \<and> nd_id n = i) (g_nodes g)
     \<and> g_resume g \<notin> {Some ''COMPLETE'', Some ''FAIL''}"

lemma plain_node: "plain_ids g \<Longrightarrow> g_node g i = Some n \<Longrightarrow> plain_id i \<and> nd_id n = i"
  by (auto simp: plain_ids_def list_all_iff dest!: map_of_SomeD)

lemma plain_search: "plain_ids g \<Longrightarrow> i \<in> set (search_ids g) \<longleftrightarrow> (\<exists>n. g_node g i = Some n)"
  using plain_node by (auto simp: search_ids_node plain_id_def)

lemma normalize_sentinel: "t \<in> set sentinels \<Longrightarrow> normalize_target (Some t) \<in> {terminal_complete, terminal_fail}"
proof -
  have "list_all (\<lambda>t. normalize_target (Some t) \<in> {terminal_complete, terminal_fail}) sentinels" by code_simp
  then show "t \<in> set sentinels \<Longrightarrow> normalize_target (Some t) \<in> {terminal_complete, terminal_fail}" by (simp add: list_all_iff)
qed

text \<open>A known target ends the flow or is a node.\<close>

lemma normalize_known:
  assumes "plain_ids g" and "target_known g t"
  shows "normalize_target t \<in> {terminal_complete, terminal_fail} \<or>
    truthy_str t \<and> normalize_target t = the t \<and> the t \<in> set (search_ids g)"
proof (cases "truthy_str t")
  case False
  then show ?thesis by (simp add: normalize_target_def)
next
  case True
  then obtain s where s: "t = Some s" by (auto simp: truthy_str_def)
  show ?thesis
  proof (cases "s \<in> set sentinels")
    case True
    then show ?thesis using normalize_sentinel s by blast
  next
    case False
    then obtain n where "g_node g s = Some n" using assms(2) True s by (auto simp: target_known_def node_ids_node)
    then show ?thesis using plain_node [OF assms(1)] plain_search [OF assms(1)] True s by (auto simp: plain_id_def)
  qed
qed

lemma rest_ends [simp]: "at_rest (Some terminal_complete)" "at_rest (Some terminal_fail)"
  by (simp_all add: at_rest_def)

lemma normalize_rest: "normalize_target t \<in> {terminal_complete, terminal_fail} \<Longrightarrow> at_rest (Some (normalize_target t))"
  by (auto simp: at_rest_def)

text \<open>Where the bookkeeping after an outcome may go.\<close>

lemma onward_target:
  assumes "Onward st1 = progress_of env g nd so st"
  obtains t where "rs_current st1 = Some (normalize_target t)"
    and "so_signal so = Branch \<and> t = so_target so \<or> t \<in> snd ` set (node_targets nd)
      \<or> t \<in> {Some terminal_complete, Some terminal_fail} \<or> t = g_error_handler g \<and> truthy_str t"
proof -
  have own: "nb_next (nd_base nd) \<in> snd ` set (node_targets nd)" "nb_on_failure (nd_base nd) \<in> snd ` set (node_targets nd)"
    "nb_terminal_target (nd_base nd) \<in> snd ` set (node_targets nd)" by (simp_all add: node_targets_def)
  have "Onward st1 = advance g nd so (count_failure so (note_failure env so st))"
    using assms by (auto simp: progress_of_def Let_def end_at_def split: if_splits)
  then show thesis using that own by (auto simp: advance_def Let_def go_to_def end_at_def str_or_def split: if_splits)
qed

section \<open>A validated run stays inside its graph\<close>

definition branch_known :: "graph \<Rightarrow> step_outcome \<Rightarrow> bool" where
  "branch_known g so \<longleftrightarrow> (so_signal so = Branch \<longrightarrow>
     normalize_target (so_target so) \<in> {terminal_complete, terminal_fail} \<union> set (node_ids g))"

definition at_home :: "graph \<Rightarrow> string option \<Rightarrow> bool" where
  "at_home g i \<longleftrightarrow> at_rest i \<or> (\<exists>nd. g_node g (the i) = Some nd)"

lemma known_home:
  assumes "plain_ids g" and "target_known g t"
  shows "at_home g (Some (normalize_target t))"
  using normalize_known [OF assms] normalize_rest [of t] plain_search [OF assms(1)] by (auto simp: at_home_def)

lemma targets_known_node:
  "targets_known g \<Longrightarrow> g_node g i = Some nd \<Longrightarrow> t \<in> snd ` set (node_targets nd) \<Longrightarrow> target_known g t"
  unfolding targets_known_def by (fastforce dest!: map_of_SomeD)

lemma sentinel_known: "t \<in> {Some terminal_complete, Some terminal_fail} \<Longrightarrow> target_known g t"
  by (auto simp: target_known_def sentinels_def)

lemma start_home:
  assumes "plain_ids g" and "targets_known g" and "g_entry g \<in> set (node_ids g)"
  shows "at_home g (rs_current (start_state g))"
proof (cases "truthy_str (g_resume g)")
  case True
  then obtain s where s: "g_resume g = Some s" by (auto simp: truthy_str_def)
  then have "at_rest (g_resume g) \<or> (\<exists>nd. g_node g s = Some nd)"
    using assms(1,2) True unfolding targets_known_def target_known_def
    by (auto simp: plain_ids_def sentinels_def at_rest_def node_ids_node)
  then show ?thesis using True s by (simp add: at_home_def start_state_def str_or_def)
qed (use assms(3) in \<open>auto simp: at_home_def start_state_def str_or_def node_ids_node\<close>)

text \<open>
  C13: A graph the validator accepted, with ids the engine reads as they are, never sends a run to
  a node that does not exist: in every state a run reaches, it is at its end or its current id
  names a node, provided the branch targets the nodes asked for exist.
\<close>

theorem run_stays_inside:
  assumes "validate_graph g v = Inr v'" and "plain_ids g" and "history_kept env"
    and "reaches env run g (start_state g) c0 w0 st c w"
    and "list_all (branch_known g) (drop (length (fc_history c0)) (fc_history c))"
  shows "at_rest (rs_current st) \<or> (\<exists>nd. g_node g (the (rs_current st)) = Some nd)"
proof -
  have ok: "targets_known g" "g_entry g \<in> set (node_ids g)"
    using validate_accepts_ok [OF assms(1)] by (simp_all add: max_subflow_depth_def numeral_3_eq_3)
  have "\<exists>hs. fc_history c = fc_history c0 @ hs \<and> (list_all (branch_known g) hs \<longrightarrow> at_home g (rs_current st))"
    using assms(4)
  proof (induction rule: reaches.induct)
    case start
    then show ?case using start_home [OF assms(2) ok] by (intro exI [of _ "[]"]) simp
  next
    case (visit st c w nd st1 c1 w1)
    then obtain hs where hs: "fc_history c = fc_history c0 @ hs" by blast
    from visit.hyps(4) obtain so where so: "Onward st1 = progress_of (fe_py env) g nd so (entered nd st)"
      "fc_history c1 = fc_history c @ [so]" using assms(3) by (auto elim: visit_progress)
    from so(1) obtain t where t: "rs_current st1 = Some (normalize_target t)"
      "so_signal so = Branch \<and> t = so_target so \<or> t \<in> snd ` set (node_targets nd)
      \<or> t \<in> {Some terminal_complete, Some terminal_fail} \<or> t = g_error_handler g \<and> truthy_str t" by (rule onward_target)
    have "at_home g (rs_current st1)" if b: "branch_known g so"
      using t(2)
    proof (elim disjE)
      assume "so_signal so = Branch \<and> t = so_target so"
      then show ?thesis using b t(1) by (auto simp: branch_known_def at_home_def at_rest_def node_ids_node)
    next
      assume "t \<in> snd ` set (node_targets nd)"
      then show ?thesis using known_home [OF assms(2) targets_known_node [OF ok(1) visit.hyps(3)]] t(1) by simp
    next
      assume "t \<in> {Some terminal_complete, Some terminal_fail}"
      then show ?thesis using known_home [OF assms(2) sentinel_known] t(1) by simp
    next
      assume "t = g_error_handler g \<and> truthy_str t"
      then show ?thesis using known_home [OF assms(2)] ok(1) t(1) by (simp add: targets_known_def)
    qed
    then show ?case using hs so(2) by (intro exI [of _ "hs @ [so]"]) simp
  qed
  then show ?thesis using assms(5) by (auto simp: at_home_def)
qed

text \<open>The first step of the run of \<open>fallback_graph\<close>, whose first node fails.\<close>

definition first_visit :: "run_state \<times> flow_ctx" where
  "first_visit = (case visit_node (plain_env fail_a) (flow_run (plain_env fail_a)) fallback_graph
       (the (g_node fallback_graph ''a'')) (start_state fallback_graph) (ctx_new [] []) () of
     (Inr p, c1, w1) \<Rightarrow> (progress_state p, c1) | (Inl x, c1, w1) \<Rightarrow> (start_state fallback_graph, c1))"

lemma first_visit_reached:
  "reaches (plain_env fail_a) (flow_run (plain_env fail_a)) fallback_graph (start_state fallback_graph) (ctx_new [] []) ()
     (fst first_visit) (snd first_visit) ()
   \<and> validate_graph fallback_graph \<lparr>vs_budget = None, vs_warnings = None\<rparr> = Inr \<lparr>vs_budget = None, vs_warnings = None\<rparr>
   \<and> plain_ids fallback_graph \<and> rs_current (fst first_visit) = Some ''b''
   \<and> list_all (branch_known fallback_graph) (drop (length (fc_history (ctx_new [] []))) (fc_history (snd first_visit)))"
proof -
  let ?v = "visit_node (plain_env fail_a) (flow_run (plain_env fail_a)) fallback_graph
       (the (g_node fallback_graph ''a'')) (start_state fallback_graph) (ctx_new [] []) ()"
  have 1: "(case ?v of (Inr (Onward st), c1, w1) \<Rightarrow> rs_current st = Some ''b'' \<and> list_all (branch_known fallback_graph) (drop (length (fc_history (ctx_new [] []))) (fc_history c1))
      | _ \<Rightarrow> False) \<and> \<not> at_rest (rs_current (start_state fallback_graph)) \<and> rs_current (start_state fallback_graph) = Some ''a''
      \<and> validate_graph fallback_graph \<lparr>vs_budget = None, vs_warnings = None\<rparr> = Inr \<lparr>vs_budget = None, vs_warnings = None\<rparr>
      \<and> plain_ids fallback_graph \<and> \<not> Option.is_none (g_node fallback_graph ''a'')" by code_simp
  then obtain st c1 where v: "?v = (Inr (Onward st), c1, ())" by (auto split: prod.splits sum.splits progress.splits)
  have "reaches (plain_env fail_a) (flow_run (plain_env fail_a)) fallback_graph (start_state fallback_graph) (ctx_new [] []) () st c1 ()"
    by (rule reaches.visit [OF reaches.start _ _ v]) (use 1 in \<open>auto simp: Option.is_none_def\<close>)
  then show ?thesis using 1 v by (simp add: first_visit_def)
qed

lemma run_stays_inside_witness: "\<exists>nd. g_node fallback_graph (the (rs_current (fst first_visit))) = Some nd"
  using run_stays_inside [of fallback_graph _ _ "plain_env fail_a"] first_visit_reached plain_history
  by (fastforce simp: at_rest_def terminal_complete_def terminal_fail_def truthy_str_def)

section \<open>A validated run without loops never meets the loop guard\<close>

text \<open>The target an outcome of a node asks for is one of its own.\<close>

definition branch_follows :: "graph \<Rightarrow> string \<Rightarrow> step_outcome \<Rightarrow> bool" where
  "branch_follows g i so \<longleftrightarrow> (so_signal so = Branch \<longrightarrow>
     normalize_target (so_target so) \<in> {terminal_complete, terminal_fail}
     \<or> (case g_node g i of None \<Rightarrow> False | Some n \<Rightarrow>
          normalize_target (so_target so) \<in> set (map (\<lambda>(f, t). normalize_target t) (node_targets n))))"

definition history_follows :: "graph \<Rightarrow> string list \<Rightarrow> step_outcome list \<Rightarrow> bool" where
  "history_follows g path hs \<longleftrightarrow> list_all (\<lambda>(i, so). branch_follows g i so) (zip path hs)"

lemma history_follows_append:
  "length path = length hs \<Longrightarrow> history_follows g (path @ [i]) (hs @ [so]) \<longleftrightarrow> history_follows g path hs \<and> branch_follows g i so"
  by (simp add: history_follows_def)

text \<open>A path of distinct nodes, each leading to the next and the last to the current id.\<close>

definition on_path :: "graph \<Rightarrow> run_state \<Rightarrow> bool" where
  "on_path g st \<longleftrightarrow> distinct (rs_path st) \<and> set (rs_path st) \<subseteq> set (search_ids g) \<and> rs_steps st = length (rs_path st)
     \<and> (\<forall>i. i \<notin> set (rs_path st) \<longrightarrow> look (rs_visits st) i 0 = 0)
     \<and> (at_rest (rs_current st) \<or> the (rs_current st) \<in> set (search_ids g)
          \<and> (\<forall>i \<in> set (rs_path st). (i, the (rs_current st)) \<in> (flow_edges g)\<^sup>+))"

lemma visits_end: "rs_visits (progress_state (end_at i st)) = rs_visits st" "rs_visits (progress_state (go_to t st)) = rs_visits st"
  by (simp_all add: end_at_def go_to_def)

lemma visits_advance: "rs_visits (progress_state (advance g nd so st)) \<in> {rs_visits st, []}"
  by (simp add: advance_def Let_def visits_end)

lemma visits_of_progress: "rs_visits (progress_state (progress_of env g nd so st)) \<in> {rs_visits st, []}"
proof -
  have c: "rs_visits (count_failure so st) = rs_visits st" for st by (simp add: count_failure_def)
  show ?thesis using visits_advance [of g nd so "count_failure so (note_failure env so st)"]
    by (simp add: progress_of_def Let_def visits_end c note_failure_fields)
qed

text \<open>Where a node leads is one of its edges, or the end.\<close>

lemma edge_taken:
  assumes "plain_ids g" and "targets_known g" and "g_node g i = Some nd" and "\<not> truthy_str (g_error_handler g)"
    and "Onward st1 = progress_of env g nd so st" and "branch_follows g i so"
  shows "at_rest (rs_current st1) \<or> (i, the (rs_current st1)) \<in> flow_edges g"
proof -
  from assms(5) obtain t where t: "rs_current st1 = Some (normalize_target t)"
    "so_signal so = Branch \<and> t = so_target so \<or> t \<in> snd ` set (node_targets nd)
      \<or> t \<in> {Some terminal_complete, Some terminal_fail} \<or> t = g_error_handler g \<and> truthy_str t" by (rule onward_target)
  have own: "at_rest (Some (normalize_target u)) \<or> (i, normalize_target u) \<in> flow_edges g" if u: "u \<in> snd ` set (node_targets nd)" for u
    using normalize_known [OF assms(1) targets_known_node [OF assms(2,3) u]]
  proof
    assume t: "truthy_str u \<and> normalize_target u = the u \<and> the u \<in> set (search_ids g)"
    then have "u \<in> set (filter truthy_str (map snd (node_targets nd)))" using u by simp
    then have "the u \<in> set (neighbors nd)" unfolding neighbors_def set_map by (rule imageI)
    moreover have "i \<in> set (search_ids g)" using plain_search [OF assms(1)] assms(3) by blast
    ultimately show ?thesis using t assms(3) by (simp add: flow_edges_def)
  qed (use normalize_rest in blast)
  from t(2) show ?thesis
  proof (elim disjE)
    assume "so_signal so = Branch \<and> t = so_target so"
    then have "normalize_target t \<in> {terminal_complete, terminal_fail}
        \<or> normalize_target t \<in> normalize_target ` (snd ` set (node_targets nd))"
      using assms(3,6) by (force simp: branch_follows_def)
    then show ?thesis using own normalize_rest [of t] t(1) by fastforce
  next
    assume "t \<in> snd ` set (node_targets nd)"
    then show ?thesis using own t(1) by simp
  qed (use t(1) assms(4) in auto)
qed

lemma on_path_step:
  assumes "plain_ids g" and "targets_known g" and "\<not> truthy_str (g_error_handler g)" and "acyclic (flow_edges g)"
    and "on_path g st" and "\<not> at_rest (rs_current st)" and nd: "g_node g (the (rs_current st)) = Some nd"
    and p: "Onward st1 = progress_of env g nd so (entered nd st)" and "branch_follows g (nd_id nd) so"
  shows "on_path g st1"
proof -
  define i where "i = the (rs_current st)"
  have i: "nd_id nd = i" "g_node g i = Some nd" "i \<in> set (search_ids g)"
    using plain_node [OF assms(1) nd] nd plain_search [OF assms(1)] by (auto simp: i_def)
  have before: "\<forall>j \<in> set (rs_path st). (j, i) \<in> (flow_edges g)\<^sup>+" using assms(5,6) by (simp add: on_path_def i_def)
  then have new: "i \<notin> set (rs_path st)" using assms(4) by (auto simp: acyclic_def)
  have fields: "rs_path st1 = rs_path st @ [i]" "rs_steps st1 = Suc (rs_steps st)"
    using progress_fields [of env g nd so "entered nd st"] p i(1) by (metis entered_fields(1,2) progress_state.simps(1))+
  have "rs_visits st1 = [] \<or> rs_visits st1 = AList.update i (Suc (look (rs_visits st) i 0)) (rs_visits st)"
    using visits_of_progress [of env g nd so "entered nd st"] i(1) unfolding p [symmetric] by (auto simp: entered_def)
  then have "look (rs_visits st1) j 0 = 0" if "j \<notin> set (rs_path st)" "j \<noteq> i" for j
    using that assms(5) by (auto simp: on_path_def)
  moreover have "at_rest (rs_current st1) \<or> (i, the (rs_current st1)) \<in> flow_edges g"
    using edge_taken [OF assms(1,2) i(2) assms(3) p] assms(9) i(1) by simp
  then have "at_rest (rs_current st1) \<or> the (rs_current st1) \<in> set (search_ids g)
      \<and> (\<forall>j \<in> set (rs_path st @ [i]). (j, the (rs_current st1)) \<in> (flow_edges g)\<^sup>+)"
    using before by (auto simp: flow_edges_def intro: trancl_into_trancl)
  ultimately show ?thesis using assms(5) new i(3) fields by (simp add: on_path_def)
qed

text \<open>In an open state the current node is new: it exists, steps are left, and the guard lets it pass.\<close>

lemma on_path_open:
  assumes "plain_ids g" and "acyclic (flow_edges g)" and "on_path g st" and "\<not> at_rest (rs_current st)"
  obtains nd where "g_node g (the (rs_current st)) = Some nd" and "rs_steps st < length (g_nodes g)"
    and "look (rs_visits st) (nd_id nd) 0 = 0"
proof -
  let ?i = "the (rs_current st)"
  have i: "?i \<in> set (search_ids g)" and new: "?i \<notin> set (rs_path st)"
    using assms by (auto simp: on_path_def acyclic_def)
  then obtain nd where nd: "g_node g ?i = Some nd" using plain_search [OF assms(1)] by blast
  have "card (set (rs_path st @ [?i])) \<le> card (set (search_ids g))"
    using assms(3) i by (intro card_mono) (auto simp: on_path_def)
  moreover have "card (set (search_ids g)) \<le> length (search_ids g)" by (rule card_length)
  moreover have "length (search_ids g) \<le> length (g_nodes g)"
    unfolding search_ids_def node_ids_def by (metis length_filter_le length_map)
  moreover have "card (set (rs_path st @ [?i])) = Suc (length (rs_path st))"
    using assms(3) new by (subst distinct_card) (auto simp: on_path_def)
  ultimately have "rs_steps st < length (g_nodes g)" using assms(3) by (simp add: on_path_def)
  moreover have "look (rs_visits st) (nd_id nd) 0 = 0"
    using assms(3) new plain_node [OF assms(1) nd] by (simp add: on_path_def)
  ultimately show thesis using that nd by blast
qed

lemma reaches_on_path:
  assumes "plain_ids g" and "graph_ok max_subflow_depth g" and "list_all (\<lambda>i. \<not> may_repeat g i) (search_ids g)"
    and "\<not> truthy_str (g_error_handler g)" and "history_kept env" and "reaches env run g (start_state g) c0 w0 st c w"
  shows "\<exists>hs. fc_history c = fc_history c0 @ hs \<and> length (rs_path st) = length hs
    \<and> (history_follows g (rs_path st) hs \<longrightarrow> on_path g st)"
  using assms(6)
proof (induction rule: reaches.induct)
  case start
  have known: "targets_known g" "g_entry g \<in> set (node_ids g)"
    using assms(2) by (simp_all add: max_subflow_depth_def numeral_3_eq_3)
  have "at_rest (rs_current (start_state g)) \<or> the (rs_current (start_state g)) \<in> set (search_ids g)"
    using start_home [OF assms(1) known] plain_search [OF assms(1)] by (auto simp: at_home_def)
  then show ?case by (intro exI [of _ "[]"]) (auto simp: on_path_def start_state_def)
next
  case (visit st c w nd st1 c1 w1)
  then obtain hs where hs: "fc_history c = fc_history c0 @ hs" "length (rs_path st) = length hs"
    "history_follows g (rs_path st) hs \<longrightarrow> on_path g st" by blast
  from visit.hyps(4) obtain so where so: "Onward st1 = progress_of (fe_py env) g nd so (entered nd st)"
    "fc_history c1 = fc_history c @ [so]" using assms(5) by (auto elim: visit_progress)
  have path: "rs_path st1 = rs_path st @ [nd_id nd]" using visit_steps [OF visit.hyps(4)] by simp
  have ac: "acyclic (flow_edges g)" "targets_known g"
    using assms(2) strict_all [OF assms(3)] by (simp_all add: max_subflow_depth_def numeral_3_eq_3)
  have "on_path g st1" if "history_follows g (rs_path st1) (hs @ [so])"
    using that on_path_step [OF assms(1) ac(2) assms(4) ac(1) _ visit.hyps(2,3) so(1)] hs(2,3)
    by (simp add: path history_follows_append)
  then show ?case using hs so(2) path by (intro exI [of _ "hs @ [so]"]) simp
qed



section \<open>What the validator lets through\<close>

definition no_budget :: vstate where
  "no_budget = \<lparr>vs_budget = None, vs_warnings = None\<rparr>"

text \<open>A cycle through a node that may not be visited again is missed when the search has closed it
  before: from \<open>a\<close> the search finishes \<open>c\<close>, whose way back to \<open>a\<close> is allowed, and does not
  follow it again from \<open>b\<close>.\<close>

definition missed_flow :: graph where
  "missed_flow = (let loops = \<lparr>lp_allow_loop = True, lp_max_visits = 5\<rparr>
     in default_graph ''a''
       [Node ((default_base ''a'')\<lparr>nb_next := Some ''c'', nb_on_failure := Some ''b'', nb_loop := loops\<rparr>) (Action ''SEND_TEXT'' []),
        Node ((default_base ''b'')\<lparr>nb_next := Some ''c''\<rparr>) (Action ''SEND_TEXT'' []),
        Node ((default_base ''c'')\<lparr>nb_next := Some ''a'', nb_loop := loops\<rparr>) (Action ''SEND_TEXT'' [])])"

lemma missed_cycle:
  "validate_graph missed_flow no_budget = Inr no_budget \<and> \<not> may_repeat missed_flow ''b''
   \<and> (''b'', ''b'') \<in> (flow_edges missed_flow)\<^sup>+"
proof -
  have 1: "validate_graph missed_flow no_budget = Inr no_budget \<and> \<not> may_repeat missed_flow ''b''
    \<and> list_all (\<lambda>(i, j). i \<in> set (search_ids missed_flow) \<and> j \<in> set (search_ids missed_flow)
        \<and> (case g_node missed_flow i of None \<Rightarrow> False | Some n \<Rightarrow> j \<in> set (neighbors n)))
      [(''b'', ''c''), (''c'', ''a''), (''a'', ''b'')]" by code_simp
  then have "(''b'', ''c'') \<in> flow_edges missed_flow" "(''c'', ''a'') \<in> flow_edges missed_flow" "(''a'', ''b'') \<in> flow_edges missed_flow"
    by (auto simp: flow_edges_def split: option.splits)
  then have "(''b'', ''b'') \<in> (flow_edges missed_flow)\<^sup>+" by (meson r_into_trancl' trancl_into_trancl)
  then show ?thesis using 1 by blast
qed

text \<open>The engine takes a node called \<^verbatim>\<open>done\<close> for the end of the flow.\<close>

lemma reserved_id:
  "validate_graph (sample_flow [(''a'', ''done''), (''done'', ''FAIL'')]) no_budget = Inr no_budget
   \<and> normalize_target (Some ''done'') = terminal_complete"
  by code_simp

text \<open>A flow to be resumed at \<^verbatim>\<open>COMPLETE\<close> is accepted, and starts at a node that does not exist.\<close>

lemma resume_at_end:
  "let g = (case chain_flow of Graph e ns m h r l \<Rightarrow> Graph e ns m h (Some ''COMPLETE'') l)
   in validate_graph g no_budget = Inr no_budget \<and> \<not> at_rest (rs_current (start_state g))
     \<and> g_node g (the (rs_current (start_state g))) = None"
  by code_simp

text \<open>A node that may be visited zero times is accepted and refused on its first visit.\<close>

lemma refused_at_once:
  "let nd = Node ((default_base ''a'')\<lparr>nb_loop := \<lparr>lp_allow_loop = True, lp_max_visits = 0\<rparr>\<rparr>) (Delay 1)
   in validate_graph (default_graph ''a'' [nd]) no_budget = Inr no_budget \<and> visit_refused (nb_loop (nd_base nd)) 1"
  by code_simp

end
