(* ===== verification/Flow_Compile_Props.thy ===== *)
theory Flow_Compile_Props
  imports Flow_Compile Flow_Valid_Runs
begin

text \<open>
  The graph of a list of actions: the ids of its steps are distinct, it is a chain, the validator
  accepts it up to the limit on nodes, and a run walks it from its first step on.
\<close>

section \<open>Ids of steps\<close>

lemma step_wait: "step_id i \<noteq> wait_id j"
proof
  assume "step_id i = wait_id j"
  then have "CHR ''_'' \<in> set (str_nat i)" by (simp add: step_id_def wait_id_def)
  then show False using str_nat_digits [of i] by (auto simp: list_all_iff ascii_digit_def)
qed

lemma step_id_inject [simp]: "step_id i = step_id j \<longleftrightarrow> i = j" "wait_id i = wait_id j \<longleftrightarrow> i = j"
  "step_id i \<noteq> wait_id j" "wait_id i \<noteq> step_id j"
  using step_wait [of i j] step_wait [of j i] by (auto simp: step_id_def wait_id_def)

text \<open>The engine reads these ids as they are.\<close>

lemma plain_prefixed:
  assumes "\<forall>c \<in> set s. \<not> py_space c"
  shows "plain_id (''step_'' @ s)"
proof -
  have "\<forall>c \<in> set (''step_'' @ s). \<not> py_space c" using assms by (auto simp: py_space_def)
  then have "py_strip (''step_'' @ s) = ''step_'' @ s" by (rule py_strip_id)
  then show ?thesis
    by (simp add: plain_id_def normalize_target_def truthy_str_def py_upper_def terminal_complete_def terminal_fail_def sentinels_def)
qed

lemma plain_steps [simp]: "plain_id (step_id i)" "plain_id (wait_id i)"
proof -
  show "plain_id (step_id i)" unfolding step_id_def by (intro plain_prefixed ballI str_nat_unspaced)
  have "\<forall>c \<in> set (str_nat i @ ''_wait''). \<not> py_space c" using str_nat_unspaced by (auto simp: py_space_def)
  then show "plain_id (wait_id i)" unfolding wait_id_def by (rule plain_prefixed)
qed

section \<open>Chains of nodes\<close>

definition first_id :: "(string \<times> node) list \<Rightarrow> string" where
  "first_id ns = (case ns of [] \<Rightarrow> terminal_complete | (i, n) # _ \<Rightarrow> i)"

text \<open>A node with the given id that leads to \<open>next_id\<close> or to the failed end, and may not be repeated.\<close>

definition links :: "string \<Rightarrow> node \<Rightarrow> string \<Rightarrow> bool" where
  "links i n next_id \<longleftrightarrow> nd_id n = i \<and> plain_id i \<and> nested n = [] \<and> \<not> lp_allow_loop (nb_loop (nd_base n))
     \<and> map snd (node_targets n) \<in> {[Some next_id, Some next_id, None], [Some next_id, Some terminal_fail, None]}"

fun chained :: "(string \<times> node) list \<Rightarrow> bool" where
  "chained [] = True"
| "chained ((i, n) # ns) \<longleftrightarrow> links i n (first_id ns) \<and> chained ns"

lemma links_action: "links (step_id i) (action_node s i next_id a) next_id"
  by (simp add: links_def action_node_def nested_def node_targets_def default_base_def split: prod.splits)

lemma links_reply: "links (wait_id i) (reply_node s c i next_id a) next_id"
  by (simp add: links_def reply_node_def nested_def node_targets_def default_base_def)

lemma first_linear: "as \<noteq> [] \<Longrightarrow> first_id (linear_nodes s c i as) = step_id i"
  by (cases as) (auto simp: step_nodes_def first_id_def)

lemma chained_linear: "chained (linear_nodes s c i as)"
proof (induction as arbitrary: i)
  case (Cons a as)
  have "first_id (linear_nodes s c (Suc i) as) = (if as = [] then terminal_complete else step_id (Suc i))"
    by (simp add: first_linear) (simp add: first_id_def)
  then show ?case using Cons links_action links_reply by (auto simp: step_nodes_def first_id_def)
qed simp

lemma linear_ids:
  "x \<in> fst ` set (linear_nodes s c i as) \<Longrightarrow> \<exists>j \<ge> i. x = step_id j \<or> x = wait_id j"
proof (induction as arbitrary: i)
  case (Cons a as)
  from Cons.prems consider "x = step_id i" | "x = wait_id i" | "x \<in> fst ` set (linear_nodes s c (Suc i) as)"
    by (auto simp: step_nodes_def split: if_splits)
  then show ?case
  proof cases
    case 3
    then obtain j where "Suc i \<le> j" "x = step_id j \<or> x = wait_id j" using Cons.IH by blast
    then show ?thesis using Suc_leD by blast
  qed auto
qed simp

lemma distinct_linear: "distinct (map fst (linear_nodes s c i as))"
proof (induction as arbitrary: i)
  case (Cons a as)
  have "step_id i \<notin> fst ` set (linear_nodes s c (Suc i) as)" "wait_id i \<notin> fst ` set (linear_nodes s c (Suc i) as)"
    using linear_ids [of "step_id i" s c "Suc i" as] linear_ids [of "wait_id i" s c "Suc i" as] by auto
  then show ?case using Cons by (simp add: step_nodes_def)
qed simp

lemma length_linear: "length (linear_nodes s c i as) = length as + length (filter sa_wait_for_reply as)"
  by (induction as arbitrary: i) (auto simp: step_nodes_def)

lemma chained_nth:
  "chained ns \<Longrightarrow> k < length ns \<Longrightarrow> links (fst (ns ! k)) (snd (ns ! k)) (first_id (drop (Suc k) ns))"
proof (induction ns arbitrary: k rule: chained.induct)
  case (2 i n ns)
  then show ?case by (cases k) auto
qed simp

lemma first_drop: "k < length ns \<Longrightarrow> first_id (drop k ns) = fst (ns ! k)"
  by (cases "drop k ns") (auto simp: first_id_def Cons_nth_drop_Suc [symmetric] split: prod.splits)

section \<open>The validator accepts a chain\<close>

definition chain_graph :: "string \<Rightarrow> (string \<times> node) list \<Rightarrow> int \<Rightarrow> graph" where
  "chain_graph entry ns limit = Graph entry ns limit None None None"

lemma chain_fields [simp]: "g_nodes (chain_graph e ns m) = ns" "g_entry (chain_graph e ns m) = e"
  "g_resume (chain_graph e ns m) = None" "g_error_handler (chain_graph e ns m) = None" "g_max_total_steps (chain_graph e ns m) = m"
  by (simp_all add: chain_graph_def)

text \<open>Keys are distinct and linked.\<close>

definition is_chain :: "(string \<times> node) list \<Rightarrow> bool" where
  "is_chain ns \<longleftrightarrow> ns \<noteq> [] \<and> distinct (map fst ns) \<and> chained ns"

lemma chain_node: "is_chain ns \<Longrightarrow> k < length ns \<Longrightarrow> g_node (chain_graph e ns m) (fst (ns ! k)) = Some (snd (ns ! k))"
  by (simp add: is_chain_def)

lemma chain_links: "is_chain ns \<Longrightarrow> k < length ns \<Longrightarrow> links (fst (ns ! k)) (snd (ns ! k)) (first_id (drop (Suc k) ns))"
  by (simp add: is_chain_def chained_nth)

lemma chained_each:
  "chained ns \<Longrightarrow> (i, n) \<in> set ns \<Longrightarrow> nd_id n = i \<and> plain_id i \<and> nested n = [] \<and> \<not> lp_allow_loop (nb_loop (nd_base n))"
  by (induction ns rule: chained.induct) (auto simp: links_def)

lemma chain_each:
  "is_chain ns \<Longrightarrow> (i, n) \<in> set ns \<Longrightarrow> nd_id n = i \<and> plain_id i \<and> nested n = [] \<and> \<not> lp_allow_loop (nb_loop (nd_base n))"
  using chained_each by (auto simp only: is_chain_def)

lemma chain_plain: "is_chain ns \<Longrightarrow> plain_ids (chain_graph e ns m)"
  by (auto simp: plain_ids_def list_all_iff dest: chain_each)

lemma chain_search: "is_chain ns \<Longrightarrow> search_ids (chain_graph e ns m) = map fst ns"
  by (auto simp: search_ids_def node_ids_def filter_id_conv plain_id_def dest: chain_each)

lemma chain_flat: "is_chain ns \<Longrightarrow> flat (chain_graph e ns m)"
  by (auto simp: flat_def list_all_iff chain_search is_chain_def dest: chained_each)

lemma chain_strict: "is_chain ns \<Longrightarrow> list_all (\<lambda>i. \<not> may_repeat (chain_graph e ns m) i) (search_ids (chain_graph e ns m))"
  by (auto simp: may_repeat_def list_all_iff chain_search is_chain_def dest: chained_each)

text \<open>Its edges lead from each key to the one after it.\<close>

definition next_pairs :: "'a list \<Rightarrow> ('a \<times> 'a) set" where
  "next_pairs xs = {(xs ! k, xs ! Suc k) |k. Suc k < length xs}"

lemma next_pairs_acyclic:
  assumes "distinct xs"
  shows "acyclic (next_pairs xs)"
proof (rule acyclicI_order)
  fix a b
  assume "(a, b) \<in> next_pairs xs"
  then obtain k where k: "Suc k < length xs" "a = xs ! k" "b = xs ! Suc k" by (auto simp: next_pairs_def)
  have "takeWhile (\<lambda>y. y \<noteq> xs ! j) xs = take j xs" if "j < length xs" for j
    using that assms by (intro takeWhile_eq_take_P_nth) (auto simp: nth_eq_iff_index_eq)
  then have pos: "length (takeWhile (\<lambda>y. y \<noteq> xs ! j) xs) = j" if "j < length xs" for j
    using that by simp
  show "length xs - length (takeWhile (\<lambda>y. y \<noteq> b) xs) < length xs - length (takeWhile (\<lambda>y. y \<noteq> a) xs)"
    using pos k by simp
qed

lemma links_neighbors:
  assumes "links i n t" and "t \<noteq> []"
  shows "t \<in> set (neighbors n) \<and> set (neighbors n) \<subseteq> {t, terminal_fail}"
proof -
  have "truthy_str (Some t)" "truthy_str (Some terminal_fail)" "\<not> truthy_str None"
    using assms(2) by (simp_all add: truthy_str_def terminal_fail_def)
  moreover have "neighbors n = map the (filter truthy_str [Some t, Some t, None])
      \<or> neighbors n = map the (filter truthy_str [Some t, Some terminal_fail, None])"
    using assms(1) unfolding links_def neighbors_def by auto
  ultimately show ?thesis by auto
qed

lemma first_id_cases: "first_id ns = terminal_complete \<and> ns = [] \<or> first_id ns \<in> fst ` set ns"
  by (cases ns) (auto simp: first_id_def)

lemma chain_edges:
  assumes "is_chain ns"
  shows "flow_edges (chain_graph e ns m) = next_pairs (map fst ns)"
proof (intro set_eqI iffI; clarify)
  fix i j
  assume "(i, j) \<in> flow_edges (chain_graph e ns m)"
  then obtain n where i: "i \<in> fst ` set ns" and j: "j \<in> fst ` set ns" and n: "g_node (chain_graph e ns m) i = Some n"
    and nb: "j \<in> set (neighbors n)" using assms by (auto simp: flow_edges_def chain_search)
  have "(i, n) \<in> set ns" using n by (simp add: map_of_SomeD)
  then obtain k where k: "k < length ns" "ns ! k = (i, n)" by (metis in_set_conv_nth)
  have j': "plain_id j" using j chain_each [OF assms] by fastforce
  have l: "links i n (first_id (drop (Suc k) ns))" using chain_links [OF assms k(1)] k(2) by simp
  have "first_id (drop (Suc k) ns) \<noteq> []"
  proof (cases "Suc k < length ns")
    case True
    then show ?thesis using chain_each [OF assms, of "fst (ns ! Suc k)" "snd (ns ! Suc k)"] by (simp add: first_drop plain_id_def)
  qed (simp add: first_id_def terminal_complete_def)
  then have "j = first_id (drop (Suc k) ns)" using links_neighbors [OF l] nb j' by (auto simp: plain_id_def sentinels_def)
  moreover have "Suc k < length ns" using calculation j' by (cases "Suc k < length ns") (auto simp: first_id_def plain_id_def sentinels_def)
  ultimately show "(i, j) \<in> next_pairs (map fst ns)"
    using k unfolding next_pairs_def by (auto simp: first_drop intro!: exI [of _ k])
next
  fix i j
  assume "(i, j) \<in> next_pairs (map fst ns)"
  then obtain k where k: "Suc k < length ns" "i = fst (ns ! k)" "j = fst (ns ! Suc k)" by (auto simp: next_pairs_def)
  have "plain_id j" using chain_each [OF assms, of j "snd (ns ! Suc k)"] k by simp
  moreover have "links i (snd (ns ! k)) j" using chain_links [OF assms, of k] k by (simp add: first_drop)
  ultimately have "j \<in> set (neighbors (snd (ns ! k)))" using links_neighbors by (auto simp: plain_id_def)
  moreover have "g_node (chain_graph e ns m) i = Some (snd (ns ! k))" using chain_node [OF assms] k by simp
  moreover have "i \<in> fst ` set ns" "j \<in> fst ` set ns" using k by auto
  ultimately show "(i, j) \<in> flow_edges (chain_graph e ns m)" using assms by (auto simp: flow_edges_def chain_search)
qed

lemma chain_reachable:
  assumes "is_chain ns" and "k < length ns"
  shows "fst (ns ! k) \<in> reachable_ids (chain_graph (first_id ns) ns m)"
  using assms(2)
proof (induction k)
  case 0
  then have "first_id ns = fst (ns ! 0)" using first_drop [of 0 ns] by simp
  then show ?case using 0 assms(1) by (auto simp: reachable_ids_def chain_search)
next
  case (Suc k)
  then have "fst (ns ! k) \<in> reachable_ids (chain_graph (first_id ns) ns m)" by simp
  moreover have "(fst (ns ! k), fst (ns ! Suc k)) \<in> flow_edges (chain_graph (first_id ns) ns m)"
    unfolding chain_edges [OF assms(1)] next_pairs_def using Suc.prems by (auto intro!: exI [of _ k])
  ultimately show ?case unfolding reachable_ids_def by (auto intro: rtrancl_into_rtrancl)
qed

lemma chain_warnings:
  assumes "is_chain ns"
  shows "unreachable_warnings (chain_graph (first_id ns) ns m) = []"
proof -
  have "i \<in> reachable_ids (chain_graph (first_id ns) ns m)" if "i \<in> fst ` set ns" for i
  proof -
    obtain k where "k < length ns" "i = fst (ns ! k)" using \<open>i \<in> fst ` set ns\<close> by (metis imageE in_set_conv_nth)
    then show ?thesis using chain_reachable [OF assms] by simp
  qed
  then show ?thesis by (simp add: unreachable_warnings_def node_ids_def filter_empty_conv)
qed

lemma chain_targets:
  assumes "is_chain ns"
  shows "targets_known (chain_graph e ns m)"
proof -
  have "target_known (chain_graph e ns m) t" if n: "(i, n) \<in> set ns" and t: "(f, t) \<in> set (node_targets n)" for i n f t
  proof -
    obtain k where k: "k < length ns" "ns ! k = (i, n)" using n by (metis in_set_conv_nth)
    have "first_id (drop (Suc k) ns) = terminal_complete \<or> first_id (drop (Suc k) ns) \<in> set (node_ids (chain_graph e ns m))"
      using first_id_cases [of "drop (Suc k) ns"] set_drop_subset [of "Suc k" ns] by (auto simp: node_ids_def)
    moreover have "t \<in> set (map snd (node_targets n))" using t by force
    then have "t \<in> {Some (first_id (drop (Suc k) ns)), Some terminal_fail, None}"
      using chain_links [OF assms k(1)] k(2) by (auto simp: links_def simp del: set_map)
    ultimately show ?thesis by (auto simp: target_known_def sentinels_def truthy_str_def)
  qed
  then show ?thesis by (auto simp: targets_known_def target_known_def truthy_str_def)
qed

lemma chain_validated:
  assumes "is_chain ns"
  shows "validate_graph (chain_graph (first_id ns) ns m) \<lparr>vs_budget = None, vs_warnings = Some ws\<rparr> = Inr v' \<longleftrightarrow>
    length ns \<le> max_nodes_per_graph \<and> v' = \<lparr>vs_budget = None, vs_warnings = Some ws\<rparr>"
proof -
  have "acyclic (flow_edges (chain_graph (first_id ns) ns m))"
    unfolding chain_edges [OF assms] using assms by (intro next_pairs_acyclic) (simp add: is_chain_def)
  moreover have "first_id ns \<in> fst ` set ns" using first_id_cases [of ns] assms by (simp add: is_chain_def)
  ultimately show ?thesis
    using loop_free_iff [OF chain_flat [OF assms] chain_strict [OF assms]] chain_targets [OF assms] chain_warnings [OF assms] assms
    by (simp add: node_ids_def) (auto simp: is_chain_def)
qed

section \<open>A run walks the chain\<close>

lemma next_pairs_at: "distinct xs \<Longrightarrow> k < length xs \<Longrightarrow> (xs ! k, y) \<in> next_pairs xs \<longleftrightarrow> Suc k < length xs \<and> y = xs ! Suc k"
  by (auto simp: next_pairs_def nth_eq_iff_index_eq)

text \<open>The path so far is the beginning of the chain, and the current id is the one after it.\<close>

definition along :: "string list \<Rightarrow> run_state \<Rightarrow> bool" where
  "along ids st \<longleftrightarrow> rs_steps st \<le> length ids \<and> rs_path st = take (rs_steps st) ids
     \<and> (at_rest (rs_current st) \<or> rs_steps st < length ids \<and> rs_current st = Some (ids ! rs_steps st))"

lemma along_step:
  assumes ch: "is_chain ns" and on: "along (map fst ns) st" and "\<not> at_rest (rs_current st)"
    and nd: "g_node (chain_graph (first_id ns) ns m) (the (rs_current st)) = Some nd"
    and p: "Onward st1 = progress_of env (chain_graph (first_id ns) ns m) nd so (entered nd st)"
    and b: "branch_follows (chain_graph (first_id ns) ns m) (nd_id nd) so"
  shows "along (map fst ns) st1"
proof -
  let ?g = "chain_graph (first_id ns) ns m" and ?k = "rs_steps st" and ?ids = "map fst ns"
  have k: "?k < length ns" "rs_current st = Some (?ids ! ?k)" using on assms(3) by (auto simp: along_def)
  have i: "nd_id nd = ?ids ! ?k" using plain_node [OF chain_plain [OF ch] nd] k by simp
  have fields: "rs_path st1 = rs_path st @ [nd_id nd]" "rs_steps st1 = Suc ?k"
    using progress_fields [of env ?g nd so "entered nd st"] p by (metis entered_fields(1,2) progress_state.simps(1))+
  have cur: "at_rest (rs_current st1) \<or> (nd_id nd, the (rs_current st1)) \<in> flow_edges ?g"
    using edge_taken [OF chain_plain [OF ch] chain_targets [OF ch] _ _ p b] nd k i by (simp add: truthy_str_def)
  have onward: "Suc ?k < length ns \<and> the (rs_current st1) = ?ids ! Suc ?k" if "\<not> at_rest (rs_current st1)"
    using that cur i k(1) next_pairs_at [of ?ids ?k] ch unfolding chain_edges [OF ch] by (simp add: is_chain_def)
  have "at_rest (rs_current st1) \<or> Suc ?k < length ?ids \<and> rs_current st1 = Some (?ids ! Suc ?k)"
  proof (cases "rs_current st1")
    case None
    then show ?thesis by (simp add: at_rest_def truthy_str_def)
  next
    case (Some x)
    then show ?thesis using onward by auto
  qed
  moreover have "rs_path st1 = take (Suc ?k) ?ids" using on k(1) i fields(1) by (simp add: along_def take_Suc_conv_app_nth)
  ultimately show ?thesis using k(1) fields(2) by (simp add: along_def)
qed

lemma start_along: "is_chain ns \<Longrightarrow> along (map fst ns) (start_state (chain_graph (first_id ns) ns m))"
  using first_drop [of 0 ns] by (simp add: along_def start_state_def str_or_def truthy_str_def is_chain_def)

lemma chain_run:
  assumes "is_chain ns" and "history_kept env"
    and "reaches env run (chain_graph (first_id ns) ns m) (start_state (chain_graph (first_id ns) ns m)) c0 w0 st c w"
  shows "\<exists>hs. fc_history c = fc_history c0 @ hs \<and> length (rs_path st) = length hs
    \<and> (history_follows (chain_graph (first_id ns) ns m) (rs_path st) hs \<longrightarrow> along (map fst ns) st)"
  using assms(3)
proof (induction rule: reaches.induct)
  case start
  then show ?case using start_along [OF assms(1)] by (intro exI [of _ "[]"]) (simp add: start_state_def)
next
  case (visit st c w nd st1 c1 w1)
  let ?g = "chain_graph (first_id ns) ns m"
  from visit.IH obtain hs where hs: "fc_history c = fc_history c0 @ hs" "length (rs_path st) = length hs"
    "history_follows ?g (rs_path st) hs \<longrightarrow> along (map fst ns) st" by blast
  from visit.hyps(4) obtain so where so: "Onward st1 = progress_of (fe_py env) ?g nd so (entered nd st)"
    "fc_history c1 = fc_history c @ [so]" using assms(2) by (auto elim: visit_progress)
  have path: "rs_path st1 = rs_path st @ [nd_id nd]" using visit_steps [OF visit.hyps(4)] by simp
  have "along (map fst ns) st1" if "history_follows ?g (rs_path st1) (hs @ [so])"
    using that along_step [OF assms(1) _ visit.hyps(2,3) so(1)] hs(2,3) by (simp add: path history_follows_append)
  then show ?case using hs so(2) path by (intro exI [of _ "hs @ [so]"]) simp
qed

section \<open>Properties\<close>

lemma linear_chain: "as \<noteq> [] \<Longrightarrow> is_chain (linear_nodes s c i as)"
proof -
  assume "as \<noteq> []"
  then have "length (linear_nodes s c i as) \<noteq> 0" by (simp add: length_linear)
  then show ?thesis using chained_linear [of s c i as] distinct_linear [of s c i as] by (simp only: is_chain_def length_0_conv simp_thms)
qed

lemma linear_as_chain: "as \<noteq> [] \<Longrightarrow> linear_graph s c as = chain_graph (first_id (linear_nodes s c 0 as)) (linear_nodes s c 0 as) 30"
  by (simp add: linear_graph_def chain_graph_def first_linear)

lemma compiles_iff:
  "(from_linear_actions s c as \<lparr>vs_budget = None, vs_warnings = Some ws\<rparr> = Inr (g, v')) \<longleftrightarrow>
    0 < length as \<and> length as + length (filter sa_wait_for_reply as) \<le> max_nodes_per_graph
    \<and> g = linear_graph s c as \<and> v' = \<lparr>vs_budget = None, vs_warnings = Some ws\<rparr>"
proof (cases "as = []")
  case True
  then show ?thesis by (simp add: from_linear_actions_def)
next
  case False
  have "from_linear_actions s c as v = Inr (g, v') \<longleftrightarrow> validate_graph (linear_graph s c as) v = Inr v' \<and> g = linear_graph s c as" for v
    using False by (auto simp: from_linear_actions_def split: sum.splits)
  then show ?thesis using chain_validated [OF linear_chain [OF False], of s c 0] linear_as_chain [OF False] False
    by (simp add: length_linear) blast
qed

text \<open>
  A list of actions compiles exactly when it is not empty and its steps fit into a graph, an
  action that waits for a reply taking two of them; the validator then has nothing to warn of.
\<close>

theorem linear_compiles:
  "(from_linear_actions s c as \<lparr>vs_budget = None, vs_warnings = Some ws\<rparr> = Inr (g, v')) \<longleftrightarrow>
    0 < length as \<and> length as + length (filter sa_wait_for_reply as) \<le> max_nodes_per_graph
    \<and> g = linear_graph s c as \<and> v' = \<lparr>vs_budget = None, vs_warnings = Some ws\<rparr>"
  by (rule compiles_iff)


text \<open>Tasks that send a text a number of times.\<close>

definition send_text :: "bool \<Rightarrow> sign_action" where
  "send_text wait = \<lparr>sa_spec = SendText ''/checkin'', sa_delay = None, sa_continue_on_error = False, sa_skip_if_matched = None,
     sa_stop_flow = False, sa_wait_for_reply = wait, sa_success_patterns = [''ok''], sa_failure_patterns = [], sa_reply_timeout = None,
     sa_retry_keywords = None, sa_retry_interval = None, sa_retry_max = None, sa_semantic_result = None\<rparr>"

definition plain_settings :: task_settings where
  "plain_settings = \<lparr>ts_action_timeout = 25, ts_ai_timeout = 60, ts_reply_timeout = 120, ts_retry_interval = 5, ts_retry_max = 3, ts_retry_keywords = []\<rparr>"

definition send_graph :: "nat \<Rightarrow> graph" where
  "send_graph n = linear_graph plain_settings \<lparr>sh_chat_id = 7, sh_name = None, sh_thread_id = None\<rparr> (replicate n (send_text False))"

definition second_step :: "run_state \<times> flow_ctx" where
  "second_step = (case visit_node (plain_env all_ok) (flow_run (plain_env all_ok)) (send_graph 2)
       (the (g_node (send_graph 2) (step_id 0))) (start_state (send_graph 2)) (ctx_new [] []) () of
     (Inr p, c1, w1) \<Rightarrow> (progress_state p, c1) | (Inl x, c1, w1) \<Rightarrow> (start_state (send_graph 2), c1))"


text \<open>The compiler leaves the limit on steps at its default of 30, below the 50 nodes a graph may
  have: a task whose steps are more than 30 is accepted, and no run performs all of them.\<close>

lemma long_task_cut_short:
  assumes "30 < length as" and "length as + length (filter sa_wait_for_reply as) \<le> max_nodes_per_graph"
    and "flow_run env (linear_graph s c as) c0 w0 = (Inr r, c1, w1)"
  shows "isl (from_linear_actions s c as \<lparr>vs_budget = None, vs_warnings = Some []\<rparr>) = False \<and> length (fr_path r) < length as"
proof -
  have "from_linear_actions s c as \<lparr>vs_budget = None, vs_warnings = Some []\<rparr>
      = Inr (linear_graph s c as, \<lparr>vs_budget = None, vs_warnings = Some []\<rparr>)" using assms(1,2) compiles_iff by auto
  moreover have "g_max_total_steps (linear_graph s c as) = 30" by (simp add: linear_graph_def)
  ultimately show ?thesis using path_bounded [OF assms(3)] assms(1) by simp
qed

end
