(* ===== verification/Flow_Mermaid.thy ===== *)
theory Flow_Mermaid
  imports Flow_Validate_Props
begin

text \<open>
  The chart of a flow, \<^verbatim>\<open>tg_signer/core/flow_mermaid_adapter.py\<close>: the ids no walk from the entry
  reaches, found by the search of \<open>Graph_Search\<close>, and the lines of the Mermaid text. The Chinese
  words of the labels are English ones here. What the chart shows of a task comes from its users,
  so the lemmas follow what may stand in a line (\<open>line_ok\<close>).
\<close>

section \<open>Nodes no walk reaches\<close>

definition chart_sentinels :: "string list" where
  "chart_sentinels = [terminal_complete, terminal_fail, ''COMPLETE'', ''FAIL'', ''SUCCESS'', ''DONE'', ''FAILED'', ''ERROR'']"

definition chart_walk :: "graph \<Rightarrow> (string, unit) walk" where
  "chart_walk g = \<lparr>wk_outside = (\<lambda>i. i \<in> set chart_sentinels \<or> i \<notin> set (node_ids g)),
     wk_next = (\<lambda>i. case g_node g i of None \<Rightarrow> [] | Some n \<Rightarrow> neighbors n), wk_loops = (\<lambda>i. True),
     wk_enter = (\<lambda>i. Inr), wk_cycle_error = cycle_error\<rparr>"

definition chart_ids :: "graph \<Rightarrow> string list" where
  "chart_ids g = filter (\<lambda>i. i \<notin> set chart_sentinels) (node_ids g)"

definition find_unreachable_nodes :: "graph \<Rightarrow> string list" where
  "find_unreachable_nodes g =
     (if g_entry g = [] \<or> g_entry g \<notin> set (node_ids g) then node_ids g
      else (case search (chart_walk g) (length (chart_ids g)) [] [g_entry g] ([], ()) of
              Inl x \<Rightarrow> node_ids g
            | Inr s \<Rightarrow> filter (\<lambda>i. i \<notin> set (fst s)) (node_ids g)))"

section \<open>Ids and labels\<close>

definition word_char :: "char \<Rightarrow> bool" where
  "word_char c \<longleftrightarrow> (let n = of_char c :: nat in (97 \<le> n \<and> n \<le> 122) \<or> (65 \<le> n \<and> n \<le> 90) \<or> (48 \<le> n \<and> n \<le> 57) \<or> n = 95)"

definition sanitize_id :: "string \<Rightarrow> string" where
  "sanitize_id = map (\<lambda>c. if word_char c then c else CHR ''_'')"

text \<open>\<^verbatim>\<open>html.escape(s)\<close>, then the double quotes and the line ends.\<close>

definition html_escape :: "string \<Rightarrow> string" where
  "html_escape s = concat (map (\<lambda>c. if c = CHR ''&'' then ''&amp;'' else if c = CHR ''<'' then ''&lt;''
     else if c = CHR ''>'' then ''&gt;'' else if c = CHR 0x22 then ''&quot;'' else if c = CHR 0x27 then ''&#x27;'' else [c]) s)"

definition replace_char :: "char \<Rightarrow> string \<Rightarrow> string \<Rightarrow> string" where
  "replace_char a r s = concat (map (\<lambda>c. if c = a then r else [c]) s)"

definition escape_label :: "string \<Rightarrow> string" where
  "escape_label s = replace_char (CHR 0x0A) '' '' (replace_char (CHR 0x22) ''&quot;'' (html_escape s))"

definition node_type :: "node \<Rightarrow> string" where
  "node_type n = (case nd_kind n of Action t ps \<Rightarrow> ''action'' | WaitEvent wc \<Rightarrow> ''wait_event'' | Condition cs d \<Rightarrow> ''condition''
     | Extractor x \<Rightarrow> ''extractor'' | Delay s \<Rightarrow> ''delay'' | Subflow sg sc \<Rightarrow> ''subflow'' | Parallel gs pc \<Rightarrow> ''parallel'')"

definition target_label :: "string \<Rightarrow> string \<Rightarrow> string" where
  "target_label prefix t =
     (if t \<in> {terminal_complete, ''COMPLETE'', ''SUCCESS'', ''DONE''} then ''End([done])''
      else if t \<in> {terminal_fail, ''FAIL'', ''FAILED'', ''ERROR''} then ''Fail([failed])''
      else prefix @ sanitize_id t)"

section \<open>Lines\<close>

definition quoted :: "string \<Rightarrow> string" where
  "quoted s = [CHR 0x22] @ s @ [CHR 0x22]"

definition edge_line :: "string \<Rightarrow> string \<Rightarrow> string \<Rightarrow> string \<Rightarrow> string option \<Rightarrow> string list" where
  "edge_line indent prefix scoped arrow t = (if truthy_str t then [indent @ scoped @ arrow @ target_label prefix (the t)] else [])"

definition name_or :: "node \<Rightarrow> string \<Rightarrow> string" where
  "name_or n s = (if nb_name (nd_base n) = [] then s else nb_name (nd_base n))"

text \<open>The node itself, its style and its edges.\<close>

definition node_lines :: "bool \<Rightarrow> string \<Rightarrow> string \<Rightarrow> string \<Rightarrow> node \<Rightarrow> string list" where
  "node_lines unreached prefix indent nid n =
     (let b = nd_base n; scoped = prefix @ sanitize_id nid; edge = edge_line indent prefix scoped
      in [indent @ scoped @ ''['' @ quoted (escape_label
            (name_or n nid @ (if unreached then '' (unreachable)'' else []) @ '' ['' @ node_type n @ '']'')) @ '']'']
         @ (if unreached then [indent @ ''style '' @ scoped @ '' stroke:#f59e0b,stroke-dasharray: 5 5''] else [])
         @ edge '' -->|next| '' (nb_next b) @ edge '' -.->|on_failure| '' (nb_on_failure b)
         @ edge '' -.->|terminal_branch| '' (nb_terminal_target b)
         @ (case nd_kind n of
              Condition cases otherwise \<Rightarrow>
                concat (map (\<lambda>c. edge ('' -->|'' @ quoted (escape_label (look c ''condition'' [])) @ ''| '') (map_of c ''target_id'')) cases)
                @ edge '' -->|default| '' otherwise
            | _ \<Rightarrow> []))"

definition subgraph_line :: "string \<Rightarrow> string \<Rightarrow> string \<Rightarrow> string" where
  "subgraph_line indent i title = indent @ ''subgraph '' @ i @ '' ['' @ quoted title @ '']''"

text \<open>The lines of a node, of the branches of a parallel node from the \<open>k\<close>-th, and of a graph.\<close>

fun render_node :: "bool \<Rightarrow> bool \<Rightarrow> string \<Rightarrow> string \<Rightarrow> string \<Rightarrow> node \<Rightarrow> string list"
  and render_branches :: "bool \<Rightarrow> string \<Rightarrow> string \<Rightarrow> nat \<Rightarrow> graph list \<Rightarrow> string list"
  and render_graph :: "bool \<Rightarrow> string \<Rightarrow> string \<Rightarrow> graph \<Rightarrow> string list"
  and render_nodes :: "bool \<Rightarrow> string list \<Rightarrow> string \<Rightarrow> string \<Rightarrow> (string \<times> node) list \<Rightarrow> string list" where
  "render_node subs unreached prefix indent nid (Node b k) =
     node_lines unreached prefix indent nid (Node b k) @
     (let scoped = prefix @ sanitize_id nid
      in case k of
           Subflow (Some g) sc \<Rightarrow>
             if subs \<and> g_nodes g \<noteq> [] then
               [subgraph_line indent (''subgraph_'' @ scoped) (''subflow: '' @ escape_label (name_or (Node b k) (''Subflow '' @ nid)))]
               @ render_graph subs (scoped @ ''__'') (indent @ ''    '') g
               @ [indent @ ''end'', indent @ scoped @ '' -.->|subflow| '' @ scoped @ ''__'' @ sanitize_id (g_entry g)]
             else []
         | Parallel gs pc \<Rightarrow>
             if subs \<and> gs \<noteq> [] then
               [subgraph_line indent (''parallel_'' @ scoped)
                  (escape_label (''branches: '' @ name_or (Node b k) nid @ '' ('' @ mode_value (pc_mode pc) @ '')''))]
               @ render_branches subs scoped indent 0 gs @ [indent @ ''end'']
             else []
         | _ \<Rightarrow> [])"
| "render_branches subs scoped indent k [] = []"
| "render_branches subs scoped indent k (g # gs) =
     (if g_nodes g = [] then []
      else [subgraph_line (indent @ ''    '') (''parallel_'' @ scoped @ ''_b'' @ str_nat k) (''branch '' @ str_nat (Suc k))]
           @ render_graph subs (scoped @ ''__b'' @ str_nat k @ ''__'') (indent @ ''        '') g
           @ [indent @ ''    end'',
              indent @ ''    '' @ scoped @ '' -.->|branch_'' @ str_nat (Suc k) @ ''| '' @ scoped @ ''__b'' @ str_nat k @ ''__'' @ sanitize_id (g_entry g)])
     @ render_branches subs scoped indent (Suc k) gs"
| "render_graph subs prefix indent (Graph e ns m h r l) =
     render_nodes subs (find_unreachable_nodes (Graph e ns m h r l)) prefix indent ns"
| "render_nodes subs unreached prefix indent [] = []"
| "render_nodes subs unreached prefix indent ((nid, n) # ns) =
     render_node subs (nid \<in> set unreached) prefix indent nid n @ render_nodes subs unreached prefix indent ns"

definition render_lines :: "bool \<Rightarrow> graph \<Rightarrow> string list" where
  "render_lines subs g =
     [''graph TD'', ''    Start([start]) --> '' @ sanitize_id (g_entry g)] @ render_graph subs [] ''    '' g
     @ (if truthy_str (g_error_handler g) then [''    ErrorHandler[global error handler] -.-> '' @ sanitize_id (the (g_error_handler g))] else [])"

text \<open>The text; nothing for a missing or an empty graph.\<close>

definition render_mermaid_diagram :: "bool \<Rightarrow> graph option \<Rightarrow> string" where
  "render_mermaid_diagram subs g =
     (case g of None \<Rightarrow> [] | Some g \<Rightarrow> if g_nodes g = [] then [] else join_with [CHR 0x0A] (render_lines subs g))"

section \<open>The search agrees with the validator\<close>

interpretation chart: edge_search "chart_walk g" "chart_ids g" for g
  by unfold_locales (auto simp: chart_walk_def chart_ids_def)

lemma chart_total: "\<exists>s. search (chart_walk g) (length (chart_ids g)) [] todo v = Inr s"
  by (rule chart.search_total) (simp_all add: chart_walk_def)

lemma chart_edges:
  assumes "list_all (\<lambda>i. i \<notin> set chart_sentinels) (node_ids g)"
  shows "chart_ids g = node_ids g" and "search_ids g = node_ids g" and "chart.edges g = flow_edges g"
proof -
  have "i \<in> set sentinels \<Longrightarrow> i \<in> set chart_sentinels" for i by (auto simp: sentinels_def chart_sentinels_def)
  then show ids: "chart_ids g = node_ids g" "search_ids g = node_ids g"
    using assms by (auto simp: chart_ids_def search_ids_def list_all_iff intro!: filter_True)
  show "chart.edges g = flow_edges g"
    unfolding chart.edges_def flow_edges_def unfolding ids by (auto simp: chart_walk_def node_ids_node split: option.splits)
qed

section \<open>What may stand in a line\<close>

definition clean_char :: "char \<Rightarrow> bool" where
  "clean_char c \<longleftrightarrow> c \<noteq> CHR ''<'' \<and> c \<noteq> CHR 0x0A \<and> c \<noteq> CHR 0x22"

abbreviation clean :: "string \<Rightarrow> bool" where "clean s \<equiv> list_all clean_char s"

text \<open>No markup, no line end, and no quote but the two around a label.\<close>

definition line_ok :: "string \<Rightarrow> bool" where
  "line_ok l \<longleftrightarrow> CHR ''<'' \<notin> set l \<and> CHR 0x0A \<notin> set l \<and> count_list l (CHR 0x22) \<in> {0, 2}"

lemma clean_sanitize [simp]: "clean (sanitize_id s)"
proof -
  have "clean_char c" if "word_char c" for c using that by (auto simp: word_char_def clean_char_def Let_def)
  then show ?thesis by (auto simp: sanitize_id_def list_all_iff clean_char_def)
qed

lemma clean_escape [simp]: "clean (escape_label s)"
proof (induction s)
  case Nil
  show ?case by (simp add: escape_label_def html_escape_def replace_char_def)
next
  case (Cons c s)
  have "escape_label (c # s) = escape_label [c] @ escape_label s"
    by (simp add: escape_label_def html_escape_def replace_char_def)
  moreover have "clean (escape_label [c])"
    by (simp add: escape_label_def html_escape_def replace_char_def clean_char_def)
  ultimately show ?case using Cons by simp
qed

lemma clean_digits [simp]: "clean (str_nat n)"
proof (induction n rule: str_nat.induct)
  case (1 n)
  have "list_all clean_char (map (\<lambda>k. char_of (48 + k :: nat)) [0..<10])" by code_simp
  then have "clean_char (char_of (48 + k))" if "k < 10" for k :: nat using that by (simp only: list_all_iff set_map set_upt) auto
  then show ?case using 1 by (subst str_nat.simps) auto
qed

lemma clean_target [simp]: "clean prefix \<Longrightarrow> clean (target_label prefix t)"
  by (simp add: target_label_def clean_char_def)

lemma clean_mode [simp]: "clean (mode_value m)"
  by (cases m) (simp_all add: mode_value_def clean_char_def)

lemma count_clean: "clean s \<Longrightarrow> count_list s (CHR 0x22) = 0"
  by (induction s) (auto simp: clean_char_def)

lemma line_clean: "clean l \<Longrightarrow> line_ok l"
  by (auto simp: line_ok_def list_all_iff clean_char_def count_clean)

lemma clean_chars: "clean s \<Longrightarrow> CHR ''<'' \<notin> set s \<and> CHR 0x0A \<notin> set s"
  by (auto simp: list_all_iff clean_char_def)

lemma line_quoted:
  assumes "clean a" "clean s" "clean b"
  shows "line_ok (a @ quoted s @ b)"
proof -
  have "count_list (a @ quoted s @ b) (CHR 0x22) = 2"
    unfolding quoted_def count_list_append count_clean [OF assms(1)] count_clean [OF assms(2)] count_clean [OF assms(3)] by simp
  moreover have "CHR ''<'' \<notin> set (a @ quoted s @ b) \<and> CHR 0x0A \<notin> set (a @ quoted s @ b)"
    using assms [THEN clean_chars] by (simp add: quoted_def)
  ultimately show ?thesis by (simp add: line_ok_def)
qed

lemma clean_simps [simp]: "clean ''[''" "clean '']''" "clean []"
  by (simp_all add: clean_char_def)

lemma edge_lines_ok:
  assumes "clean indent" "clean prefix" "clean scoped"
  shows "clean arrow \<Longrightarrow> list_all line_ok (edge_line indent prefix scoped arrow t)"
    and "clean u \<Longrightarrow> clean v \<Longrightarrow> list_all line_ok (edge_line indent prefix scoped (u @ quoted (escape_label s) @ v) t)"
  using assms line_quoted [of "indent @ scoped @ u" "escape_label s" "v @ target_label prefix (the t)"]
  by (auto simp: edge_line_def intro: line_clean)

lemma node_lines_ok:
  assumes "clean prefix" "clean indent"
  shows "list_all line_ok (node_lines unreached prefix indent nid n)"
proof -
  let ?scoped = "prefix @ sanitize_id nid"
  have head: "line_ok (indent @ ?scoped @ ''['' @ quoted (escape_label l) @ '']'')" for l
    using line_quoted [of "indent @ ?scoped @ ''[''" "escape_label l" "'']''"] assms by (simp add: clean_char_def)
  have style: "line_ok (indent @ ''style '' @ ?scoped @ '' stroke:#f59e0b,stroke-dasharray: 5 5'')"
    using assms by (intro line_clean) (simp add: clean_char_def)
  have arrow: "list_all line_ok (edge_line indent prefix ?scoped a t)"
    if "a \<in> {'' -->|next| '', '' -.->|on_failure| '', '' -.->|terminal_branch| '', '' -->|default| ''}" for a t
    using that assms by (intro edge_lines_ok) (auto simp: clean_char_def)
  have cond: "list_all line_ok (edge_line indent prefix ?scoped ('' -->|'' @ quoted (escape_label l) @ ''| '') t)" for l t
    using assms by (intro edge_lines_ok) (simp_all add: clean_char_def)
  have cases: "list_all line_ok (concat (map (\<lambda>c. edge_line indent prefix ?scoped ('' -->|'' @ quoted (escape_label (f c)) @ ''| '') (h c)) cs))" for f h cs
    using cond by (induction cs) simp_all
  show ?thesis
    unfolding node_lines_def Let_def list_all_append
    using head style arrow cases by (cases "nd_kind n") simp_all
qed

lemma subgraph_line_ok: "clean indent \<Longrightarrow> clean i \<Longrightarrow> clean title \<Longrightarrow> line_ok (subgraph_line indent i title)"
proof -
  assume "clean indent" "clean i" "clean title"
  then show ?thesis
    using line_quoted [of "indent @ ''subgraph '' @ i @ '' [''" title "'']''"] by (simp add: subgraph_line_def clean_char_def)
qed

lemma render_ok:
  "clean prefix \<Longrightarrow> clean indent \<Longrightarrow> list_all line_ok (render_node subs unreached prefix indent nid n)"
  "clean scoped \<Longrightarrow> clean indent \<Longrightarrow> list_all line_ok (render_branches subs scoped indent k gs)"
  "clean prefix \<Longrightarrow> clean indent \<Longrightarrow> list_all line_ok (render_graph subs prefix indent g)"
  "clean prefix \<Longrightarrow> clean indent \<Longrightarrow> list_all line_ok (render_nodes subs us prefix indent ns)"
proof (induction subs unreached prefix indent nid n and subs scoped indent k gs and subs prefix indent g and subs us prefix indent ns
    rule: render_node_render_branches_render_graph_render_nodes.induct)
  case (1 subs unreached prefix indent nid b k)
  have c: "clean ''    ''" "clean ''__''" "clean ''subgraph_''" "clean ''parallel_''" "clean ''subflow: ''" "clean ''end''" "clean '' -.->|subflow| ''"
    by (simp_all add: clean_char_def)
  show ?case
    using 1 c by (auto simp: node_lines_ok Let_def subgraph_line_ok line_clean split: node_kind.split option.split)
next
  case (3 subs scoped indent k g gs)
  have c: "clean ''    ''" "clean ''        ''" "clean ''_b''" "clean ''__b''" "clean ''__''" "clean ''parallel_''" "clean ''branch ''" "clean ''    end''" "clean '' -.->|branch_''" "clean ''| ''"
    by (simp_all add: clean_char_def)
  show ?case using 3 c by (auto simp: subgraph_line_ok line_clean)
qed simp_all

lemma render_lines_ok: "list_all line_ok (render_lines subs g)"
proof -
  have "line_ok ''graph TD''" "clean ''    ''" by (simp_all add: line_ok_def clean_char_def)
  moreover have "line_ok (''    Start([start]) --> '' @ sanitize_id i)" "line_ok (''    ErrorHandler[global error handler] -.-> '' @ sanitize_id i)" for i
    by (rule line_clean, simp add: clean_char_def)+
  ultimately show ?thesis unfolding render_lines_def by (simp add: render_ok(3))
qed

section \<open>Properties\<close>

text \<open>
  No text of a task breaks out of its label in the chart: whatever the names, the ids and the
  conditions are, every line of the Mermaid text is without markup and has either no double quote
  or the two around a label; the lines are the ones the adapter made, since none holds a line end.
\<close>

theorem chart_text_safe:
  "list_all line_ok (split_on (CHR 0x0A) (render_mermaid_diagram subs g))
   \<and> (case g of None \<Rightarrow> True | Some g1 \<Rightarrow> g_nodes g1 = [] \<or>
        split_on (CHR 0x0A) (render_mermaid_diagram subs g) = render_lines subs g1)"
proof -
  have "split_on (CHR 0x0A) (join_with [CHR 0x0A] (render_lines subs g1)) = render_lines subs g1" for g1
  proof (rule split_join)
    show "list_all (\<lambda>l. CHR 0x0A \<notin> set l) (render_lines subs g1)"
      using render_lines_ok [of subs g1] by (simp add: list_all_iff line_ok_def)
  qed (simp add: render_lines_def)
  then show ?thesis
    using render_lines_ok by (cases g) (simp_all add: render_mermaid_diagram_def line_ok_def)
qed

text \<open>
  The chart and the validator agree on the nodes no walk reaches: for ids that are not words
  for the ends of a flow, \<^verbatim>\<open>find_unreachable_nodes\<close> marks exactly the ids the validator warns of.
\<close>

theorem unreachable_agrees:
  assumes "list_all (\<lambda>i. i \<noteq> [] \<and> i \<notin> set chart_sentinels) (node_ids g)"
    and "validate_graph g \<lparr>vs_budget = b, vs_warnings = Some []\<rparr> = Inr v" and "flat g"
  shows "set (find_unreachable_nodes g) = set (node_ids g) - reachable_ids g
    \<and> vs_warnings v = Some (map (\<lambda>i. i @ '' unreachable from '' @ g_entry g) (sort (find_unreachable_nodes g)))"
proof -
  have ids: "list_all (\<lambda>i. i \<notin> set chart_sentinels) (node_ids g)" using assms(1) by (simp add: list_all_iff)
  note same = chart_edges [OF ids]
  obtain s where s: "search (chart_walk g) (length (chart_ids g)) [] [g_entry g] ([], ()) = Inr s" using chart_total by blast
  have reached: "set (fst s) = reachable_ids g"
    using chart.search_start_reached [OF s] same by (simp add: reachable_ids_def)
  have "g_entry g \<in> set (node_ids g)"
    using validate_accepts_ok [OF assms(2)] by (simp add: max_subflow_depth_def numeral_3_eq_3)
  then have found: "find_unreachable_nodes g = filter (\<lambda>i. i \<notin> reachable_ids g) (node_ids g)"
    using assms(1) s reached by (auto simp: find_unreachable_nodes_def list_all_iff)
  show ?thesis using flat_warnings [OF assms(3,2)] unfolding found unreachable_warnings_def by auto
qed

lemma unreachable_agrees_witness:
  "set (find_unreachable_nodes (sample_flow [(''a'', ''COMPLETE''), (''b'', ''a'')]))
     = {''a'', ''b''} - reachable_ids (sample_flow [(''a'', ''COMPLETE''), (''b'', ''a'')])"
proof -
  let ?g = "sample_flow [(''a'', ''COMPLETE''), (''b'', ''a'')]" and ?v = "\<lparr>vs_budget = None, vs_warnings = Some []\<rparr>"
  have "list_all (\<lambda>i. i \<noteq> [] \<and> i \<notin> set chart_sentinels) (node_ids ?g) \<and> flat ?g \<and> node_ids ?g = [''a'', ''b'']
      \<and> validate_graph ?g ?v = Inr \<lparr>vs_budget = None, vs_warnings = Some [''b unreachable from a'']\<rparr>" by code_simp
  then show ?thesis using unreachable_agrees [of ?g] by fastforce
qed

section \<open>What the chart confuses\<close>

text \<open>Two nodes whose ids differ in a character Mermaid does not take are one node of the chart.\<close>

lemma chart_merges_ids: "sanitize_id ''send-text'' = sanitize_id ''send_text''"
  by code_simp

text \<open>Behind a node called \<^verbatim>\<open>DONE\<close> the validator sees reachable nodes and the chart does not.\<close>

lemma chart_differs:
  "let g = sample_flow [(''a'', ''DONE''), (''DONE'', ''b''), (''b'', ''FAIL'')]
   in validate_graph g \<lparr>vs_budget = None, vs_warnings = Some []\<rparr> = Inr \<lparr>vs_budget = None, vs_warnings = Some []\<rparr>
     \<and> find_unreachable_nodes g = [''DONE'', ''b'']"
  by code_simp

end
