(* ===== verification/Rate_Limiter.thy ===== *)
theory Rate_Limiter
  imports Prelude
begin

text \<open>
  \<^verbatim>\<open>InMemoryRateLimiter\<close> of \<^verbatim>\<open>backend/core/rate_limit.py\<close>. A bucket is a pair of a scope and a
  key; the limiter keeps the attempts of a bucket within the window, until when it is blocked,
  and an LRU order of all buckets, of which it keeps a bounded number. The operations run under
  the lock of the limiter, so that a history is a sequence of them. The last section specifies
  the limiter that never forgets anything, and shows that the sweeps are not seen (\<open>like\<close>).
\<close>

section \<open>State\<close>

type_synonym bucket = "string \<times> string"

record limiter =
  rl_attempts :: "(bucket, time list) odict"
  rl_blocked :: "(bucket, time) odict"
  rl_seen :: "(bucket, time) odict"
  rl_since_sweep :: nat
  rl_max :: nat

definition new_limiter :: "nat \<Rightarrow> limiter" where
  "new_limiter m = \<lparr>rl_attempts = [], rl_blocked = [], rl_seen = [], rl_since_sweep = 0, rl_max = m\<rparr>"

text \<open>\<^verbatim>\<open>_resolve_max_buckets\<close>, from the number in the environment if there is one.\<close>

definition resolve_max_buckets :: "int option \<Rightarrow> int" where
  "resolve_max_buckets raw = (case raw of None \<Rightarrow> 10000 | Some v \<Rightarrow> max 100 (min v 100000))"

definition stale_age :: real where "stale_age = 3600"
definition sweep_interval :: nat where "sweep_interval = 256"

section \<open>Operations\<close>

definition drop_bucket :: "bucket \<Rightarrow> limiter \<Rightarrow> limiter" where
  "drop_bucket b s = s\<lparr>rl_attempts := AList.delete b (rl_attempts s), rl_blocked := AList.delete b (rl_blocked s),
     rl_seen := AList.delete b (rl_seen s)\<rparr>"

definition reset :: "bucket \<Rightarrow> limiter \<Rightarrow> limiter" where
  "reset b s = drop_bucket b s"

definition discard_latest_attempt :: "bucket \<Rightarrow> limiter \<Rightarrow> limiter" where
  "discard_latest_attempt b s =
     (let xs = look (rl_attempts s) b []
      in if xs = [] then s
         else s\<lparr>rl_attempts := (if butlast xs = [] then AList.delete b (rl_attempts s)
                                else AList.update b (butlast xs) (rl_attempts s))\<rparr>)"

definition reset_all :: "limiter \<Rightarrow> limiter" where
  "reset_all s = s\<lparr>rl_attempts := [], rl_blocked := [], rl_seen := [], rl_since_sweep := 0\<rparr>"

definition sweep_expired :: "time \<Rightarrow> limiter \<Rightarrow> limiter" where
  "sweep_expired now s =
     (let att = filter (\<lambda>(b, xs). xs \<noteq> [] \<and> \<not> last xs \<le> now - stale_age) (rl_attempts s);
          blk = filter (\<lambda>(b, u). \<not> u \<le> now) (rl_blocked s)
      in s\<lparr>rl_attempts := att, rl_blocked := blk,
           rl_seen := filter (\<lambda>(b, t). \<not> (b \<notin> fst ` set att \<and> b \<notin> fst ` set blk)) (rl_seen s)\<rparr>)"

text \<open>One pass over the buckets, oldest first, that drops those it may until few enough are left.\<close>

fun evict :: "nat \<Rightarrow> (bucket \<Rightarrow> limiter \<Rightarrow> bool) \<Rightarrow> bucket list \<Rightarrow> limiter \<Rightarrow> limiter" where
  "evict target skip [] s = s"
| "evict target skip (b # bs) s =
     (if length (rl_seen s) \<le> target then s
      else if skip b s then evict target skip bs s
      else evict target skip bs (drop_bucket b s))"

definition prune_capacity :: "time \<Rightarrow> bucket \<Rightarrow> limiter \<Rightarrow> limiter" where
  "prune_capacity now keep s =
     (let s1 = sweep_expired now s; target = rl_max s * 9 div 10
      in if length (rl_seen s1) < rl_max s then s1
         else (let s2 = evict target (\<lambda>b s. b = keep \<or> look (rl_blocked s) b 0 > now) (map fst (rl_seen s1)) s1
               in if length (rl_seen s2) \<ge> rl_max s then evict target (\<lambda>b s. b = keep) (map fst (rl_seen s2)) s2
                  else s2))"

datatype limit_verdict = Admitted | Rejected nat

record rule =
  ru_max :: int
  ru_window :: int
  ru_block :: int

text \<open>What every hit does first: count it, sweep from time to time, make room, and note the bucket.\<close>

definition count_hit :: "time \<Rightarrow> limiter \<Rightarrow> limiter" where
  "count_hit now s = (if Suc (rl_since_sweep s) \<ge> sweep_interval then sweep_expired now (s\<lparr>rl_since_sweep := 0\<rparr>)
     else s\<lparr>rl_since_sweep := Suc (rl_since_sweep s)\<rparr>)"

definition make_room :: "bucket \<Rightarrow> time \<Rightarrow> limiter \<Rightarrow> limiter" where
  "make_room b now s = (if length (rl_seen s) \<ge> rl_max s then prune_capacity now b s else s)"

definition touch :: "bucket \<Rightarrow> time \<Rightarrow> limiter \<Rightarrow> limiter" where
  "touch b now s =
     (let s1 = make_room b now (count_hit now s)
      in s1\<lparr>rl_seen := od_move_to_end b (AList.update b now (rl_seen s1))\<rparr>)"

definition attempts_now :: "rule \<Rightarrow> time \<Rightarrow> time list \<Rightarrow> time list" where
  "attempts_now r now xs =
     (let ys = dropWhile (\<lambda>t. t \<le> now - real_of_int (max (ru_window r) 1)) xs @ [now]
      in if int (length ys) > max (ru_max r) 1 + 2 then tl ys else ys)"

definition hit :: "rule \<Rightarrow> bucket \<Rightarrow> time \<Rightarrow> limiter \<Rightarrow> limit_verdict \<times> limiter" where
  "hit r b now s =
     (let s1 = touch b now s; until = look (rl_blocked s1) b 0
      in if until > now then (Rejected (nat (max \<lceil>until - now\<rceil> 1)), s1)
         else (let xs = attempts_now r now (look (rl_attempts s1) b [])
               in if int (length xs) \<le> max (ru_max r) 1
                  then (Admitted, s1\<lparr>rl_attempts := AList.update b xs (rl_attempts s1)\<rparr>)
                  else (let retry = max (ru_block r) 1
                        in (Rejected (nat retry), s1\<lparr>rl_attempts := AList.update b [] (rl_attempts s1),
                              rl_blocked := AList.update b (now + of_int retry) (rl_blocked s1)\<rparr>))))"

section \<open>Histories\<close>

datatype rl_op = Hit rule bucket time | Reset bucket | Discard bucket | ResetAll

definition rl_exec :: "rl_op \<Rightarrow> limiter \<Rightarrow> limit_verdict option \<times> limiter" where
  "rl_exec op s = (case op of Hit r b now \<Rightarrow> (case hit r b now s of (v, s1) \<Rightarrow> (Some v, s1))
     | Reset b \<Rightarrow> (None, reset b s) | Discard b \<Rightarrow> (None, discard_latest_attempt b s) | ResetAll \<Rightarrow> (None, reset_all s))"

fun rl_run :: "rl_op list \<Rightarrow> limiter \<Rightarrow> limit_verdict option list \<times> limiter" where
  "rl_run [] s = ([], s)"
| "rl_run (op # ops) s = (case rl_exec op s of (v, s1) \<Rightarrow> (case rl_run ops s1 of (vs, s2) \<Rightarrow> (v # vs, s2)))"

section \<open>Bounded memory\<close>

text \<open>Every bucket with attempts or a block is in the LRU order, which is never longer than allowed.\<close>

definition limiter_wf :: "limiter \<Rightarrow> bool" where
  "limiter_wf s \<longleftrightarrow> od_wf (rl_attempts s) \<and> od_wf (rl_blocked s) \<and> od_wf (rl_seen s)
     \<and> fst ` set (rl_attempts s) \<union> fst ` set (rl_blocked s) \<subseteq> fst ` set (rl_seen s)"

definition bounded :: "limiter \<Rightarrow> bool" where
  "bounded s \<longleftrightarrow> length (rl_seen s) \<le> max 1 (rl_max s)"

lemma drop_simps [simp]:
  "rl_max (drop_bucket b s) = rl_max s" "rl_seen (drop_bucket b s) = AList.delete b (rl_seen s)"
  "rl_attempts (drop_bucket b s) = AList.delete b (rl_attempts s)" "rl_blocked (drop_bucket b s) = AList.delete b (rl_blocked s)"
  by (simp_all add: drop_bucket_def)

lemma drop_wf: "limiter_wf s \<Longrightarrow> limiter_wf (drop_bucket b s)"
  by (auto simp: limiter_wf_def od_keys_delete)

lemma filter_wf: "od_wf d \<Longrightarrow> od_wf (filter P d)"
  by (rule distinct_map_filter)

lemma keys_filter: "fst ` set (filter (\<lambda>(k, v). P k) d) = {k \<in> fst ` set d. P k}"
  by force

lemma sweep_fields:
  "rl_attempts (sweep_expired now s) = filter (\<lambda>(b, xs). xs \<noteq> [] \<and> \<not> last xs \<le> now - stale_age) (rl_attempts s)"
  "rl_blocked (sweep_expired now s) = filter (\<lambda>(b, u). \<not> u \<le> now) (rl_blocked s)"
  "rl_seen (sweep_expired now s) = filter (\<lambda>(b, t). b \<in> fst ` set (rl_attempts (sweep_expired now s))
     \<union> fst ` set (rl_blocked (sweep_expired now s))) (rl_seen s)"
  by (simp_all add: sweep_expired_def Let_def)

lemma sweep_keys:
  assumes "limiter_wf s"
  shows "fst ` set (rl_attempts (sweep_expired now s)) \<union> fst ` set (rl_blocked (sweep_expired now s))
    \<subseteq> fst ` set (rl_seen (sweep_expired now s))"
proof
  fix k
  define A where "A = fst ` set (rl_attempts (sweep_expired now s)) \<union> fst ` set (rl_blocked (sweep_expired now s))"
  assume "k \<in> fst ` set (rl_attempts (sweep_expired now s)) \<union> fst ` set (rl_blocked (sweep_expired now s))"
  then have k: "k \<in> A" by (simp only: A_def)
  have "A \<subseteq> fst ` set (rl_attempts s) \<union> fst ` set (rl_blocked s)" unfolding A_def sweep_fields(1,2) by auto
  also have "\<dots> \<subseteq> fst ` set (rl_seen s)" using assms unfolding limiter_wf_def by (elim conjE)
  finally have "k \<in> {k \<in> fst ` set (rl_seen s). k \<in> A}" using k by (simp only: mem_Collect_eq subsetD)
  then show "k \<in> fst ` set (rl_seen (sweep_expired now s))"
    unfolding sweep_fields(3) [of now s, folded A_def] keys_filter .
qed

lemma sweep_wf:
  assumes "limiter_wf s"
  shows "limiter_wf (sweep_expired now s)"
proof -
  have d: "od_wf (rl_attempts s)" "od_wf (rl_blocked s)" "od_wf (rl_seen s)" using assms unfolding limiter_wf_def by simp_all
  have "od_wf (rl_attempts (sweep_expired now s))" unfolding sweep_fields(1) by (rule filter_wf [OF d(1)])
  moreover have "od_wf (rl_blocked (sweep_expired now s))" unfolding sweep_fields(2) by (rule filter_wf [OF d(2)])
  moreover have "od_wf (rl_seen (sweep_expired now s))" by (subst sweep_fields(3)) (rule filter_wf [OF d(3)])
  ultimately show ?thesis using sweep_keys [OF assms] unfolding limiter_wf_def by simp
qed

lemma sweep_simps [simp]: "rl_max (sweep_expired now s) = rl_max s" "length (rl_seen (sweep_expired now s)) \<le> length (rl_seen s)"
  by (simp_all add: sweep_expired_def Let_def)

lemma evict_wf: "limiter_wf s \<Longrightarrow> limiter_wf (evict target skip bs s)"
  by (induction bs arbitrary: s) (simp_all add: drop_wf)

lemma evict_simps [simp]:
  "rl_max (evict target skip bs s) = rl_max s" "length (rl_seen (evict target skip bs s)) \<le> length (rl_seen s)"
proof -
  show "rl_max (evict target skip bs s) = rl_max s" by (induction bs arbitrary: s) auto
  show "length (rl_seen (evict target skip bs s)) \<le> length (rl_seen s)"
  proof (induction bs arbitrary: s)
    case (Cons b bs)
    have "length (rl_seen (evict target skip bs (drop_bucket b s))) \<le> length (rl_seen (drop_bucket b s))" by (rule Cons.IH)
    also have "\<dots> \<le> length (rl_seen s)" unfolding drop_simps by (rule od_length_delete_le)
    finally show ?case using Cons.IH by simp
  qed simp
qed

text \<open>A pass that spares one bucket only leaves few enough, or that bucket alone.\<close>

lemma evict_spares:
  "fst ` set (rl_seen s) \<subseteq> insert keep (set bs) \<Longrightarrow>
   length (rl_seen (evict target (\<lambda>b s. b = keep) bs s)) \<le> target
   \<or> fst ` set (rl_seen (evict target (\<lambda>b s. b = keep) bs s)) \<subseteq> {keep}"
proof (induction bs arbitrary: s)
  case (Cons b bs)
  have "fst ` set (rl_seen (drop_bucket b s)) \<subseteq> insert keep (set bs)" using Cons.prems by (auto simp: od_keys_delete)
  moreover have "b = keep \<Longrightarrow> fst ` set (rl_seen s) \<subseteq> insert keep (set bs)" using Cons.prems by auto
  ultimately show ?case using Cons.IH by auto
qed auto

lemma prune_wf: "limiter_wf s \<Longrightarrow> limiter_wf (prune_capacity now keep s)"
  by (simp add: prune_capacity_def Let_def sweep_wf evict_wf)

lemma prune_max [simp]: "rl_max (prune_capacity now keep s) = rl_max s"
  by (simp add: prune_capacity_def Let_def)

lemma prune_small:
  assumes "limiter_wf s"
  shows "length (rl_seen (prune_capacity now keep s)) < rl_max s \<or> fst ` set (rl_seen (prune_capacity now keep s)) \<subseteq> {keep}"
proof -
  let ?p = "prune_capacity now keep s" and ?t = "rl_max s * 9 div 10"
  have "length (rl_seen ?p) < rl_max s \<or> (\<exists>s2. ?p = evict ?t (\<lambda>b s. b = keep) (map fst (rl_seen s2)) s2)"
    by (auto simp: prune_capacity_def Let_def)
  then show ?thesis
  proof (elim disjE exE)
    fix s2
    assume "?p = evict ?t (\<lambda>b s. b = keep) (map fst (rl_seen s2)) s2"
    then have "length (rl_seen ?p) \<le> ?t \<or> fst ` set (rl_seen ?p) \<subseteq> {keep}" using evict_spares [of s2 keep "map fst (rl_seen s2)" ?t] by auto
    moreover have "?t < rl_max s \<or> ?t = 0" by auto
    ultimately show ?thesis by auto
  qed simp
qed

lemma since_wf: "limiter_wf (s\<lparr>rl_since_sweep := n\<rparr>) = limiter_wf s"
  by (simp add: limiter_wf_def)

lemma count_hit_simps [simp]:
  "rl_max (count_hit now s) = rl_max s" "length (rl_seen (count_hit now s)) \<le> length (rl_seen s)"
  "limiter_wf s \<Longrightarrow> limiter_wf (count_hit now s)"
  using sweep_simps(2) [of now "s\<lparr>rl_since_sweep := 0\<rparr>"] by (simp_all add: count_hit_def sweep_wf since_wf)

lemma make_room_simps [simp]:
  "rl_max (make_room b now s) = rl_max s" "limiter_wf s \<Longrightarrow> limiter_wf (make_room b now s)"
  by (simp_all add: make_room_def prune_wf)

lemma touch_wf: "limiter_wf s \<Longrightarrow> limiter_wf (touch b now s)"
proof -
  have "limiter_wf (s\<lparr>rl_seen := od_move_to_end b (AList.update b now (rl_seen s))\<rparr>)" if "limiter_wf s" for s :: limiter
    using that by (auto simp: limiter_wf_def od_keys_move od_keys_update od_wf_move od_wf_update)
  then show "limiter_wf s \<Longrightarrow> limiter_wf (touch b now s)" by (simp add: touch_def Let_def)
qed

lemma touch_bounded:
  assumes "limiter_wf s"
  shows "bounded (touch b now s)"
proof -
  define s3 where "s3 = make_room b now (count_hit now s)"
  have wf3: "limiter_wf s3" "rl_max s3 = rl_max s" using assms by (simp_all add: s3_def)
  have small: "length (rl_seen s3) < rl_max s \<or> fst ` set (rl_seen s3) \<subseteq> {b}"
    using prune_small [of "count_hit now s" now b] assms by (auto simp: s3_def make_room_def)
  have "length (rl_seen s3) \<le> card {b}" if "fst ` set (rl_seen s3) \<subseteq> {b}"
    using card_mono [OF _ that] wf3(1) by (metis distinct_card finite.emptyI finite.insertI length_map limiter_wf_def set_map)
  moreover have "rl_seen s3 = [] \<or> b \<in> fst ` set (rl_seen s3)" if "fst ` set (rl_seen s3) \<subseteq> {b}"
    using that by (cases "rl_seen s3") auto
  ultimately have "length (AList.update b now (rl_seen s3)) \<le> max 1 (rl_max s)"
    using small by (auto simp: od_length_update)
  moreover have "touch b now s = s3\<lparr>rl_seen := od_move_to_end b (AList.update b now (rl_seen s3))\<rparr>"
    by (simp add: touch_def Let_def s3_def)
  ultimately show ?thesis using wf3 by (simp add: bounded_def limiter_wf_def)
qed

lemma hit_touch: "rl_seen (snd (hit r b now s)) = rl_seen (touch b now s)" "rl_max (snd (hit r b now s)) = rl_max (touch b now s)"
  by (simp_all add: hit_def Let_def)

lemma touch_max [simp]: "rl_max (touch b now s) = rl_max s"
  by (simp add: touch_def Let_def)

lemma touch_key: "b \<in> fst ` set (rl_seen (touch b now s))"
  by (simp add: touch_def Let_def od_keys_move od_keys_update)

lemma hit_wf: "limiter_wf s \<Longrightarrow> limiter_wf (snd (hit r b now s))"
  using touch_wf [of s b now] touch_key [of b now s]
  by (auto simp: hit_def Let_def limiter_wf_def od_keys_update)

lemma hit_bounded: "limiter_wf s \<Longrightarrow> bounded (snd (hit r b now s))"
  using touch_bounded by (simp add: bounded_def hit_touch)

section \<open>What is kept of a bucket\<close>

lemma map_of_filter: "od_wf d \<Longrightarrow> map_of (filter (\<lambda>(k, v). P k v) d) j
    = (case map_of d j of None \<Rightarrow> None | Some v \<Rightarrow> if P j v then Some v else None)"
  by (induction d) (auto split: option.splits simp: map_of_eq_None_iff)

lemma look_delete [simp]: "look (AList.delete k d) j z = (if j = k then z else look d j z)"
  by (simp add: look_def od_map_of_delete)

lemma look_sweep:
  assumes "limiter_wf s"
  shows "look (rl_attempts (sweep_expired now s)) b [] =
      (if last (look (rl_attempts s) b []) \<le> now - stale_age then [] else look (rl_attempts s) b [])"
    and "look (rl_blocked (sweep_expired now s)) b 0 = (if look (rl_blocked s) b 0 \<le> now then 0 else look (rl_blocked s) b 0)"
  using assms map_of_filter [of "rl_attempts s" "\<lambda>b xs. xs \<noteq> [] \<and> \<not> last xs \<le> now - stale_age" b]
    map_of_filter [of "rl_blocked s" "\<lambda>b u. \<not> u \<le> now" b]
  unfolding sweep_fields limiter_wf_def look_def by (auto split: option.splits)

definition short :: "nat \<Rightarrow> limiter \<Rightarrow> bool" where
  "short n s \<longleftrightarrow> (\<forall>b. length (look (rl_attempts s) b []) \<le> n)"

lemma shortD: "short n s \<Longrightarrow> length (look (rl_attempts s) b []) \<le> n"
  unfolding short_def by (erule allE)

lemma evict_look: "look (rl_attempts (evict target skip bs s)) b [] \<in> {look (rl_attempts s) b [], []}"
proof (induction bs arbitrary: s)
  case (Cons c bs)
  have "look (rl_attempts (drop_bucket c s)) b [] \<in> {look (rl_attempts s) b [], []}" by simp
  with Cons.IH [of s] Cons.IH [of "drop_bucket c s"] show ?case by auto
qed simp

lemma sweep_look: "limiter_wf s \<Longrightarrow> look (rl_attempts (sweep_expired now s)) b [] \<in> {look (rl_attempts s) b [], []}"
  by (simp add: look_sweep(1))

lemma prune_look:
  assumes "limiter_wf s"
  shows "look (rl_attempts (prune_capacity now keep s)) b [] \<in> {look (rl_attempts s) b [], []}"
proof -
  let ?s = "sweep_expired now s"
  have "\<exists>t f xs h ys. prune_capacity now keep s \<in> {?s, evict t f xs ?s, evict t h ys (evict t f xs ?s)}"
    unfolding prune_capacity_def Let_def by (simp only: insert_iff split: if_split) blast
  then obtain t f xs h ys where "prune_capacity now keep s \<in> {?s, evict t f xs ?s, evict t h ys (evict t f xs ?s)}" by blast
  then show ?thesis
    using sweep_look [OF assms, of now b] evict_look [of t f xs ?s b] evict_look [of t h ys "evict t f xs ?s" b] by auto
qed

lemma touch_look:
  assumes "limiter_wf s"
  shows "look (rl_attempts (touch b now s)) c [] \<in> {look (rl_attempts s) c [], []}"
proof -
  have "look (rl_attempts (count_hit now s)) c [] \<in> {look (rl_attempts s) c [], []}"
    using assms sweep_look [of "s\<lparr>rl_since_sweep := 0\<rparr>" now c] by (simp add: count_hit_def since_wf)
  moreover have "look (rl_attempts (make_room b now s1)) c [] \<in> {look (rl_attempts s1) c [], []}" if "limiter_wf s1" for s1
    using prune_look [OF that] by (simp add: make_room_def)
  ultimately show ?thesis using assms count_hit_simps(3) [of s now] by (fastforce simp: touch_def Let_def)
qed

text \<open>The attempts a hit stores, and how many.\<close>

lemma hit_look:
  "rl_attempts (snd (hit r b now s)) = rl_attempts (touch b now s)
   \<or> (\<exists>xs. int (length xs) \<le> max (ru_max r) 1 \<and> rl_attempts (snd (hit r b now s)) = AList.update b xs (rl_attempts (touch b now s)))"
  by (simp add: hit_def Let_def) (metis int_ops(1) list.size(3) max.coboundedI2 zero_le_one)

lemma hit_short:
  assumes "limiter_wf s" and "short n s" and "max (ru_max r) 1 \<le> int n"
  shows "short n (snd (hit r b now s))"
  unfolding short_def
proof
  fix c
  have "length (look (rl_attempts (touch b now s)) c []) \<le> n"
    using touch_look [OF assms(1), of b now c] shortD [OF assms(2), of c] by auto
  then show "length (look (rl_attempts (snd (hit r b now s))) c []) \<le> n" using hit_look [of r b now s] assms(3) by auto
qed

lemma look_discard:
  "look (rl_attempts (discard_latest_attempt b s)) c [] =
     (if c = b then butlast (look (rl_attempts s) b []) else look (rl_attempts s) c [])"
  by (simp add: discard_latest_attempt_def Let_def)

lemma discard_rest [simp]:
  "rl_blocked (discard_latest_attempt b s) = rl_blocked s" "rl_seen (discard_latest_attempt b s) = rl_seen s"
  "rl_max (discard_latest_attempt b s) = rl_max s"
  by (simp_all add: discard_latest_attempt_def Let_def)

lemma discard_wf: "limiter_wf s \<Longrightarrow> limiter_wf (discard_latest_attempt b s)"
proof -
  assume wf: "limiter_wf s"
  have "b \<in> fst ` set (rl_attempts s)" if "look (rl_attempts s) b [] \<noteq> []"
    using that od_map_of_None_iff [of "rl_attempts s" b] by (auto simp: look_def split: option.splits)
  then have "fst ` set (rl_attempts (discard_latest_attempt b s)) \<subseteq> fst ` set (rl_attempts s)"
    by (auto simp: discard_latest_attempt_def Let_def od_keys_delete od_keys_update)
  moreover have "od_wf (rl_attempts (discard_latest_attempt b s))"
    using wf by (simp add: discard_latest_attempt_def Let_def limiter_wf_def od_wf_delete od_wf_update)
  ultimately show ?thesis using wf unfolding limiter_wf_def discard_rest Un_subset_iff by (meson subset_trans)
qed

lemma exec_inv:
  assumes "limiter_wf s \<and> bounded s \<and> short n s"
    and "case op of Hit r b t \<Rightarrow> max (ru_max r) 1 \<le> int n | _ \<Rightarrow> True"
  shows "limiter_wf (snd (rl_exec op s)) \<and> bounded (snd (rl_exec op s)) \<and> short n (snd (rl_exec op s)) \<and> rl_max (snd (rl_exec op s)) = rl_max s"
proof (cases op)
  case (Hit r b t)
  have "snd (rl_exec op s) = snd (hit r b t s)" by (simp add: Hit rl_exec_def split: prod.split)
  then show ?thesis using assms Hit hit_wf hit_bounded hit_short by (simp add: hit_touch)
next
  case (Reset b)
  have "length (AList.delete b (rl_seen s)) \<le> max 1 (rl_max s)"
    using assms(1) le_trans [OF od_length_delete_le [of b "rl_seen s"]] by (simp add: bounded_def)
  then show ?thesis using assms(1) drop_wf by (simp add: Reset rl_exec_def reset_def bounded_def short_def)
next
  case (Discard b)
  have "short n (discard_latest_attempt b s)"
    unfolding short_def look_discard using shortD [of n s] assms(1) le_trans [OF diff_le_self] by auto
  then show ?thesis using assms(1) discard_wf by (simp add: Discard rl_exec_def bounded_def)
next
  case ResetAll
  then show ?thesis using assms(1) by (simp add: rl_exec_def reset_all_def limiter_wf_def bounded_def short_def)
qed

section \<open>The limiter that never forgets\<close>

record ideal =
  il_attempts :: "bucket \<Rightarrow> time list"
  il_blocked :: "bucket \<Rightarrow> time"

definition new_ideal :: ideal where
  "new_ideal = \<lparr>il_attempts = (\<lambda>b. []), il_blocked = (\<lambda>b. 0)\<rparr>"

definition ideal_hit :: "rule \<Rightarrow> bucket \<Rightarrow> time \<Rightarrow> ideal \<Rightarrow> limit_verdict \<times> ideal" where
  "ideal_hit r b now i =
     (if il_blocked i b > now then (Rejected (nat (max \<lceil>il_blocked i b - now\<rceil> 1)), i)
      else (let xs = attempts_now r now (il_attempts i b)
            in if int (length xs) \<le> max (ru_max r) 1 then (Admitted, i\<lparr>il_attempts := (il_attempts i)(b := xs)\<rparr>)
               else (let retry = max (ru_block r) 1
                     in (Rejected (nat retry), i\<lparr>il_attempts := (il_attempts i)(b := []),
                           il_blocked := (il_blocked i)(b := now + of_int retry)\<rparr>))))"

definition ideal_exec :: "rl_op \<Rightarrow> ideal \<Rightarrow> limit_verdict option \<times> ideal" where
  "ideal_exec op i = (case op of Hit r b now \<Rightarrow> (case ideal_hit r b now i of (v, i1) \<Rightarrow> (Some v, i1))
     | Reset b \<Rightarrow> (None, \<lparr>il_attempts = (il_attempts i)(b := []), il_blocked = (il_blocked i)(b := 0)\<rparr>)
     | Discard b \<Rightarrow> (None, i\<lparr>il_attempts := (il_attempts i)(b := butlast (il_attempts i b))\<rparr>)
     | ResetAll \<Rightarrow> (None, new_ideal))"

fun ideal_run :: "rl_op list \<Rightarrow> ideal \<Rightarrow> limit_verdict option list \<times> ideal" where
  "ideal_run [] i = ([], i)"
| "ideal_run (op # ops) i = (case ideal_exec op i of (v, i1) \<Rightarrow> (case ideal_run ops i1 of (vs, i2) \<Rightarrow> (v # vs, i2)))"

text \<open>Two lists of attempts and two blocks that no later operation tells apart.\<close>

definition fresh :: "time \<Rightarrow> time list \<Rightarrow> time list" where
  "fresh now xs = dropWhile (\<lambda>t. t \<le> now - stale_age) xs"

definition past :: "time \<Rightarrow> time list \<Rightarrow> bool" where
  "past now xs \<longleftrightarrow> sorted xs \<and> list_all (\<lambda>t. t \<le> now) xs"

definition like :: "time \<Rightarrow> limiter \<Rightarrow> ideal \<Rightarrow> bool" where
  "like now s i \<longleftrightarrow> (\<forall>b. past now (look (rl_attempts s) b []) \<and> past now (il_attempts i b)
     \<and> fresh now (look (rl_attempts s) b []) = fresh now (il_attempts i b)
     \<and> max now (look (rl_blocked s) b 0) = max now (il_blocked i b))"

lemma dropWhile_later: "(\<And>x. P x \<Longrightarrow> Q x) \<Longrightarrow> dropWhile Q (dropWhile P xs) = dropWhile Q xs"
  by (induction xs) auto

lemma dropWhile_butlast: "dropWhile P (butlast xs) = butlast (dropWhile P xs)"
proof (induction xs)
  case (Cons x xs)
  then show ?case by (cases "P x"; cases xs) auto
qed simp

lemma fresh_later: "now \<le> t \<Longrightarrow> fresh t (fresh now xs) = fresh t xs"
  unfolding fresh_def by (rule dropWhile_later) simp

lemma le_last: "sorted xs \<Longrightarrow> x \<in> set xs \<Longrightarrow> x \<le> last xs"
  by (induction xs) auto

lemma fresh_stale: "past now xs \<Longrightarrow> last xs \<le> now - stale_age \<Longrightarrow> fresh now xs = []"
  using le_last [of xs] by (fastforce simp: fresh_def past_def dropWhile_eq_Nil_conv)

lemma past_later: "past now xs \<Longrightarrow> now \<le> t \<Longrightarrow> past t xs"
  by (auto simp: past_def list_all_iff)

lemma like_later:
  assumes "like now s i" and "now \<le> t"
  shows "like t s i"
  unfolding like_def
proof
  fix b
  have b: "past now (look (rl_attempts s) b [])" "past now (il_attempts i b)"
    "fresh now (look (rl_attempts s) b []) = fresh now (il_attempts i b)"
    "max now (look (rl_blocked s) b 0) = max now (il_blocked i b)" using assms(1) unfolding like_def by blast+
  have "fresh t (look (rl_attempts s) b []) = fresh t (il_attempts i b)"
    using b(3) fresh_later [OF assms(2)] by metis
  moreover have "max t (look (rl_blocked s) b 0) = max t (il_blocked i b)" using b(4) assms(2) by linarith
  ultimately show "past t (look (rl_attempts s) b []) \<and> past t (il_attempts i b)
     \<and> fresh t (look (rl_attempts s) b []) = fresh t (il_attempts i b)
     \<and> max t (look (rl_blocked s) b 0) = max t (il_blocked i b)"
    using past_later [OF b(1) assms(2)] past_later [OF b(2) assms(2)] by blast
qed

text \<open>A sweep is not seen.\<close>

lemma like_sweep:
  assumes "limiter_wf s" and "0 \<le> now" and "like now s i"
  shows "like now (sweep_expired now s) i"
  unfolding like_def look_sweep [OF assms(1)]
proof
  fix b
  have b: "past now (look (rl_attempts s) b [])" "past now (il_attempts i b)"
    "fresh now (look (rl_attempts s) b []) = fresh now (il_attempts i b)"
    "max now (look (rl_blocked s) b 0) = max now (il_blocked i b)" using assms(3) unfolding like_def by blast+
  have "past now []" "fresh now [] = []" by (simp_all add: past_def fresh_def)
  moreover have "max now (if look (rl_blocked s) b 0 \<le> now then 0 else look (rl_blocked s) b 0) = max now (il_blocked i b)"
    using b(4) assms(2) by (auto simp: max_def split: if_splits)
  ultimately show "past now (if last (look (rl_attempts s) b []) \<le> now - stale_age then [] else look (rl_attempts s) b [])
    \<and> past now (il_attempts i b)
    \<and> fresh now (if last (look (rl_attempts s) b []) \<le> now - stale_age then [] else look (rl_attempts s) b []) = fresh now (il_attempts i b)
    \<and> max now (if look (rl_blocked s) b 0 \<le> now then 0 else look (rl_blocked s) b 0) = max now (il_blocked i b)"
    using b(1-3) fresh_stale [OF b(1)] by simp
qed

text \<open>Neither is anything a hit does first, while there is room for all buckets.\<close>

lemma like_touch:
  assumes "limiter_wf s" and "0 \<le> now" and "like now s i" and "length (rl_seen s) < rl_max s"
  shows "like now (touch b now s) i"
proof -
  have only: "like now s' i \<longleftrightarrow> like now s'' i"
    if "rl_attempts s' = rl_attempts s''" "rl_blocked s' = rl_blocked s''" for s' s'' :: limiter
    using that unfolding like_def by simp
  have "length (rl_seen (count_hit now s)) < rl_max (count_hit now s)"
    using assms(4) le_less_trans [OF count_hit_simps(2)] by simp
  then have "touch b now s = (count_hit now s)\<lparr>rl_seen := od_move_to_end b (AList.update b now (rl_seen (count_hit now s)))\<rparr>"
    by (simp add: touch_def make_room_def Let_def)
  then have "like now (touch b now s) i \<longleftrightarrow> like now (count_hit now s) i" by (intro only) simp_all
  moreover have "like now (s\<lparr>rl_since_sweep := n\<rparr>) i" for n using assms(3) only [of "s\<lparr>rl_since_sweep := n\<rparr>" s] by simp
  then have "like now (count_hit now s) i" using like_sweep assms(1,2) by (simp add: count_hit_def since_wf)
  ultimately show ?thesis by simp
qed

lemma attempts_fresh:
  assumes "ru_window r \<le> 3600"
  shows "attempts_now r now (fresh now xs) = attempts_now r now xs"
  using assms unfolding attempts_now_def fresh_def stale_age_def
  by (subst dropWhile_later) auto

lemma sorted_drop: "sorted xs \<Longrightarrow> sorted (dropWhile P xs)"
  by (induction xs) auto

lemma past_attempts:
  assumes "past now xs"
  shows "past now (attempts_now r now xs)"
proof -
  let ?ys = "dropWhile (\<lambda>t. t \<le> now - real_of_int (max (ru_window r) 1)) xs"
  have "past now (?ys @ [now])"
    using assms sorted_drop by (auto simp: past_def list_all_iff sorted_append dest: set_dropWhileD)
  moreover have "past now (tl zs)" if "past now zs" for zs
    using that by (cases zs) (auto simp: past_def)
  ultimately show ?thesis by (simp add: attempts_now_def Let_def)
qed

lemma like_update:
  assumes "like now s i" and "past now xs"
  shows "like now (s\<lparr>rl_attempts := AList.update b xs (rl_attempts s)\<rparr>) (i\<lparr>il_attempts := (il_attempts i)(b := xs)\<rparr>)"
  using assms unfolding like_def by simp

lemma like_block:
  "like now s i \<Longrightarrow> like now (s\<lparr>rl_blocked := AList.update b u (rl_blocked s)\<rparr>) (i\<lparr>il_blocked := (il_blocked i)(b := u)\<rparr>)"
  unfolding like_def by simp

lemma like_hit:
  assumes "limiter_wf s" and "0 \<le> now" and "like now s i" and "length (rl_seen s) < rl_max s" and "ru_window r \<le> 3600"
  shows "fst (hit r b now s) = fst (ideal_hit r b now i) \<and> like now (snd (hit r b now s)) (snd (ideal_hit r b now i))"
proof -
  let ?s = "touch b now s"
  note t = like_touch [OF assms(1-4), of b]
  then have b: "past now (look (rl_attempts ?s) b [])"
    "fresh now (look (rl_attempts ?s) b []) = fresh now (il_attempts i b)"
    "max now (look (rl_blocked ?s) b 0) = max now (il_blocked i b)" unfolding like_def by blast+
  have until: "(look (rl_blocked ?s) b 0 > now) = (il_blocked i b > now)"
    "look (rl_blocked ?s) b 0 > now \<Longrightarrow> look (rl_blocked ?s) b 0 = il_blocked i b" using b(3) by linarith+
  have att: "attempts_now r now (look (rl_attempts ?s) b []) = attempts_now r now (il_attempts i b)"
    using attempts_fresh [OF assms(5), of now] b(2) by metis
  show ?thesis
  proof (cases "il_blocked i b > now")
    case True
    then show ?thesis using until t by (simp add: hit_def ideal_hit_def Let_def)
  next
    case False
    let ?xs = "attempts_now r now (il_attempts i b)"
    have "past now ?xs" using past_attempts [OF b(1), of r] att by simp
    note upd = like_update [OF t this, of b] and nil = like_update [OF t, of "[]" b, simplified]
    have "past now []" by (simp add: past_def)
    note blk = like_block [OF like_update [OF t this, of b], of b "now + of_int (max (ru_block r) 1)"]
    show ?thesis using False until att upd blk by (simp add: hit_def ideal_hit_def Let_def)
  qed
qed

end
