(* ===== verification/Rate_Limiter_Props.thy ===== *)
theory Rate_Limiter_Props
  imports Rate_Limiter
begin

text \<open>
  What the rate limiter promises: its memory is bounded by the number of buckets it may keep, and
  below that number it is the limiter that never forgets (\<open>like_hit\<close>, over whole histories), so
  that no bucket has more admitted attempts in a window than its rule allows and a refused client
  that waits as long as it was told is admitted.
\<close>

section \<open>Histories in time\<close>

fun timed :: "time \<Rightarrow> rl_op list \<Rightarrow> bool" where
  "timed t [] = True"
| "timed t (op # ops) = (case op of Hit r b now \<Rightarrow> t \<le> now \<and> ru_window r \<le> 3600 \<and> timed now ops | _ \<Rightarrow> timed t ops)"

definition hit_buckets :: "rl_op list \<Rightarrow> bucket list" where
  "hit_buckets ops = concat (map (\<lambda>op. case op of Hit r b t \<Rightarrow> [b] | _ \<Rightarrow> []) ops)"

lemma hit_buckets_simps [simp]:
  "hit_buckets [] = []"
  "hit_buckets (op # ops) = (case op of Hit r b t \<Rightarrow> b # hit_buckets ops | _ \<Rightarrow> hit_buckets ops)"
  by (simp_all add: hit_buckets_def split: rl_op.split)

lemma hit_buckets_append: "hit_buckets (ops @ ops1) = hit_buckets ops @ hit_buckets ops1"
  by (simp add: hit_buckets_def)

section \<open>The order of the buckets\<close>

lemma run_steps [simp]:
  "fst (rl_run (op # ops) s) = fst (rl_exec op s) # fst (rl_run ops (snd (rl_exec op s)))"
  "snd (rl_run (op # ops) s) = snd (rl_run ops (snd (rl_exec op s)))"
  "fst (ideal_run (op # ops) i) = fst (ideal_exec op i) # fst (ideal_run ops (snd (ideal_exec op i)))"
  "snd (ideal_run (op # ops) i) = snd (ideal_run ops (snd (ideal_exec op i)))"
  by (simp_all split: prod.split)

declare rl_run.simps(2) [simp del] ideal_run.simps(2) [simp del]

lemma exec_simps [simp]:
  "rl_exec (Hit r b now) s = (Some (fst (hit r b now s)), snd (hit r b now s))"
  "rl_exec (Reset b) s = (None, reset b s)" "rl_exec (Discard b) s = (None, discard_latest_attempt b s)"
  "rl_exec ResetAll s = (None, reset_all s)"
  "ideal_exec (Hit r b now) i = (Some (fst (ideal_hit r b now i)), snd (ideal_hit r b now i))"
  "ideal_exec ResetAll i = (None, new_ideal)"
  by (simp_all add: rl_exec_def ideal_exec_def split: prod.split)

lemma evict_keys: "fst ` set (rl_seen (evict target skip bs s)) \<subseteq> fst ` set (rl_seen s)"
proof (induction bs arbitrary: s)
  case (Cons c bs)
  have "fst ` set (rl_seen (drop_bucket c s)) \<subseteq> fst ` set (rl_seen s)" by (simp add: od_keys_delete Diff_subset)
  with Cons.IH [of "drop_bucket c s"]
  have "fst ` set (rl_seen (evict target skip bs (drop_bucket c s))) \<subseteq> fst ` set (rl_seen s)" by (rule subset_trans)
  then show ?case using Cons.IH [of s] by simp
qed simp

lemma sweep_seen: "fst ` set (rl_seen (sweep_expired now s)) \<subseteq> fst ` set (rl_seen s)"
  by (subst sweep_fields(3)) (rule image_mono, simp)

lemma room_keys: "fst ` set (rl_seen (make_room b now s)) \<subseteq> fst ` set (rl_seen s)"
proof -
  have "fst ` set (rl_seen (evict t f xs (sweep_expired now s))) \<subseteq> fst ` set (rl_seen s)" for t f xs
    using evict_keys sweep_seen by (rule subset_trans)
  moreover have "fst ` set (rl_seen (evict t f xs (evict u h ys (sweep_expired now s)))) \<subseteq> fst ` set (rl_seen s)" for t f xs u h ys
    using evict_keys calculation by (rule subset_trans)
  ultimately show ?thesis using sweep_seen [of now s] by (simp add: make_room_def prune_capacity_def Let_def)
qed

lemma hit_keys: "fst ` set (rl_seen (snd (hit r b now s))) \<subseteq> insert b (fst ` set (rl_seen s))"
proof -
  have "fst ` set (rl_seen (count_hit now s)) \<subseteq> fst ` set (rl_seen s)"
    using sweep_seen [of now "s\<lparr>rl_since_sweep := 0\<rparr>"] by (simp add: count_hit_def)
  then have "fst ` set (rl_seen (make_room b now (count_hit now s))) \<subseteq> fst ` set (rl_seen s)"
    using room_keys by (rule subset_trans [rotated])
  then show ?thesis unfolding hit_touch touch_def Let_def by (simp add: od_keys_move od_keys_update subset_insertI2)
qed

section \<open>Every operation against the limiter that never forgets\<close>

lemma like_forget: "like now s i \<Longrightarrow> like now (reset b s) \<lparr>il_attempts = (il_attempts i)(b := []), il_blocked = (il_blocked i)(b := 0)\<rparr>"
  unfolding like_def by (simp add: reset_def past_def)

lemma past_butlast: "past now xs \<Longrightarrow> past now (butlast xs)"
  by (auto simp: past_def list_all_iff sorted_butlast dest: in_set_butlastD)

lemma fresh_butlast: "fresh now (butlast xs) = butlast (fresh now xs)"
  by (simp add: fresh_def dropWhile_butlast)

lemma like_discard:
  assumes "like now s i"
  shows "like now (discard_latest_attempt b s) (i\<lparr>il_attempts := (il_attempts i)(b := butlast (il_attempts i b))\<rparr>)"
  unfolding like_def
proof
  fix c
  have "past now (look (rl_attempts s) c []) \<and> past now (il_attempts i c)
     \<and> fresh now (look (rl_attempts s) c []) = fresh now (il_attempts i c)
     \<and> max now (look (rl_blocked s) c 0) = max now (il_blocked i c)" using assms unfolding like_def by (rule spec)
  then show "past now (look (rl_attempts (discard_latest_attempt b s)) c [])
     \<and> past now (il_attempts (i\<lparr>il_attempts := (il_attempts i)(b := butlast (il_attempts i b))\<rparr>) c)
     \<and> fresh now (look (rl_attempts (discard_latest_attempt b s)) c [])
         = fresh now (il_attempts (i\<lparr>il_attempts := (il_attempts i)(b := butlast (il_attempts i b))\<rparr>) c)
     \<and> max now (look (rl_blocked (discard_latest_attempt b s)) c 0)
         = max now (il_blocked (i\<lparr>il_attempts := (il_attempts i)(b := butlast (il_attempts i b))\<rparr>) c)"
    by (cases "c = b") (simp_all add: look_discard past_butlast fresh_butlast)
qed

lemma like_new: "like now (new_limiter m) new_ideal"
  by (simp add: like_def new_limiter_def new_ideal_def past_def fresh_def look_def)

lemma like_reset_all: "like now (reset_all s) new_ideal"
  by (simp add: like_def reset_all_def new_ideal_def past_def fresh_def look_def)

lemma run_like:
  "timed t ops \<Longrightarrow> 0 \<le> t \<Longrightarrow> limiter_wf s \<Longrightarrow> like t s i \<Longrightarrow>
   card (fst ` set (rl_seen s) \<union> set (hit_buckets ops)) < rl_max s \<Longrightarrow> fst (rl_run ops s) = fst (ideal_run ops i)"
proof (induction ops arbitrary: t s i)
  case (Cons op ops)
  show ?case
  proof (cases op)
    case (Hit r b now)
    have now: "t \<le> now" "0 \<le> now" "ru_window r \<le> 3600" "timed now ops" using Cons.prems(1,2) Hit by auto
    have "length (rl_seen s) = card (fst ` set (rl_seen s))"
      using Cons.prems(3) by (metis distinct_card length_map limiter_wf_def set_map)
    also have "\<dots> \<le> card (fst ` set (rl_seen s) \<union> set (hit_buckets (op # ops)))" by (rule card_mono) auto
    finally have room: "length (rl_seen s) < rl_max s" using Cons.prems(5) by simp
    let ?s1 = "snd (hit r b now s)" and ?i1 = "snd (ideal_hit r b now i)"
    have same: "fst (hit r b now s) = fst (ideal_hit r b now i)" "like now ?s1 ?i1"
      using like_hit [OF Cons.prems(3) now(2) like_later [OF Cons.prems(4) now(1)] room now(3), of b] by simp_all
    have "fst ` set (rl_seen ?s1) \<union> set (hit_buckets ops) \<subseteq> fst ` set (rl_seen s) \<union> set (hit_buckets (op # ops))"
      using hit_keys [of r b now s] Hit by auto
    then have "card (fst ` set (rl_seen ?s1) \<union> set (hit_buckets ops)) \<le> card (fst ` set (rl_seen s) \<union> set (hit_buckets (op # ops)))"
      by (intro card_mono) simp_all
    then have "fst (rl_run ops ?s1) = fst (ideal_run ops ?i1)"
      using Cons.IH [OF now(4,2) hit_wf [OF Cons.prems(3)] same(2)] Cons.prems(5) by (simp add: hit_touch)
    then show ?thesis using Hit same by simp
  next
    case (Reset b)
    have "card (fst ` set (rl_seen (reset b s)) \<union> set (hit_buckets ops)) \<le> card (fst ` set (rl_seen s) \<union> set (hit_buckets (op # ops)))"
      using Reset by (intro card_mono) (auto simp: reset_def od_keys_delete)
    then have "fst (rl_run ops (reset b s)) = fst (ideal_run ops (snd (ideal_exec op i)))"
      using Cons.IH [OF _ Cons.prems(2) _ like_forget [OF Cons.prems(4)]] Cons.prems(1,3,5) Reset
      by (simp add: reset_def drop_wf ideal_exec_def)
    then show ?thesis using Reset by (simp add: ideal_exec_def)
  next
    case (Discard b)
    then have "fst (rl_run ops (discard_latest_attempt b s)) = fst (ideal_run ops (snd (ideal_exec op i)))"
      using Cons.IH [OF _ Cons.prems(2) discard_wf [OF Cons.prems(3)] like_discard [OF Cons.prems(4)]] Cons.prems(1,5)
      by (simp add: ideal_exec_def)
    then show ?thesis using Discard by (simp add: ideal_exec_def)
  next
    case ResetAll
    have "card (fst ` set (rl_seen (reset_all s)) \<union> set (hit_buckets ops)) \<le> card (fst ` set (rl_seen s) \<union> set (hit_buckets (op # ops)))"
      using ResetAll by (intro card_mono) (auto simp: reset_all_def)
    moreover have "limiter_wf (reset_all s)" "rl_max (reset_all s) = rl_max s" by (simp_all add: reset_all_def limiter_wf_def)
    ultimately have "fst (rl_run ops (reset_all s)) = fst (ideal_run ops new_ideal)"
      using Cons.IH [OF _ Cons.prems(2) _ like_reset_all] Cons.prems(1,5) ResetAll by simp
    then show ?thesis using ResetAll by (simp add: ideal_exec_def)
  qed
qed simp

lemma run_ideal:
  assumes "timed 0 ops" and "card (set (hit_buckets ops)) < m"
  shows "fst (rl_run ops (new_limiter m)) = fst (ideal_run ops new_ideal)"
proof -
  have "limiter_wf (new_limiter m)" "rl_seen (new_limiter m) = []" "rl_max (new_limiter m) = m"
    by (simp_all add: new_limiter_def limiter_wf_def)
  then show ?thesis using run_like [OF assms(1) _ _ like_new] assms(2) by simp
qed

section \<open>Windows\<close>

definition window :: "rule \<Rightarrow> real" where
  "window r = real_of_int (max (ru_window r) 1)"

definition allowed :: "rule \<Rightarrow> nat" where
  "allowed r = nat (max (ru_max r) 1)"

text \<open>The times at which hits of a bucket were admitted.\<close>

definition admitted :: "bucket \<Rightarrow> rl_op list \<Rightarrow> limit_verdict option list \<Rightarrow> time list" where
  "admitted b ops vs = concat (map (\<lambda>(op, v). case op of Hit r c t \<Rightarrow> if c = b \<and> v = Some Admitted then [t] else [] | _ \<Rightarrow> [])
     (zip ops vs))"

lemma admitted_simps [simp]:
  "admitted b [] vs = []"
  "admitted b (op # ops) (v # vs) = (case op of Hit r c t \<Rightarrow> if c = b \<and> v = Some Admitted then [t] else [] | _ \<Rightarrow> []) @ admitted b ops vs"
  by (simp_all add: admitted_def)

text \<open>A bucket is only hit, under one rule.\<close>

definition only_hits :: "rule \<Rightarrow> bucket \<Rightarrow> rl_op list \<Rightarrow> bool" where
  "only_hits r b ops \<longleftrightarrow> list_all (\<lambda>op. case op of Hit q c t \<Rightarrow> c = b \<longrightarrow> q = r | Reset c \<Rightarrow> c \<noteq> b | Discard c \<Rightarrow> c \<noteq> b | ResetAll \<Rightarrow> False) ops"

definition in_window :: "real \<Rightarrow> time \<Rightarrow> time list \<Rightarrow> time list" where
  "in_window w t ts = filter (\<lambda>u. t - w < u \<and> u \<le> t) ts"

text \<open>The attempts of the limiter are those admitted in the window, once the bucket is not blocked.\<close>

definition tracked :: "rule \<Rightarrow> bucket \<Rightarrow> time \<Rightarrow> ideal \<Rightarrow> time list \<Rightarrow> bool" where
  "tracked r b now i ts \<longleftrightarrow> (\<forall>t. length (in_window (window r) t ts) \<le> allowed r) \<and> list_all (\<lambda>u. u \<le> now) ts
     \<and> (\<forall>t \<ge> now. il_blocked i b \<le> t \<longrightarrow> filter (\<lambda>u. t - window r < u) ts = filter (\<lambda>u. t - window r < u) (il_attempts i b))"

lemma tracked_later: "tracked r b now i ts \<Longrightarrow> now \<le> t \<Longrightarrow> tracked r b t i ts"
  by (auto simp: tracked_def list_all_iff)

lemma attempts_window:
  "attempts_now r now xs = (let ys = dropWhile (\<lambda>t. t \<le> now - window r) xs @ [now]
     in if length ys > allowed r + 2 then tl ys else ys)"
  unfolding attempts_now_def window_def [symmetric] allowed_def Let_def by (simp split: if_split) linarith

lemma attempts_kept:
  "length (attempts_now r now xs) \<le> allowed r \<Longrightarrow> attempts_now r now xs = dropWhile (\<lambda>t. t \<le> now - window r) xs @ [now]"
  by (auto simp: attempts_window Let_def split: if_splits)

lemma allowed_iff: "int n \<le> max (ru_max r) 1 \<longleftrightarrow> n \<le> allowed r"
  by (auto simp: allowed_def)

lemma filter_dropWhile: "(\<And>x. P x \<Longrightarrow> \<not> Q x) \<Longrightarrow> filter Q (dropWhile P xs) = filter Q xs"
  by (induction xs) auto

lemma filter_length_mono: "(\<And>x. P x \<Longrightarrow> Q x) \<Longrightarrow> length (filter P xs) \<le> length (filter Q xs)"
  by (induction xs) (auto intro: le_SucI)

text \<open>The three ways a hit goes.\<close>

lemma tracked_admitted:
  assumes t: "tracked r b now i ts" and "il_blocked i b \<le> now" and xs: "xs = dropWhile (\<lambda>t. t \<le> now - window r) (il_attempts i b) @ [now]"
    and "length xs \<le> allowed r"
  shows "tracked r b now (i\<lparr>il_attempts := (il_attempts i)(b := xs)\<rparr>) (ts @ [now])"
proof -
  let ?i = "i\<lparr>il_attempts := (il_attempts i)(b := xs)\<rparr>"
  have same: "filter (\<lambda>u. t - window r < u) (ts @ [now]) = filter (\<lambda>u. t - window r < u) xs" if "now \<le> t" for t
  proof -
    have "filter (\<lambda>u. t - window r < u) (dropWhile (\<lambda>t. t \<le> now - window r) (il_attempts i b)) = filter (\<lambda>u. t - window r < u) (il_attempts i b)"
      using that by (intro filter_dropWhile) linarith
    moreover have "filter (\<lambda>u. t - window r < u) ts = filter (\<lambda>u. t - window r < u) (il_attempts i b)"
      using t that assms(2) unfolding tracked_def by simp
    ultimately show ?thesis by (simp add: xs)
  qed
  have "length (in_window (window r) t (ts @ [now])) \<le> allowed r" for t
  proof (cases "now \<le> t")
    case True
    have "length (in_window (window r) t (ts @ [now])) \<le> length (filter (\<lambda>u. t - window r < u) (ts @ [now]))"
      unfolding in_window_def by (rule filter_length_mono) simp
    also have "\<dots> \<le> allowed r" unfolding same [OF True] using assms(4) by (rule le_trans [OF length_filter_le])
    finally show ?thesis .
  next
    case False
    then show ?thesis using t by (simp add: tracked_def in_window_def)
  qed
  moreover have "list_all (\<lambda>u. u \<le> now) (ts @ [now])" using t by (simp add: tracked_def)
  ultimately show ?thesis unfolding tracked_def by (simp add: same del: filter.simps filter_append)
qed

lemma tracked_blocked:
  assumes t: "tracked r b now i ts" and "ru_window r \<le> ru_block r" and "0 < window r"
  shows "tracked r b now (i\<lparr>il_attempts := (il_attempts i)(b := []),
    il_blocked := (il_blocked i)(b := now + real_of_int (max (ru_block r) 1))\<rparr>) ts"
proof -
  have "window r \<le> real_of_int (max (ru_block r) 1)" using assms(2) by (simp add: window_def)
  moreover have "filter (\<lambda>u. s - window r < u) ts = []" if "now + window r \<le> s" for s
    using t that by (force simp: tracked_def list_all_iff filter_empty_conv)
  ultimately show ?thesis using t by (auto simp: tracked_def)
qed

lemma tracked_hit:
  assumes "tracked r b now i ts" and "ru_window r \<le> ru_block r"
  shows "tracked r b now (snd (ideal_hit r b now i)) (ts @ (if fst (ideal_hit r b now i) = Admitted then [now] else []))"
proof -
  let ?xs = "attempts_now r now (il_attempts i b)"
  have "0 < window r" by (simp add: window_def)
  note block = tracked_blocked [OF assms this]
  show ?thesis
  proof (cases "il_blocked i b > now")
    case True
    then show ?thesis using assms(1) by (simp add: ideal_hit_def)
  next
    case False
    have "tracked r b now (i\<lparr>il_attempts := (il_attempts i)(b := ?xs)\<rparr>) (ts @ [now])" if "length ?xs \<le> allowed r"
      using False that by (intro tracked_admitted [OF assms(1)] attempts_kept) simp_all
    then show ?thesis using False block by (simp add: ideal_hit_def Let_def allowed_iff)
  qed
qed

lemma ideal_other:
  assumes "case op of Hit q c t \<Rightarrow> c \<noteq> b | Reset c \<Rightarrow> c \<noteq> b | Discard c \<Rightarrow> c \<noteq> b | ResetAll \<Rightarrow> False"
  shows "il_attempts (snd (ideal_exec op i)) b = il_attempts i b \<and> il_blocked (snd (ideal_exec op i)) b = il_blocked i b"
  using assms by (auto simp: ideal_exec_def ideal_hit_def Let_def split: rl_op.splits prod.splits if_splits)

lemma tracked_run:
  "timed now ops \<Longrightarrow> only_hits r b ops \<Longrightarrow> ru_window r \<le> ru_block r \<Longrightarrow> tracked r b now i ts \<Longrightarrow>
   length (in_window (window r) t (ts @ admitted b ops (fst (ideal_run ops i)))) \<le> allowed r"
proof (induction ops arbitrary: now i ts)
  case (Cons op ops)
  have rest: "only_hits r b ops" using Cons.prems(2) by (simp add: only_hits_def)
  show ?case
  proof (cases "\<exists>u. op = Hit r b u")
    case True
    then obtain u where u: "op = Hit r b u" by blast
    then have "tracked r b u i ts" using Cons.prems(1) tracked_later [OF Cons.prems(4)] by simp
    from Cons.IH [OF _ rest Cons.prems(3) tracked_hit [OF this Cons.prems(3)]] show ?thesis
      using Cons.prems(1) u by (simp split: if_splits)
  next
    case False
    then have other: "case op of Hit q c t \<Rightarrow> c \<noteq> b | Reset c \<Rightarrow> c \<noteq> b | Discard c \<Rightarrow> c \<noteq> b | ResetAll \<Rightarrow> False"
      using Cons.prems(2) by (auto simp: only_hits_def split: rl_op.splits)
    define later where "later = (case op of Hit q c u \<Rightarrow> u | _ \<Rightarrow> now)"
    have "now \<le> later" "timed later ops" using Cons.prems(1) by (auto simp: later_def split: rl_op.splits)
    moreover have "tracked r b later (snd (ideal_exec op i)) ts"
      using tracked_later [OF Cons.prems(4) \<open>now \<le> later\<close>] ideal_other [OF other, of i] by (simp add: tracked_def)
    ultimately show ?thesis using Cons.IH [OF _ rest Cons.prems(3)] other by (auto split: rl_op.splits)
  qed
qed (simp add: tracked_def)

section \<open>Waiting\<close>

text \<open>A blocked bucket has no attempts.\<close>

definition cleared :: "time \<Rightarrow> ideal \<Rightarrow> bool" where
  "cleared now i \<longleftrightarrow> (\<forall>b. now < il_blocked i b \<longrightarrow> il_attempts i b = [])"

lemma cleared_later: "cleared now i \<Longrightarrow> now \<le> t \<Longrightarrow> cleared t i"
  unfolding cleared_def using le_less_trans by blast

lemma clearedI: "(\<And>b. now < il_blocked i b \<Longrightarrow> il_attempts i b = []) \<Longrightarrow> cleared now i"
  unfolding cleared_def by blast

lemma clearedD: "cleared now i \<Longrightarrow> now < il_blocked i b \<Longrightarrow> il_attempts i b = []"
  unfolding cleared_def by blast

lemma cleared_exec:
  assumes "cleared now i" and "\<And>r b t. op = Hit r b t \<Longrightarrow> t = now"
  shows "cleared now (snd (ideal_exec op i))"
proof (rule clearedI)
  fix c
  assume "now < il_blocked (snd (ideal_exec op i)) c"
  then show "il_attempts (snd (ideal_exec op i)) c = []"
    using clearedD [OF assms(1), of c] assms(2)
    by (cases op) (auto simp: ideal_exec_def ideal_hit_def Let_def new_ideal_def split: if_splits)
qed

lemma ideal_run_append:
  "fst (ideal_run (ops @ ops1) i) = fst (ideal_run ops i) @ fst (ideal_run ops1 (snd (ideal_run ops i)))
   \<and> snd (ideal_run (ops @ ops1) i) = snd (ideal_run ops1 (snd (ideal_run ops i)))"
  by (induction ops arbitrary: i) simp_all

lemma cleared_run: "timed now ops \<Longrightarrow> cleared now i \<Longrightarrow> \<exists>t. cleared t (snd (ideal_run ops i)) \<and> (\<forall>op. timed now (ops @ [op]) \<longrightarrow> timed t [op])"
proof (induction ops arbitrary: now i)
  case (Cons op ops)
  define later where "later = (case op of Hit q c u \<Rightarrow> u | _ \<Rightarrow> now)"
  have t: "now \<le> later" "timed later ops" "timed now ((op # ops) @ [op1]) \<longleftrightarrow> timed later (ops @ [op1]) \<and> timed now [op]" for op1
    using Cons.prems(1) by (auto simp: later_def split: rl_op.splits)
  have "cleared later (snd (ideal_exec op i))"
    using cleared_later [OF Cons.prems(2) t(1)] by (rule cleared_exec) (simp add: later_def)
  from Cons.IH [OF t(2) this] show ?case using t(3) by auto
qed auto

lemma ideal_retry:
  assumes "cleared now i" and "fst (ideal_hit r b now i) = Rejected n"
  shows "1 \<le> n \<and> fst (ideal_hit r b (now + real n) (snd (ideal_hit r b now i))) = Admitted"
proof -
  have "\<not> max (ru_max r) 1 + 2 < 1" by simp
  then have one: "attempts_now r t [] = [t]" for t by (simp add: attempts_now_def Let_def)
  show ?thesis
  proof (cases "il_blocked i b > now")
    case True
    then have "n = nat (max \<lceil>il_blocked i b - now\<rceil> 1)" "il_attempts i b = []" "snd (ideal_hit r b now i) = i"
      using assms(2) clearedD [OF assms(1), of b] by (simp_all add: ideal_hit_def)
    moreover have "il_blocked i b \<le> now + real (nat (max \<lceil>il_blocked i b - now\<rceil> 1))" by linarith
    ultimately show ?thesis by (simp add: ideal_hit_def Let_def one)
  next
    case False
    then have "n = nat (max (ru_block r) 1)" "il_attempts (snd (ideal_hit r b now i)) b = []"
      "il_blocked (snd (ideal_hit r b now i)) b = now + real_of_int (max (ru_block r) 1)"
      using assms(2) by (simp_all add: ideal_hit_def Let_def split: if_splits)
    moreover have "1 \<le> nat (max (ru_block r) 1)" "real (nat (max (ru_block r) 1)) = real_of_int (max (ru_block r) 1)" by simp_all
    ultimately show ?thesis unfolding ideal_hit_def [of r b "now + real n"] by (simp add: Let_def one)
  qed
qed

section \<open>Properties\<close>

text \<open>
  The limiter keeps at most \<open>max_buckets\<close> buckets, and in each no more attempts than the
  largest rule in use allows, whatever the history of hits, resets and withdrawals is.
\<close>

theorem limiter_bounded:
  assumes "list_all (\<lambda>op. case op of Hit r b t \<Rightarrow> ru_max r \<le> int n | _ \<Rightarrow> True) ops" and "1 \<le> n"
    and "rl_run ops (new_limiter m) = (vs, s)"
  shows "length (rl_seen s) \<le> max 1 m \<and> fst ` set (rl_attempts s) \<union> fst ` set (rl_blocked s) \<subseteq> fst ` set (rl_seen s)
    \<and> length (look (rl_attempts s) b []) \<le> n"
proof -
  have run: "limiter_wf s' \<and> bounded s' \<and> short n s' \<and> rl_max s' = rl_max s0"
    if "list_all (\<lambda>op. case op of Hit r b t \<Rightarrow> ru_max r \<le> int n | _ \<Rightarrow> True) ops" "limiter_wf s0 \<and> bounded s0 \<and> short n s0"
      "snd (rl_run ops s0) = s'" for ops s0 s'
    using that
  proof (induction ops arbitrary: s0)
    case (Cons op ops)
    have "case op of Hit r b t \<Rightarrow> max (ru_max r) 1 \<le> int n | _ \<Rightarrow> True"
      using Cons.prems(1) assms(2) by (cases op) auto
    note step = exec_inv [OF Cons.prems(2) this]
    have "snd (rl_run ops (snd (rl_exec op s0))) = s'" using Cons.prems(3) by simp
    then show ?case using Cons.IH [of "snd (rl_exec op s0)"] step Cons.prems(1) by simp
  qed simp
  have "limiter_wf (new_limiter m) \<and> bounded (new_limiter m) \<and> short n (new_limiter m)"
    by (simp add: new_limiter_def limiter_wf_def bounded_def short_def look_def)
  from run [OF assms(1) this] assms(3) have s: "limiter_wf s \<and> bounded s \<and> short n s \<and> rl_max s = m"
    by (simp add: new_limiter_def)
  then have "bounded s" "rl_max s = m" by blast+
  then have "length (rl_seen s) \<le> max 1 m" by (simp add: bounded_def)
  then show ?thesis using shortD [of n s b] s unfolding limiter_wf_def by simp
qed

definition login_rule :: rule where
  "login_rule = \<lparr>ru_max = 5, ru_window = 300, ru_block = 900\<rparr>"

definition login :: bucket where
  "login = (''auth.login'', ''10.0.0.1|admin'')"

lemma limiter_bounded_witness: "length (rl_seen (snd (rl_run [Hit login_rule login 1, Discard login] (new_limiter 1)))) \<le> 1"
  using limiter_bounded [of 5 "[Hit login_rule login 1, Discard login]" 1] by (auto simp: login_rule_def prod_eq_iff)





text \<open>
  C34: A refused client that waits the seconds of its \<^verbatim>\<open>Retry-After\<close> header is admitted: whatever
  happened before, a hit refused with \<open>n\<close> tells at least one second, and a hit of the same bucket
  under the same rule \<open>n\<close> seconds later is admitted.
\<close>

theorem retry_after_suffices:
  assumes "timed 0 (ops @ [Hit r b now])" and "card (insert b (set (hit_buckets ops))) < m"
    and "fst (rl_run (ops @ [Hit r b now]) (new_limiter m)) = vs @ [Some (Rejected n)]"
  shows "1 \<le> n \<and> fst (rl_run (ops @ [Hit r b now, Hit r b (now + real n)]) (new_limiter m)) = vs @ [Some (Rejected n), Some Admitted]"
proof -
  let ?i = "snd (ideal_run ops new_ideal)"
  have parts: "timed t (ops @ [op]) \<Longrightarrow> timed t ops" for t op by (induction ops arbitrary: t) (auto split: rl_op.splits)
  have extend: "timed t (ops @ [Hit r b now]) \<Longrightarrow> now \<le> u \<Longrightarrow> timed t (ops @ [Hit r b now, Hit r b u])" for t u
    by (induction ops arbitrary: t) (auto split: rl_op.splits)
  obtain t where t: "cleared t ?i" "timed t [Hit r b now]"
    using cleared_run [OF parts [OF assms(1)], of new_ideal] assms(1) by (auto simp: cleared_def new_ideal_def)
  then have clear: "cleared now ?i" using cleared_later by simp
  have run: "fst (rl_run (ops @ ops1) (new_limiter m)) = fst (ideal_run ops new_ideal) @ fst (ideal_run ops1 ?i)"
    if "timed 0 (ops @ ops1)" "set (hit_buckets ops1) = {b}" for ops1
    using run_ideal [OF that(1)] assms(2) that(2) ideal_run_append [of ops ops1 new_ideal] by (simp add: hit_buckets_append)
  have "fst (ideal_run ops new_ideal) = vs \<and> fst (ideal_hit r b now ?i) = Rejected n"
    using run [OF assms(1)] assms(3) by simp
  moreover from this have "1 \<le> n \<and> fst (ideal_hit r b (now + real n) (snd (ideal_hit r b now ?i))) = Admitted"
    using ideal_retry [OF clear] by blast
  ultimately show ?thesis using run [OF extend [OF assms(1), of "now + real n"]] by simp
qed

definition once_rule :: rule where
  "once_rule = \<lparr>ru_max = 1, ru_window = 60, ru_block = 60\<rparr>"

lemma retry_after_suffices_witness:
  "fst (rl_run ([Hit once_rule login 1] @ [Hit once_rule login 2, Hit once_rule login (2 + real 60)]) (new_limiter 100))
     = [Some Admitted] @ [Some (Rejected 60), Some Admitted]"
proof -
  have "timed 0 ([Hit once_rule login 1] @ [Hit once_rule login 2])" by (simp add: once_rule_def)
  moreover from this have "fst (rl_run ([Hit once_rule login 1] @ [Hit once_rule login 2]) (new_limiter 100)) = [Some Admitted] @ [Some (Rejected 60)]"
    by (subst run_ideal) (simp_all add: once_rule_def ideal_hit_def attempts_now_def new_ideal_def)
  ultimately show ?thesis
    using retry_after_suffices [of "[Hit once_rule login 1]" once_rule login 2 100 "[Some Admitted]" 60] by simp
qed

end
