(* ===== verification/Account_Locks.thy ===== *)
theory Account_Locks
  imports Prelude "HOL-Library.Multiset" "HOL-Library.List_Lexorder" "HOL-Library.Char_ord"
begin

text \<open>
  The registry of account locks, \<^verbatim>\<open>backend/utils/account_locks.py\<close>. A lock is a name: the registry
  gives the same \<^verbatim>\<open>asyncio.Lock\<close> for a name as long as anybody holds or awaits it, and a lock
  nobody refers to is free. A task is the stack of the context managers it is in; it runs until it
  awaits a lock, so that the steps of all tasks interleave (\<open>lock_step\<close>), the scheduler choosing
  which waiting task gets a free lock. A timeout and a cancellation are the same step \<open>Expire\<close>.
  Leases outlive tasks and stand beside them.
\<close>

section \<open>State\<close>

datatype lock_kind = Multi | Single | Timed

datatype frame =
    Waiting lock_kind "string list" "string list"
  | Entered lock_kind "string list" "string list"
  | Reentered

text \<open>The locks a frame got, those it still awaits, and the names noted as held before it.\<close>

record task =
  tk_frames :: "frame list"
  tk_held :: "string list"

record lock_lease =
  le_name :: string
  le_owned :: bool

record locks =
  lk_locked :: "string list"
  lk_tasks :: "task list"
  lk_leases :: "lock_lease list"

definition new_locks :: "nat \<Rightarrow> string list \<Rightarrow> locks" where
  "new_locks n names = \<lparr>lk_locked = [], lk_tasks = replicate n \<lparr>tk_frames = [], tk_held = []\<rparr>,
     lk_leases = map (\<lambda>i. \<lparr>le_name = i, le_owned = False\<rparr>) names\<rparr>"

datatype step_result = Blocked | Raised string | Moved locks

datatype lock_event =
    StartMulti nat "string list"
  | StartContext nat string
  | StartTimed nat string
  | Acquire nat
  | Expire nat
  | Leave nat
  | LeaseAcquire nat
  | LeaseRelease nat
  | LeaseForce nat

section \<open>Steps\<close>

text \<open>\<^verbatim>\<open>lock.release()\<close> for one name after the other; a free lock raises.\<close>

fun release_all :: "string list \<Rightarrow> string list \<Rightarrow> string list option" where
  "release_all [] locked = Some locked"
| "release_all (n # ns) locked = (if n \<in> set locked then release_all ns (remove1 n locked) else None)"

definition running :: "task \<Rightarrow> bool" where
  "running tk = (case tk_frames tk of Waiting k got todo # fs \<Rightarrow> False | _ \<Rightarrow> True)"

text \<open>A frame that has all its locks; the multi-account one notes their names as held.\<close>

definition enter :: "lock_kind \<Rightarrow> string list \<Rightarrow> frame list \<Rightarrow> string list \<Rightarrow> task" where
  "enter k got fs held = \<lparr>tk_frames = Entered k got held # fs, tk_held = (if k = Multi then got else held)\<rparr>"

definition await_locks :: "lock_kind \<Rightarrow> string list \<Rightarrow> task \<Rightarrow> task" where
  "await_locks k names tk =
     (if names = [] then enter k [] (tk_frames tk) (tk_held tk)
      else tk\<lparr>tk_frames := Waiting k [] names # tk_frames tk\<rparr>)"

definition set_task :: "nat \<Rightarrow> task \<Rightarrow> locks \<Rightarrow> locks" where
  "set_task t tk s = s\<lparr>lk_tasks := (lk_tasks s)[t := tk]\<rparr>"

definition account_lock_held_by_current_task :: "task \<Rightarrow> string \<Rightarrow> bool" where
  "account_lock_held_by_current_task tk n \<longleftrightarrow> n \<in> set (tk_held tk)"

definition start_multi :: "string list \<Rightarrow> task \<Rightarrow> task" where
  "start_multi names tk = await_locks Multi (sort (remdups names)) tk"

definition start_context :: "string \<Rightarrow> task \<Rightarrow> task" where
  "start_context n tk =
     (if account_lock_held_by_current_task tk n then tk\<lparr>tk_frames := Reentered # tk_frames tk\<rparr>
      else await_locks Single [n] tk)"

definition acquire_next :: "nat \<Rightarrow> locks \<Rightarrow> step_result" where
  "acquire_next t s =
     (let tk = lk_tasks s ! t in case tk_frames tk of
        Waiting k got (n # todo) # fs \<Rightarrow>
          if n \<in> set (lk_locked s) then Blocked
          else Moved (set_task t (if todo = [] then enter k (got @ [n]) fs (tk_held tk)
                                  else tk\<lparr>tk_frames := Waiting k (got @ [n]) todo # fs\<rparr>)
                 (s\<lparr>lk_locked := n # lk_locked s\<rparr>))
      | _ \<Rightarrow> Blocked)"

text \<open>After a timeout or a cancellation the locks got so far are released, the last one first.\<close>

definition expire :: "nat \<Rightarrow> locks \<Rightarrow> step_result" where
  "expire t s =
     (let tk = lk_tasks s ! t in case tk_frames tk of
        Waiting k got todo # fs \<Rightarrow>
          (case release_all (rev got) (lk_locked s) of
             None \<Rightarrow> Raised ''RuntimeError''
           | Some locked \<Rightarrow> Moved (set_task t (tk\<lparr>tk_frames := fs\<rparr>) (s\<lparr>lk_locked := locked\<rparr>)))
      | _ \<Rightarrow> Blocked)"

definition leave :: "nat \<Rightarrow> locks \<Rightarrow> step_result" where
  "leave t s =
     (let tk = lk_tasks s ! t in case tk_frames tk of
        Entered k got saved # fs \<Rightarrow>
          (case release_all (rev got) (lk_locked s) of
             None \<Rightarrow> Raised ''RuntimeError''
           | Some locked \<Rightarrow> Moved (set_task t \<lparr>tk_frames = fs, tk_held = (if k = Multi then saved else tk_held tk)\<rparr>
               (s\<lparr>lk_locked := locked\<rparr>)))
      | Reentered # fs \<Rightarrow> Moved (set_task t (tk\<lparr>tk_frames := fs\<rparr>) s)
      | _ \<Rightarrow> Blocked)"

section \<open>Leases\<close>

definition set_lease :: "nat \<Rightarrow> bool \<Rightarrow> locks \<Rightarrow> locks" where
  "set_lease i owned s = s\<lparr>lk_leases := (lk_leases s)[i := (lk_leases s ! i)\<lparr>le_owned := owned\<rparr>]\<rparr>"

text \<open>\<^verbatim>\<open>acquire\<close>, and the acquisitions of the login flows that are followed by \<^verbatim>\<open>mark_owned\<close>.\<close>

definition lease_acquire :: "nat \<Rightarrow> locks \<Rightarrow> step_result" where
  "lease_acquire i s =
     (let n = le_name (lk_leases s ! i)
      in if n \<in> set (lk_locked s) then Blocked else Moved (set_lease i True (s\<lparr>lk_locked := n # lk_locked s\<rparr>)))"

definition lease_release :: "nat \<Rightarrow> locks \<Rightarrow> step_result" where
  "lease_release i s =
     (let l = lk_leases s ! i
      in if \<not> le_owned l then Moved s
         else Moved (set_lease i False (s\<lparr>lk_locked := remove1 (le_name l) (lk_locked s)\<rparr>)))"

definition lease_force :: "nat \<Rightarrow> locks \<Rightarrow> step_result" where
  "lease_force i s = Moved (set_lease i False (s\<lparr>lk_locked := remove1 (le_name (lk_leases s ! i)) (lk_locked s)\<rparr>))"

definition start :: "nat \<Rightarrow> (task \<Rightarrow> task) \<Rightarrow> locks \<Rightarrow> step_result" where
  "start t f s = (if t < length (lk_tasks s) \<and> running (lk_tasks s ! t) then Moved (set_task t (f (lk_tasks s ! t)) s) else Blocked)"

definition lock_step :: "lock_event \<Rightarrow> locks \<Rightarrow> step_result" where
  "lock_step e s =
     (let task = (\<lambda>t f. if t < length (lk_tasks s) then f t s else Blocked);
          lease = (\<lambda>i f. if i < length (lk_leases s) then f i s else Blocked)
      in case e of
           StartMulti t names \<Rightarrow> start t (start_multi names) s
         | StartContext t n \<Rightarrow> start t (start_context n) s
         | StartTimed t n \<Rightarrow> start t (await_locks Timed [n]) s
         | Acquire t \<Rightarrow> task t acquire_next | Expire t \<Rightarrow> task t expire | Leave t \<Rightarrow> task t leave
         | LeaseAcquire i \<Rightarrow> lease i lease_acquire | LeaseRelease i \<Rightarrow> lease i lease_release | LeaseForce i \<Rightarrow> lease i lease_force)"

fun lock_run :: "lock_event list \<Rightarrow> locks \<Rightarrow> step_result" where
  "lock_run [] s = Moved s"
| "lock_run (e # es) s = (case lock_step e s of Moved s1 \<Rightarrow> lock_run es s1 | Blocked \<Rightarrow> Blocked | Raised x \<Rightarrow> Raised x)"

section \<open>Who holds what\<close>

fun frame_locks :: "frame \<Rightarrow> string list" where
  "frame_locks (Waiting k got todo) = got"
| "frame_locks (Entered k got saved) = got"
| "frame_locks Reentered = []"

definition task_locks :: "task \<Rightarrow> string list" where
  "task_locks tk = concat (map frame_locks (tk_frames tk))"

definition lease_locks :: "lock_lease \<Rightarrow> string list" where
  "lease_locks l = (if le_owned l then [le_name l] else [])"

definition all_locks :: "locks \<Rightarrow> string multiset" where
  "all_locks s = mset (concat (map task_locks (lk_tasks s))) + mset (concat (map lease_locks (lk_leases s)))"

text \<open>The names a task notes as held are those of its innermost multi-account context.\<close>

fun held_in :: "frame list \<Rightarrow> string list" where
  "held_in [] = []"
| "held_in (Entered k got saved # fs) = (if k = Multi then got else held_in fs)"
| "held_in (f # fs) = held_in fs"

fun frame_ok :: "frame list \<Rightarrow> bool" where
  "frame_ok [] = True"
| "frame_ok (Waiting k got todo # fs) \<longleftrightarrow> todo \<noteq> [] \<and> sorted_wrt (<) (got @ todo) \<and> frame_ok fs"
| "frame_ok (Entered k got saved # fs) \<longleftrightarrow> (k = Multi \<longrightarrow> saved = held_in fs) \<and> frame_ok fs"
| "frame_ok (Reentered # fs) \<longleftrightarrow> frame_ok fs"

definition task_ok :: "task \<Rightarrow> bool" where
  "task_ok tk \<longleftrightarrow> tk_held tk = held_in (tk_frames tk) \<and> frame_ok (tk_frames tk)"

definition locks_inv :: "locks \<Rightarrow> bool" where
  "locks_inv s \<longleftrightarrow> all_locks s = mset (lk_locked s) \<and> distinct (lk_locked s) \<and> list_all task_ok (lk_tasks s)"

lemma mset_update:
  "i < length xs \<Longrightarrow> mset (concat (map f (xs[i := x]))) + mset (f (xs ! i)) = mset (concat (map f xs)) + mset (f x)"
proof -
  assume "i < length xs"
  then have xs: "xs = take i xs @ xs ! i # drop (Suc i) xs" "xs[i := x] = take i xs @ x # drop (Suc i) xs"
    by (simp_all add: id_take_nth_drop upd_conv_take_nth_drop)
  show ?thesis by (subst xs(2), subst (2) xs(1)) simp
qed

lemma all_locks_task:
  assumes "t < length (lk_tasks s)"
  shows "all_locks (set_task t tk s) + mset (task_locks (lk_tasks s ! t)) = all_locks s + mset (task_locks tk)"
  using mset_update [OF assms, of task_locks tk] by (simp add: all_locks_def set_task_def add.commute add.left_commute)

lemma all_locks_lease:
  assumes "i < length (lk_leases s)"
  shows "all_locks (set_lease i b s) + mset (lease_locks (lk_leases s ! i))
    = all_locks s + (if b then {#le_name (lk_leases s ! i)#} else {#})"
  using mset_update [OF assms, of lease_locks "(lk_leases s ! i)\<lparr>le_owned := b\<rparr>"]
  by (simp add: all_locks_def set_lease_def lease_locks_def add.assoc)

lemma all_locks_locked [simp]: "all_locks (s\<lparr>lk_locked := l\<rparr>) = all_locks s"
  by (simp add: all_locks_def)

lemma release_all_mset:
  "mset ns \<subseteq># mset locked \<Longrightarrow> \<exists>l. release_all ns locked = Some l \<and> mset l = mset locked - mset ns \<and> (distinct locked \<longrightarrow> distinct l)"
proof (induction ns arbitrary: locked)
  case (Cons n ns)
  then have n: "n \<in> set locked" by (metis mset_subset_eqD set_mset_mset list.set_intros(1))
  have "mset ns \<subseteq># mset (remove1 n locked)" using Cons.prems n by (simp add: insert_subset_eq_iff)
  from Cons.IH [OF this] n show ?case by (auto simp: diff_diff_add)
qed simp

lemma locks_of_task: "t < length (lk_tasks s) \<Longrightarrow> mset (task_locks (lk_tasks s ! t)) \<subseteq># all_locks s"
proof -
  assume t: "t < length (lk_tasks s)"
  have "all_locks (set_task t ((lk_tasks s ! t)\<lparr>tk_frames := []\<rparr>) s) + mset (task_locks (lk_tasks s ! t)) = all_locks s"
    unfolding all_locks_task [OF t] by (simp add: task_locks_def)
  then show ?thesis by (metis mset_subset_eq_add_right)
qed

section \<open>The invariant\<close>

text \<open>A step of one task that takes or gives back the locks it lists.\<close>

lemma inv_task:
  assumes "locks_inv s" and t: "t < length (lk_tasks s)" and "task_ok tk" and "distinct l"
    and "mset l + mset (task_locks (lk_tasks s ! t)) = mset (lk_locked s) + mset (task_locks tk)"
  shows "locks_inv (set_task t tk (s\<lparr>lk_locked := l\<rparr>))"
proof -
  have "all_locks (set_task t tk (s\<lparr>lk_locked := l\<rparr>)) + mset (task_locks (lk_tasks s ! t)) = all_locks s + mset (task_locks tk)"
    using all_locks_task [of t "s\<lparr>lk_locked := l\<rparr>" tk] t by simp
  also have "\<dots> = mset l + mset (task_locks (lk_tasks s ! t))" using assms(1,5) by (simp add: locks_inv_def)
  finally have "all_locks (set_task t tk (s\<lparr>lk_locked := l\<rparr>)) = mset l" by simp
  moreover have "list_all task_ok ((lk_tasks s)[t := tk])"
    using assms(1,3) unfolding locks_inv_def list_all_iff by (metis in_mono insertE set_update_subset_insert)
  ultimately show ?thesis using assms(4) by (simp add: locks_inv_def set_task_def)
qed

lemma inv_task_same:
  assumes "locks_inv s" and "t < length (lk_tasks s)" and "task_ok tk" and "task_locks tk = task_locks (lk_tasks s ! t)"
  shows "locks_inv (set_task t tk s)"
  using inv_task [OF assms(1-3), of "lk_locked s"] assms(1,4) by (simp add: locks_inv_def)

lemma task_ok_nth: "locks_inv s \<Longrightarrow> t < length (lk_tasks s) \<Longrightarrow> task_ok (lk_tasks s ! t)"
  by (simp add: locks_inv_def list_all_length)

lemma await_ok:
  assumes "task_ok tk" and "sorted_wrt (<) names"
  shows "task_ok (await_locks k names tk) \<and> task_locks (await_locks k names tk) = task_locks tk"
  using assms by (auto simp: await_locks_def enter_def task_ok_def task_locks_def)

lemma sorted_ids: "sorted_wrt (<) (sort (remdups (names :: string list)))"
  by (metis distinct_remdups distinct_sort sorted_sort strict_sorted_iff)

lemma start_ok:
  assumes "task_ok tk"
  shows "task_ok (start_multi names tk) \<and> task_locks (start_multi names tk) = task_locks tk"
    and "task_ok (start_context n tk) \<and> task_locks (start_context n tk) = task_locks tk"
    and "task_ok (await_locks Timed [n] tk) \<and> task_locks (await_locks Timed [n] tk) = task_locks tk"
  using await_ok [OF assms sorted_ids] await_ok [OF assms, of "[n]"] assms
  by (auto simp: start_multi_def start_context_def task_ok_def task_locks_def)

lemma inv_start:
  assumes "locks_inv s" and "start t f s = Moved s'" and "\<And>tk. task_ok tk \<Longrightarrow> task_ok (f tk) \<and> task_locks (f tk) = task_locks tk"
  shows "locks_inv s'"
  using assms inv_task_same [OF assms(1)] task_ok_nth [OF assms(1)] by (auto simp: start_def split: if_splits)

lemma enter_ok: "frame_ok fs \<Longrightarrow> held = held_in fs \<Longrightarrow> task_ok (enter k got fs held) \<and> task_locks (enter k got fs held) = got @ concat (map frame_locks fs)"
  by (auto simp: enter_def task_ok_def task_locks_def)

lemma inv_acquire:
  assumes "locks_inv s" and "t < length (lk_tasks s)" and "acquire_next t s = Moved s'"
  shows "locks_inv s'"
proof -
  let ?tk = "lk_tasks s ! t"
  obtain k got n todo fs where f: "tk_frames ?tk = Waiting k got (n # todo) # fs" and n: "n \<notin> set (lk_locked s)"
    and s': "s' = set_task t (if todo = [] then enter k (got @ [n]) fs (tk_held ?tk) else ?tk\<lparr>tk_frames := Waiting k (got @ [n]) todo # fs\<rparr>)
      (s\<lparr>lk_locked := n # lk_locked s\<rparr>)"
    using assms(3) by (auto simp: acquire_next_def Let_def split: list.splits frame.splits if_splits)
  let ?new = "if todo = [] then enter k (got @ [n]) fs (tk_held ?tk) else ?tk\<lparr>tk_frames := Waiting k (got @ [n]) todo # fs\<rparr>"
  have ok: "task_ok ?tk" by (rule task_ok_nth [OF assms(1,2)])
  then have fs: "frame_ok fs" "tk_held ?tk = held_in fs" "sorted_wrt (<) (got @ n # todo)" using f by (auto simp: task_ok_def)
  have "task_ok ?new \<and> task_locks ?new = got @ [n] @ concat (map frame_locks fs)"
    using enter_ok [OF fs(1,2)] fs by (auto simp: task_ok_def task_locks_def)
  then show ?thesis unfolding s'
    using assms(1) n f by (intro inv_task [OF assms(1,2)]) (auto simp: locks_inv_def task_locks_def)
qed

lemma release_frame:
  assumes "locks_inv s" and t: "t < length (lk_tasks s)" and "tk_frames (lk_tasks s ! t) = f # fs"
  obtains l where "release_all (rev (frame_locks f)) (lk_locked s) = Some l" and "distinct l"
    and "mset l + mset (task_locks (lk_tasks s ! t)) = mset (lk_locked s) + mset (concat (map frame_locks fs))"
proof -
  have "mset (frame_locks f) \<subseteq># mset (lk_locked s)"
    using locks_of_task [OF t] assms(1,3) subset_mset.order_trans [OF mset_subset_eq_add_left]
    by (auto simp: locks_inv_def task_locks_def)
  then have "mset (rev (frame_locks f)) \<subseteq># mset (lk_locked s)" by simp
  from release_all_mset [OF this] obtain l where l: "release_all (rev (frame_locks f)) (lk_locked s) = Some l"
    "mset l = mset (lk_locked s) - mset (frame_locks f)" "distinct l" using assms(1) by (auto simp: locks_inv_def)
  have "mset l + mset (task_locks (lk_tasks s ! t)) = mset (lk_locked s) + mset (concat (map frame_locks fs))"
    using l(2) \<open>mset (frame_locks f) \<subseteq># mset (lk_locked s)\<close> assms(3) by (simp add: task_locks_def)
  with l(1,3) show thesis by (rule that)
qed

lemma inv_expire:
  assumes "locks_inv s" and t: "t < length (lk_tasks s)"
  shows "expire t s \<noteq> Raised x" and "expire t s = Moved s' \<Longrightarrow> locks_inv s'"
proof -
  have both: "expire t s = Blocked \<or> (\<exists>s'. expire t s = Moved s' \<and> locks_inv s')"
  proof (cases "\<exists>k got todo fs. tk_frames (lk_tasks s ! t) = Waiting k got todo # fs")
    case True
    then obtain k got todo fs where f: "tk_frames (lk_tasks s ! t) = Waiting k got todo # fs" by blast
    obtain l where l: "release_all (rev got) (lk_locked s) = Some l" "distinct l"
      "mset l + mset (task_locks (lk_tasks s ! t)) = mset (lk_locked s) + mset (concat (map frame_locks fs))"
      using release_frame [OF assms f] by auto
    have "task_ok ((lk_tasks s ! t)\<lparr>tk_frames := fs\<rparr>)" using task_ok_nth [OF assms] f by (auto simp: task_ok_def)
    then have "locks_inv (set_task t ((lk_tasks s ! t)\<lparr>tk_frames := fs\<rparr>) (s\<lparr>lk_locked := l\<rparr>))"
      using l by (intro inv_task [OF assms]) (auto simp: task_locks_def)
    then show ?thesis using f l(1) by (simp add: expire_def Let_def)
  next
    case False
    then show ?thesis by (auto simp: expire_def Let_def split: list.splits frame.splits)
  qed
  then show "expire t s \<noteq> Raised x" "expire t s = Moved s' \<Longrightarrow> locks_inv s'" by auto
qed

lemma leave_entered:
  assumes "locks_inv s" and t: "t < length (lk_tasks s)" and f: "tk_frames (lk_tasks s ! t) = Entered k got saved # fs"
  shows "\<exists>s'. leave t s = Moved s' \<and> locks_inv s'"
proof -
  obtain l where l: "release_all (rev got) (lk_locked s) = Some l" "distinct l"
    "mset l + mset (task_locks (lk_tasks s ! t)) = mset (lk_locked s) + mset (concat (map frame_locks fs))"
    using release_frame [OF assms] by auto
  let ?tk = "\<lparr>tk_frames = fs, tk_held = (if k = Multi then saved else tk_held (lk_tasks s ! t))\<rparr>"
  have "task_ok ?tk" using task_ok_nth [OF assms(1) t] f by (auto simp: task_ok_def)
  then have "locks_inv (set_task t ?tk (s\<lparr>lk_locked := l\<rparr>))"
    using l by (intro inv_task [OF assms(1) t]) (auto simp: task_locks_def)
  then show ?thesis using f l(1) by (simp add: leave_def Let_def)
qed

lemma inv_leave:
  assumes "locks_inv s" and t: "t < length (lk_tasks s)"
  shows "leave t s = Blocked \<or> (\<exists>s'. leave t s = Moved s' \<and> locks_inv s')"
proof (cases "tk_frames (lk_tasks s ! t)")
  case Nil
  then show ?thesis by (simp add: leave_def)
next
  case (Cons f fs)
  show ?thesis
  proof (cases f)
    case (Entered k got saved)
    then show ?thesis using leave_entered [OF assms] Cons by blast
  next
    case Reentered
    have "task_ok ((lk_tasks s ! t)\<lparr>tk_frames := fs\<rparr>)" using task_ok_nth [OF assms] Cons Reentered by (auto simp: task_ok_def)
    then have "locks_inv (set_task t ((lk_tasks s ! t)\<lparr>tk_frames := fs\<rparr>) s)"
      using Cons Reentered by (intro inv_task_same [OF assms]) (auto simp: task_locks_def)
    then show ?thesis using Cons Reentered by (simp add: leave_def Let_def)
  qed (use Cons in \<open>simp add: leave_def\<close>)
qed

lemma inv_lease:
  assumes "locks_inv s" and "i < length (lk_leases s)"
  shows "lease_acquire i s = Moved s' \<Longrightarrow> locks_inv s'" and "lease_release i s = Moved s' \<Longrightarrow> locks_inv s'"
proof -
  let ?l = "lk_leases s ! i" and ?n = "le_name (lk_leases s ! i)"
  have lease: "all_locks (set_lease i b (s\<lparr>lk_locked := l\<rparr>)) + mset (lease_locks ?l) = all_locks s + (if b then {#?n#} else {#})" for b l
    using all_locks_lease [of i "s\<lparr>lk_locked := l\<rparr>" b] assms(2) by simp
  have rest: "lk_tasks (set_lease i b (s\<lparr>lk_locked := l\<rparr>)) = lk_tasks s" "lk_locked (set_lease i b (s\<lparr>lk_locked := l\<rparr>)) = l" for b l
    by (simp_all add: set_lease_def)
  have part: "mset (lease_locks ?l) \<subseteq># mset (lk_locked s)"
    using lease [of False "lk_locked s"] assms(1) unfolding locks_inv_def by (metis add.right_neutral mset_subset_eq_add_right)
  have owned: "le_owned ?l \<Longrightarrow> ?n \<in> set (lk_locked s)" using part by (auto simp: lease_locks_def)
  show "locks_inv s'" if "lease_acquire i s = Moved s'"
  proof -
    have n: "?n \<notin> set (lk_locked s)" "s' = set_lease i True (s\<lparr>lk_locked := ?n # lk_locked s\<rparr>)"
      using that by (simp_all add: lease_acquire_def Let_def split: if_splits)
    then have "lease_locks ?l = []" using owned by (auto simp: lease_locks_def)
    then show ?thesis using lease [of True "?n # lk_locked s"] assms(1) n by (simp add: locks_inv_def rest)
  qed
  show "locks_inv s'" if r: "lease_release i s = Moved s'"
  proof (cases "le_owned ?l")
    case True
    then have s': "s' = set_lease i False (s\<lparr>lk_locked := remove1 ?n (lk_locked s)\<rparr>)" using r by (simp add: lease_release_def Let_def)
    have "all_locks s' + {#?n#} = mset (lk_locked s)"
      using lease [of False "remove1 ?n (lk_locked s)"] True assms(1) by (simp add: s' lease_locks_def locks_inv_def)
    then have "all_locks s' = mset (remove1 ?n (lk_locked s))" by (metis add_diff_cancel_right' mset_remove1)
    then show ?thesis using assms(1) by (simp add: locks_inv_def s' rest distinct_remove1)
  next
    case False
    then show ?thesis using r assms(1) by (simp add: lease_release_def Let_def)
  qed
qed

definition forced :: "lock_event \<Rightarrow> bool" where
  "forced e \<longleftrightarrow> (case e of LeaseForce i \<Rightarrow> True | _ \<Rightarrow> False)"

lemma inv_step:
  assumes "locks_inv s" and "\<not> forced e"
  shows "lock_step e s \<noteq> Raised x" and "lock_step e s = Moved s' \<Longrightarrow> locks_inv s'"
proof -
  have "lock_step e s = Blocked \<or> (\<exists>s'. lock_step e s = Moved s' \<and> locks_inv s')"
  proof (cases "lock_step e s")
    case (Moved s')
    then show ?thesis
      using inv_start [OF assms(1)] start_ok inv_acquire [OF assms(1)] inv_expire(2) [OF assms(1)] inv_leave [OF assms(1)]
        inv_lease [OF assms(1)] assms(2)
      by (cases e) (fastforce simp: lock_step_def forced_def split: if_splits)+
  next
    case (Raised x)
    then show ?thesis
      using inv_expire(1) [OF assms(1)] inv_leave [OF assms(1)] assms(2)
      by (cases e) (fastforce simp: lock_step_def forced_def start_def acquire_next_def lease_acquire_def lease_release_def Let_def
          split: if_splits list.splits frame.splits)+
  qed simp
  then show "lock_step e s \<noteq> Raised x" "lock_step e s = Moved s' \<Longrightarrow> locks_inv s'" by auto
qed

lemma inv_new: "locks_inv (new_locks n names)"
proof -
  have "concat (map task_locks (replicate n \<lparr>tk_frames = [], tk_held = []\<rparr>)) = []"
    by (simp add: task_locks_def)
  moreover have "concat (map lease_locks (map (\<lambda>i. \<lparr>le_name = i, le_owned = False\<rparr>) names)) = []"
    by (induction names) (auto simp: lease_locks_def)
  ultimately show ?thesis by (simp add: locks_inv_def new_locks_def all_locks_def list_all_iff task_ok_def)
qed

lemma inv_run:
  "locks_inv s \<Longrightarrow> list_all (\<lambda>e. \<not> forced e) es \<Longrightarrow> lock_run es s \<noteq> Raised x \<and> (lock_run es s = Moved s' \<longrightarrow> locks_inv s')"
proof (induction es arbitrary: s)
  case (Cons e es)
  then show ?case using inv_step [OF Cons.prems(1), of e] by (cases "lock_step e s") auto
qed auto

section \<open>Waiting for one another\<close>

lemma held_locked: "frame_ok fs \<Longrightarrow> set (held_in fs) \<subseteq> set (concat (map frame_locks fs))"
  by (induction fs rule: held_in.induct) auto

definition waits_for :: "locks \<Rightarrow> nat \<Rightarrow> string \<Rightarrow> bool" where
  "waits_for s t n \<longleftrightarrow> t < length (lk_tasks s) \<and> (\<exists>k got todo fs. tk_frames (lk_tasks s ! t) = Waiting k got (n # todo) # fs)"

definition unnested :: "locks \<Rightarrow> bool" where
  "unnested s \<longleftrightarrow> list_all (\<lambda>tk. length (tk_frames tk) \<le> 1) (lk_tasks s) \<and> list_all (\<lambda>l. \<not> le_owned l) (lk_leases s)"

text \<open>A lock nobody can be waited out of is held by a task that waits for a later one.\<close>

lemma waits_later:
  assumes inv: "locks_inv s" and flat: "unnested s" and w: "waits_for s t n"
    and stuck: "\<And>t s'. lock_step (Acquire t) s \<noteq> Moved s'" "\<And>t s'. lock_step (Leave t) s \<noteq> Moved s'"
  shows "\<exists>t' n'. waits_for s t' n' \<and> n < n'"
proof -
  obtain k got todo fs where f: "t < length (lk_tasks s)" "tk_frames (lk_tasks s ! t) = Waiting k got (n # todo) # fs"
    using w by (auto simp: waits_for_def)
  have "n \<in> set (lk_locked s)"
    using stuck(1) [of t] f by (cases "n \<in> set (lk_locked s)") (auto simp: lock_step_def acquire_next_def Let_def)
  then have "n \<in># all_locks s" using inv by (simp add: locks_inv_def)
  moreover have "concat (map lease_locks (lk_leases s)) = []"
    using flat by (auto simp: unnested_def lease_locks_def list_all_iff)
  ultimately have "n \<in> set (concat (map task_locks (lk_tasks s)))" by (simp add: all_locks_def)
  then obtain tk where "tk \<in> set (lk_tasks s)" "n \<in> set (task_locks tk)" by auto
  then obtain u where u: "u < length (lk_tasks s)" "n \<in> set (task_locks (lk_tasks s ! u))"
    by (auto simp: in_set_conv_nth [of tk])
  have "length (tk_frames (lk_tasks s ! u)) \<le> 1" using flat u(1) by (simp add: unnested_def list_all_length)
  then obtain fr where fr: "tk_frames (lk_tasks s ! u) = [fr]" "n \<in> set (frame_locks fr)"
    using u(2) by (cases "tk_frames (lk_tasks s ! u)") (auto simp: task_locks_def)
  show ?thesis
  proof (cases fr)
    case (Entered k' got' saved)
    then have "\<exists>s'. leave u s = Moved s'" using leave_entered [OF inv u(1)] fr(1) by blast
    then show ?thesis using stuck(2) [of u] u(1) by (auto simp: lock_step_def)
  next
    case (Waiting k' got' todo')
    have "frame_ok [fr]" using task_ok_nth [OF inv u(1)] fr(1) by (simp add: task_ok_def)
    then have "todo' \<noteq> []" "\<forall>x \<in> set got'. \<forall>y \<in> set todo'. x < y" using Waiting by (simp_all add: sorted_wrt_append)
    then obtain n' rest where "todo' = n' # rest" "n < n'" using fr(2) Waiting by (cases todo') auto
    then show ?thesis using fr(1) u(1) Waiting by (auto simp: waits_for_def)
  qed (use fr in simp)
qed

lemma waits_names: "finite {n. \<exists>t. waits_for s t n}"
proof -
  have "{n. \<exists>t. waits_for s t n} \<subseteq> (\<lambda>t. case tk_frames (lk_tasks s ! t) of Waiting k got (n # todo) # fs \<Rightarrow> n | _ \<Rightarrow> []) ` {..<length (lk_tasks s)}"
    by (force simp: waits_for_def image_iff)
  then show ?thesis by (rule finite_subset) simp
qed

lemma no_cycle_of_waits:
  assumes "locks_inv s" and "unnested s" and "waits_for s t n"
  shows "\<exists>t s'. lock_step (Acquire t) s = Moved s' \<or> lock_step (Leave t) s = Moved s'"
proof (rule ccontr)
  assume stuck: "\<not> ?thesis"
  let ?N = "{n. \<exists>t. waits_for s t n}"
  have "Max ?N \<in> ?N" using waits_names assms(3) by (intro Max_in) auto
  then obtain t where "waits_for s t (Max ?N)" by blast
  then obtain t' n' where "waits_for s t' n'" "Max ?N < n'" using waits_later [OF assms(1,2)] stuck by blast
  then show False using Max_ge [OF waits_names, of n' s] by (auto simp: not_le [symmetric])
qed

section \<open>Properties\<close>


definition two_tasks :: "lock_event list" where
  "two_tasks = [StartMulti 0 [''b'', ''a''], StartMulti 1 [''a'', ''b''], Acquire 0, Acquire 0, Leave 0, Acquire 1]"

definition two_after :: locks where
  "two_after = \<lparr>lk_locked = [''a''], lk_tasks = [\<lparr>tk_frames = [], tk_held = []\<rparr>,
     \<lparr>tk_frames = [Waiting Multi [''a''] [''b'']], tk_held = []\<rparr>], lk_leases = []\<rparr>"

lemma two_run: "lock_run two_tasks (new_locks 2 []) = Moved two_after \<and> list_all (\<lambda>e. \<not> forced e) two_tasks \<and> unnested two_after"
  by code_simp


text \<open>
  C36: Deadlock freedom: while no task enters a context inside another and no lease is held, tasks
  that wait for account locks never wait for one another forever: whatever the steps so far, one
  of the tasks can take its next lock or leave its context.
\<close>

theorem account_locks_progress:
  assumes "list_all (\<lambda>e. \<not> forced e) es" and "lock_run es (new_locks n names) = Moved s" and "unnested s"
    and "\<not> list_all running (lk_tasks s)"
  shows "\<exists>t s'. lock_step (Acquire t) s = Moved s' \<or> lock_step (Leave t) s = Moved s'"
proof -
  have inv: "locks_inv s" using inv_run [OF inv_new assms(1)] assms(2) by blast
  obtain t where t: "t < length (lk_tasks s)" "\<not> running (lk_tasks s ! t)"
    using assms(4) by (auto simp: list_all_length)
  then obtain k got todo fs where "tk_frames (lk_tasks s ! t) = Waiting k got todo # fs"
    by (auto simp: running_def split: list.splits frame.splits)
  moreover from this have "todo \<noteq> []" using task_ok_nth [OF inv t(1)] by (auto simp: task_ok_def)
  ultimately have "waits_for s t (hd todo)" using t(1) by (cases todo) (auto simp: waits_for_def)
  then show ?thesis using no_cycle_of_waits [OF inv assms(3)] by blast
qed

lemma account_locks_progress_witness:
  "\<exists>t s'. lock_step (Acquire t) two_after = Moved s' \<or> lock_step (Leave t) two_after = Moved s'"
proof -
  have "\<not> list_all running (lk_tasks two_after)" by (simp add: two_after_def running_def)
  then show ?thesis using account_locks_progress [of two_tasks 2 "[]" two_after] two_run by simp
qed

section \<open>Nested contexts\<close>

text \<open>A multi-account context inside another one forgets the names of the outer one, so that the task
  waits for a lock it holds itself.\<close>

lemma nested_multi_waits_for_itself:
  "case lock_run [StartMulti 0 [''b''], Acquire 0, StartMulti 0 [''a''], Acquire 0, StartContext 0 ''b''] (new_locks 1 []) of
     Moved s \<Rightarrow> ''b'' \<in> set (task_locks (lk_tasks s ! 0)) \<and> lock_step (Acquire 0) s = Blocked \<and> lock_step (Leave 0) s = Blocked
   | _ \<Rightarrow> False"
  by code_simp

text \<open>So does one inside a context with a timeout, which notes nothing.\<close>

lemma timed_context_waits_for_itself:
  "case lock_run [StartTimed 0 ''b'', Acquire 0, StartContext 0 ''b''] (new_locks 1 []) of
     Moved s \<Rightarrow> ''b'' \<in> set (task_locks (lk_tasks s ! 0)) \<and> lock_step (Acquire 0) s = Blocked \<and> lock_step (Leave 0) s = Blocked
   | _ \<Rightarrow> False"
  by code_simp

text \<open>A forced release of a lease frees a lock that a task holds.\<close>

lemma forced_release_breaks_exclusion:
  "case lock_run [StartTimed 0 ''a'', Acquire 0, LeaseForce 0, StartTimed 1 ''a'', Acquire 1] (new_locks 2 [''a'']) of
     Moved s \<Rightarrow> count (all_locks s) ''a'' = 2 | _ \<Rightarrow> False"
  by (simp add: lock_step_def start_def new_locks_def running_def await_locks_def set_task_def acquire_next_def enter_def
      lease_force_def set_lease_def all_locks_def task_locks_def lease_locks_def numeral_2_eq_2)

end
