(* ===== verification/Provider_Failover.thy ===== *)
theory Provider_Failover
  imports Py_Values
begin

text \<open>
  The failover between language model providers, \<^verbatim>\<open>tg_signer/core/ai_failover.py\<close>. The HTTP client
  is the parameter \<open>post\<close>: what the request to a provider with a timeout came to, and the world after
  it, of which \<open>clock\<close> reads the time. \<^verbatim>\<open>wait_for\<close> cuts a call off at its budget; a client keeps to
  its budget when no request takes longer (\<open>prompt\<close>).
\<close>

section \<open>Providers\<close>

record provider =
  pv_id :: string
  pv_base_url :: string
  pv_api_key :: string
  pv_model :: string
  pv_timeout :: real

definition py_or :: "py \<Rightarrow> py \<Rightarrow> py" where
  "py_or a b = (if py_truthy a then a else b)"

definition entry_text :: "(py \<Rightarrow> string) \<Rightarrow> pydict \<Rightarrow> string \<Rightarrow> py \<Rightarrow> string" where
  "entry_text fr entry k otherwise = py_str fr (py_or (look entry k PNone) otherwise)"

definition build_one :: "(py \<Rightarrow> string) \<Rightarrow> string option \<Rightarrow> real \<Rightarrow> nat \<Rightarrow> pydict \<Rightarrow> provider option" where
  "build_one fr default_model timeout index entry =
     (let key = py_strip (entry_text fr entry ''api_key'' (PStr []))
      in if key = [] then None
         else Some \<lparr>pv_id = entry_text fr entry ''id'' (PStr (''provider-'' @ str_nat (Suc index))),
           pv_base_url = py_strip (entry_text fr entry ''base_url'' (PStr [])), pv_api_key = key,
           pv_model = py_strip (entry_text fr entry ''model'' (case default_model of None \<Rightarrow> PStr [] | Some m \<Rightarrow> PStr m)),
           pv_timeout = timeout\<rparr>)"

definition build_provider_configs :: "(py \<Rightarrow> string) \<Rightarrow> string option \<Rightarrow> real \<Rightarrow> pydict list \<Rightarrow> provider list" where
  "build_provider_configs fr default_model timeout entries =
     List.map_filter (\<lambda>(i, e). build_one fr default_model timeout i e) (enumerate 0 entries)"

section \<open>One provider\<close>

text \<open>What a body decodes to: \<^verbatim>\<open>resp.json()\<close> raises a \<^verbatim>\<open>JSONDecodeError\<close> for a text that is not JSON
  and a \<^verbatim>\<open>UnicodeDecodeError\<close> for bytes that are no text, both of them \<^verbatim>\<open>ValueError\<close>s.\<close>

datatype body = Json py | NotJson | NotText

datatype reply = Response nat string body | TimedOut | Failed string

datatype call_error = CallTimeout | ConfigError string | CallValueError string | CallFailed string

definition strip_slashes :: "string \<Rightarrow> string" where
  "strip_slashes s = rev (dropWhile (\<lambda>c. c = CHR ''/'') (rev s))"

definition request_url :: "provider \<Rightarrow> string" where
  "request_url p = strip_slashes (pv_base_url p) @ ''/chat/completions''"

definition read_reply :: "reply \<Rightarrow> call_error + py" where
  "read_reply r =
     (case r of
        TimedOut \<Rightarrow> Inl CallTimeout
      | Failed m \<Rightarrow> Inl (CallFailed m)
      | Response code text body \<Rightarrow>
          if code \<in> {401, 403} then Inl (ConfigError (''HTTP '' @ str_nat code @ '' Unauthorized: '' @ text))
          else if code = 404 then Inl (ConfigError (''HTTP 404 Model Not Found: '' @ text))
          else if \<not> (200 \<le> code \<and> code \<le> 299) then Inl (CallFailed (''HTTP status '' @ str_nat code))
          else (case body of Json v \<Rightarrow> Inr v
                | NotJson \<Rightarrow> Inl (CallFailed (''HTTP 200 body is not JSON: '' @ take 200 text))
                | NotText \<Rightarrow> Inl (CallValueError ''UnicodeDecodeError'')))"

type_synonym 'w poster = "string \<Rightarrow> string \<Rightarrow> pydict \<Rightarrow> real \<Rightarrow> 'w \<Rightarrow> reply \<times> 'w"

text \<open>\<^verbatim>\<open>setdefault\<close> puts the provider's model in unless the payload names one.\<close>

definition call_payload :: "provider \<Rightarrow> pydict \<Rightarrow> pydict" where
  "call_payload p payload =
     (if pv_model p \<noteq> [] \<and> map_of payload ''model'' = None then AList.update ''model'' (PStr (pv_model p)) payload else payload)"

definition call_single_provider :: "'w poster \<Rightarrow> provider \<Rightarrow> pydict \<Rightarrow> real \<Rightarrow> 'w \<Rightarrow> (call_error + py) \<times> 'w" where
  "call_single_provider post p payload timeout w =
     (case post (request_url p) (pv_api_key p) payload timeout w of (r, w1) \<Rightarrow> (read_reply r, w1))"

section \<open>All providers\<close>

definition sub_budget :: "provider \<Rightarrow> real \<Rightarrow> real" where
  "sub_budget p remaining = min (pv_timeout p) (max (1/10) (remaining - 2/10))"

definition all_failed :: "string list \<Rightarrow> exc" where
  "all_failed errors = exc_of ''AIAllProvidersFailedError'' (''all providers failed: '' @ join_with ''; '' errors)"

definition error_note :: "provider \<Rightarrow> call_error \<Rightarrow> string" where
  "error_note p x = pv_id p @ '': '' @ (case x of CallTimeout \<Rightarrow> ''timeout'' | ConfigError m \<Rightarrow> ''config error''
     | CallValueError m \<Rightarrow> ''config error'' | CallFailed m \<Rightarrow> m)"

text \<open>The errors that end the failover, when they may.\<close>

definition aborting :: "call_error \<Rightarrow> exc option" where
  "aborting x = (case x of ConfigError m \<Rightarrow> Some (exc_of ''AIProviderConfigError'' m)
     | CallValueError m \<Rightarrow> Some (exc_of ''ValueError'' m) | _ \<Rightarrow> None)"

fun try_providers ::
  "('w \<Rightarrow> real) \<Rightarrow> 'w poster \<Rightarrow> bool \<Rightarrow> real \<Rightarrow> pydict \<Rightarrow> real \<Rightarrow> string list \<Rightarrow> provider list \<Rightarrow> 'w \<Rightarrow> (exc + py) \<times> 'w" where
  "try_providers clock post abort deadline payload started errors [] w = (Inl (all_failed errors), w)"
| "try_providers clock post abort deadline payload started errors (p # ps) w =
     (let remaining = deadline - (clock w - started)
      in if remaining \<le> 2/10 then (Inl (all_failed errors), w)
         else (case call_single_provider post p (call_payload p payload) (sub_budget p remaining) w of
                 (Inr v, w1) \<Rightarrow> (Inr v, w1)
               | (Inl x, w1) \<Rightarrow>
                   (case (if abort then aborting x else None) of
                      Some e \<Rightarrow> (Inl e, w1)
                    | None \<Rightarrow> try_providers clock post abort deadline payload started (errors @ [error_note p x]) ps w1)))"

definition dispatch_request :: "('w \<Rightarrow> real) \<Rightarrow> 'w poster \<Rightarrow> bool \<Rightarrow> real \<Rightarrow> pydict \<Rightarrow> provider list \<Rightarrow> 'w \<Rightarrow> (exc + py) \<times> 'w" where
  "dispatch_request clock post abort deadline payload ps w =
     (if ps = [] then (Inl (exc_of ''AIAllProvidersFailedError'' ''no provider configured''), w)
      else try_providers clock post abort deadline payload (clock w) [] ps w)"

section \<open>Facts\<close>

definition prompt :: "('w \<Rightarrow> real) \<Rightarrow> 'w poster \<Rightarrow> bool" where
  "prompt clock post \<longleftrightarrow> (\<forall>url key payload timeout w. 0 \<le> timeout \<longrightarrow>
     clock w \<le> clock (snd (post url key payload timeout w)) \<and> clock (snd (post url key payload timeout w)) \<le> clock w + timeout)"

lemma sub_budget_fits: "2/10 < remaining \<Longrightarrow> sub_budget p remaining < remaining"
  by (auto simp: sub_budget_def)

lemma prompt_call:
  "prompt clock post \<Longrightarrow> 0 \<le> timeout \<Longrightarrow> clock (snd (call_single_provider post p payload timeout w)) \<le> clock w + timeout"
  by (auto simp: prompt_def call_single_provider_def split: prod.split) (metis snd_conv)

lemma try_in_time:
  "prompt clock post \<Longrightarrow> list_all (\<lambda>p. 0 \<le> pv_timeout p) ps \<Longrightarrow> clock w \<le> started + deadline \<Longrightarrow>
   clock (snd (try_providers clock post abort deadline payload started errors ps w)) \<le> started + deadline"
proof (induction ps arbitrary: errors w)
  case (Cons p ps)
  let ?left = "deadline - (clock w - started)"
  obtain r w1 where c: "call_single_provider post p (call_payload p payload) (sub_budget p ?left) w = (r, w1)" by fastforce
  show ?case
  proof (cases "?left \<le> 2/10")
    case False
    then have "0 \<le> sub_budget p ?left" using Cons.prems(2) by (auto simp: sub_budget_def)
    then have "clock w1 \<le> clock w + sub_budget p ?left"
      using prompt_call [OF Cons.prems(1)] c by (metis snd_conv)
    then have "clock w1 \<le> started + deadline" using sub_budget_fits [of ?left p] False by linarith
    then show ?thesis using Cons.IH [OF Cons.prems(1)] Cons.prems(2) c False
      by (auto simp: Let_def split: sum.split option.split)
  qed (use Cons.prems(3) in simp)
qed simp

text \<open>The calls made: each provider tried, until one answers or the failover ends.\<close>

fun tried ::
  "('w \<Rightarrow> real) \<Rightarrow> 'w poster \<Rightarrow> bool \<Rightarrow> real \<Rightarrow> pydict \<Rightarrow> real \<Rightarrow> provider list \<Rightarrow> 'w \<Rightarrow> (provider \<times> (call_error + py)) list" where
  "tried clock post abort deadline payload started [] w = []"
| "tried clock post abort deadline payload started (p # ps) w =
     (let remaining = deadline - (clock w - started)
      in if remaining \<le> 2/10 then []
         else (case call_single_provider post p (call_payload p payload) (sub_budget p remaining) w of
                 (r, w1) \<Rightarrow> (p, r) # (case r of Inr v \<Rightarrow> []
                   | Inl x \<Rightarrow> if abort \<and> aborting x \<noteq> None then [] else tried clock post abort deadline payload started ps w1)))"

lemma tried_result:
  "fst (try_providers clock post abort deadline payload started errors ps w) =
     (let t = tried clock post abort deadline payload started ps w
      in if t \<noteq> [] \<and> \<not> isl (snd (last t)) then Inr (projr (snd (last t)))
         else if t \<noteq> [] \<and> abort \<and> aborting (projl (snd (last t))) \<noteq> None then Inl (the (aborting (projl (snd (last t)))))
         else Inl (all_failed (errors @ map (\<lambda>(p, r). error_note p (projl r)) t)))"
proof (induction ps arbitrary: errors w)
  case (Cons p ps)
  let ?left = "deadline - (clock w - started)"
  obtain r w1 where c: "call_single_provider post p (call_payload p payload) (sub_budget p ?left) w = (r, w1)" by fastforce
  show ?case
  proof (cases "?left \<le> 2/10")
    case False
    then show ?thesis using c Cons.IH [of "errors @ [error_note p (projl r)]" w1]
      by (cases r; cases "aborting (projl r)") (auto simp: Let_def)
  qed simp
qed simp

definition goes_on :: "bool \<Rightarrow> call_error + py \<Rightarrow> bool" where
  "goes_on abort r \<longleftrightarrow> isl r \<and> \<not> (abort \<and> aborting (projl r) \<noteq> None)"

lemma tried_head:
  assumes "2/10 < deadline - (clock w - started)"
    and "call_single_provider post p (call_payload p payload) (sub_budget p (deadline - (clock w - started))) w = (r, w1)"
  shows "tried clock post abort deadline payload started (p # ps) w
      = (p, r) # (if goes_on abort r then tried clock post abort deadline payload started ps w1 else [])"
    and "snd (try_providers clock post abort deadline payload started errors (p # ps) w)
      = (if goes_on abort r then snd (try_providers clock post abort deadline payload started (errors @ [error_note p (projl r)]) ps w1) else w1)"
  using assms by (cases r; cases "aborting (projl r)"; auto simp: Let_def goes_on_def)+

lemma tried_order:
  "\<exists>rest. ps = map fst (tried clock post abort deadline payload started ps w) @ rest
    \<and> list_all (\<lambda>(p, r). goes_on abort r) (butlast (tried clock post abort deadline payload started ps w))
    \<and> (list_all (\<lambda>(p, r). goes_on abort r) (tried clock post abort deadline payload started ps w) \<longrightarrow> rest = []
       \<or> deadline - (clock (snd (try_providers clock post abort deadline payload started errors ps w)) - started) \<le> 2/10)"
proof (induction ps arbitrary: w errors)
  case (Cons p ps)
  let ?left = "deadline - (clock w - started)"
  obtain r w1 where c: "call_single_provider post p (call_payload p payload) (sub_budget p ?left) w = (r, w1)" by fastforce
  show ?case
  proof (cases "?left \<le> 2/10")
    case True
    then show ?thesis by simp
  next
    case False
    then have "2/10 < ?left" by simp
    note head = tried_head [where clock = clock and w = w, OF this c]
    show ?thesis
    proof (cases "goes_on abort r")
      case True
      obtain rest where "ps = map fst (tried clock post abort deadline payload started ps w1) @ rest"
        "list_all (\<lambda>(p, r). goes_on abort r) (butlast (tried clock post abort deadline payload started ps w1))"
        "list_all (\<lambda>(p, r). goes_on abort r) (tried clock post abort deadline payload started ps w1) \<longrightarrow> rest = []
         \<or> deadline - (clock (snd (try_providers clock post abort deadline payload started (errors @ [error_note p (projl r)]) ps w1)) - started) \<le> 2/10"
        using Cons.IH [of w1 "errors @ [error_note p (projl r)]"] by blast
      then show ?thesis unfolding head using True by (intro exI [of _ rest]) auto
    next
      case False
      then show ?thesis unfolding head by (intro exI [of _ ps]) simp
    qed
  qed
qed simp

section \<open>Properties\<close>

text \<open>
  The failover keeps its total deadline: with an HTTP client that keeps to the timeout it is
  given, the whole dispatch over any list of providers takes no longer than \<^verbatim>\<open>total_deadline\<close>.
\<close>

theorem failover_in_time:
  assumes "prompt clock post" and "list_all (\<lambda>p. 0 \<le> pv_timeout p) ps" and "0 \<le> deadline"
  shows "clock (snd (dispatch_request clock post abort deadline payload ps w)) \<le> clock w + deadline"
  using try_in_time [OF assms(1,2), of w "clock w"] assms(3) by (simp add: dispatch_request_def)

text \<open>A client whose requests take half their time and answer as their key says; the world is the time.\<close>

definition sample_post :: "real poster" where
  "sample_post url key payload timeout w =
     (if key = ''good'' then Response 200 [] (Json (PStr ''ok'')) else if key = ''bad'' then Response 401 ''no'' NotJson else TimedOut,
      w + timeout / 2)"

definition sample_provider :: "string \<Rightarrow> provider" where
  "sample_provider key = \<lparr>pv_id = key, pv_base_url = ''https://api/'', pv_api_key = key, pv_model = [], pv_timeout = 15\<rparr>"

lemma sample_prompt: "prompt (\<lambda>w. w) sample_post"
  by (simp add: prompt_def sample_post_def)

lemma failover_in_time_witness:
  "snd (dispatch_request (\<lambda>w. w) sample_post True 35 [] [sample_provider ''slow'', sample_provider ''good''] 100) \<le> 135"
  using failover_in_time [OF sample_prompt, of "[sample_provider ''slow'', sample_provider ''good'']" 35 True "[]" 100]
  by (simp add: sample_provider_def)

text \<open>
  The failover tries the providers in their order and stops at the first that answers: its
  result is that answer, or the configuration error that ended it, or a report of every error;
  the report is given only when all were tried or no time was left.
\<close>

theorem failover_order:
  assumes "attempts = tried clock post abort deadline payload (clock w) ps w" and "ps \<noteq> []" and "dispatch_request clock post abort deadline payload ps w = (res, w')"
  shows "(\<exists>rest. ps = map fst attempts @ rest \<and> list_all (\<lambda>(p, r). goes_on abort r) (butlast attempts)
      \<and> (list_all (\<lambda>(p, r). goes_on abort r) attempts \<longrightarrow> rest = [] \<or> deadline - (clock w' - clock w) \<le> 2/10))
    \<and> res = (if attempts \<noteq> [] \<and> \<not> goes_on abort (snd (last attempts))
        then (case snd (last attempts) of Inr v \<Rightarrow> Inr v | Inl x \<Rightarrow> Inl (the (aborting x)))
        else Inl (all_failed (map (\<lambda>(p, r). error_note p (projl r)) attempts)))"
proof -
  have d: "try_providers clock post abort deadline payload (clock w) [] ps w = (res, w')"
    using assms(2,3) by (simp add: dispatch_request_def)
  note attempts_def = assms(1)
  have "res = fst (try_providers clock post abort deadline payload (clock w) [] ps w)" by (simp add: d)
  also have "\<dots> = (if attempts \<noteq> [] \<and> \<not> goes_on abort (snd (last attempts))
        then (case snd (last attempts) of Inr v \<Rightarrow> Inr v | Inl x \<Rightarrow> Inl (the (aborting x)))
        else Inl (all_failed (map (\<lambda>(p, r). error_note p (projl r)) attempts)))"
    unfolding tried_result attempts_def [symmetric] by (cases "snd (last attempts)") (auto simp: Let_def goes_on_def)
  finally show ?thesis
    using tried_order [of ps clock post abort deadline payload "clock w" w "[]"] d unfolding attempts_def by simp
qed

lemma failover_order_witness:
  "\<exists>w'. dispatch_request (\<lambda>w. w) sample_post False 35 [] [sample_provider ''bad'', sample_provider ''good''] (100 :: real) = (Inr (PStr ''ok''), w')"
proof -
  let ?ps = "[sample_provider ''bad'', sample_provider ''good'']"
  have "\<exists>m. tried (\<lambda>w. w) sample_post False 35 [] 100 ?ps (100 :: real)
      = [(sample_provider ''bad'', Inl (ConfigError m)), (sample_provider ''good'', Inr (PStr ''ok''))]"
    by (simp add: Let_def call_single_provider_def sample_post_def sample_provider_def read_reply_def sub_budget_def call_payload_def)
  then obtain m where t: "[(sample_provider ''bad'', Inl (ConfigError m)), (sample_provider ''good'', Inr (PStr ''ok''))]
      = tried (\<lambda>w. w) sample_post False 35 [] 100 ?ps (100 :: real)" by metis
  obtain res w' where d: "dispatch_request (\<lambda>w. w) sample_post False 35 [] ?ps 100 = (res, w')" by fastforce
  from failover_order [OF t _ d] show ?thesis using d by (simp add: goes_on_def)
qed

section \<open>Replies that are no text\<close>

text \<open>Bytes that do not decode are a \<^verbatim>\<open>ValueError\<close> of another class than the one the source turns
  into a provider error, so that a broken reply of one provider ends the whole failover.\<close>

lemma undecodable_reply_aborts:
  "read_reply (Response 200 text NotText) = Inl (CallValueError ''UnicodeDecodeError'')
   \<and> aborting (CallValueError ''UnicodeDecodeError'') \<noteq> None
   \<and> (\<exists>m. read_reply (Response 200 text NotJson) = Inl (CallFailed m)) \<and> aborting (CallFailed m) = None"
  by (simp add: read_reply_def aborting_def)

end
