(* ===== verification/Notification_Outbox.thy ===== *)
theory Notification_Outbox
  imports Py_Values
begin

text \<open>
  The receipts of notifications, \<^verbatim>\<open>backend/services/notification_outbox.py\<close>. The table of the
  database is an association list from its primary key to its rows, in the order of insertion; a
  transaction is one step. A delivery is three of them, as in \<^verbatim>\<open>deliver_notification\<close>: it claims the
  receipt, calls the provider and stores what came of it, so that deliveries, crashes and the
  decisions of an operator interleave (\<open>outbox_step\<close>). The hash is a parameter.
\<close>

section \<open>Receipts\<close>

datatype delivery_state = Pending | Sent | Unknown | Failed

datatype receipt_key = Receipt (rk_id: string) (rk_channel: string)

record envelope =
  ne_id :: string
  ne_event :: string
  ne_account :: string
  ne_task :: string
  ne_run :: string
  ne_payload_hash :: string
  ne_attempt :: int
  ne_state :: delivery_state
  ne_status :: string

record receipt =
  nr_event :: string
  nr_account :: string
  nr_task :: string
  nr_run :: string
  nr_payload_hash :: string
  nr_status :: string
  nr_attempt :: int
  nr_state :: delivery_state
  nr_error :: string
  nr_created :: time
  nr_updated :: time

record outbox =
  ob_rows :: "(receipt_key, receipt) odict"
  ob_max :: int
  ob_retention :: time

datatype outbox_error = BadEnvelope string | NotEnqueued | OutboxFull | BadReconcile string

definition new_outbox :: "int \<Rightarrow> time \<Rightarrow> outbox" where
  "new_outbox max_records retention = \<lparr>ob_rows = [], ob_max = max 1 max_records, ob_retention = max 0 retention\<rparr>"

section \<open>The identity of a notification\<close>

text \<open>\<^verbatim>\<open>json.dumps\<close> of a list of strings, without spaces and with characters left as they are.\<close>

definition hex_digit :: "nat \<Rightarrow> char" where
  "hex_digit n = (''0123456789abcdef'' ! n)"

definition json_char :: "char \<Rightarrow> string" where
  "json_char c = (let n = of_char c :: nat in
     if n = 34 then [char_of (92 :: nat), char_of (34 :: nat)]
     else if n = 92 then [char_of (92 :: nat), char_of (92 :: nat)]
     else if n = 10 then [char_of (92 :: nat), CHR ''n'']
     else if n = 13 then [char_of (92 :: nat), CHR ''r'']
     else if n = 9 then [char_of (92 :: nat), CHR ''t'']
     else if n = 12 then [char_of (92 :: nat), CHR ''f'']
     else if n = 8 then [char_of (92 :: nat), CHR ''b'']
     else if n < 32 then char_of (92 :: nat) # ''u00'' @ [hex_digit (n div 16), hex_digit (n mod 16)]
     else [c])"

definition json_str :: "string \<Rightarrow> string" where
  "json_str s = char_of (34 :: nat) # concat (map json_char s) @ [char_of (34 :: nat)]"

fun json_items :: "string list \<Rightarrow> string" where
  "json_items [] = []"
| "json_items [s] = json_str s"
| "json_items (s # t # ts) = json_str s @ '','' @ json_items (t # ts)"

definition json_strings :: "string list \<Rightarrow> string" where
  "json_strings ts = ''['' @ json_items ts @ '']''"

definition make_envelope ::
  "(string \<Rightarrow> string) \<Rightarrow> string \<Rightarrow> string \<Rightarrow> string \<Rightarrow> string \<Rightarrow> string \<Rightarrow> string \<Rightarrow> outbox_error + envelope" where
  "make_envelope digest event account task run payload_json status =
     (if run = [] then Inl (BadEnvelope ''A notification requires a run identity'')
      else Inr \<lparr>ne_id = digest (json_strings [run, event, account, task]), ne_event = event, ne_account = account, ne_task = task,
             ne_run = run, ne_payload_hash = digest payload_json, ne_attempt = 0, ne_state = Pending, ne_status = status\<rparr>)"

section \<open>Transactions\<close>

definition envelope_fields :: "envelope \<Rightarrow> string \<Rightarrow> string list" where
  "envelope_fields e channel =
     [ne_id e, channel, ne_event e, ne_account e, ne_task e, ne_run e, ne_payload_hash e, ne_status e]"

definition new_receipt :: "envelope \<Rightarrow> time \<Rightarrow> receipt" where
  "new_receipt e now = \<lparr>nr_event = ne_event e, nr_account = ne_account e, nr_task = ne_task e, nr_run = ne_run e,
     nr_payload_hash = ne_payload_hash e, nr_status = ne_status e, nr_attempt = 0, nr_state = Pending, nr_error = [],
     nr_created = now, nr_updated = now\<rparr>"

definition expired :: "outbox \<Rightarrow> time \<Rightarrow> receipt \<Rightarrow> bool" where
  "expired ob now r \<longleftrightarrow> nr_state r \<in> {Sent, Failed} \<and> nr_updated r < now - ob_retention ob"

text \<open>An error rolls the transaction back, the removal of the old receipts included.\<close>

definition enqueue :: "envelope \<Rightarrow> string \<Rightarrow> time \<Rightarrow> outbox \<Rightarrow> outbox_error + receipt \<times> outbox" where
  "enqueue e channel now ob =
     (if ne_state e \<noteq> Pending \<or> ne_attempt e \<noteq> 0 then Inl (BadEnvelope ''New envelopes must be pending and unattempted'')
      else if list_ex (\<lambda>f. length f > 256) (envelope_fields e channel) then Inl (BadEnvelope ''Notification metadata exceeds its size limit'')
      else (case map_of (ob_rows ob) (Receipt (ne_id e) channel) of
              Some r \<Rightarrow> Inr (r, ob)
            | None \<Rightarrow>
                let kept = filter (\<lambda>(k, r). \<not> expired ob now r) (ob_rows ob)
                in if int (length kept) \<ge> ob_max ob then Inl OutboxFull
                   else Inr (new_receipt e now, ob\<lparr>ob_rows := kept @ [(Receipt (ne_id e) channel, new_receipt e now)]\<rparr>)))"

definition get_receipt :: "receipt_key \<Rightarrow> outbox \<Rightarrow> outbox_error + receipt" where
  "get_receipt k ob = (case map_of (ob_rows ob) k of None \<Rightarrow> Inl NotEnqueued | Some r \<Rightarrow> Inr r)"

text \<open>The newest first; of receipts of the same time, whose order the query leaves open, in their order.\<close>

definition list_records :: "int \<Rightarrow> outbox \<Rightarrow> (receipt_key \<times> receipt) list" where
  "list_records limit ob = take (nat (max 1 (min limit 1000))) (sort_key (\<lambda>(k, r). - nr_updated r) (ob_rows ob))"

text \<open>\<^verbatim>\<open>UPDATE ... WHERE notification_id=? AND channel=?\<close>\<close>

definition update_row :: "receipt_key \<Rightarrow> (receipt \<Rightarrow> receipt) \<Rightarrow> outbox \<Rightarrow> outbox" where
  "update_row k f ob = (case map_of (ob_rows ob) k of None \<Rightarrow> ob | Some r \<Rightarrow> ob\<lparr>ob_rows := AList.update k (f r) (ob_rows ob)\<rparr>)"

datatype claim = Settled delivery_state | Claimed outbox

definition claim_receipt :: "receipt_key \<Rightarrow> time \<Rightarrow> outbox \<Rightarrow> outbox_error + claim" where
  "claim_receipt k now ob =
     (case map_of (ob_rows ob) k of
        None \<Rightarrow> Inl NotEnqueued
      | Some r \<Rightarrow>
          if nr_state r \<noteq> Pending then Inr (Settled (nr_state r))
          else Inr (Claimed (update_row k (\<lambda>r. r\<lparr>nr_state := Unknown, nr_attempt := nr_attempt r + 1, nr_updated := now\<rparr>) ob)))"

text \<open>How the provider's call ended; a name is the class of its exception.\<close>

datatype send_outcome = Accepted | NotConnected string | HttpStatus nat | Ambiguous string | Cancelled

definition outcome_state :: "send_outcome \<Rightarrow> (delivery_state \<times> string) option" where
  "outcome_state out =
     (case out of
        Accepted \<Rightarrow> Some (Sent, [])
      | NotConnected name \<Rightarrow> Some (Failed, name)
      | HttpStatus code \<Rightarrow> Some (if code < 500 then Failed else Unknown, ''HTTP_'' @ str_nat code)
      | Ambiguous name \<Rightarrow> Some (Unknown, name)
      | Cancelled \<Rightarrow> None)"

definition finish_receipt :: "receipt_key \<Rightarrow> send_outcome \<Rightarrow> time \<Rightarrow> outbox \<Rightarrow> outbox" where
  "finish_receipt k out now ob =
     (case outcome_state out of
        None \<Rightarrow> ob
      | Some (st, code) \<Rightarrow> update_row k (\<lambda>r. r\<lparr>nr_state := st, nr_error := code, nr_updated := now\<rparr>) ob)"

text \<open>A delivery that nothing interleaves with; \<open>None\<close> is its cancellation, which passes on.\<close>

definition deliver :: "(receipt_key \<Rightarrow> 'w \<Rightarrow> send_outcome \<times> 'w) \<Rightarrow> receipt_key \<Rightarrow> time \<Rightarrow> time \<Rightarrow> outbox \<Rightarrow> 'w \<Rightarrow>
    (outbox_error + delivery_state option) \<times> outbox \<times> 'w" where
  "deliver sender k t1 t2 ob w =
     (case claim_receipt k t1 ob of
        Inl x \<Rightarrow> (Inl x, ob, w)
      | Inr (Settled st) \<Rightarrow> (Inr (Some st), ob, w)
      | Inr (Claimed ob1) \<Rightarrow>
          (case sender k w of (out, w1) \<Rightarrow> (Inr (map_option fst (outcome_state out)), finish_receipt k out t2 ob1, w1)))"

definition reconcile :: "receipt_key \<Rightarrow> bool \<Rightarrow> bool \<Rightarrow> time \<Rightarrow> outbox \<Rightarrow> outbox_error + outbox" where
  "reconcile k not_delivered delivered now ob =
     (if not_delivered = delivered then Inl (BadReconcile ''Provide exactly one confirmed delivery outcome'')
      else (case map_of (ob_rows ob) k of
              None \<Rightarrow> Inl NotEnqueued
            | Some r \<Rightarrow>
                if nr_state r = Sent \<and> not_delivered then Inl (BadReconcile ''A sent receipt cannot be automatically replayed'')
                else Inr (update_row k (\<lambda>r. r\<lparr>nr_state := (if not_delivered then Pending else Sent), nr_error := ''reconciled'',
                       nr_updated := now\<rparr>) ob)))"

section \<open>Interleavings\<close>

text \<open>The deliveries under way, each with whether it has called the provider, and, as a record for the
  properties, the calls of the provider and its answers so far. A crash ends every delivery where it is.\<close>

record flight =
  fl_key :: receipt_key
  fl_called :: bool

record outbox_world =
  ow_box :: outbox
  ow_flights :: "flight list"
  ow_sends :: "receipt_key list"
  ow_answers :: "(receipt_key \<times> send_outcome) list"

datatype outbox_event =
    Enqueue envelope string
  | Claim receipt_key
  | CallProvider nat
  | Finish nat send_outcome
  | Reconcile receipt_key bool bool
  | Crash

definition drop_nth :: "nat \<Rightarrow> 'a list \<Rightarrow> 'a list" where
  "drop_nth i xs = take i xs @ drop (Suc i) xs"

definition outbox_step :: "time \<times> outbox_event \<Rightarrow> outbox_world \<Rightarrow> outbox_world" where
  "outbox_step ev w =
     (case ev of (now, e) \<Rightarrow>
       (case e of
          Enqueue env channel \<Rightarrow> (case enqueue env channel now (ow_box w) of Inl x \<Rightarrow> w | Inr (r, ob) \<Rightarrow> w\<lparr>ow_box := ob\<rparr>)
        | Claim k \<Rightarrow>
            (case claim_receipt k now (ow_box w) of
               Inr (Claimed ob) \<Rightarrow> w\<lparr>ow_box := ob, ow_flights := ow_flights w @ [\<lparr>fl_key = k, fl_called = False\<rparr>]\<rparr>
             | _ \<Rightarrow> w)
        | CallProvider i \<Rightarrow>
            if i < length (ow_flights w) \<and> \<not> fl_called (ow_flights w ! i)
            then w\<lparr>ow_flights := (ow_flights w)[i := (ow_flights w ! i)\<lparr>fl_called := True\<rparr>],
                   ow_sends := ow_sends w @ [fl_key (ow_flights w ! i)]\<rparr>
            else w
        | Finish i out \<Rightarrow>
            if i < length (ow_flights w) \<and> (fl_called (ow_flights w ! i) \<or> out = Cancelled)
            then w\<lparr>ow_box := finish_receipt (fl_key (ow_flights w ! i)) out now (ow_box w),
                   ow_flights := drop_nth i (ow_flights w), ow_answers := ow_answers w @ [(fl_key (ow_flights w ! i), out)]\<rparr>
            else w
        | Reconcile k no yes \<Rightarrow> (case reconcile k no yes now (ow_box w) of Inl x \<Rightarrow> w | Inr ob \<Rightarrow> w\<lparr>ow_box := ob\<rparr>)
        | Crash \<Rightarrow> w\<lparr>ow_flights := []\<rparr>))"

definition outbox_run :: "(time \<times> outbox_event) list \<Rightarrow> outbox_world \<Rightarrow> outbox_world" where
  "outbox_run evs w = fold outbox_step evs w"

definition new_world :: "int \<Rightarrow> time \<Rightarrow> outbox_world" where
  "new_world max_records retention = \<lparr>ow_box = new_outbox max_records retention, ow_flights = [], ow_sends = [], ow_answers = []\<rparr>"

end
