(* ===== verification/Outbox_Props.thy ===== *)
theory Outbox_Props
  imports Notification_Outbox
begin

text \<open>
  What the receipts are kept for: a notification is not sent twice by itself, whatever deliveries,
  crashes and decisions of the operator interleave, a receipt says no more than is known, and what
  is unresolved is never thrown away.
\<close>

section \<open>Rows\<close>

definition row_state :: "receipt_key \<Rightarrow> outbox \<Rightarrow> delivery_state option" where
  "row_state k ob = map_option nr_state (map_of (ob_rows ob) k)"

lemma update_row_state:
  "row_state j (update_row k f ob) = (if j = k then map_option (\<lambda>r. nr_state (f r)) (map_of (ob_rows ob) k) else row_state j ob)"
  by (auto simp: row_state_def update_row_def od_simps split: option.splits)

lemma update_row_fields [simp]: "ob_max (update_row k f ob) = ob_max ob" "ob_retention (update_row k f ob) = ob_retention ob"
  by (simp_all add: update_row_def split: option.splits)

lemma update_row_keys [simp]: "map fst (ob_rows (update_row k f ob)) = map fst (ob_rows ob)"
proof (cases "map_of (ob_rows ob) k")
  case (Some r)
  then have "k \<in> fst ` set (ob_rows ob)" by (rule map_of_SomeD [THEN rev_image_eqI]) simp
  then show ?thesis using Some by (simp add: update_row_def update_keys)
qed (simp add: update_row_def)

lemma row_state_update:
  "row_state k ob \<noteq> None \<Longrightarrow> (\<And>r. nr_state (f r) = st) \<Longrightarrow> row_state j (update_row k f ob) = (if j = k then Some st else row_state j ob)"
  unfolding update_row_state by (auto simp: row_state_def)

lemma update_row_absent: "row_state k ob = None \<Longrightarrow> update_row k f ob = ob"
  by (simp add: row_state_def update_row_def)

lemma claim_cases:
  assumes "claim_receipt k now ob = Inr (Claimed ob1)"
  shows "row_state k ob = Some Pending \<and> ob1 = update_row k (\<lambda>r. r\<lparr>nr_state := Unknown, nr_attempt := nr_attempt r + 1, nr_updated := now\<rparr>) ob"
  using assms by (auto simp: claim_receipt_def row_state_def split: option.splits if_splits)

lemma claim_state:
  "claim_receipt k now ob = Inr (Claimed ob1) \<Longrightarrow> row_state j ob1 = (if j = k then Some Unknown else row_state j ob)"
  by (auto dest!: claim_cases simp: row_state_update)

lemma reconcile_cases:
  assumes "reconcile k no yes now ob = Inr ob1"
  shows "no \<noteq> yes \<and> row_state k ob \<noteq> None \<and> (row_state k ob = Some Sent \<longrightarrow> yes)
    \<and> ob1 = update_row k (\<lambda>r. r\<lparr>nr_state := (if no then Pending else Sent), nr_error := ''reconciled'', nr_updated := now\<rparr>) ob"
  using assms by (auto simp: reconcile_def row_state_def split: option.splits if_splits)

lemma reconcile_state:
  "reconcile k no yes now ob = Inr ob1 \<Longrightarrow> row_state j ob1 = (if j = k then Some (if no then Pending else Sent) else row_state j ob)"
  by (auto dest!: reconcile_cases simp: row_state_update)

lemma finish_state:
  "row_state j (finish_receipt k out now ob) =
     (case outcome_state out of None \<Rightarrow> row_state j ob
      | Some (st, code) \<Rightarrow> if j = k \<and> row_state k ob \<noteq> None then Some st else row_state j ob)"
  by (cases "row_state k ob = None") (auto simp: finish_receipt_def row_state_update update_row_absent split: option.splits prod.splits)

lemma outcome_not_pending: "outcome_state out = Some (st, code) \<Longrightarrow> st \<noteq> Pending"
  by (auto simp: outcome_state_def split: send_outcome.splits if_splits)

lemma enqueue_cases:
  assumes "enqueue e channel now ob = Inr (r, ob1)"
  obtains "ob1 = ob" and "map_of (ob_rows ob) (Receipt (ne_id e) channel) = Some r"
  | "row_state (Receipt (ne_id e) channel) ob = None" and "r = new_receipt e now"
    and "ob1 = ob\<lparr>ob_rows := filter (\<lambda>(k, r). \<not> expired ob now r) (ob_rows ob) @ [(Receipt (ne_id e) channel, r)]\<rparr>"
    and "int (length (ob_rows ob1)) \<le> ob_max ob"
  using assms by (auto simp: enqueue_def Let_def row_state_def split: option.splits if_splits)

section \<open>No notification twice\<close>

definition uncalled :: "receipt_key \<Rightarrow> outbox_world \<Rightarrow> nat" where
  "uncalled k w = length (filter (\<lambda>f. fl_key f = k \<and> \<not> fl_called f) (ow_flights w))"

definition reopens :: "receipt_key \<Rightarrow> time \<times> outbox_event \<Rightarrow> bool" where
  "reopens k ev = (case snd ev of Reconcile j no yes \<Rightarrow> j = k \<and> no | _ \<Rightarrow> False)"

text \<open>The calls that were made, that are about to be made and that may still be claimed.\<close>

definition chances :: "receipt_key \<Rightarrow> outbox_world \<Rightarrow> nat" where
  "chances k w = count_list (ow_sends w) k + uncalled k w + (if row_state k (ow_box w) \<in> {None, Some Pending} then 1 else 0)"

text \<open>No row is older than the time \<open>t0\<close>, so that none expires up to the end of the retention.\<close>

definition recent :: "time \<Rightarrow> outbox \<Rightarrow> bool" where
  "recent t0 ob \<longleftrightarrow> (\<forall>(k, r) \<in> set (ob_rows ob). t0 \<le> nr_updated r)"

lemma recent_update:
  assumes "recent t0 ob" and "\<And>r. t0 \<le> nr_updated r \<Longrightarrow> t0 \<le> nr_updated (f r)"
  shows "recent t0 (update_row k f ob)"
proof (cases "map_of (ob_rows ob) k")
  case (Some r)
  then have "(k, r) \<in> set (ob_rows ob)" by (rule map_of_SomeD)
  then have "t0 \<le> nr_updated (f r)" using assms by (fastforce simp: recent_def)
  then show ?thesis using Some assms(1) set_update_subset [of k "f r" "ob_rows ob"] by (fastforce simp: recent_def update_row_def)
qed (use assms(1) in \<open>simp add: update_row_def\<close>)

lemma recent_kept:
  assumes "recent t0 ob" and "now \<le> t0 + ob_retention ob"
  shows "filter (\<lambda>(k, r). \<not> expired ob now r) (ob_rows ob) = ob_rows ob"
  using assms by (fastforce simp: recent_def expired_def filter_id_conv)

definition in_budget :: "time \<Rightarrow> receipt_key \<Rightarrow> nat \<Rightarrow> outbox_world \<Rightarrow> bool" where
  "in_budget t0 k n w \<longleftrightarrow> recent t0 (ow_box w) \<and> chances k w \<le> n"

lemma uncalled_simps [simp]:
  "uncalled k (w\<lparr>ow_box := ob\<rparr>) = uncalled k w" "uncalled k (w\<lparr>ow_sends := ss\<rparr>) = uncalled k w" "uncalled k (w\<lparr>ow_answers := as\<rparr>) = uncalled k w"
  by (simp_all add: uncalled_def)

lemma filter_drop_nth: "length (filter P (drop_nth i xs)) \<le> length (filter P xs)"
proof -
  have "length (filter P (take i xs @ drop i xs)) = length (filter P (take i xs)) + length (filter P (drop i xs))"
    by (simp only: filter_append length_append)
  moreover have "length (filter P (tl ys)) \<le> length (filter P ys)" for ys by (cases ys) simp_all
  then have "length (filter P (drop (Suc i) xs)) \<le> length (filter P (drop i xs))" by (simp add: drop_Suc flip: tl_drop)
  ultimately show ?thesis by (simp add: drop_nth_def)
qed

lemma call_uncalled:
  assumes "i < length fs" and "\<not> fl_called (fs ! i)"
  shows "length (filter (\<lambda>f. fl_key f = k \<and> \<not> fl_called f) fs)
    = length (filter (\<lambda>f. fl_key f = k \<and> \<not> fl_called f) (fs[i := (fs ! i)\<lparr>fl_called := True\<rparr>])) + (if fl_key (fs ! i) = k then 1 else 0)"
  using assms
proof (induction fs arbitrary: i)
  case (Cons f fs)
  then show ?case by (cases i) auto
qed simp

lemma in_budget_enqueue:
  assumes "in_budget t0 k n w" and "t0 \<le> now" and "now \<le> t0 + ob_retention (ow_box w)"
    and "enqueue e channel now (ow_box w) = Inr (r, ob)"
  shows "in_budget t0 k n (w\<lparr>ow_box := ob\<rparr>)"
  using assms(4)
proof (cases rule: enqueue_cases)
  case 2
  let ?j = "Receipt (ne_id e) channel"
  have ob: "ob_rows ob = ob_rows (ow_box w) @ [(?j, new_receipt e now)]"
    using 2 recent_kept [of t0 "ow_box w" now] assms(1,3) by (simp add: in_budget_def)
  have "row_state k ob = (if k = ?j then Some Pending else row_state k (ow_box w))"
    using 2(1) by (auto simp: row_state_def ob map_add_def new_receipt_def split: option.splits)
  moreover have "recent t0 ob" using assms(1,2) by (auto simp: recent_def ob new_receipt_def in_budget_def)
  ultimately show ?thesis using assms(1) 2(1) by (auto simp: in_budget_def chances_def)
qed (use assms(1) in simp)

lemma in_budget_finish:
  assumes "in_budget t0 k n w" and "t0 \<le> now"
  shows "in_budget t0 k n (w\<lparr>ow_box := finish_receipt j out now (ow_box w), ow_flights := drop_nth i (ow_flights w), ow_answers := as\<rparr>)"
proof -
  have "recent t0 (finish_receipt j out now (ow_box w))"
    using assms by (auto simp: finish_receipt_def in_budget_def intro!: recent_update split: option.splits)
  moreover have "row_state k (finish_receipt j out now (ow_box w)) \<in> {None, Some Pending} \<Longrightarrow> row_state k (ow_box w) \<in> {None, Some Pending}"
    using outcome_not_pending by (fastforce simp: finish_state split: option.splits prod.splits if_splits)
  ultimately show ?thesis using assms(1) filter_drop_nth [of "\<lambda>f. fl_key f = k \<and> \<not> fl_called f" i "ow_flights w"]
    by (auto simp: in_budget_def chances_def uncalled_def)
qed

lemma in_budget_step:
  assumes "in_budget t0 k n w" and "t0 \<le> fst ev" and "fst ev \<le> t0 + ob_retention (ow_box w)"
  shows "in_budget t0 k (n + (if reopens k ev then 1 else 0)) (outbox_step ev w)"
proof (cases ev)
  case (Pair now e)
  have t: "t0 \<le> now" "now \<le> t0 + ob_retention (ow_box w)" using assms Pair by auto
  show ?thesis
  proof (cases e)
    case (Enqueue env channel)
    then show ?thesis using assms(1) in_budget_enqueue [OF assms(1) t] Pair by (auto simp: outbox_step_def reopens_def split: sum.splits)
  next
    case (Claim j)
    show ?thesis
    proof (cases "\<exists>ob. claim_receipt j now (ow_box w) = Inr (Claimed ob)")
      case True
      then obtain ob where ob: "claim_receipt j now (ow_box w) = Inr (Claimed ob)" by blast
      have "recent t0 ob" using claim_cases [OF ob] assms(1) t by (auto simp: in_budget_def intro!: recent_update)
      then show ?thesis using assms(1) ob claim_cases [OF ob] claim_state [OF ob, of k] Pair Claim
        by (auto simp: outbox_step_def reopens_def in_budget_def chances_def uncalled_def)
    next
      case False
      then have "outbox_step ev w = w" using Pair Claim by (auto simp: outbox_step_def split: sum.splits claim.splits)
      then show ?thesis using assms(1) by (simp add: in_budget_def)
    qed
  next
    case (CallProvider i)
    then show ?thesis using assms(1) call_uncalled [of i "ow_flights w" k] Pair
      by (auto simp: outbox_step_def reopens_def in_budget_def chances_def uncalled_def)
  next
    case (Finish i out)
    then show ?thesis using assms(1) in_budget_finish [OF assms(1) t(1)] Pair by (simp add: outbox_step_def reopens_def)
  next
    case (Reconcile j no yes)
    show ?thesis
    proof (cases "reconcile j no yes now (ow_box w)")
      case (Inl x)
      then show ?thesis using assms(1) Pair Reconcile by (simp add: outbox_step_def in_budget_def)
    next
      case (Inr ob)
      have "recent t0 ob" using reconcile_cases [OF Inr] assms(1) t by (auto simp: in_budget_def intro!: recent_update)
      then show ?thesis using assms(1) Inr reconcile_cases [OF Inr] reconcile_state [OF Inr, of k] Pair Reconcile
        by (auto simp: outbox_step_def reopens_def in_budget_def chances_def)
    qed
  next
    case Crash
    then show ?thesis using assms(1) Pair by (simp add: outbox_step_def reopens_def in_budget_def chances_def uncalled_def)
  qed
qed

lemma step_retention [simp]: "ob_retention (ow_box (outbox_step ev w)) = ob_retention (ow_box w)"
  by (auto simp: outbox_step_def finish_receipt_def
      split: prod.splits outbox_event.splits sum.splits claim.splits option.splits dest!: claim_cases reconcile_cases elim!: enqueue_cases)

lemma in_budget_run:
  assumes "in_budget t0 k n w" and "\<forall>ev \<in> set evs. t0 \<le> fst ev \<and> fst ev \<le> t0 + ob_retention (ow_box w)"
  shows "in_budget t0 k (n + length (filter (reopens k) evs)) (outbox_run evs w)"
  using assms
proof (induction evs arbitrary: n w)
  case (Cons ev evs)
  then have "in_budget t0 k (n + (if reopens k ev then 1 else 0)) (outbox_step ev w)" by (intro in_budget_step) auto
  from Cons.IH [OF this] Cons.prems(2) show ?case by (auto simp: outbox_run_def split: if_splits)
qed (simp add: outbox_run_def)

text \<open>
  C15: Within the time receipts are retained a notification is sent at most once on a channel, and
  once more for each time the operator confirmed that it was not delivered: whatever is enqueued,
  delivered, cut short by a crash or answered late in between. Until such a confirmation, a
  notification that was sent is not pending again.
\<close>

theorem sent_at_most_once:
  assumes "\<forall>ev \<in> set evs. t0 \<le> fst ev \<and> fst ev \<le> t0 + max 0 retention"
  shows "count_list (ow_sends (outbox_run evs (new_world m retention))) k \<le> 1 + length (filter (reopens k) evs)
    \<and> (count_list (ow_sends (outbox_run evs (new_world m retention))) k = 1 + length (filter (reopens k) evs) \<longrightarrow>
         row_state k (ow_box (outbox_run evs (new_world m retention))) \<notin> {None, Some Pending})"
proof -
  have "in_budget t0 k 1 (new_world m retention)"
    by (simp add: in_budget_def recent_def chances_def uncalled_def new_world_def new_outbox_def row_state_def)
  moreover have "ob_retention (ow_box (new_world m retention)) = max 0 retention" by (simp add: new_world_def new_outbox_def)
  ultimately have "in_budget t0 k (1 + length (filter (reopens k) evs)) (outbox_run evs (new_world m retention))"
    using in_budget_run assms by metis
  then show ?thesis unfolding in_budget_def chances_def by (auto split: if_splits)
qed

text \<open>A delivery that crashed after the provider was called, and one that was started again.\<close>

definition sample_envelope :: envelope where
  "sample_envelope = \<lparr>ne_id = ''n'', ne_event = ''done'', ne_account = ''a'', ne_task = ''t'', ne_run = ''r'', ne_payload_hash = ''h'',
     ne_attempt = 0, ne_state = Pending, ne_status = []\<rparr>"

definition sample_key :: receipt_key where
  "sample_key = Receipt ''n'' ''telegram''"

definition crash_trace :: "(time \<times> outbox_event) list" where
  "crash_trace = [(1, Enqueue sample_envelope ''telegram''), (2, Claim sample_key), (2, CallProvider 0), (3, Crash),
     (4, Enqueue sample_envelope ''telegram''), (5, Claim sample_key), (5, CallProvider 0)]"

lemma sent_at_most_once_witness:
  "count_list (ow_sends (outbox_run crash_trace (new_world 10 60))) sample_key \<le> 1"
proof -
  have "\<forall>ev \<in> set crash_trace. 0 \<le> fst ev \<and> fst ev \<le> 0 + max 0 (60 :: time)" by (simp add: crash_trace_def)
  moreover have "filter (reopens sample_key) crash_trace = []" by (simp add: crash_trace_def reopens_def)
  ultimately show ?thesis using sent_at_most_once [of crash_trace 0 60 10 sample_key] by simp
qed

section \<open>A receipt says what is known, and what is unresolved stays\<close>

definition outbox_ok :: "outbox \<Rightarrow> bool" where
  "outbox_ok ob \<longleftrightarrow> od_wf (ob_rows ob) \<and> int (length (ob_rows ob)) \<le> ob_max ob"

lemma od_map_of_kept: "od_wf d \<Longrightarrow> map_of (filter P d) k = (case map_of d k of None \<Rightarrow> None | Some v \<Rightarrow> if P (k, v) then Some v else None)"
  by (induction d) (auto simp: map_of_eq_None_iff split: option.splits)

lemma row_state_enqueue:
  assumes "od_wf (ob_rows ob)" and "enqueue e channel now ob = Inr (r, ob1)"
  shows "row_state k ob1 = row_state k ob \<or> row_state k ob1 \<in> {None, Some Pending} \<and> row_state k ob \<notin> {Some Pending, Some Unknown}"
  using assms(2)
proof (cases rule: enqueue_cases)
  case 2
  then show ?thesis using od_map_of_kept [OF assms(1)]
    by (auto simp: row_state_def map_add_def expired_def new_receipt_def split: option.splits if_splits)
qed simp

lemma ok_rows: "map fst (ob_rows ob1) = map fst (ob_rows ob) \<Longrightarrow> ob_max ob1 = ob_max ob \<Longrightarrow> outbox_ok ob1 = outbox_ok ob"
  unfolding outbox_ok_def by (metis length_map)

lemma ok_update [simp]: "outbox_ok (update_row k f ob) = outbox_ok ob"
  by (rule ok_rows) simp_all

lemma ok_enqueue:
  assumes "outbox_ok ob" and "enqueue e channel now ob = Inr (r, ob1)"
  shows "outbox_ok ob1"
  using assms(2)
proof (cases rule: enqueue_cases)
  case 2
  let ?kept = "filter (\<lambda>(k, r). \<not> expired ob now r) (ob_rows ob)"
  have "od_wf ?kept" using assms(1) by (simp add: outbox_ok_def distinct_map_filter)
  moreover have "Receipt (ne_id e) channel \<notin> fst ` set (ob_rows ob)" using 2(1) by (simp add: row_state_def map_of_eq_None_iff)
  then have "Receipt (ne_id e) channel \<notin> fst ` set ?kept" by auto
  ultimately show ?thesis using 2 by (auto simp: outbox_ok_def)
qed (use assms(1) in simp)

lemma ok_step: "outbox_ok (ow_box w) \<Longrightarrow> outbox_ok (ow_box (outbox_step ev w))"
  by (auto simp: outbox_step_def finish_receipt_def ok_enqueue
      split: prod.splits outbox_event.splits sum.splits claim.splits option.splits dest!: claim_cases reconcile_cases)

lemma ok_run: "outbox_ok (ow_box w) \<Longrightarrow> outbox_ok (ow_box (outbox_run evs w))"
  unfolding outbox_run_def by (induction evs arbitrary: w) (auto simp: ok_step)

lemma new_world_ok [simp]: "outbox_ok (ow_box (new_world m retention))"
  by (simp add: outbox_ok_def new_world_def new_outbox_def)

text \<open>How one step may change the state of a receipt.\<close>

definition justified :: "receipt_key \<Rightarrow> time \<times> outbox_event \<Rightarrow> outbox_world \<Rightarrow> outbox_world \<Rightarrow> bool" where
  "justified k ev w w1 \<longleftrightarrow>
     (\<exists>out st code. (k, out) \<in> set (ow_answers w1) \<and> outcome_state out = Some (st, code) \<and> row_state k (ow_box w1) = Some st)
     \<or> row_state k (ow_box w1) = Some Sent \<and> (\<exists>t. ev = (t, Reconcile k False True))
     \<or> row_state k (ow_box w1) = Some Unknown"

lemma step_answers: "set (ow_answers w) \<subseteq> set (ow_answers (outbox_step ev w))"
  by (auto simp: outbox_step_def split: prod.splits outbox_event.splits sum.splits claim.splits)

lemma step_state:
  assumes "outbox_ok (ow_box w)"
  shows "row_state k (ow_box (outbox_step ev w)) = row_state k (ow_box w)
    \<or> row_state k (ow_box (outbox_step ev w)) \<in> {None, Some Pending} \<and> row_state k (ow_box w) \<notin> {Some Pending, Some Unknown}
    \<or> row_state k (ow_box (outbox_step ev w)) = Some Pending \<and> reopens k ev
    \<or> justified k ev w (outbox_step ev w) \<and> row_state k (ow_box w) \<noteq> None"
proof (cases ev)
  case (Pair now e)
  show ?thesis
  proof (cases e)
    case (Enqueue env channel)
    then show ?thesis using Pair assms row_state_enqueue [of "ow_box w" env channel now _ _ k]
      by (auto simp: outbox_step_def outbox_ok_def split: sum.splits)
  next
    case (Claim j)
    show ?thesis
    proof (cases "\<exists>ob. claim_receipt j now (ow_box w) = Inr (Claimed ob)")
      case True
      then obtain ob where ob: "claim_receipt j now (ow_box w) = Inr (Claimed ob)" by blast
      then show ?thesis using claim_cases [OF ob] claim_state [OF ob, of k] Pair Claim
        by (auto simp: outbox_step_def justified_def)
    next
      case False
      then have "outbox_step ev w = w" using Pair Claim by (auto simp: outbox_step_def split: sum.splits claim.splits)
      then show ?thesis by simp
    qed
  next
    case (Reconcile j no yes)
    show ?thesis
    proof (cases "reconcile j no yes now (ow_box w)")
      case (Inr ob)
      then show ?thesis using reconcile_cases [OF Inr] reconcile_state [OF Inr, of k] Pair Reconcile
        by (cases no) (auto simp: outbox_step_def reopens_def justified_def)
    qed (use Pair Reconcile in \<open>simp add: outbox_step_def\<close>)
  next
    case (Finish i out)
    then show ?thesis using Pair by (auto simp: outbox_step_def justified_def finish_state split: option.splits)
  qed (use Pair in \<open>simp_all add: outbox_step_def\<close>)
qed

definition vouched :: "(time \<times> outbox_event) list \<Rightarrow> outbox_world \<Rightarrow> receipt_key \<Rightarrow> bool" where
  "vouched evs w k \<longleftrightarrow>
     (row_state k (ow_box w) = Some Sent \<longrightarrow> (k, Accepted) \<in> set (ow_answers w) \<or> (\<exists>t. (t, Reconcile k False True) \<in> set evs)) \<and>
     (row_state k (ow_box w) = Some Failed \<longrightarrow> (\<exists>out \<in> {out. (k, out) \<in> set (ow_answers w)}. map_option fst (outcome_state out) = Some Failed))"

lemma outcome_sent: "outcome_state out = Some (Sent, code) \<Longrightarrow> out = Accepted"
  by (auto simp: outcome_state_def split: send_outcome.splits if_splits)

lemma vouched_step:
  assumes "outbox_ok (ow_box w)" and "vouched evs w k"
  shows "vouched (evs @ [ev]) (outbox_step ev w) k"
proof -
  consider (same) "row_state k (ow_box (outbox_step ev w)) = row_state k (ow_box w)"
    | (other) "row_state k (ow_box (outbox_step ev w)) \<in> {None, Some Pending}"
    | (new) "justified k ev w (outbox_step ev w)" using step_state [OF assms(1), of k ev] by blast
  then show ?thesis
  proof cases
    case same
    then show ?thesis using assms(2) step_answers [of w ev] by (auto simp: vouched_def)
  next
    case new
    then show ?thesis by (fastforce simp: vouched_def justified_def dest: outcome_sent)
  qed (auto simp: vouched_def)
qed

lemma outbox_run_snoc: "outbox_run (evs @ [ev]) w = outbox_step ev (outbox_run evs w)"
  by (simp add: outbox_run_def)


definition unresolved :: "outbox \<Rightarrow> receipt_key set" where
  "unresolved ob = {k. row_state k ob \<in> {Some Pending, Some Unknown}}"

text \<open>
  The table of receipts is bounded, one row for a notification on a channel, and fails closed: no
  event removes a receipt that is pending or unknown, so a full table refuses new notifications
  instead of forgetting those whose fate is open.
\<close>

theorem outbox_fails_closed:
  "distinct (map fst (ob_rows (ow_box (outbox_run evs (new_world m retention)))))
   \<and> int (length (ob_rows (ow_box (outbox_run evs (new_world m retention))))) \<le> max 1 m
   \<and> unresolved (ow_box (outbox_run evs (new_world m retention)))
       \<subseteq> set (map fst (ob_rows (ow_box (outbox_run (evs @ [ev]) (new_world m retention)))))"
proof -
  let ?w = "outbox_run evs (new_world m retention)"
  have ok: "outbox_ok (ow_box ?w)" by (intro ok_run) simp
  have "ob_max (ow_box (outbox_step ev w)) = ob_max (ow_box w)" for ev w
    by (auto simp: outbox_step_def finish_receipt_def
        split: prod.splits outbox_event.splits sum.splits claim.splits option.splits dest!: claim_cases reconcile_cases elim!: enqueue_cases)
  then have "ob_max (ow_box (outbox_run evs w)) = ob_max (ow_box w)" for w
    unfolding outbox_run_def by (induction evs arbitrary: w) auto
  then have "ob_max (ow_box ?w) = max 1 m" by (simp add: new_world_def new_outbox_def)
  moreover have "k \<in> set (map fst (ob_rows (ow_box (outbox_step ev ?w))))" if "k \<in> unresolved (ow_box ?w)" for k
  proof -
    have "row_state k (ow_box (outbox_step ev ?w)) \<noteq> None" using step_state [OF ok, of k ev] that by (auto simp: justified_def unresolved_def)
    then show ?thesis by (simp add: row_state_def map_of_eq_None_iff)
  qed
  ultimately show ?thesis using ok unfolding outbox_run_snoc by (auto simp: outbox_ok_def)
qed

text \<open>A late answer overwrites what is known: an operator takes the first delivery for dead, the second one
  is accepted, and the first, when it times out, turns the sent receipt back into an unknown one.\<close>

definition late_trace :: "(time \<times> outbox_event) list" where
  "late_trace = [(1, Enqueue sample_envelope ''telegram''), (2, Claim sample_key), (2, CallProvider 0),
     (3, Reconcile sample_key True False), (4, Claim sample_key), (4, CallProvider 1), (5, Finish 1 Accepted)]"

lemma late_answer_overwrites:
  "row_state sample_key (ow_box (outbox_run late_trace (new_world 10 60))) = Some Sent
   \<and> row_state sample_key (ow_box (outbox_run (late_trace @ [(6, Finish 0 (Ambiguous ''ReadTimeout''))]) (new_world 10 60))) = Some Unknown
   \<and> (case reconcile sample_key True False 7 (ow_box (outbox_run (late_trace @ [(6, Finish 0 (Ambiguous ''ReadTimeout''))]) (new_world 10 60))) of
        Inl x \<Rightarrow> False | Inr ob \<Rightarrow> row_state sample_key ob = Some Pending)"
  by code_simp

section \<open>Identities\<close>

text \<open>A reader of the characters of a JSON string.\<close>

definition unhex :: "char \<Rightarrow> nat" where
  "unhex c = (let n = of_char c :: nat in if n < 58 then n - 48 else n - 87)"

definition unescaped :: "char \<Rightarrow> char" where
  "unescaped d = (if d = CHR ''n'' then char_of (10 :: nat) else if d = CHR ''r'' then char_of (13 :: nat)
     else if d = CHR ''t'' then char_of (9 :: nat) else if d = CHR ''f'' then char_of (12 :: nat)
     else if d = CHR ''b'' then char_of (8 :: nat) else d)"

definition read_char :: "string \<Rightarrow> char \<times> string" where
  "read_char s = (if hd s \<noteq> char_of (92 :: nat) then (hd s, tl s)
     else if s ! 1 = CHR ''u'' then (char_of (16 * unhex (s ! 4) + unhex (s ! 5)), drop 6 s)
     else (unescaped (s ! 1), drop 2 s))"

lemma char_code: "of_char c = (n :: nat) \<Longrightarrow> c = char_of n"
  by (metis char_of_char)

lemma char_32: "(32 :: nat) \<le> of_char c \<or> c \<in> set (map char_of [0::nat..<32])"
proof (cases "(of_char c :: nat) < 32")
  case True
  then have "c = char_of (of_char c :: nat) \<and> (of_char c :: nat) \<in> set [0..<32]" by simp
  then show ?thesis by (metis imageI set_map)
qed simp

lemma read_json_char: "read_char (json_char c @ x) = (c, x)"
proof (cases "c \<in> set (map char_of ([0::nat..<32] @ [34, 92]))")
  case True
  have "list_all (\<lambda>c. json_char c ! 0 = char_of (92 :: nat) \<and>
      (if json_char c ! 1 = CHR ''u'' then length (json_char c) = 6 \<and> char_of (16 * unhex (json_char c ! 4) + unhex (json_char c ! 5)) = c
       else length (json_char c) = 2 \<and> unescaped (json_char c ! 1) = c)) (map char_of ([0::nat..<32] @ [34, 92]))" by code_simp
  then have "json_char c ! 0 = char_of (92 :: nat)"
    and e: "if json_char c ! 1 = CHR ''u'' then length (json_char c) = 6 \<and> char_of (16 * unhex (json_char c ! 4) + unhex (json_char c ! 5)) = c
       else length (json_char c) = 2 \<and> unescaped (json_char c ! 1) = c" using True by (auto simp: list_all_iff)
  moreover have "json_char c \<noteq> []" using e by (auto split: if_splits)
  ultimately show ?thesis by (auto simp: read_char_def nth_append hd_append hd_conv_nth split: if_splits)
next
  case False
  then have n: "32 \<le> (of_char c :: nat)" "(of_char c :: nat) \<noteq> 34" "(of_char c :: nat) \<noteq> 92" using char_32 [of c] by (auto dest: char_code)
  then have "json_char c = [c]" "c \<noteq> char_of (92 :: nat)" by (auto simp: json_char_def)
  then show ?thesis by (simp add: read_char_def)
qed

lemma json_char_head: "\<exists>h t. json_char c = h # t \<and> h \<noteq> char_of (34 :: nat)"
  by (auto simp: json_char_def Let_def)

lemma json_chars_inject:
  "concat (map json_char s) @ char_of (34 :: nat) # x = concat (map json_char t) @ char_of (34 :: nat) # y \<Longrightarrow> s = t \<and> x = y"
proof (induction s arbitrary: t)
  case Nil
  then show ?case using json_char_head by (cases t) (auto, metis append_Cons list.inject)
next
  case (Cons c s)
  show ?case
  proof (cases t)
    case Nil
    then show ?thesis using Cons.prems json_char_head [of c] by auto
  next
    case (Cons d t')
    from Cons.prems Cons have eq: "json_char c @ (concat (map json_char s) @ char_of (34 :: nat) # x)
        = json_char d @ (concat (map json_char t') @ char_of (34 :: nat) # y)" by simp
    from arg_cong [OF this, of read_char] show ?thesis using Cons.IH [of t'] Cons by (simp add: read_json_char)
  qed
qed

lemma json_str_inject: "json_str s @ x = json_str t @ y \<longleftrightarrow> s = t \<and> x = y"
  using json_chars_inject [of s x t y] by (auto simp: json_str_def)

lemma json_str_alone: "json_str s = json_str t \<longleftrightarrow> s = t"
  using json_str_inject [of s "[]" t "[]"] by simp

text \<open>
  The id of a notification is the identity of the event: two envelopes have the same id only when
  run, event, account and task are the same, as far as the hash tells their texts apart.
\<close>

theorem envelope_identity:
  assumes "make_envelope digest event account task run payload status = Inr e"
    and "make_envelope digest event' account' task' run' payload' status' = Inr e'"
    and "digest (json_strings [run, event, account, task]) = digest (json_strings [run', event', account', task'])
      \<Longrightarrow> json_strings [run, event, account, task] = json_strings [run', event', account', task']"
  shows "ne_id e = ne_id e' \<longleftrightarrow> [run, event, account, task] = [run', event', account', task']"
  using assms by (auto simp: make_envelope_def json_strings_def json_str_inject json_str_alone split: if_splits)

lemma envelope_identity_witness:
  "ne_id (projr (make_envelope id ''ab'' ''c'' [] ''r'' [] [])) \<noteq> ne_id (projr (make_envelope id ''a'' ''bc'' [] ''r'' [] []))"
  using envelope_identity [of id "''ab''" "''c''" "[]" "''r''" "[]" "[]" "projr (make_envelope id ''ab'' ''c'' [] ''r'' [] [])"
      "''a''" "''bc''" "[]" "''r''" "[]" "[]" "projr (make_envelope id ''a'' ''bc'' [] ''r'' [] [])"]
  by (simp add: make_envelope_def)

end
