(* ===== verification/Flow_Steps.thy ===== *)
theory Flow_Steps
  imports Flow_Compile Flow_Engine
begin

text \<open>
  The compilation of the other forms of a task: \<^verbatim>\<open>GraphNormalizer._from_workflow_steps\<close>,
  \<^verbatim>\<open>_build_node_from_flow_step\<close>, \<^verbatim>\<open>_from_flow_graph\<close> and \<^verbatim>\<open>from_chat\<close> of \<^verbatim>\<open>flow_normalizer.py\<close>. A step is
  what the pydantic models of \<^verbatim>\<open>tg_signer/config.py\<close> make of it: a setting that was not given
  explicitly is \<open>None\<close>, an empty dictionary of a policy is \<open>None\<close>, the action of a step is what
  \<^verbatim>\<open>action_from_step\<close> returns, and nested graphs have been read by \<^verbatim>\<open>ExecutionGraph.from_dict\<close>.
\<close>

section \<open>Steps\<close>

record wait_step =
  wt_event_type :: string
  wt_filter_patterns :: "string list"
  wt_success_patterns :: "string list"
  wt_failure_patterns :: "string list"
  wt_semantic :: "pydict option"
  wt_retry_keywords :: "string list option"
  wt_retry_interval :: "real option"
  wt_max_retries :: "int option"
  wt_action_node :: "string option"

datatype step_body =
    FsAction "string option" pydict pydict "sign_action option"
  | FsWait wait_step
  | FsCondition "(string, string) odict list" "string option"
  | FsDelay real
  | FsExtractor string string "(string, string) odict" "string option"
  | FsSubflow "graph option" "(string, string) odict" "(string, string) odict"
  | FsParallel "graph list" string "int option" string

record flow_step =
  fs_id :: string
  fs_name :: "string option"
  fs_next :: "string option"
  fs_on_failure :: "string option"
  fs_terminal_policy :: string
  fs_terminal_target :: "string option"
  fs_run_if :: "string option"
  fs_skip_if :: "string option"
  fs_timeout :: "real option"
  fs_retry :: "retry_policy option"
  fs_loop :: "loop_policy option"
  fs_body :: step_body

record workflow_step =
  ws_id :: string
  ws_next :: "string option"
  ws_on_failure :: "string option"
  ws_allow_loop :: bool
  ws_max_retries :: "int option"
  ws_config :: pydict
  ws_action :: "exc + sign_action"

datatype any_step = FlowStep flow_step | WorkflowStep workflow_step

section \<open>Targets and policies\<close>

definition resolve_sentinel :: "string option \<Rightarrow> string option" where
  "resolve_sentinel t =
     (if \<not> truthy_str t then None
      else (let sid = py_strip (the t)
            in if py_upper sid \<in> {''COMPLETE'', ''SUCCESS'', ''DONE'', terminal_complete} then Some terminal_complete
               else if py_upper sid \<in> {''FAIL'', ''FAILED'', ''ERROR'', terminal_fail} then Some terminal_fail
               else Some sid))"

definition policy_of :: "string \<Rightarrow> terminal_policy" where
  "policy_of s = (if py_lower s = ''stop_flow'' then StopFlow else if py_lower s = ''branch_to'' then BranchTo else TerminalIgnore)"

definition default_retry :: retry_policy where
  "default_retry = \<lparr>rp_max_attempts = 1, rp_backoff = 1, rp_multiplier = 2, rp_max_backoff = 15, rp_retry_on = []\<rparr>"

definition no_loop :: loop_policy where
  "no_loop = \<lparr>lp_allow_loop = False, lp_max_visits = 1\<rparr>"

section \<open>Flow steps\<close>

definition body_type :: "step_body \<Rightarrow> string" where
  "body_type b = (case b of FsAction t ps cfg a \<Rightarrow> ''Action'' | FsWait w \<Rightarrow> ''Wait_event'' | FsCondition cs d \<Rightarrow> ''Condition''
     | FsDelay x \<Rightarrow> ''Delay'' | FsExtractor f r e v \<Rightarrow> ''Extractor'' | FsSubflow g i out \<Rightarrow> ''Subflow'' | FsParallel gs m k j \<Rightarrow> ''Parallel'')"

definition step_timeout :: "task_settings \<Rightarrow> flow_step \<Rightarrow> real" where
  "step_timeout s st =
     (case fs_body st of
        FsWait w \<Rightarrow> clamp 30 3600 (case fs_timeout st of None \<Rightarrow> ts_reply_timeout s | Some t \<Rightarrow> if t \<le> 0 then ts_reply_timeout s else t)
      | b \<Rightarrow>
          (let v = given (fs_timeout st) 25; t = (if v \<le> 0 then ts_action_timeout s else v)
           in case b of
                FsAction (Some typ) ps cfg a \<Rightarrow> if py_upper typ \<in> set ai_action_types then max t (ts_ai_timeout s) else t
              | _ \<Rightarrow> t))"

definition step_base :: "task_settings \<Rightarrow> flow_step \<Rightarrow> node_base" where
  "step_base s st = \<lparr>nb_id = fs_id st,
     nb_name = (if truthy_str (fs_name st) then the (fs_name st) else body_type (fs_body st) @ ''-'' @ fs_id st),
     nb_next = resolve_sentinel (fs_next st), nb_on_failure = resolve_sentinel (fs_on_failure st),
     nb_terminal_policy = policy_of (fs_terminal_policy st), nb_terminal_target = resolve_sentinel (fs_terminal_target st),
     nb_retry = given (fs_retry st) default_retry, nb_loop = given (fs_loop st) no_loop, nb_timeout = step_timeout s st,
     nb_run_if = fs_run_if st, nb_skip_if = fs_skip_if st, nb_metadata = []\<rparr>"

text \<open>\<^verbatim>\<open>d.update(e)\<close> and \<^verbatim>\<open>d.setdefault(k, v)\<close>\<close>

definition update_with :: "pydict \<Rightarrow> pydict \<Rightarrow> pydict" where
  "update_with d e = fold (\<lambda>(k, v). AList.update k v) e d"

definition set_default :: "string \<Rightarrow> py \<Rightarrow> pydict \<Rightarrow> pydict" where
  "set_default k v d = (case map_of d k of None \<Rightarrow> d @ [(k, v)] | Some x \<Rightarrow> d)"

definition chat_context :: "sign_chat \<Rightarrow> pydict \<Rightarrow> pydict" where
  "chat_context c d =
     (let d1 = set_default ''chat_name'' (opt_str (sh_name c)) (set_default ''chat_id'' (PInt (sh_chat_id c)) d)
      in case sh_thread_id c of None \<Rightarrow> d1 | Some t \<Rightarrow> set_default ''message_thread_id'' (PInt t) d1)"

text \<open>A case without a target fails the validation of the node; the other keys of a case are dropped.\<close>

definition parse_case :: "(string, string) odict \<Rightarrow> (string, string) odict option" where
  "parse_case cs =
     map_option (\<lambda>t. [(''condition'', look cs ''condition'' []), (''target_id'', t)]) (resolve_sentinel (map_of cs ''target_id''))"

definition build_flow_step :: "task_settings \<Rightarrow> sign_chat \<Rightarrow> flow_step \<Rightarrow> exc + node" where
  "build_flow_step s c st =
     (let base = step_base s st
      in case fs_body st of
        FsAction typ ps cfg raw \<Rightarrow>
          (case (case raw of None \<Rightarrow> (if truthy_str typ then the typ else ''SEND_TEXT'', ps) | Some a \<Rightarrow> extract_action a) of
             (t, ps1) \<Rightarrow>
               Inr (Node (base\<lparr>nb_metadata := [(''raw_action'', if raw = None then PNone else PObj (fs_id st)),
                                              (''workflow_step'', PObj (fs_id st))]\<rparr>)
                    (Action t (update_with ps1 cfg))))
      | FsWait w \<Rightarrow>
          Inr (Node (base\<lparr>nb_metadata := chat_context c []\<rparr>)
            (WaitEvent \<lparr>wc_event_type = (if wt_event_type w = [] then ''ANY'' else wt_event_type w),
               wc_filter_patterns = wt_filter_patterns w, wc_success_patterns = wt_success_patterns w,
               wc_failure_patterns = wt_failure_patterns w, wc_semantic = wt_semantic w,
               wc_retry_keywords = given (wt_retry_keywords w) (ts_retry_keywords s),
               wc_retry_interval = clamp 1 300 (given (wt_retry_interval w) (ts_retry_interval s)),
               wc_max_retries = clamp 0 10 (given (wt_max_retries w) (ts_retry_max s)), wc_action_node = wt_action_node w\<rparr>))
      | FsCondition cs otherwise \<Rightarrow>
          (if list_ex (\<lambda>x. parse_case x = None) cs then Inl (exc_of ''ValidationError'' ''target_id of a case'')
           else Inr (Node base (Condition (map (the \<circ> parse_case) cs) (resolve_sentinel otherwise))))
      | FsDelay x \<Rightarrow> Inr (Node base (Delay (if x = 0 then 1 else x)))
      | FsExtractor field regex ev var \<Rightarrow>
          Inr (Node base (Extractor \<lparr>xc_source_field = field, xc_regex = regex,
            xc_export_vars = (if ev = [] \<and> truthy_str var then [(''1'', the var)] else ev)\<rparr>))
      | FsSubflow g inputs outputs \<Rightarrow>
          Inr (Node base (Subflow g \<lparr>sc_input_vars = inputs, sc_output_vars = outputs, sc_export_vars = []\<rparr>))
      | FsParallel gs mode limit join \<Rightarrow>
          Inr (Node base (Parallel gs (default_parallel\<lparr>pc_mode := (case List.find (\<lambda>m. mode_value m = py_lower mode) [ModeAll, ModeAny, ModeAllSettled] of
               None \<Rightarrow> ModeAll | Some m \<Rightarrow> m), pc_max_concurrency := limit, pc_join_strategy := join\<rparr>))))"

section \<open>Workflow steps\<close>

definition config_get :: "workflow_step \<Rightarrow> string \<Rightarrow> py" where
  "config_get ws k = look (ws_config ws) k PNone"

definition py_either :: "py \<Rightarrow> py \<Rightarrow> py" where
  "py_either a b = (if py_truthy a then a else b)"

text \<open>A timeout of the configuration that is no number is passed over; an infinite one has no model.\<close>

definition workflow_timeout :: "task_settings \<Rightarrow> workflow_step \<Rightarrow> string \<Rightarrow> exc + real" where
  "workflow_timeout s ws typ =
     (let base = (if typ \<in> set ai_action_types then max (ts_action_timeout s) (ts_ai_timeout s) else ts_action_timeout s)
      in if map_of (ws_config ws) ''timeout'' = None \<and> map_of (ws_config ws) ''timeout_seconds'' = None then Inr base
         else (case py_float (py_either (config_get ws ''timeout'') (config_get ws ''timeout_seconds'')) of
                 None \<Rightarrow> Inr base
               | Some (Fin x) \<Rightarrow> Inr (max 5 x)
               | Some NaN \<Rightarrow> Inr 5
               | Some (Inf neg) \<Rightarrow> if neg then Inr 5 else Inl (exc_of ''outside the model'' ''infinite timeout'')))"

definition resolve_value :: "py \<Rightarrow> exc + string option" where
  "resolve_value v =
     (case v of
        PStr t \<Rightarrow> Inr (resolve_sentinel (Some t))
      | _ \<Rightarrow> if py_truthy v then Inl (exc_of ''AttributeError'' ''strip'') else Inr None)"

definition build_workflow_step :: "task_settings \<Rightarrow> workflow_step \<Rightarrow> exc + node" where
  "build_workflow_step s ws =
     (case ws_action ws of
        Inl x \<Rightarrow> Inl x
      | Inr a \<Rightarrow>
          (case extract_action a of (typ, ps) \<Rightarrow>
             (let stop = (sa_stop_flow a \<or> py_truthy (config_get ws ''stop_flow_on_terminal''));
                  policy = (if py_truthy (config_get ws ''terminal_policy'')
                            then (case config_get ws ''terminal_policy'' of PStr p \<Rightarrow> policy_of p | _ \<Rightarrow> TerminalIgnore)
                            else if stop then StopFlow else TerminalIgnore)
              in case resolve_value (config_get ws ''terminal_branch_target'') of
                   Inl x \<Rightarrow> Inl x
                 | Inr target \<Rightarrow>
                     (case workflow_timeout s ws typ of
                        Inl x \<Rightarrow> Inl x
                      | Inr timeout \<Rightarrow>
                          (case (py_as_opt_str (py_either (config_get ws ''run_if'') (config_get ws ''condition'')),
                                 py_as_opt_str (config_get ws ''skip_if'')) of
                             (Some run_if, Some skip_if) \<Rightarrow>
                               Inr (Node \<lparr>nb_id = ws_id ws, nb_name = ''Step-'' @ ws_id ws,
                                   nb_next = resolve_sentinel (ws_next ws), nb_on_failure = resolve_sentinel (ws_on_failure ws),
                                   nb_terminal_policy = policy, nb_terminal_target = target, nb_retry = default_retry,
                                   nb_loop = \<lparr>lp_allow_loop = ws_allow_loop ws,
                                     lp_max_visits = (case ws_max_retries ws of Some n \<Rightarrow> if ws_allow_loop ws then n + 1 else 1 | None \<Rightarrow> 1)\<rparr>,
                                   nb_timeout = timeout, nb_run_if = run_if, nb_skip_if = skip_if,
                                   nb_metadata = [(''raw_action'', PObj (ws_id ws)), (''workflow_step'', PObj (ws_id ws))]\<rparr>
                                 (Action typ (update_with ps (ws_config ws))))
                           | _ \<Rightarrow> Inl (exc_of ''ValidationError'' ''condition of a step''))))))"

section \<open>The graph\<close>

definition step_key :: "any_step \<Rightarrow> string" where
  "step_key st = (case st of FlowStep f \<Rightarrow> fs_id f | WorkflowStep w \<Rightarrow> ws_id w)"

definition build_step :: "task_settings \<Rightarrow> sign_chat \<Rightarrow> any_step \<Rightarrow> exc + node" where
  "build_step s c st = (case st of FlowStep f \<Rightarrow> build_flow_step s c f | WorkflowStep w \<Rightarrow> build_workflow_step s w)"

fun build_steps :: "task_settings \<Rightarrow> sign_chat \<Rightarrow> any_step list \<Rightarrow> (string, node) odict \<Rightarrow> exc + (string, node) odict" where
  "build_steps s c [] nodes = Inr nodes"
| "build_steps s c (st # sts) nodes =
     (case build_step s c st of Inl x \<Rightarrow> Inl x | Inr n \<Rightarrow> build_steps s c sts (AList.update (step_key st) n nodes))"

definition in_waits :: "(pydict \<Rightarrow> pydict) \<Rightarrow> string \<times> node \<Rightarrow> string \<times> node" where
  "in_waits f p =
     (case nd_kind (snd p) of
        WaitEvent w \<Rightarrow> (fst p, Node ((nd_base (snd p))\<lparr>nb_metadata := f (nb_metadata (nd_base (snd p)))\<rparr>) (WaitEvent w))
      | _ \<Rightarrow> p)"

definition step_limit :: "(string \<times> node) list \<Rightarrow> int" where
  "step_limit nodes = max 60 (2 * int (length nodes))"

definition from_workflow_steps ::
  "task_settings \<Rightarrow> sign_chat \<Rightarrow> string option \<Rightarrow> any_step list \<Rightarrow> vstate \<Rightarrow> exc + graph \<times> vstate" where
  "from_workflow_steps s c initial sts v =
     (let entry = (if truthy_str initial then the initial else if sts = [] then terminal_complete else step_key (hd sts))
      in case build_steps s c sts [] of
           Inl x \<Rightarrow> Inl x
         | Inr nodes \<Rightarrow>
             (let g = Graph entry (map (in_waits (set_default ''retry_entry_node_id'' (PStr entry))) nodes) (step_limit nodes) None None None
              in case validate_graph g v of Inl x \<Rightarrow> Inl x | Inr v1 \<Rightarrow> Inr (g, v1)))"

definition from_flow_graph :: "sign_chat \<Rightarrow> graph \<Rightarrow> vstate \<Rightarrow> exc + graph \<times> vstate" where
  "from_flow_graph c raw v =
     (let g = Graph (g_entry raw) (map (in_waits (chat_context c)) (g_nodes raw)) (step_limit (g_nodes raw))
                (g_error_handler raw) (g_resume raw) (g_failure_limit raw)
      in case validate_graph g v of Inl x \<Rightarrow> Inl x | Inr v1 \<Rightarrow> Inr (g, v1))"

text \<open>The graph of a task in one of its three forms.\<close>

record task_source =
  tr_flow_graph :: "graph option"
  tr_steps :: "any_step list"
  tr_initial :: "string option"
  tr_actions :: "sign_action list"

definition from_chat :: "task_settings \<Rightarrow> sign_chat \<Rightarrow> task_source \<Rightarrow> vstate \<Rightarrow> exc + graph \<times> vstate" where
  "from_chat s c src v =
     (case tr_flow_graph src of
        Some g \<Rightarrow> from_flow_graph c g v
      | None \<Rightarrow> if tr_steps src \<noteq> [] then from_workflow_steps s c (tr_initial src) (tr_steps src) v
                else from_linear_actions s c (tr_actions src) v)"

end
