(* ===== verification/Flow_Steps_Props.thy ===== *)
theory Flow_Steps_Props
  imports Flow_Steps Flow_Compile_Props
begin

text \<open>
  What the compiled graph of a task may rely on: the engine reads its targets as the validator does,
  its waits are bounded and belong to their chat, and its limit on steps leaves room for every node.
\<close>

section \<open>Targets are read as they are\<close>

definition target_as_read :: "string option \<Rightarrow> bool" where
  "target_as_read t \<longleftrightarrow> \<not> truthy_str t \<or> normalize_target t = the t"

lemma strip_ends: "py_strip s = [] \<or> \<not> py_space (hd (py_strip s)) \<and> \<not> py_space (last (py_strip s))"
proof -
  let ?a = "dropWhile py_space s"
  have r: "py_strip s = rev (dropWhile py_space (rev ?a))" by (simp add: py_strip_def)
  show ?thesis
  proof (cases "py_strip s = []")
    case False
    have "\<not> py_space (last (py_strip s))" using False hd_dropWhile [of py_space "rev ?a"] by (simp add: r last_rev)
    moreover obtain ys where "?a = py_strip s @ ys"
      using takeWhile_dropWhile_id [of py_space "rev ?a"] by (metis r rev_append rev_rev_ident)
    then have "hd (py_strip s) = hd ?a" "?a \<noteq> []" using False by auto
    then have "\<not> py_space (hd (py_strip s))" using hd_dropWhile [of py_space s] by simp
    ultimately show ?thesis by simp
  qed simp
qed

lemma strip_twice [simp]: "py_strip (py_strip s) = py_strip s"
proof (cases "py_strip s = []")
  case False
  then have e: "\<not> py_space (hd (py_strip s))" "\<not> py_space (last (py_strip s))" using strip_ends [of s] by auto
  have id: "t \<noteq> [] \<Longrightarrow> \<not> py_space (hd t) \<Longrightarrow> dropWhile py_space t = t" for t by (cases t) auto
  show ?thesis unfolding py_strip_def [of "py_strip s"]
    using False e by (simp add: id hd_rev)
next
  case True
  have "py_strip [] = []" by (simp add: py_strip_def)
  then show ?thesis using True by simp
qed

lemma read_ends: "target_as_read (Some terminal_complete)" "target_as_read (Some terminal_fail)"
  by code_simp+

lemma resolve_read: "target_as_read (resolve_sentinel t)"
proof (cases "truthy_str t")
  case False
  then show ?thesis by (simp add: resolve_sentinel_def target_as_read_def truthy_str_def)
next
  case True
  note split = resolve_sentinel_def Let_def True not_True_eq_False if_True if_False
  let ?sid = "py_strip (the t)"
  let ?A = "py_upper ?sid \<in> {''COMPLETE'', ''SUCCESS'', ''DONE'', terminal_complete}"
  let ?B = "py_upper ?sid \<in> {''FAIL'', ''FAILED'', ''ERROR'', terminal_fail}"
  show ?thesis
  proof (cases ?A)
    case a: True
    have "resolve_sentinel t = Some terminal_complete" by (simp only: split a)
    then show ?thesis by (simp only: read_ends)
  next
    case a: False
    show ?thesis
    proof (cases ?B)
      case b: True
      have "resolve_sentinel t = Some terminal_fail" by (simp only: split a b)
      then show ?thesis by (simp only: read_ends)
    next
      case b: False
      have "resolve_sentinel t = Some ?sid" by (simp only: split a b)
      moreover have "normalize_target (Some ?sid) = ?sid" if "truthy_str (Some ?sid)"
        by (simp only: normalize_target_def Let_def option.sel strip_twice that not_True_eq_False if_False a b)
      ultimately show ?thesis by (simp only: target_as_read_def option.sel) blast
    qed
  qed
qed

lemma read_None [simp]: "target_as_read None"
  by (simp add: target_as_read_def truthy_str_def)

lemma resolve_value_read: "resolve_value v = Inr t \<Longrightarrow> target_as_read t"
  using resolve_read by (auto simp: resolve_value_def split: py.splits if_splits)

definition targets_as_read :: "node \<Rightarrow> bool" where
  "targets_as_read n \<longleftrightarrow> list_all (\<lambda>(f, t). target_as_read t) (node_targets n)"

lemma build_flow_targets:
  assumes "build_flow_step s c st = Inr n"
  shows "targets_as_read n \<and> nd_id n = fs_id st"
proof (cases "fs_body st")
  case (FsCondition cs otherwise)
  have "target_as_read (map_of cc ''target_id'')" if cc: "cc \<in> set (map (the \<circ> parse_case) cs)" and all: "\<not> list_ex (\<lambda>x. parse_case x = None) cs" for cc
  proof -
    obtain x where x: "x \<in> set cs" "cc = the (parse_case x)" using cc by auto
    then obtain y where "parse_case x = Some y" using all by (auto simp: list_ex_iff)
    then show ?thesis using x(2) resolve_read [of "map_of x ''target_id''"] by (auto simp: parse_case_def)
  qed
  then show ?thesis using assms FsCondition resolve_read
    by (auto simp: build_flow_step_def Let_def targets_as_read_def node_targets_def step_base_def list_all_iff split: if_splits)
qed (use assms resolve_read in \<open>auto simp: build_flow_step_def Let_def targets_as_read_def node_targets_def step_base_def
  split: prod.splits\<close>)

lemma build_workflow_targets:
  "build_workflow_step s ws = Inr n \<Longrightarrow> targets_as_read n \<and> nd_id n = ws_id ws"
  using resolve_read resolve_value_read
  by (auto simp: build_workflow_step_def Let_def targets_as_read_def node_targets_def split: sum.splits prod.splits option.splits)

lemma build_targets: "build_step s c st = Inr n \<Longrightarrow> targets_as_read n \<and> nd_id n = step_key st"
  using build_flow_targets build_workflow_targets by (auto simp: build_step_def step_key_def split: any_step.splits)

section \<open>Waits\<close>

definition wait_bounded :: "sign_chat \<Rightarrow> node \<Rightarrow> bool" where
  "wait_bounded c n = (case nd_kind n of
     WaitEvent w \<Rightarrow> 30 \<le> nb_timeout (nd_base n) \<and> nb_timeout (nd_base n) \<le> 3600
       \<and> 1 \<le> wc_retry_interval w \<and> wc_retry_interval w \<le> 300 \<and> 0 \<le> wc_max_retries w \<and> wc_max_retries w \<le> 10
       \<and> map_of (nb_metadata (nd_base n)) ''chat_id'' = Some (PInt (sh_chat_id c))
   | _ \<Rightarrow> True)"

definition wait_restarts :: "string \<Rightarrow> node \<Rightarrow> bool" where
  "wait_restarts entry n = (case nd_kind n of
     WaitEvent w \<Rightarrow> map_of (nb_metadata (nd_base n)) ''retry_entry_node_id'' = Some (PStr entry) | _ \<Rightarrow> True)"

lemma clamp_bounds: "lo \<le> hi \<Longrightarrow> lo \<le> clamp lo hi x \<and> clamp lo hi x \<le> hi"
  by (simp add: clamp_def)

lemma set_default_get: "map_of (set_default k v d) j = (if j = k \<and> map_of d k = None then Some v else map_of d j)"
  by (auto simp: set_default_def map_add_def split: option.splits)

lemma chat_context_id: "map_of (chat_context c []) ''chat_id'' = Some (PInt (sh_chat_id c)) \<and> map_of (chat_context c []) ''retry_entry_node_id'' = None"
  by (auto simp: chat_context_def Let_def set_default_get split: option.splits)

lemma step_timeout_bounds: "fs_body st = FsWait w \<Longrightarrow> 30 \<le> step_timeout s st \<and> step_timeout s st \<le> 3600"
  by (simp add: step_timeout_def clamp_bounds)

lemma wait_event_bounded:
  "wait_bounded c (Node b (WaitEvent w)) \<longleftrightarrow> (30 \<le> nb_timeout b \<and> nb_timeout b \<le> 3600)
     \<and> (1 \<le> wc_retry_interval w \<and> wc_retry_interval w \<le> 300) \<and> (0 \<le> wc_max_retries w \<and> wc_max_retries w \<le> 10)
     \<and> map_of (nb_metadata b) ''chat_id'' = Some (PInt (sh_chat_id c))"
  by (simp add: wait_bounded_def)

lemma other_bounded: "(\<And>w. nd_kind n \<noteq> WaitEvent w) \<Longrightarrow> wait_bounded c n"
  by (auto simp: wait_bounded_def split: node_kind.splits)

lemma build_flow_other: "build_flow_step s c st = Inr n \<Longrightarrow> (\<And>w. fs_body st \<noteq> FsWait w) \<Longrightarrow> nd_kind n \<noteq> WaitEvent w"
  by (auto simp: build_flow_step_def Let_def split: step_body.splits prod.splits if_splits)

lemma build_flow_wait:
  assumes "build_flow_step s c st = Inr n"
  shows "wait_bounded c n \<and> (nd_kind n = WaitEvent wc \<longrightarrow> map_of (nb_metadata (nd_base n)) ''retry_entry_node_id'' = None)"
proof (cases "\<exists>w. fs_body st = FsWait w")
  case True
  then obtain w where w: "fs_body st = FsWait w" by blast
  from assms w obtain b k where n: "n = Node b (WaitEvent k)" "nb_timeout b = step_timeout s st" "nb_metadata b = chat_context c []"
    "wc_retry_interval k = clamp 1 300 (given (wt_retry_interval w) (ts_retry_interval s))"
    "wc_max_retries k = clamp 0 10 (given (wt_max_retries w) (ts_retry_max s))"
    by (auto simp: build_flow_step_def Let_def step_base_def)
  show ?thesis unfolding n(1) wait_event_bounded by (simp add: n step_timeout_bounds [OF w] clamp_bounds chat_context_id)
next
  case False
  then show ?thesis using build_flow_other [OF assms] other_bounded by blast
qed

lemma build_workflow_other: "build_workflow_step s ws = Inr n \<Longrightarrow> nd_kind n \<noteq> WaitEvent w"
  by (auto simp: build_workflow_step_def Let_def split: sum.splits prod.splits option.splits)

lemma build_wait:
  "build_step s c st = Inr n \<Longrightarrow>
   wait_bounded c n \<and> (nd_kind n = WaitEvent wc \<longrightarrow> map_of (nb_metadata (nd_base n)) ''retry_entry_node_id'' = None)"
  using build_flow_wait [of s c _ n wc] build_workflow_other [of s _ n] other_bounded [of n c]
  by (auto simp: build_step_def split: any_step.splits)

section \<open>The compiled graph\<close>

text \<open>Every node of a compiled task is built, and its key is its id.\<close>

lemma build_steps_nodes:
  assumes "build_steps s c sts nodes = Inr nodes'"
    and "\<And>i n. (i, n) \<in> set nodes \<Longrightarrow> \<exists>st. i = step_key st \<and> build_step s c st = Inr n"
  shows "(i, n) \<in> set nodes' \<Longrightarrow> \<exists>st. i = step_key st \<and> build_step s c st = Inr n"
  using assms
proof (induction s c sts nodes rule: build_steps.induct)
  case (2 s c st sts nodes)
  from 2(3) obtain m where m: "build_step s c st = Inr m" "build_steps s c sts (AList.update (step_key st) m nodes) = Inr nodes'"
    by (auto split: sum.splits)
  show ?case
  proof (rule 2(1) [OF m(1) 2(2) m(2)])
    fix j k
    assume "(j, k) \<in> set (AList.update (step_key st) m nodes)"
    then have "(j, k) = (step_key st, m) \<or> (j, k) \<in> set nodes" using set_update_subset [of "step_key st" m nodes] by blast
    then show "\<exists>st. j = step_key st \<and> build_step s c st = Inr k" using m(1) 2(4) by blast
  qed
qed simp

definition sound_node :: "sign_chat \<Rightarrow> string \<Rightarrow> string \<times> node \<Rightarrow> bool" where
  "sound_node c entry p \<longleftrightarrow> nd_id (snd p) = fst p \<and> targets_as_read (snd p) \<and> wait_bounded c (snd p) \<and> wait_restarts entry (snd p)"

lemma in_waits_sound:
  assumes "nd_id n = i \<and> targets_as_read n" and "wait_bounded c n"
    and "\<And>w. nd_kind n = WaitEvent w \<Longrightarrow> map_of (nb_metadata (nd_base n)) ''retry_entry_node_id'' = None"
  shows "sound_node c entry (in_waits (set_default ''retry_entry_node_id'' (PStr entry)) (i, n))"
proof (cases "\<exists>w. nd_kind n = WaitEvent w")
  case True
  then obtain w where w: "nd_kind n = WaitEvent w" by blast
  then show ?thesis using assms
    by (simp add: sound_node_def in_waits_def wait_restarts_def wait_bounded_def set_default_get targets_as_read_def node_targets_def)
next
  case False
  then have "in_waits f (i, n) = (i, n)" for f by (auto simp: in_waits_def split: node_kind.splits)
  then show ?thesis using assms False by (auto simp: sound_node_def wait_restarts_def split: node_kind.splits)
qed

lemma linear_waits: "(j, n) \<in> set (linear_nodes s c i as) \<Longrightarrow> wait_bounded c n \<and> wait_restarts (step_id 0) n"
proof (induction as arbitrary: i)
  case (Cons a as)
  have a: "wait_bounded c (action_node s k t b) \<and> wait_restarts e (action_node s k t b)" for k t b e
    by (auto simp: action_node_def wait_bounded_def wait_restarts_def split: prod.splits)
  have r: "wait_bounded c (reply_node s c k t b) \<and> wait_restarts (step_id 0) (reply_node s c k t b)" for k t b
    by (simp add: reply_node_def wait_event_bounded wait_restarts_def clamp_bounds)
  from Cons.prems have "(j, n) \<in> set (step_nodes s c i (if as = [] then terminal_complete else step_id (Suc i)) a)
      \<or> (j, n) \<in> set (linear_nodes s c (Suc i) as)" by simp
  then show ?case
  proof
    assume "(j, n) \<in> set (step_nodes s c i (if as = [] then terminal_complete else step_id (Suc i)) a)"
    then show ?thesis using a r by (auto simp: step_nodes_def split: if_splits)
  qed (use Cons.IH in blast)
qed simp

lemma chain_read:
  assumes "is_chain ns" and "(i, n) \<in> set ns"
  shows "targets_as_read n"
proof -
  obtain k where k: "k < length ns" "ns ! k = (i, n)" using assms(2) by (metis in_set_conv_nth)
  let ?t = "first_id (drop (Suc k) ns)"
  have "?t = terminal_complete \<or> ?t \<in> fst ` set ns"
    using first_id_cases [of "drop (Suc k) ns"] set_drop_subset [of "Suc k" ns] by blast
  then have "target_as_read (Some ?t)"
    using chain_each [OF assms(1)] read_ends by (fastforce simp: target_as_read_def plain_id_def)
  then have "list_all target_as_read (map snd (node_targets n))"
    using chain_links [OF assms(1) k(1)] k(2) read_ends by (auto simp: links_def)
  then show ?thesis by (simp add: targets_as_read_def list_all_iff case_prod_beta)
qed

lemma linear_sound: "as \<noteq> [] \<Longrightarrow> list_all (sound_node c (g_entry (linear_graph s c as))) (g_nodes (linear_graph s c as))"
  using chain_read [OF linear_chain] chain_each [OF linear_chain] linear_waits
  by (fastforce simp: list_all_iff sound_node_def linear_graph_def)

lemma steps_sound:
  assumes "from_workflow_steps s c initial sts v = Inr (g, v')"
  shows "list_all (sound_node c (g_entry g)) (g_nodes g) \<and> g_error_handler g = None
    \<and> g_max_total_steps g = step_limit (g_nodes g) \<and> validate_graph g v = Inr v'"
proof -
  let ?e = "if truthy_str initial then the initial else if sts = [] then terminal_complete else step_key (hd sts)"
  obtain nodes where n: "build_steps s c sts [] = Inr nodes"
    and g: "g = Graph ?e (map (in_waits (set_default ''retry_entry_node_id'' (PStr ?e))) nodes) (step_limit nodes) None None None"
    and v: "validate_graph g v = Inr v'" using assms by (auto simp: from_workflow_steps_def Let_def split: sum.splits)
  have "sound_node c ?e (in_waits (set_default ''retry_entry_node_id'' (PStr ?e)) (i, m))" if im: "(i, m) \<in> set nodes" for i m
  proof -
    obtain st where st: "i = step_key st" "build_step s c st = Inr m" using build_steps_nodes [OF n _ im] by auto
    show ?thesis using build_targets [OF st(2)] build_wait [OF st(2)] st(1) by (intro in_waits_sound) auto
  qed
  then have "list_all (sound_node c (g_entry g)) (g_nodes g)" by (auto simp: g list_all_iff)
  then show ?thesis using v by (simp add: g step_limit_def)
qed

section \<open>Properties\<close>

text \<open>
  C18: Whether a task is a list of actions or of steps, each node of its graph is kept under its own id,
  its targets are read by the engine as the validator read them, and its waits have a timeout
  between 30 seconds and an hour, an interval between one second and five minutes and at most ten
  retries, listen to the chat of the task, and restart at the entry of the graph.
\<close>

theorem compiled_nodes_sound:
  assumes "from_chat s c src v = Inr (g, v')" and "tr_flow_graph src = None"
  shows "list_all (sound_node c (g_entry g)) (g_nodes g)"
proof (cases "tr_steps src = []")
  case True
  then have "from_linear_actions s c (tr_actions src) v = Inr (g, v')" using assms by (simp add: from_chat_def)
  then have "tr_actions src \<noteq> []" "g = linear_graph s c (tr_actions src)"
    by (auto simp: from_linear_actions_def split: if_splits sum.splits)
  then show ?thesis using linear_sound by simp
next
  case False
  then have "from_workflow_steps s c (tr_initial src) (tr_steps src) v = Inr (g, v')" using assms by (simp add: from_chat_def)
  then show ?thesis using steps_sound by blast
qed

text \<open>A step that waits, and a task of a send and a wait.\<close>

definition plain_step :: "string \<Rightarrow> string option \<Rightarrow> step_body \<Rightarrow> any_step" where
  "plain_step i next_id body = FlowStep \<lparr>fs_id = i, fs_name = None, fs_next = next_id, fs_on_failure = Some ''fail'',
     fs_terminal_policy = ''ignore'', fs_terminal_target = None, fs_run_if = None, fs_skip_if = None, fs_timeout = Some 5,
     fs_retry = None, fs_loop = None, fs_body = body\<rparr>"

definition any_wait :: step_body where
  "any_wait = FsWait \<lparr>wt_event_type = ''ANY'', wt_filter_patterns = [], wt_success_patterns = [''ok''], wt_failure_patterns = [],
     wt_semantic = None, wt_retry_keywords = None, wt_retry_interval = Some 0, wt_max_retries = Some 99, wt_action_node = Some ''send''\<rparr>"

definition sample_steps :: "any_step list" where
  "sample_steps = [plain_step ''send'' (Some '' wait'') (FsAction (Some ''SEND_TEXT'') [(''text'', PStr ''hi'')] [] None),
     plain_step ''wait'' (Some ''done'') any_wait]"

definition sample_chat :: sign_chat where
  "sample_chat = \<lparr>sh_chat_id = 7, sh_name = None, sh_thread_id = None\<rparr>"

definition steps_graph :: graph where
  "steps_graph = (case from_workflow_steps plain_settings sample_chat (Some ''send'') sample_steps no_budget of
     Inl x \<Rightarrow> default_graph [] [] | Inr (g, v) \<Rightarrow> g)"

lemma sample_compiles:
  "from_workflow_steps plain_settings sample_chat (Some ''send'') sample_steps no_budget = Inr (steps_graph, no_budget)
   \<and> node_ids steps_graph = [''send'', ''wait'']"
proof -
  have "case from_workflow_steps plain_settings sample_chat (Some ''send'') sample_steps no_budget of
     Inl x \<Rightarrow> False | Inr (g, v) \<Rightarrow> v = no_budget \<and> node_ids g = [''send'', ''wait'']" by code_simp
  then show ?thesis unfolding steps_graph_def by (auto split: sum.splits)
qed

lemma compiled_nodes_sound_witness:
  "\<exists>n \<in> set (map snd (g_nodes steps_graph)). wait_bounded sample_chat n \<and> nd_id n = ''wait''"
proof -
  let ?src = "\<lparr>tr_flow_graph = None, tr_steps = sample_steps, tr_initial = Some ''send'', tr_actions = []\<rparr>"
  have "from_chat plain_settings sample_chat ?src no_budget = Inr (steps_graph, no_budget)"
    using sample_compiles by (simp add: from_chat_def sample_steps_def)
  then have all: "list_all (sound_node sample_chat (g_entry steps_graph)) (g_nodes steps_graph)"
    using compiled_nodes_sound [of plain_settings sample_chat ?src no_budget steps_graph no_budget] by simp
  have "''wait'' \<in> fst ` set (g_nodes steps_graph)" using sample_compiles by (simp add: node_ids_def flip: set_map)
  then obtain n where "(''wait'', n) \<in> set (g_nodes steps_graph)" by auto
  with all show ?thesis by (force simp: list_all_iff sound_node_def)
qed

text \<open>
  A task of steps has room for all of them: in a run of its graph without repeatable nodes, whose
  nodes branch to targets of their own, a state that is not at its end has steps left of the limit.
\<close>

theorem steps_within_limit:
  assumes "from_workflow_steps s c initial sts v = Inr (g, v')" and "plain_ids g"
    and "list_all (\<lambda>i. \<not> may_repeat g i) (search_ids g)" and "history_kept env"
    and "reaches env run g (start_state g) c0 w0 st c1 w" and "\<not> at_rest (rs_current st)"
    and "history_follows g (rs_path st) (drop (length (fc_history c0)) (fc_history c1))"
  shows "int (rs_steps st) < g_max_total_steps g"
proof -
  have g: "validate_graph g v = Inr v'" "\<not> truthy_str (g_error_handler g)" "g_max_total_steps g = step_limit (g_nodes g)"
    using steps_sound [OF assms(1)] by (simp_all add: truthy_str_def)
  have ok: "graph_ok max_subflow_depth g" using g(1) by (rule validate_accepts_ok)
  then have ac: "acyclic (flow_edges g)" using strict_all [OF assms(3)] by (simp add: max_subflow_depth_def numeral_3_eq_3)
  have "on_path g st" using reaches_on_path [OF assms(2) ok assms(3) g(2) assms(4,5)] assms(7) by auto
  then obtain nd where "rs_steps st < length (g_nodes g)" using on_path_open [OF assms(2) ac _ assms(6)] by blast
  then show ?thesis by (simp add: g(3) step_limit_def)
qed

definition after_send :: "run_state \<times> flow_ctx" where
  "after_send = (case visit_node (plain_env all_ok) (flow_run (plain_env all_ok)) steps_graph
       (the (g_node steps_graph ''send'')) (start_state steps_graph) (ctx_new [] []) () of
     (Inr p, c1, w1) \<Rightarrow> (progress_state p, c1) | (Inl x, c1, w1) \<Rightarrow> (start_state steps_graph, c1))"

lemma steps_within_limit_witness: "int (rs_steps (fst after_send)) < g_max_total_steps steps_graph"
proof -
  let ?v = "visit_node (plain_env all_ok) (flow_run (plain_env all_ok)) steps_graph
       (the (g_node steps_graph ''send'')) (start_state steps_graph) (ctx_new [] []) ()"
  have 1: "(case ?v of (Inr (Onward st), c1, w1) \<Rightarrow> \<not> at_rest (rs_current st)
        \<and> history_follows steps_graph (rs_path st) (drop (length (fc_history (ctx_new [] []))) (fc_history c1))
      | _ \<Rightarrow> False) \<and> \<not> at_rest (rs_current (start_state steps_graph)) \<and> rs_current (start_state steps_graph) = Some ''send''
      \<and> \<not> Option.is_none (g_node steps_graph ''send'') \<and> plain_ids steps_graph
      \<and> list_all (\<lambda>i. \<not> may_repeat steps_graph i) (search_ids steps_graph)" by code_simp
  then obtain st c1 where v: "?v = (Inr (Onward st), c1, ())" by (auto split: prod.splits sum.splits progress.splits)
  have r: "reaches (plain_env all_ok) (flow_run (plain_env all_ok)) steps_graph (start_state steps_graph) (ctx_new [] []) () st c1 ()"
    by (rule reaches.visit [OF reaches.start _ _ v]) (use 1 in \<open>auto simp: Option.is_none_def\<close>)
  have "fst after_send = st" using v by (simp add: after_send_def)
  then show ?thesis using steps_within_limit [OF conjunct1 [OF sample_compiles] _ _ plain_history r] 1 v by auto
qed

section \<open>Corners\<close>

text \<open>A case that names no target is not refused as a task that is not valid, but as a node that is none;
  a delay of zero seconds, which is allowed, becomes one of a second.\<close>

lemma caseless_target_refused:
  "from_workflow_steps plain_settings sample_chat (Some ''if'')
     [plain_step ''if'' None (FsCondition [[(''condition'', ''true'')]] (Some ''done''))] no_budget
   = Inl (exc_of ''ValidationError'' ''target_id of a case'')"
  by code_simp

lemma zero_delay_waits: "nd_kind (projr (build_flow_step s c (st\<lparr>fs_body := FsDelay 0\<rparr>))) = Delay 1"
  by (simp add: build_flow_step_def Let_def)

end
