(* ===== verification/Background_Jobs.thy ===== *)
theory Background_Jobs
  imports Py_Values
begin

text \<open>
  The registry of background jobs, \<^verbatim>\<open>backend/services/background_job.py\<close>, and the batch check of
  accounts that uses it, \<^verbatim>\<open>account_status_jobs.py\<close>. The registry keeps its jobs in a dictionary and,
  one file for each, in a directory; what cannot be read there is not in \<open>js_files\<close>. Times are whole
  seconds, as in the stamps of the source, which sort like them; an operation reads the clock once.
  A task is what \<^verbatim>\<open>attach_task\<close> registered; the list of it says whether it was asked to cancel.
  Writing a file does not fail. The texts are English ones here.
\<close>

section \<open>Jobs\<close>

datatype job_status = Running | Canceling | Completed | Canceled | JobFailed

definition active_statuses :: "job_status list" where "active_statuses = [Running, Canceling]"
definition final_statuses :: "job_status list" where "final_statuses = [Completed, Canceled, JobFailed]"

record job_log =
  jl_time :: int
  jl_level :: string
  jl_message :: string
  jl_ref :: "string option"

record job =
  jb_kind :: string
  jb_status :: job_status
  jb_created :: int
  jb_updated :: int
  jb_finished :: "int option"
  jb_progress :: "(string, int) odict"
  jb_summary :: pydict
  jb_results :: "pydict list"
  jb_logs :: "job_log list"
  jb_error :: "string option"
  jb_payload :: pydict

record job_store =
  js_jobs :: "(string, job) odict"
  js_files :: "(string, job) odict"
  js_tasks :: "(string, bool) odict"
  js_max_logs :: int
  js_max_history :: int
  js_restart_error :: string

definition is_active :: "job \<Rightarrow> bool" where
  "is_active j \<longleftrightarrow> jb_status j \<in> set active_statuses"

text \<open>\<^verbatim>\<open>del logs[:-max_logs]\<close> when there are more.\<close>

definition last_logs :: "int \<Rightarrow> job_log list \<Rightarrow> job_log list" where
  "last_logs n ls = (if int (length ls) > n then drop (length ls - nat n) ls else ls)"

definition newest_first :: "(string, job) odict \<Rightarrow> (string, job) odict" where
  "newest_first d = sort_key (\<lambda>(i, j). - jb_created j) d"

section \<open>Loading\<close>

definition interrupted :: "string \<Rightarrow> int \<Rightarrow> int \<Rightarrow> job \<Rightarrow> job" where
  "interrupted err max_logs now j =
     (if is_active j
      then j\<lparr>jb_status := JobFailed, jb_error := Some err, jb_finished := Some now, jb_updated := now,
             jb_logs := last_logs max_logs (jb_logs j @ [\<lparr>jl_time = now, jl_level = ''error'', jl_message = err, jl_ref = None\<rparr>])\<rparr>
      else j)"

definition load_jobs :: "(string, job) odict \<Rightarrow> int \<Rightarrow> int \<Rightarrow> string \<Rightarrow> int \<Rightarrow> job_store" where
  "load_jobs files max_logs max_history err now =
     (let logs = max 1 max_logs; hist = max 1 max_history;
          loaded = map (\<lambda>(i, j). (i, interrupted err logs now j)) files
      in \<lparr>js_jobs = take (nat hist) (newest_first loaded), js_files = loaded, js_tasks = [],
          js_max_logs = logs, js_max_history = hist, js_restart_error = err\<rparr>)"

section \<open>Operations\<close>

definition put_job :: "bool \<Rightarrow> string \<Rightarrow> job \<Rightarrow> job_store \<Rightarrow> job_store" where
  "put_job persist i j s =
     s\<lparr>js_jobs := AList.update i j (js_jobs s), js_files := (if persist then AList.update i j (js_files s) else js_files s)\<rparr>"

definition trim_history :: "job_store \<Rightarrow> job_store" where
  "trim_history s =
     (if int (length (js_jobs s)) \<le> js_max_history s then s
      else (let keep = map fst (take (nat (js_max_history s)) (newest_first (js_jobs s)));
                lost = filter (\<lambda>i. i \<notin> set keep) (map fst (js_jobs s))
            in s\<lparr>js_jobs := filter (\<lambda>(i, j). i \<in> set keep) (js_jobs s), js_files := filter (\<lambda>(i, j). i \<notin> set lost) (js_files s)\<rparr>))"

definition new_job :: "string \<Rightarrow> pydict \<Rightarrow> (string, int) odict \<Rightarrow> int \<Rightarrow> job" where
  "new_job kind payload progress now =
     \<lparr>jb_kind = (if kind = [] then ''generic'' else kind), jb_status = Running, jb_created = now, jb_updated = now, jb_finished = None,
      jb_progress = (if progress = [] then [(''total'', 0), (''done'', 0)] else progress), jb_summary = [], jb_results = [],
      jb_logs = [], jb_error = None, jb_payload = payload\<rparr>"

text \<open>The id is the random one of \<^verbatim>\<open>uuid4\<close>.\<close>

definition create_job :: "string \<Rightarrow> string \<Rightarrow> pydict \<Rightarrow> (string, int) odict \<Rightarrow> int \<Rightarrow> job_store \<Rightarrow> job \<times> job_store" where
  "create_job i kind payload progress now s =
     (let j = new_job kind payload progress now in (j, trim_history (put_job True i j s)))"

definition get_job :: "string \<Rightarrow> job_store \<Rightarrow> job option" where
  "get_job i s = map_of (js_jobs s) i"

definition list_jobs :: "int \<Rightarrow> job_store \<Rightarrow> (string, job) odict" where
  "list_jobs limit s =
     take (nat (max 1 (min (if limit = 0 then 20 else limit) (js_max_history s)))) (newest_first (js_jobs s))"

definition change_job :: "bool \<Rightarrow> string \<Rightarrow> (job \<Rightarrow> job) \<Rightarrow> job_store \<Rightarrow> job_store" where
  "change_job persist i f s = (case get_job i s of None \<Rightarrow> s | Some j \<Rightarrow> put_job persist i (f j) s)"

definition with_log :: "int \<Rightarrow> string \<Rightarrow> string \<Rightarrow> string option \<Rightarrow> int \<Rightarrow> job \<Rightarrow> job" where
  "with_log max_logs level message ref now j =
     j\<lparr>jb_logs := last_logs max_logs (jb_logs j @ [\<lparr>jl_time = now, jl_level = (if level = [] then ''info'' else level),
         jl_message = message, jl_ref = ref\<rparr>]), jb_updated := now\<rparr>"

definition append_log :: "string \<Rightarrow> string \<Rightarrow> string \<Rightarrow> string option \<Rightarrow> bool \<Rightarrow> int \<Rightarrow> job_store \<Rightarrow> job_store" where
  "append_log i level message ref persist now s = change_job persist i (with_log (js_max_logs s) level message ref now) s"

definition update_progress ::
  "string \<Rightarrow> int option \<Rightarrow> int option \<Rightarrow> (string, int) odict \<Rightarrow> bool \<Rightarrow> int \<Rightarrow> job_store \<Rightarrow> job_store" where
  "update_progress i done_n total_n extra persist now s =
     change_job persist i (\<lambda>j. j\<lparr>jb_progress :=
         fold (\<lambda>(k, v). AList.update k v) extra
           ((case total_n of None \<Rightarrow> id | Some n \<Rightarrow> AList.update ''total'' n)
             ((case done_n of None \<Rightarrow> id | Some n \<Rightarrow> AList.update ''done'' n) (jb_progress j))),
       jb_updated := now\<rparr>) s"

text \<open>\<^verbatim>\<open>task.cancel()\<close> of a task that is registered, which it is until it is done.\<close>

definition cancel_task :: "string \<Rightarrow> job_store \<Rightarrow> job_store" where
  "cancel_task i s = (case map_of (js_tasks s) i of None \<Rightarrow> s | Some b \<Rightarrow> s\<lparr>js_tasks := AList.update i True (js_tasks s)\<rparr>)"

definition request_cancel :: "string \<Rightarrow> bool \<Rightarrow> int \<Rightarrow> job_store \<Rightarrow> bool \<times> job_store" where
  "request_cancel i cancel_running now s =
     (case get_job i s of
        None \<Rightarrow> (False, s)
      | Some j \<Rightarrow>
          if \<not> is_active j then (False, s)
          else if jb_status j = Canceling then (True, if cancel_running then cancel_task i s else s)
          else (let s1 = change_job True i (\<lambda>j. with_log (js_max_logs s) ''info'' ''cancellation requested'' None now (j\<lparr>jb_status := Canceling\<rparr>)) s
                in (True, if cancel_running then cancel_task i s1 else s1)))"

definition is_cancel_requested :: "string \<Rightarrow> job_store \<Rightarrow> bool" where
  "is_cancel_requested i s = (case get_job i s of None \<Rightarrow> False | Some j \<Rightarrow> jb_status j = Canceling)"

definition mark_completed :: "string \<Rightarrow> pydict option \<Rightarrow> pydict list option \<Rightarrow> int \<Rightarrow> job_store \<Rightarrow> job_store" where
  "mark_completed i summary results now s =
     change_job True i (\<lambda>j.
       let final = (if jb_status j = Canceling then Canceled else Completed)
       in with_log (js_max_logs s) ''info'' (if final = Canceled then ''job canceled'' else ''job completed'') None now
            (j\<lparr>jb_status := final, jb_finished := Some now, jb_updated := now,
               jb_summary := (case summary of None \<Rightarrow> jb_summary j | Some d \<Rightarrow> d),
               jb_results := (case results of None \<Rightarrow> jb_results j | Some rs \<Rightarrow> rs)\<rparr>)) s"

definition mark_failed :: "string \<Rightarrow> string \<Rightarrow> int \<Rightarrow> job_store \<Rightarrow> job_store" where
  "mark_failed i err now s =
     change_job True i (\<lambda>j.
       let e = (if err = [] then ''unknown error'' else err)
       in with_log (js_max_logs s) ''error'' e None now (j\<lparr>jb_status := JobFailed, jb_error := Some e, jb_finished := Some now\<rparr>)) s"

section \<open>Tasks\<close>

datatype task_end = Returned | RaisedError string | WasCancelled

definition attach_task :: "string \<Rightarrow> job_store \<Rightarrow> job_store" where
  "attach_task i s = s\<lparr>js_tasks := AList.update i False (js_tasks s)\<rparr>"

definition task_done :: "string \<Rightarrow> task_end \<Rightarrow> int \<Rightarrow> job_store \<Rightarrow> job_store" where
  "task_done i how now s =
     (let s1 = s\<lparr>js_tasks := AList.delete i (js_tasks s)\<rparr>
      in case get_job i s1 of
           None \<Rightarrow> s1
         | Some j \<Rightarrow>
             if \<not> is_active j then s1
             else (case how of
                     WasCancelled \<Rightarrow> if jb_status j = Canceling then mark_completed i None None now s1
                                     else mark_failed i ''task cancelled'' now s1
                   | RaisedError e \<Rightarrow> mark_failed i e now s1
                   | Returned \<Rightarrow> s1))"

section \<open>The batch check of accounts\<close>

definition status_kind :: string where "status_kind = ''account_status_check''"

definition busy :: "job_store \<Rightarrow> bool" where
  "busy s \<longleftrightarrow> list_ex (\<lambda>(i, j). jb_kind j = status_kind \<and> is_active j) (list_jobs 10 s)"

definition status_progress :: "nat \<Rightarrow> (string, int) odict" where
  "status_progress n = [(''total'', int n), (''done'', 0), (''ok'', 0), (''fail'', 0)]"

text \<open>\<open>None\<close> is the error that a check is running already.\<close>

definition start_status_check :: "string \<Rightarrow> string list \<Rightarrow> real \<Rightarrow> int \<Rightarrow> job_store \<Rightarrow> job_store option" where
  "start_status_check i names timeout now s =
     (if busy s then None
      else Some (attach_task i (snd (create_job i status_kind
             [(''account_names'', PList (map PStr names)), (''timeout_seconds'', PFloat (Fin timeout))]
             (status_progress (length names)) now s))))"

definition cancel_status_check :: "string \<Rightarrow> int \<Rightarrow> job_store \<Rightarrow> bool \<times> job_store" where
  "cancel_status_check i now s =
     (case get_job i s of
        None \<Rightarrow> (False, s)
      | Some j \<Rightarrow> if jb_kind j \<noteq> status_kind then (False, s) else request_cancel i True now s)"

end
