(* ===== verification/Background_Jobs_Props.thy ===== *)
theory Background_Jobs_Props
  imports Background_Jobs
begin

text \<open>
  The registry over histories of its operations: it stays bounded and in step with its directory, the
  final states of jobs are final, a restart leaves nothing running, and at most one batch check of
  accounts runs at a time.
\<close>

section \<open>Histories\<close>

datatype job_op =
    JCreate string string pydict "(string, int) odict"
  | JStart string "string list" real
  | JLog string string string "string option" bool
  | JProgress string "int option" "int option" "(string, int) odict" bool
  | JCancel string bool
  | JComplete string "pydict option" "pydict list option"
  | JFail string string
  | JDone string task_end
  | JRestart

definition job_step :: "int \<times> job_op \<Rightarrow> job_store \<Rightarrow> job_store" where
  "job_step ev s =
     (case ev of (now, op) \<Rightarrow>
       (case op of
          JCreate i kind payload progress \<Rightarrow> snd (create_job i kind payload progress now s)
        | JStart i names timeout \<Rightarrow> (case start_status_check i names timeout now s of None \<Rightarrow> s | Some s1 \<Rightarrow> s1)
        | JLog i level message ref persist \<Rightarrow> append_log i level message ref persist now s
        | JProgress i d t extra persist \<Rightarrow> update_progress i d t extra persist now s
        | JCancel i b \<Rightarrow> snd (request_cancel i b now s)
        | JComplete i summary results \<Rightarrow> mark_completed i summary results now s
        | JFail i err \<Rightarrow> mark_failed i err now s
        | JDone i how \<Rightarrow> task_done i how now s
        | JRestart \<Rightarrow> load_jobs (js_files s) (js_max_logs s) (js_max_history s) (js_restart_error s) now))"

definition job_run :: "(int \<times> job_op) list \<Rightarrow> job_store \<Rightarrow> job_store" where
  "job_run evs s = fold job_step evs s"

definition new_store :: "int \<Rightarrow> int \<Rightarrow> job_store" where
  "new_store max_logs max_history = load_jobs [] max_logs max_history ''restarted'' 0"

section \<open>The invariant\<close>

text \<open>A job and its file: both or none, in the same status, with few enough logs.\<close>

definition in_step :: "int \<Rightarrow> job option \<Rightarrow> job option \<Rightarrow> bool" where
  "in_step n j f = (case (j, f) of (None, None) \<Rightarrow> True
     | (Some a, Some b) \<Rightarrow> jb_status a = jb_status b \<and> int (length (jb_logs a)) \<le> n \<and> int (length (jb_logs b)) \<le> n
     | _ \<Rightarrow> False)"

definition store_ok :: "job_store \<Rightarrow> bool" where
  "store_ok s \<longleftrightarrow> od_wf (js_jobs s) \<and> od_wf (js_files s) \<and> 1 \<le> js_max_logs s \<and> 1 \<le> js_max_history s
     \<and> int (length (js_jobs s)) \<le> js_max_history s
     \<and> (\<forall>i. in_step (js_max_logs s) (map_of (js_jobs s) i) (map_of (js_files s) i))"

lemma store_ok_in_step: "store_ok s \<Longrightarrow> in_step (js_max_logs s) (map_of (js_jobs s) i) (map_of (js_files s) i)"
  by (simp add: store_ok_def)

lemma last_logs_bound: "0 \<le> n \<Longrightarrow> int (length (last_logs n ls)) \<le> n"
  by (auto simp: last_logs_def)

lemma put_job_ok:
  assumes "store_ok s" and "map_of (js_jobs s) i = Some j0" and "int (length (jb_logs j)) \<le> js_max_logs s"
    and "persist \<or> jb_status j = jb_status j0"
  shows "store_ok (put_job persist i j s)"
proof -
  have "i \<in> fst ` set (js_jobs s)" using assms(2) by (metis map_of_eq_None_iff option.distinct(1))
  then have "length (AList.update i j (js_jobs s)) = length (js_jobs s)" by (simp add: od_length_update)
  moreover have all: "in_step (js_max_logs s) (map_of (js_jobs s) k) (map_of (js_files s) k)" for k
    using assms(1) by (rule store_ok_in_step)
  have "in_step (js_max_logs s) (Some j0) (map_of (js_files s) i)" using all [of i] unfolding assms(2) .
  then have "in_step (js_max_logs s) (Some j) (if persist then Some j else map_of (js_files s) i)"
    using assms(3,4) by (cases "map_of (js_files s) i") (auto simp: in_step_def)
  then have "in_step (js_max_logs s) (map_of (js_jobs (put_job persist i j s)) k) (map_of (js_files (put_job persist i j s)) k)" for k
    using all [of k] by (cases "k = i") (auto simp: put_job_def od_map_of_update)
  ultimately show ?thesis using assms(1) by (simp add: store_ok_def put_job_def)
qed

text \<open>A change of one job, as every operation but creation is.\<close>

definition tame :: "int \<Rightarrow> bool \<Rightarrow> (job \<Rightarrow> job) \<Rightarrow> bool" where
  "tame n persist f \<longleftrightarrow> (\<forall>j. int (length (jb_logs j)) \<le> n \<longrightarrow> int (length (jb_logs (f j))) \<le> n)
     \<and> (persist \<or> (\<forall>j. jb_status (f j) = jb_status j))"

lemma change_job_ok: "store_ok s \<Longrightarrow> tame (js_max_logs s) persist f \<Longrightarrow> store_ok (change_job persist i f s)"
proof -
  assume ok: "store_ok s" and t: "tame (js_max_logs s) persist f"
  show ?thesis
  proof (cases "map_of (js_jobs s) i")
    case (Some j)
    then have "int (length (jb_logs j)) \<le> js_max_logs s" using ok by (fastforce simp: store_ok_def in_step_def split: option.splits dest: spec [of _ i])
    then show ?thesis using put_job_ok [OF ok Some] t Some by (auto simp: change_job_def get_job_def tame_def)
  qed (use ok in \<open>simp add: change_job_def get_job_def\<close>)
qed

lemma tame_log: "1 \<le> n \<Longrightarrow> (persist \<or> (\<forall>j. jb_status (f j) = jb_status j)) \<Longrightarrow> tame n persist (\<lambda>j. with_log n l m r t (f j))"
  by (simp add: tame_def with_log_def last_logs_bound)

lemma tasks_ok [simp]: "store_ok (s\<lparr>js_tasks := ts\<rparr>) = store_ok s"
  by (simp add: store_ok_def)

lemma cancel_task_ok [simp]: "store_ok (cancel_task i s) = store_ok s"
  by (simp add: cancel_task_def split: option.splits)

lemma complete_ok: "store_ok s \<Longrightarrow> store_ok (mark_completed i summary results now s)"
  unfolding mark_completed_def Let_def by (intro change_job_ok) (auto simp: tame_def with_log_def last_logs_bound store_ok_def)

lemma fail_ok: "store_ok s \<Longrightarrow> store_ok (mark_failed i err now s)"
  unfolding mark_failed_def Let_def by (intro change_job_ok tame_log) (auto simp: store_ok_def)

lemma cancel_ok: "store_ok s \<Longrightarrow> store_ok (snd (request_cancel i b now s))"
  unfolding request_cancel_def
  by (auto simp: Let_def store_ok_def [THEN iffD1] intro!: change_job_ok tame_log split: option.splits)

lemma append_ok: "store_ok s \<Longrightarrow> store_ok (append_log i level message ref persist now s)"
  unfolding append_log_def using tame_log [of "js_max_logs s" persist id] by (intro change_job_ok) (auto simp: store_ok_def)

lemma progress_ok: "store_ok s \<Longrightarrow> store_ok (update_progress i d t extra persist now s)"
  unfolding update_progress_def by (intro change_job_ok) (auto simp: tame_def)

lemma done_ok: "store_ok s \<Longrightarrow> store_ok (task_done i how now s)"
  by (auto simp: task_done_def Let_def complete_ok fail_ok split: option.splits task_end.splits)

section \<open>Trimming\<close>

lemma map_of_keys: "map_of (filter (\<lambda>(i, j). i \<in> K) d) i = (if i \<in> K then map_of d i else None)"
  by (induction d) auto

lemma filter_keys: "filter (\<lambda>(i, j). i \<in> K \<and> P j) d = filter (\<lambda>(i, j). P j) (filter (\<lambda>(i, j). i \<in> K) d)"
  by (induction d) auto

lemma length_keys: "od_wf d \<Longrightarrow> finite K \<Longrightarrow> length (filter (\<lambda>(i, j). i \<in> K) d) \<le> card K"
proof -
  assume d: "od_wf d" and K: "finite K"
  have "od_wf (filter (\<lambda>(i, j). i \<in> K) d)" using d by (rule distinct_map_filter)
  then have "length (filter (\<lambda>(i, j). i \<in> K) d) = card (fst ` set (filter (\<lambda>(i, j). i \<in> K) d))"
    by (metis distinct_card length_map set_map)
  also have "\<dots> \<le> card K" using K by (intro card_mono) auto
  finally show ?thesis .
qed

lemma newest_keys: "set (newest_first d) = set d" "length (newest_first d) = length d" "od_wf d \<Longrightarrow> od_wf (newest_first d)"
  by (auto simp: newest_first_def distinct_map)

lemma newest_map_of: "od_wf d \<Longrightarrow> map_of (newest_first d) = map_of d"
  by (intro map_of_inject_set [THEN iffD2]) (simp_all add: newest_keys)

lemma kept_ok:
  assumes "od_wf (js_jobs s)" and "od_wf (js_files s)" and "1 \<le> js_max_logs s" and "1 \<le> js_max_history s"
    and "int (length (filter (\<lambda>(i, j). i \<in> K) (js_jobs s))) \<le> js_max_history s"
    and "\<And>i. in_step (js_max_logs s) (if i \<in> K then map_of (js_jobs s) i else None) (if i \<in> L then map_of (js_files s) i else None)"
  shows "store_ok (s\<lparr>js_jobs := filter (\<lambda>(i, j). i \<in> K) (js_jobs s), js_files := filter (\<lambda>(i, j). i \<in> L) (js_files s)\<rparr>)"
  using assms by (simp add: store_ok_def map_of_keys distinct_map_filter)

lemma trim_ok:
  assumes "od_wf (js_jobs s)" and "od_wf (js_files s)" and "1 \<le> js_max_logs s" and "1 \<le> js_max_history s"
    and "\<forall>i. in_step (js_max_logs s) (map_of (js_jobs s) i) (map_of (js_files s) i)"
  shows "store_ok (trim_history s)"
proof (cases "int (length (js_jobs s)) \<le> js_max_history s")
  case True
  then show ?thesis using assms by (simp add: trim_history_def store_ok_def)
next
  case False
  let ?keep = "map fst (take (nat (js_max_history s)) (newest_first (js_jobs s)))"
  let ?lost = "filter (\<lambda>i. i \<notin> set ?keep) (map fst (js_jobs s))"
  have t: "trim_history s = s\<lparr>js_jobs := filter (\<lambda>(i, j). i \<in> set ?keep) (js_jobs s), js_files := filter (\<lambda>(i, j). i \<in> - set ?lost) (js_files s)\<rparr>"
    using False by (simp add: trim_history_def Let_def)
  have "length (filter (\<lambda>(i, j). i \<in> set ?keep) (js_jobs s)) \<le> card (set ?keep)" using assms(1) by (intro length_keys) auto
  also have "\<dots> \<le> length ?keep" by (rule card_length)
  also have "\<dots> \<le> nat (js_max_history s)" by simp
  finally have "int (length (filter (\<lambda>(i, j). i \<in> set ?keep) (js_jobs s))) \<le> js_max_history s" using assms(4) by simp
  moreover have "in_step (js_max_logs s) (if i \<in> set ?keep then map_of (js_jobs s) i else None)
      (if i \<in> - set ?lost then map_of (js_files s) i else None)" for i
  proof (cases "i \<in> set ?keep")
    case True
    then show ?thesis using assms(5) by auto
  next
    case False
    then have "i \<in> set ?lost \<or> map_of (js_jobs s) i = None" by (auto simp: map_of_eq_None_iff)
    then show ?thesis using False assms(5) by (auto simp: in_step_def split: option.splits dest: spec [of _ i])
  qed
  ultimately show ?thesis unfolding t by (intro kept_ok assms(1-4))
qed

section \<open>Every history keeps the invariant\<close>

lemma create_ok: "store_ok s \<Longrightarrow> store_ok (snd (create_job i kind payload progress now s))"
proof -
  assume ok: "store_ok s"
  have all: "in_step (js_max_logs s) (map_of (js_jobs s) k) (map_of (js_files s) k)" for k
    using ok by (rule store_ok_in_step)
  let ?j = "new_job kind payload progress now" let ?s = "put_job True i ?j s"
  have "in_step (js_max_logs ?s) (map_of (js_jobs ?s) k) (map_of (js_files ?s) k)" for k
    using all [of k] ok by (cases "k = i") (auto simp: put_job_def od_map_of_update in_step_def new_job_def store_ok_def)
  then show ?thesis unfolding create_job_def Let_def snd_conv using ok by (intro trim_ok) (auto simp: put_job_def store_ok_def)
qed

lemma map_of_mapped: "map_of (map (\<lambda>(i, j). (i, f j)) d) i = map_option f (map_of d i)"
  by (induction d) auto

lemma keys_mapped: "map fst (map (\<lambda>(i, j). (i, f j)) d) = map fst d"
  by (induction d) auto

lemma interrupted_logs: "1 \<le> n \<Longrightarrow> int (length (jb_logs j)) \<le> n \<Longrightarrow> int (length (jb_logs (interrupted err n now j))) \<le> n"
  by (simp add: interrupted_def last_logs_bound)

text \<open>A directory no larger than the history is read as it is.\<close>

lemma load_small:
  assumes "od_wf files" and "int (length files) \<le> max 1 h"
  shows "map_of (js_jobs (load_jobs files n h err now)) = (\<lambda>i. map_option (interrupted err (max 1 n) now) (map_of files i))
    \<and> map_of (js_files (load_jobs files n h err now)) = (\<lambda>i. map_option (interrupted err (max 1 n) now) (map_of files i))"
proof -
  let ?l = "map (\<lambda>(i, j). (i, interrupted err (max 1 n) now j)) files"
  have "od_wf ?l" using assms(1) by (simp only: keys_mapped)
  then have "map_of (newest_first ?l) = map_of ?l" by (rule newest_map_of)
  moreover have "take (nat (max 1 h)) (newest_first ?l) = newest_first ?l" using assms(2) by (intro take_all) (simp add: newest_keys)
  ultimately show ?thesis by (simp add: load_jobs_def Let_def map_of_mapped fun_eq_iff)
qed

lemma files_small: "store_ok s \<Longrightarrow> int (length (js_files s)) \<le> js_max_history s"
proof -
  assume ok: "store_ok s"
  have "map_of (js_jobs s) i = None \<longleftrightarrow> map_of (js_files s) i = None" for i
    using store_ok_in_step [OF ok, of i] by (cases "map_of (js_jobs s) i"; cases "map_of (js_files s) i") (simp_all add: in_step_def)
  then have "fst ` set (js_files s) = fst ` set (js_jobs s)" by (auto simp: map_of_eq_None_iff)
  then have "card (set (map fst (js_files s))) = card (set (map fst (js_jobs s)))" by simp
  then have "length (js_files s) = length (js_jobs s)" using ok unfolding store_ok_def by (simp only: distinct_card length_map)
  then show ?thesis using ok by (simp add: store_ok_def)
qed

lemma restart_ok:
  assumes "store_ok s"
  shows "store_ok (load_jobs (js_files s) (js_max_logs s) (js_max_history s) err now)"
proof -
  let ?s = "load_jobs (js_files s) (js_max_logs s) (js_max_history s) err now"
  let ?l = "map (\<lambda>(i, j). (i, interrupted err (max 1 (js_max_logs s)) now j)) (js_files s)"
  have ok: "od_wf (js_files s)" "1 \<le> js_max_logs s" "1 \<le> js_max_history s" using assms by (auto simp: store_ok_def)
  have l: "od_wf ?l" using ok(1) by (simp only: keys_mapped)
  have small: "int (length (js_files s)) \<le> max 1 (js_max_history s)" using files_small [OF assms] ok(3) by simp
  have "in_step (js_max_logs s) (map_of (js_jobs ?s) i) (map_of (js_files ?s) i)" for i
    using assms load_small [OF ok(1) small, of "js_max_logs s" err now] interrupted_logs [OF ok(2)] ok(2)
    by (auto simp: store_ok_def in_step_def max_def split: option.splits dest!: spec [of _ i])
  moreover have "od_wf (js_jobs ?s)" using newest_keys(3) [OF l] by (simp add: load_jobs_def Let_def take_map [symmetric] distinct_take del: map_map)
  moreover have "od_wf (js_files ?s)" using l by (simp add: load_jobs_def Let_def)
  moreover have "int (length (js_jobs ?s)) \<le> js_max_history s" using ok(3) by (simp add: load_jobs_def Let_def)
  ultimately show ?thesis using ok by (simp add: store_ok_def load_jobs_def Let_def max_def)
qed

lemma start_check_ok: "store_ok s \<Longrightarrow> start_status_check i names timeout now s = Some s1 \<Longrightarrow> store_ok s1"
  using create_ok by (auto simp: start_status_check_def attach_task_def split: if_splits)

lemma step_ok: "store_ok s \<Longrightarrow> store_ok (job_step ev s)"
proof -
  assume ok: "store_ok s"
  obtain now e where ev: "ev = (now, e)" by (cases ev)
  show ?thesis
    by (cases e) (auto simp: ev job_step_def create_ok start_check_ok [OF ok] append_ok progress_ok cancel_ok complete_ok fail_ok done_ok restart_ok ok
      split: option.splits)
qed

lemma run_ok: "store_ok s \<Longrightarrow> store_ok (job_run evs s)"
  unfolding job_run_def by (induction evs arbitrary: s) (auto simp: step_ok)

lemma new_store_ok: "store_ok (new_store n h)"
  by (simp add: new_store_def load_jobs_def store_ok_def in_step_def newest_first_def)

section \<open>The status of one job\<close>

definition status_in :: "string \<Rightarrow> job_store \<Rightarrow> job_status option" where
  "status_in i s = map_option jb_status (map_of (js_jobs s) i)"

definition job_settled :: "job_status option \<Rightarrow> bool" where
  "job_settled st \<longleftrightarrow> st \<in> {None, Some Completed, Some Canceled, Some JobFailed}"

lemma settled_active: "map_of (js_jobs s) i = Some j \<Longrightarrow> job_settled (status_in i s) \<longleftrightarrow> \<not> is_active j"
  by (cases "jb_status j") (auto simp: job_settled_def status_in_def is_active_def active_statuses_def)

lemma status_tasks [simp]: "status_in i (s\<lparr>js_tasks := ts\<rparr>) = status_in i s"
  by (simp add: status_in_def)

lemma status_change: "status_in i (change_job p k f s) = (if i = k then map_option (\<lambda>j. jb_status (f j)) (map_of (js_jobs s) i) else status_in i s)"
  by (auto simp: status_in_def change_job_def get_job_def put_job_def od_map_of_update split: option.splits)

lemma status_trim: "od_wf (js_jobs s) \<Longrightarrow> status_in i (trim_history s) \<in> {None, status_in i s}"
  by (auto simp: trim_history_def Let_def status_in_def map_of_keys)

lemma status_create:
  assumes "store_ok s" and "i \<noteq> k"
  shows "status_in i (snd (create_job k kind payload progress now s)) \<in> {None, status_in i s}"
proof -
  have "od_wf (js_jobs (put_job True k (new_job kind payload progress now) s))" using assms(1) by (simp add: put_job_def store_ok_def)
  from status_trim [OF this, of i] show ?thesis using assms(2) by (simp add: create_job_def Let_def status_in_def put_job_def od_map_of_update)
qed

definition creates :: "string \<Rightarrow> int \<times> job_op \<Rightarrow> bool" where
  "creates i ev = (case snd ev of JCreate k kind payload progress \<Rightarrow> k = i | JStart k names timeout \<Rightarrow> k = i | _ \<Rightarrow> False)"

definition after_restart :: "job_status \<Rightarrow> job_status" where
  "after_restart st = (if st \<in> set active_statuses then JobFailed else st)"

lemma settled_restart: "job_settled (map_option after_restart x)"
  by (cases x; cases "the x") (simp_all add: job_settled_def after_restart_def active_statuses_def)

lemma interrupted_status: "jb_status (interrupted err n now j) = after_restart (jb_status j)"
  by (simp add: interrupted_def after_restart_def is_active_def)

lemma status_file: "store_ok s \<Longrightarrow> map_option jb_status (map_of (js_files s) i) = status_in i s"
  using store_ok_in_step [of s i] by (auto simp: in_step_def status_in_def split: option.splits)

lemma status_restart:
  assumes "store_ok s"
  shows "status_in i (load_jobs (js_files s) (js_max_logs s) (js_max_history s) err now) = map_option after_restart (status_in i s)"
proof -
  have ok: "od_wf (js_files s)" "1 \<le> js_max_history s" using assms by (auto simp: store_ok_def)
  have "int (length (js_files s)) \<le> max 1 (js_max_history s)" using files_small [OF assms] ok(2) by simp
  then show ?thesis unfolding status_file [OF assms, symmetric] using load_small [OF ok(1)]
    by (simp add: status_in_def option.map_comp comp_def interrupted_status)
qed

lemma settled_change:
  assumes "job_settled (status_in i s)" and "\<And>j. \<not> is_active j \<Longrightarrow> \<not> is_active (f j)"
  shows "job_settled (status_in i (change_job p k f s))"
proof (cases "i = k \<and> map_of (js_jobs s) i \<noteq> None")
  case True
  then obtain j where "map_of (js_jobs s) i = Some j" by blast
  moreover have "\<not> is_active (f j)" using calculation assms settled_active by blast
  ultimately show ?thesis using True
    by (cases "jb_status (f j)") (auto simp: status_change job_settled_def is_active_def active_statuses_def)
next
  case False
  then have "status_in i (change_job p k f s) \<in> {None, status_in i s}" by (auto simp: status_change)
  then show ?thesis using assms(1) by (auto simp: job_settled_def)
qed

lemma settled_complete: "job_settled (status_in i s) \<Longrightarrow> job_settled (status_in i (mark_completed k a b now s))"
  unfolding mark_completed_def Let_def by (rule settled_change) (auto simp: is_active_def active_statuses_def with_log_def)

lemma settled_failed: "job_settled (status_in i s) \<Longrightarrow> job_settled (status_in i (mark_failed k x now s))"
  unfolding mark_failed_def Let_def by (rule settled_change) (auto simp: is_active_def active_statuses_def with_log_def)

lemma settled_log: "job_settled (status_in i s) \<Longrightarrow> job_settled (status_in i (append_log k l m r p now s))"
  unfolding append_log_def by (rule settled_change) (auto simp: is_active_def with_log_def)

lemma settled_progress: "job_settled (status_in i s) \<Longrightarrow> job_settled (status_in i (update_progress k d u extra p now s))"
  unfolding update_progress_def by (rule settled_change) (auto simp: is_active_def)

lemma settled_create:
  "store_ok s \<Longrightarrow> job_settled (status_in i s) \<Longrightarrow> i \<noteq> k \<Longrightarrow> job_settled (status_in i (snd (create_job k kind payload progress now s)))"
  using status_create [of s i k kind payload progress now] by (auto simp: job_settled_def)

lemma settled_cancel: "job_settled (status_in i s) \<Longrightarrow> job_settled (status_in i (snd (request_cancel k b now s)))"
proof -
  assume st: "job_settled (status_in i s)"
  have "status_in i (cancel_task k s1) = status_in i s1" for s1 by (simp add: cancel_task_def split: option.splits)
  then show ?thesis using st settled_active [of s i]
    by (auto simp: request_cancel_def Let_def get_job_def status_change split: option.splits)
qed

lemma settled_done: "job_settled (status_in i s) \<Longrightarrow> job_settled (status_in i (task_done k how now s))"
  using settled_complete [of i "s\<lparr>js_tasks := AList.delete k (js_tasks s)\<rparr>" k None None now]
    settled_failed [of i "s\<lparr>js_tasks := AList.delete k (js_tasks s)\<rparr>" k _ now]
  by (simp add: task_done_def Let_def split: option.splits task_end.splits)

lemma settled_step:
  assumes ok: "store_ok s" and st: "job_settled (status_in i s)" and "\<not> creates i ev"
  shows "job_settled (status_in i (job_step ev s))"
proof -
  obtain now e where ev: "ev = (now, e)" by (cases ev)
  show ?thesis
  proof (cases e)
    case (JStart k names timeout)
    then show ?thesis using settled_create [OF ok st, of k] assms(3) st
      by (auto simp: ev job_step_def creates_def start_status_check_def attach_task_def split: option.splits if_splits)
  next
    case JRestart
    then show ?thesis using status_restart [OF ok] settled_restart by (simp add: ev job_step_def)
  next
    case (JCreate k kind payload progress)
    then show ?thesis using settled_create [OF ok st] assms(3) by (simp add: ev job_step_def creates_def)
  qed (use st in \<open>simp_all add: ev job_step_def settled_complete settled_failed settled_log settled_progress settled_cancel settled_done\<close>)
qed

lemma settled_run:
  "store_ok s \<Longrightarrow> job_settled (status_in i s) \<Longrightarrow> list_all (\<lambda>ev. \<not> creates i ev) evs \<Longrightarrow> job_settled (status_in i (job_run evs s))"
  unfolding job_run_def by (induction evs arbitrary: s) (auto simp: step_ok settled_step)

section \<open>One check of accounts at a time\<close>

text \<open>While a check is active it is the newest job, and no other job is active; \<open>t\<close> is the last start.\<close>

definition exclusive :: "int \<Rightarrow> job_store \<Rightarrow> bool" where
  "exclusive t s \<longleftrightarrow>
     (\<forall>i j. map_of (js_jobs s) i = Some j \<or> map_of (js_files s) i = Some j \<longrightarrow> jb_kind j = status_kind \<and> jb_created j \<le> t)
     \<and> (\<forall>i j k x. map_of (js_jobs s) i = Some j \<and> map_of (js_jobs s) k = Some x \<and> is_active j \<and> k \<noteq> i
           \<longrightarrow> \<not> is_active x \<and> jb_created x < jb_created j)"

lemma newest_head:
  assumes "od_wf d" and "map_of d i = Some j" and "\<And>k x. map_of d k = Some x \<Longrightarrow> k \<noteq> i \<Longrightarrow> jb_created x < jb_created j"
  shows "hd (newest_first d) = (i, j) \<and> newest_first d \<noteq> []"
proof -
  obtain k x where h: "hd (newest_first d) = (k, x)" by (cases "hd (newest_first d)")
  have m: "(i, j) \<in> set (newest_first d)" using assms(2) by (simp add: newest_keys map_of_SomeD)
  then have ne: "newest_first d \<noteq> []" by auto
  then have "(k, x) \<in> set d" using h newest_keys(1) [of d] by (metis hd_in_set)
  then have kx: "map_of d k = Some x" using assms(1) by simp
  have "sorted (map (\<lambda>(i, j). - jb_created j) (newest_first d))" unfolding newest_first_def by (rule sorted_sort_key)
  then have "- jb_created x \<le> - jb_created j" using m ne h by (cases "newest_first d") auto
  then have "k = i" using assms(3) [OF kx] by auto
  then show ?thesis using kx assms(2) h ne by simp
qed

lemma active_busy:
  assumes "store_ok s" and "exclusive t s" and "map_of (js_jobs s) i = Some j" and "is_active j"
  shows "busy s"
proof -
  have "hd (newest_first (js_jobs s)) = (i, j) \<and> newest_first (js_jobs s) \<noteq> []"
    using assms by (intro newest_head) (auto simp: store_ok_def exclusive_def)
  moreover have "0 < nat (max 1 (min 10 (js_max_history s)))" by simp
  ultimately have "(i, j) \<in> set (list_jobs 10 s)"
    unfolding list_jobs_def by (cases "newest_first (js_jobs s)"; cases "nat (max 1 (min 10 (js_max_history s)))") auto
  moreover have "jb_kind j = status_kind" using assms(2,3) by (auto simp: exclusive_def)
  ultimately show ?thesis using assms(4) by (auto simp: busy_def list_ex_iff)
qed

lemma exclusive_tasks [simp]: "exclusive t (s\<lparr>js_tasks := ts\<rparr>) = exclusive t s"
  by (simp add: exclusive_def)

lemma exclusive_change:
  assumes "exclusive t s"
    and "\<And>j. jb_kind (f j) = jb_kind j \<and> jb_created (f j) = jb_created j \<and> (is_active (f j) \<longrightarrow> is_active j)"
  shows "exclusive t (change_job p i f s)"
proof (cases "map_of (js_jobs s) i")
  case (Some j0)
  have "jb_kind j = status_kind \<and> jb_created j \<le> t"
    if "map_of (js_jobs (change_job p i f s)) k = Some j \<or> map_of (js_files (change_job p i f s)) k = Some j" for k j
    using that assms Some by (auto simp: exclusive_def change_job_def get_job_def put_job_def od_map_of_update split: if_splits)
  moreover have "\<not> is_active x \<and> jb_created x < jb_created j"
    if l: "map_of (js_jobs (change_job p i f s)) l = Some j" and k: "map_of (js_jobs (change_job p i f s)) k = Some x"
      and a: "is_active j" and kl: "k \<noteq> l" for l j k x
  proof -
    obtain j' where j': "map_of (js_jobs s) l = Some j'" "is_active j'" "jb_created j = jb_created j'"
      using l a assms(2) Some by (auto simp: change_job_def get_job_def put_job_def od_map_of_update split: if_splits)
    obtain x' where x': "map_of (js_jobs s) k = Some x'" "is_active x \<longrightarrow> is_active x'" "jb_created x = jb_created x'"
      using k assms(2) Some by (auto simp: change_job_def get_job_def put_job_def od_map_of_update split: if_splits)
    show ?thesis using assms(1) j' x' kl unfolding exclusive_def by metis
  qed
  ultimately show ?thesis unfolding exclusive_def by blast
qed (use assms(1) in \<open>simp add: change_job_def get_job_def\<close>)

lemma map_of_trim: "map_of (js_jobs (trim_history s)) i = Some j \<Longrightarrow> map_of (js_jobs s) i = Some j"
  "map_of (js_files (trim_history s)) i = Some j \<Longrightarrow> map_of (js_files s) i = Some j"
proof -
  show "map_of (js_jobs (trim_history s)) i = Some j \<Longrightarrow> map_of (js_jobs s) i = Some j"
    by (auto simp: trim_history_def Let_def map_of_keys split: if_splits)
  have "map_of (filter (\<lambda>(i, j). i \<notin> L) d) i = (if i \<in> L then None else map_of d i)" for L and d :: "(string, job) odict"
    using map_of_keys [of "- L" d i] by simp
  then show "map_of (js_files (trim_history s)) i = Some j \<Longrightarrow> map_of (js_files s) i = Some j"
    by (auto simp: trim_history_def Let_def simp del: set_filter split: if_splits)
qed

lemma attach_jobs: "js_jobs (attach_task i s) = js_jobs s" "js_files (attach_task i s) = js_files s"
  by (simp_all add: attach_task_def)

lemma exclusive_start:
  assumes "store_ok s" and "exclusive t s" and "t < now" and "start_status_check i names timeout now s = Some s1"
  shows "exclusive now s1"
proof -
  have idle: "\<not> is_active j" if "map_of (js_jobs s) k = Some j" for k j
    using active_busy [OF assms(1,2) that] assms(4) by (auto simp: start_status_check_def split: if_splits)
  let ?j = "new_job status_kind [(''account_names'', PList (map PStr names)), (''timeout_seconds'', PFloat (Fin timeout))]
      (status_progress (length names)) now"
  have s1: "s1 = attach_task i (trim_history (put_job True i ?j s))"
    using assms(4) by (auto simp: start_status_check_def create_job_def Let_def split: if_splits)
  have e: "js_jobs s1 = js_jobs (trim_history (put_job True i ?j s))" "js_files s1 = js_files (trim_history (put_job True i ?j s))"
    unfolding s1 by (rule attach_jobs)+
  have jobs: "j = ?j \<and> k = i \<or> map_of (js_jobs s) k = Some j \<and> k \<noteq> i" if "map_of (js_jobs s1) k = Some j" for k j
  proof -
    have "map_of (js_jobs (put_job True i ?j s)) k = Some j" using that unfolding e by (rule map_of_trim(1))
    then show ?thesis by (cases "k = i") (simp_all add: put_job_def od_map_of_update)
  qed
  have files: "j = ?j \<or> map_of (js_files s) k = Some j" if "map_of (js_files s1) k = Some j" for k j
  proof -
    have "map_of (js_files (put_job True i ?j s)) k = Some j" using that unfolding e by (rule map_of_trim(2))
    then show ?thesis by (cases "k = i") (simp_all add: put_job_def od_map_of_update)
  qed
  have new: "jb_kind ?j = status_kind" "jb_created ?j = now" by (simp_all add: new_job_def status_kind_def)
  have old: "jb_kind j = status_kind \<and> jb_created j \<le> t" if "map_of (js_jobs s) k = Some j \<or> map_of (js_files s) k = Some j" for k j
    using that assms(2) by (auto simp: exclusive_def)
  have 1: "jb_kind j = status_kind \<and> jb_created j \<le> now" if "map_of (js_jobs s1) k = Some j \<or> map_of (js_files s1) k = Some j" for k j
  proof -
    have "j = ?j \<or> map_of (js_jobs s) k = Some j \<or> map_of (js_files s) k = Some j" using that jobs files by blast
    then show ?thesis using new old [of k j] assms(3) by auto
  qed
  have 2: "\<not> is_active x \<and> jb_created x < jb_created j"
    if l: "map_of (js_jobs s1) l = Some j" and k: "map_of (js_jobs s1) k = Some x" and a: "is_active j" and kl: "k \<noteq> l" for l j k x
  proof -
    have "j = ?j" "l = i" using jobs [OF l] idle a by auto
    then have "map_of (js_jobs s) k = Some x" using jobs [OF k] kl by auto
    then show ?thesis using idle old [of k x] new(2) assms(3) \<open>j = ?j\<close> by auto
  qed
  show ?thesis unfolding exclusive_def using 1 2 by blast
qed

lemma exclusive_restart:
  assumes "store_ok s" and "exclusive t s"
  shows "exclusive t (load_jobs (js_files s) (js_max_logs s) (js_max_history s) err now)"
proof -
  have ok: "od_wf (js_files s)" "1 \<le> js_max_history s" using assms(1) by (auto simp: store_ok_def)
  have "int (length (js_files s)) \<le> max 1 (js_max_history s)" using files_small [OF assms(1)] ok(2) by simp
  note l = load_small [OF ok(1) this, of "js_max_logs s" err now]
  have i: "jb_kind (interrupted err n now j) = jb_kind j" "jb_created (interrupted err n now j) = jb_created j"
    "\<not> is_active (interrupted err n now j)" for n j by (auto simp: interrupted_def is_active_def active_statuses_def)
  show ?thesis using assms(2) l i unfolding exclusive_def by auto
qed

definition starts :: "(int \<times> job_op) list \<Rightarrow> int list" where
  "starts evs = map fst (filter (\<lambda>ev. case snd ev of JStart i names timeout \<Rightarrow> True | _ \<Rightarrow> False) evs)"

definition generic :: "int \<times> job_op \<Rightarrow> bool" where
  "generic ev = (case snd ev of JCreate i kind payload progress \<Rightarrow> True | _ \<Rightarrow> False)"

lemma exclusive_complete: "exclusive t s \<Longrightarrow> exclusive t (mark_completed k a b now s)"
  unfolding mark_completed_def Let_def by (intro exclusive_change) (simp_all add: is_active_def active_statuses_def with_log_def)

lemma exclusive_failed: "exclusive t s \<Longrightarrow> exclusive t (mark_failed k x now s)"
  unfolding mark_failed_def Let_def by (intro exclusive_change) (simp_all add: is_active_def active_statuses_def with_log_def)

lemma exclusive_cancel:
  assumes "exclusive t s"
  shows "exclusive t (snd (request_cancel k b now s))"
proof (cases "map_of (js_jobs s) k")
  case None
  then show ?thesis using assms by (simp add: request_cancel_def get_job_def)
next
  case (Some j)
  define f where "f = (\<lambda>j. with_log (js_max_logs s) ''info'' ''cancellation requested'' None now (j\<lparr>jb_status := Canceling\<rparr>))"
  have "exclusive t (change_job True k (\<lambda>j. if is_active j then f j else j) s)"
    by (intro exclusive_change assms) (simp add: f_def is_active_def active_statuses_def with_log_def)
  then have f: "exclusive t (change_job True k f s)" if "is_active j"
    using that Some by (simp add: change_job_def get_job_def)
  have c: "exclusive t s1 \<Longrightarrow> exclusive t (cancel_task k s1)" for s1 by (simp add: cancel_task_def split: option.splits)
  have "snd (request_cancel k b now s) \<in> {s, cancel_task k s}
      \<or> is_active j \<and> snd (request_cancel k b now s) \<in> {change_job True k f s, cancel_task k (change_job True k f s)}"
    unfolding request_cancel_def get_job_def Some f_def by (simp add: Let_def)
  then show ?thesis using assms c f by (elim disjE conjE insertE emptyE) simp_all
qed

lemma exclusive_done: "exclusive t s \<Longrightarrow> exclusive t (task_done k how now s)"
  by (auto simp: task_done_def Let_def exclusive_complete exclusive_failed split: option.splits task_end.splits)

lemma exclusive_step:
  assumes "store_ok s" and "exclusive t s" and "\<not> generic ev" and "\<forall>u \<in> set (starts [ev]). t < u"
  shows "\<exists>t'. exclusive t' (job_step ev s) \<and> (t' = t \<or> [t'] = starts [ev])"
proof -
  obtain now e where ev: "ev = (now, e)" by (cases ev)
  have keep: "exclusive t (change_job p i f s)"
    if "\<And>j. jb_kind (f j) = jb_kind j \<and> jb_created (f j) = jb_created j \<and> (is_active (f j) \<longrightarrow> is_active j)" for p i f
    using exclusive_change [OF assms(2) that] .
  show ?thesis
  proof (cases e)
    case (JStart i names timeout)
    then show ?thesis
      using exclusive_start [OF assms(1,2), of now i names timeout] assms(2,4)
      by (cases "start_status_check i names timeout now s") (auto simp: ev job_step_def starts_def)
  next
    case (JLog k level message ref persist)
    have "exclusive t (job_step ev s)" unfolding ev JLog job_step_def append_log_def prod.case job_op.case
      by (intro keep) (simp add: is_active_def with_log_def)
    then show ?thesis by blast
  next
    case (JProgress k d u extra persist)
    have "exclusive t (job_step ev s)" unfolding ev JProgress job_step_def update_progress_def prod.case job_op.case
      by (intro keep) (simp add: is_active_def)
    then show ?thesis by blast
  next
    case (JCancel k b)
    have "exclusive t (snd (request_cancel k b now s))" using assms(2) by (rule exclusive_cancel)
    then show ?thesis by (auto simp: ev JCancel job_step_def)
  next
    case (JDone k how)
    have "exclusive t (task_done k how now s)" using assms(2) by (rule exclusive_done)
    then show ?thesis by (auto simp: ev JDone job_step_def)
  next
    case JRestart
    then show ?thesis using exclusive_restart [OF assms(1,2)] by (auto simp: ev job_step_def)
  next
    case (JComplete k a b)
    then show ?thesis using exclusive_complete [OF assms(2), of k a b now] by (intro exI [of _ t]) (simp add: ev job_step_def)
  next
    case (JFail k err)
    then show ?thesis using exclusive_failed [OF assms(2), of k err now] by (intro exI [of _ t]) (simp add: ev job_step_def)
  qed (use assms(3) in \<open>simp add: ev generic_def\<close>)
qed

lemma starts_Cons: "starts (ev # evs) = starts [ev] @ starts evs"
  by (simp add: starts_def)

lemma exclusive_run:
  "store_ok s \<Longrightarrow> exclusive t s \<Longrightarrow> list_all (\<lambda>ev. \<not> generic ev) evs \<Longrightarrow> sorted_wrt (<) (t # starts evs) \<Longrightarrow>
   \<exists>t'. exclusive t' (job_run evs s)"
proof (induction evs arbitrary: s t)
  case (Cons ev evs)
  have sw: "sorted_wrt (<) (t # starts [ev] @ starts evs)" using Cons.prems(4) starts_Cons [of ev evs] by simp
  then have "\<forall>u \<in> set (starts [ev]). t < u" by (simp add: sorted_wrt_append)
  moreover have "\<not> generic ev" using Cons.prems(3) by simp
  ultimately obtain t' where t': "exclusive t' (job_step ev s)" "t' = t \<or> [t'] = starts [ev]"
    using exclusive_step [OF Cons.prems(1,2)] by blast
  have "t' = t \<or> t' \<in> set (starts [ev])" using t'(2) by (metis list.set_intros(1))
  then have "sorted_wrt (<) (t' # starts evs)" using sw by (auto simp: sorted_wrt_append)
  from Cons.IH [OF step_ok [OF Cons.prems(1)] t'(1) _ this] Cons.prems(3) show ?case by (simp add: job_run_def)
qed (auto simp: job_run_def)

section \<open>Properties\<close>

text \<open>
  The registry stays bounded and its directory in step with it: after any history of operations and
  restarts it holds at most \<open>max_history\<close> jobs, one file for each of them in the same status and
  no other file, and no more logs of a job than \<open>max_logs\<close>.
\<close>

theorem registry_in_step:
  "int (length (js_jobs (job_run evs (new_store n h)))) \<le> js_max_history (job_run evs (new_store n h))
   \<and> in_step (js_max_logs (job_run evs (new_store n h)))
       (map_of (js_jobs (job_run evs (new_store n h))) i) (map_of (js_files (job_run evs (new_store n h))) i)"
  using run_ok [OF new_store_ok] by (simp add: store_ok_def)

text \<open>
  A restart loses no job and leaves none running: whatever happened before, exactly the same jobs
  are there again, in the status they had, those that were running or being canceled as failed.
\<close>

theorem restart_fails_active:
  "status_in i (job_run (evs @ [(now, JRestart)]) (new_store n h)) = map_option after_restart (status_in i (job_run evs (new_store n h)))
   \<and> job_settled (status_in i (job_run (evs @ [(now, JRestart)]) (new_store n h)))"
proof -
  have "job_run (evs @ [(now, JRestart)]) s = job_step (now, JRestart) (job_run evs s)" for s by (simp add: job_run_def)
  then have st: "status_in i (job_run (evs @ [(now, JRestart)]) (new_store n h)) = map_option after_restart (status_in i (job_run evs (new_store n h)))"
    using status_restart [OF run_ok [OF new_store_ok]] by (simp add: job_step_def)
  then show ?thesis using settled_restart by simp
qed

text \<open>
  C19: A job that is completed, canceled or failed never runs again: whatever calls, ends of tasks and
  restarts follow, it is in a final state or gone, and a request to cancel it is refused and
  changes nothing.
\<close>

theorem final_stays_final:
  assumes "status_in i (job_run evs (new_store n h)) \<in> Some ` set final_statuses" and "list_all (\<lambda>ev. \<not> creates i ev) later"
  shows "job_settled (status_in i (job_run later (job_run evs (new_store n h))))
    \<and> request_cancel i b now (job_run evs (new_store n h)) = (False, job_run evs (new_store n h))"
proof -
  let ?s = "job_run evs (new_store n h)"
  have st: "job_settled (status_in i ?s)" using assms(1) by (auto simp: job_settled_def final_statuses_def)
  moreover have "request_cancel i b now ?s = (False, ?s)"
    using st settled_active [of ?s i] by (auto simp: request_cancel_def get_job_def split: option.splits)
  ultimately show ?thesis using settled_run [OF run_ok [OF new_store_ok] _ assms(2)] by blast
qed

definition finished_history :: "(int \<times> job_op) list" where
  "finished_history = [(1, JCreate ''a'' ''bulk'' [] []), (2, JCancel ''a'' False), (3, JComplete ''a'' None None)]"

lemma final_stays_final_witness:
  "job_settled (status_in ''a'' (job_run [(4, JFail ''a'' ''late''), (5, JRestart)] (job_run finished_history (new_store 10 5))))"
proof -
  have "status_in ''a'' (job_run finished_history (new_store 10 5)) = Some Canceled" by code_simp
  then have "status_in ''a'' (job_run finished_history (new_store 10 5)) \<in> Some ` set final_statuses" by (simp add: final_statuses_def)
  moreover have "list_all (\<lambda>ev. \<not> creates ''a'' ev) [(4, JFail ''a'' ''late''), (5, JRestart)]" by (simp add: creates_def)
  ultimately show ?thesis using final_stays_final by blast
qed


definition check_history :: "(int \<times> job_op) list" where
  "check_history = [(1, JStart ''a'' [''x''] 8), (2, JStart ''b'' [''x''] 8), (3, JCancel ''a'' True), (3, JDone ''a'' WasCancelled),
     (4, JStart ''c'' [''y''] 8)]"


section \<open>Corners\<close>

text \<open>Two jobs made in one second when the history is full: the new one is the one thrown away, with its
  file, although its creation is reported.\<close>

lemma new_job_lost:
  "get_job ''b'' (job_run [(1, JCreate ''a'' ''bulk'' [] []), (1, JCreate ''b'' ''bulk'' [] [])] (new_store 10 1)) = None"
  by code_simp

text \<open>A job that still runs is thrown away as soon as enough newer ones were made; it can no longer be
  canceled, and its end is not recorded.\<close>

lemma running_job_lost:
  "let s = job_run [(1, JCreate ''a'' ''bulk'' [] []), (2, JCreate ''b'' ''bulk'' [] [])] (new_store 10 1)
   in fst (request_cancel ''a'' True 3 s) = False \<and> mark_completed ''a'' None None 4 s = s"
  by code_simp

end
