(* ===== verification/Py_Text.thy ===== *)
theory Py_Text
  imports Py_Values "HOL-Library.Word"
begin

text \<open>
  More of Python's texts, as the keyword monitor uses them: splitting at a class of characters, suffixes,
  the UTF-8 bytes of a text, and \<^verbatim>\<open>zlib.crc32\<close> bit by bit on 32-bit words.
\<close>

unbundle bit_operations_syntax

section \<open>Splitting\<close>

text \<open>The pieces between the characters of a class. Where the source splits at runs of them, or at a pair
  such as a carriage return and a line feed, there are more empty pieces here, which it drops.\<close>

fun split_by :: "(char \<Rightarrow> bool) \<Rightarrow> string \<Rightarrow> string list" where
  "split_by P [] = [[]]"
| "split_by P (c # cs) = (if P c then [] # split_by P cs
     else (case split_by P cs of [] \<Rightarrow> [[c]] | p # ps \<Rightarrow> (c # p) # ps))"

text \<open>The line boundaries of \<^verbatim>\<open>str.splitlines\<close> below 256.\<close>

definition line_break :: "char \<Rightarrow> bool" where
  "line_break c \<longleftrightarrow> (let n = of_char c :: nat in (10 \<le> n \<and> n \<le> 13) \<or> (28 \<le> n \<and> n \<le> 30) \<or> n = 133)"

definition comma_or_newline :: "char \<Rightarrow> bool" where
  "comma_or_newline c \<longleftrightarrow> c = CHR '','' \<or> c = CHR 0x0A"

text \<open>The pieces without blanks around them, empty ones dropped.\<close>

definition stripped_items :: "string list \<Rightarrow> string list" where
  "stripped_items xs = filter (\<lambda>x. x \<noteq> []) (map py_strip xs)"

definition removesuffix :: "string \<Rightarrow> string \<Rightarrow> string" where
  "removesuffix suf s = (if suf \<noteq> [] \<and> endswith s suf then take (length s - length suf) s else s)"

definition lstrip_chars :: "string \<Rightarrow> string \<Rightarrow> string" where
  "lstrip_chars cs s = dropWhile (\<lambda>c. c \<in> set cs) s"

text \<open>\<^verbatim>\<open>str(v or "")\<close>\<close>

definition str_or_blank :: "(py \<Rightarrow> string) \<Rightarrow> py \<Rightarrow> string" where
  "str_or_blank fr v = (if py_truthy v then py_str fr v else [])"

text \<open>\<^verbatim>\<open>d.get(key)\<close>\<close>

definition act_get :: "pydict \<Rightarrow> string \<Rightarrow> py" where
  "act_get a k = look a k PNone"

lemma split_by_nonempty: "split_by P s \<noteq> []"
  by (induction s) (auto split: list.splits)

lemma split_by_single: "split_by (\<lambda>c. c = d) s = split_on d s"
  by (induction s) auto

lemma split_by_chars: "p \<in> set (split_by P s) \<Longrightarrow> c \<in> set p \<Longrightarrow> \<not> P c"
proof (induction s arbitrary: p)
  case (Cons a s)
  show ?case
  proof (cases "P a")
    case False
    obtain q qs where q: "split_by P s = q # qs" using split_by_nonempty [of P s] by (cases "split_by P s") auto
    from Cons.prems False q have "p = a # q \<or> p \<in> set qs" by simp
    then show ?thesis using Cons.IH [of q] Cons.IH [of p] Cons.prems(2) False q by auto
  qed (use Cons in auto)
qed simp

lemma dropWhile_rev_settled:
  assumes "xs = [] \<or> \<not> P (hd xs)"
  shows "dropWhile P (rev (dropWhile P (rev xs))) = rev (dropWhile P (rev xs))"
proof (cases "rev (dropWhile P (rev xs))")
  case (Cons y ys)
  have "rev xs = takeWhile P (rev xs) @ dropWhile P (rev xs)" by simp
  then have "xs = rev (dropWhile P (rev xs)) @ rev (takeWhile P (rev xs))" by (metis rev_append rev_rev_ident)
  then have "xs = y # ys @ rev (takeWhile P (rev xs))" using Cons by simp
  then have "\<not> P y" using assms by (metis list.sel(1) list.distinct(1))
  then show ?thesis using Cons by simp
next
  case Nil
  then have "dropWhile P (rev xs) = []" by simp
  then show ?thesis by (simp only: rev.simps dropWhile.simps)
qed

lemma py_strip_idem [simp]: "py_strip (py_strip s) = py_strip s"
proof -
  have "dropWhile py_space s = [] \<or> \<not> py_space (hd (dropWhile py_space s))" by (metis hd_dropWhile)
  from dropWhile_rev_settled [of _ py_space, OF this] show ?thesis by (simp add: py_strip_def)
qed

lemma stripped_items_spec: "x \<in> set (stripped_items xs) \<Longrightarrow> x \<noteq> [] \<and> py_strip x = x"
  by (auto simp: stripped_items_def)

section \<open>Bytes and checksums\<close>

text \<open>A code point below 256 has one byte or two.\<close>

definition utf8 :: "string \<Rightarrow> 8 word list" where
  "utf8 s = concat (map (\<lambda>c. let n = of_char c :: nat in
     if n < 128 then [of_nat n] else [of_nat (192 + n div 64), of_nat (128 + n mod 64)]) s)"

definition crc_bit :: "32 word \<Rightarrow> 32 word" where
  "crc_bit c = (if bit c 0 then drop_bit 1 c XOR 0xEDB88320 else drop_bit 1 c)"

definition crc_byte :: "8 word \<Rightarrow> 32 word \<Rightarrow> 32 word" where
  "crc_byte b c = (crc_bit ^^ 8) (c XOR ucast b)"

definition crc32 :: "8 word list \<Rightarrow> 32 word" where
  "crc32 bs = NOT (fold crc_byte bs 0xFFFFFFFF)"

text \<open>The known value for the letter a.\<close>

lemma crc32_check: "crc32 [0x61] = 0xE8B7BE43"
  by code_simp

end
