(* ===== verification/Monitor_Scope.thy ===== *)
theory Monitor_Scope
  imports Py_Text
begin

text \<open>
  Which accounts a process listens for, \<^verbatim>\<open>backend/services/keyword_monitor/sharding.py\<close>, and when a
  rule is active, \<^verbatim>\<open>backend/utils/time_window.py\<close>. The environment variables are arguments. A
  time is the seconds of a wall clock with its distance from UTC, if it has one; the data base of time
  zones is the parameter \<open>zone\<close>: the distance from UTC at an instant, for the names it knows. The
  allowed accounts are a list for the set of the source.
\<close>

section \<open>Shards\<close>

definition session_suffix :: string where "session_suffix = ''.session''"

definition account_id :: "string \<Rightarrow> string" where
  "account_id s = removesuffix session_suffix (py_strip s)"

definition parse_monitor_shard :: "string \<Rightarrow> (int \<times> int) option" where
  "parse_monitor_shard raw =
     (let value = py_strip raw; left = takeWhile (\<lambda>c. c \<noteq> CHR ''/'') value; right = drop (Suc (length left)) value
      in if value = [] \<or> CHR ''/'' \<notin> set value then None
         else (case (int_of_str left, int_of_str right) of
                 (Some i, Some n) \<Rightarrow> if n < 1 \<or> i < 0 \<or> i \<ge> n then None else Some (i, n)
               | _ \<Rightarrow> None))"

definition parse_account_allowlist :: "string \<Rightarrow> string list option" where
  "parse_account_allowlist raw =
     (let items = map (removesuffix session_suffix) (stripped_items (split_on CHR '','' (py_strip raw)))
      in if items = [] then None else Some items)"

text \<open>What is not given is read from the environment.\<close>

definition account_in_monitor_scope ::
  "string \<Rightarrow> string \<Rightarrow> string \<Rightarrow> string list option \<Rightarrow> (int \<times> int) option \<Rightarrow> bool" where
  "account_in_monitor_scope env_allow env_shard account allowlist shard =
     (let name = account_id account
      in if name = [] \<or> name = ''*'' then False
         else if (case (case allowlist of Some a \<Rightarrow> Some a | None \<Rightarrow> parse_account_allowlist env_allow) of
                    None \<Rightarrow> False | Some a \<Rightarrow> name \<notin> set a) then False
         else (case (case shard of Some s \<Rightarrow> Some s | None \<Rightarrow> parse_monitor_shard env_shard) of
                 None \<Rightarrow> True
               | Some (i, n) \<Rightarrow> uint (crc32 (utf8 name)) mod n = i))"

section \<open>Time windows\<close>

record clock_time =
  ct_hour :: int
  ct_minute :: int
  ct_second :: int

text \<open>One or two digits, two digits, and perhaps two more.\<close>

definition clock_field :: "nat \<Rightarrow> string \<Rightarrow> int option" where
  "clock_field least s = (if least \<le> length s \<and> length s \<le> 2 \<and> list_all ascii_digit s then Some (int (digits_nat s)) else None)"

definition parse_hhmm :: "(py \<Rightarrow> string) \<Rightarrow> py \<Rightarrow> clock_time option" where
  "parse_hhmm fr value =
     (let parts = split_on CHR '':'' (py_strip (str_or_blank fr value));
          found = (case parts of
                     [h, m] \<Rightarrow> (clock_field 1 h, clock_field 2 m, Some 0)
                   | [h, m, s] \<Rightarrow> (clock_field 1 h, clock_field 2 m, clock_field 2 s)
                   | _ \<Rightarrow> (None, None, None))
      in case found of
           (Some h, Some m, Some s) \<Rightarrow> if h > 23 \<or> m > 59 \<or> s > 59 then None else Some \<lparr>ct_hour = h, ct_minute = m, ct_second = s\<rparr>
         | _ \<Rightarrow> None)"

definition two_digits :: "int \<Rightarrow> string" where
  "two_digits n = (if 0 \<le> n \<and> n < 10 then ''0'' @ str_int n else str_int n)"

definition hhmm :: "clock_time \<Rightarrow> string" where
  "hhmm t = two_digits (ct_hour t) @ '':'' @ two_digits (ct_minute t)"

definition normalize_time_window :: "(py \<Rightarrow> string) \<Rightarrow> py \<Rightarrow> py \<Rightarrow> (string \<times> string) option" where
  "normalize_time_window fr start stop =
     (case (parse_hhmm fr start, parse_hhmm fr stop) of
        (Some s, Some e) \<Rightarrow> Some (hhmm s, hhmm e)
      | _ \<Rightarrow> None)"

record wall_time =
  wt_seconds :: int
  wt_offset :: "int option"

definition resolve_tz :: "(string \<Rightarrow> (int \<Rightarrow> int) option) \<Rightarrow> (py \<Rightarrow> string) \<Rightarrow> py \<Rightarrow> int \<Rightarrow> int" where
  "resolve_tz zone fr tz_name =
     (let name = py_strip (str_or_blank fr tz_name)
      in if name = [] then (\<lambda>t. 0) else (case zone name of None \<Rightarrow> (\<lambda>t. 0) | Some z \<Rightarrow> z))"

text \<open>The wall clock the window is compared with: a time without zone is taken as it is.\<close>

definition moment_clock :: "(string \<Rightarrow> (int \<Rightarrow> int) option) \<Rightarrow> (py \<Rightarrow> string) \<Rightarrow> wall_time \<Rightarrow> py \<Rightarrow> int" where
  "moment_clock zone fr now tz_name =
     (if tz_name \<noteq> PNone \<and> py_strip (py_str fr tz_name) \<noteq> []
      then (case wt_offset now of
              None \<Rightarrow> wt_seconds now
            | Some off \<Rightarrow> (let instant = wt_seconds now - off in instant + resolve_tz zone fr tz_name instant))
      else wt_seconds now)"

definition minute_of :: "clock_time \<Rightarrow> int" where
  "minute_of t = 60 * ct_hour t + ct_minute t"

definition is_within_time_window ::
  "(string \<Rightarrow> (int \<Rightarrow> int) option) \<Rightarrow> (py \<Rightarrow> string) \<Rightarrow> wall_time option \<Rightarrow> py \<Rightarrow> py \<Rightarrow> py \<Rightarrow> bool" where
  "is_within_time_window zone fr now start stop tz_name =
     (case now of None \<Rightarrow> True
      | Some t \<Rightarrow>
          (case (parse_hhmm fr start, parse_hhmm fr stop) of
             (Some s, Some e) \<Rightarrow>
               if ct_hour s = ct_hour e \<and> ct_minute s = ct_minute e then True
               else (let current = (moment_clock zone fr t tz_name mod 86400) div 60
                     in if minute_of s < minute_of e then minute_of s \<le> current \<and> current < minute_of e
                        else current \<ge> minute_of s \<or> current < minute_of e)
           | _ \<Rightarrow> True))"

lemma hhmm_second [simp]: "hhmm (t\<lparr>ct_second := s\<rparr>) = hhmm t"
  by (simp add: hhmm_def)

section \<open>Facts about shards\<close>

lemma parse_shard_valid: "parse_monitor_shard raw = Some (i, n) \<Longrightarrow> 0 \<le> i \<and> i < n"
  by (auto simp: parse_monitor_shard_def Let_def split: if_splits option.splits)

lemma int_of_str_nat: "int_of_str (str_nat n) = Some (int n)"
proof -
  have "py_strip (str_nat n) = str_nat n" by (intro py_strip_id ballI str_nat_unspaced)
  moreover have "digitpart b s = (s, [])" if "list_all ascii_digit s" for b s
    using that by (induction s arbitrary: b) auto
  moreover have "str_nat n \<noteq> []" by (subst str_nat.simps) simp
  moreover have "\<not> startswith (str_nat n) ''-'' \<and> \<not> startswith (str_nat n) ''+''"
    using str_nat_digits [of n] by (cases "str_nat n") (auto simp: startswith_def ascii_digit_def)
  ultimately show ?thesis using str_nat_digits [of n] by (simp add: int_of_str_def digits_str_nat)
qed

lemma parse_shard_text:
  assumes "i < n"
  shows "parse_monitor_shard (str_nat i @ ''/'' @ str_nat n) = Some (int i, int n)"
proof -
  have d: "CHR ''/'' \<notin> set (str_nat k)" for k using str_nat_digits [of k] by (auto simp: list_all_iff ascii_digit_def)
  have "c \<in> set (str_nat i @ ''/'' @ str_nat n) \<Longrightarrow> \<not> py_space c" for c
    using str_nat_unspaced by (auto simp: py_space_def)
  then have "py_strip (str_nat i @ ''/'' @ str_nat n) = str_nat i @ ''/'' @ str_nat n" by (intro py_strip_id) blast
  moreover have "takeWhile (\<lambda>c. c \<noteq> CHR ''/'') (str_nat i @ ''/'' @ str_nat n) = str_nat i"
    using d [of i] by (subst takeWhile_append2) auto
  ultimately show ?thesis using assms by (simp add: parse_monitor_shard_def int_of_str_nat)
qed

text \<open>A shard that does not parse is none, so that the process listens for every account.\<close>

lemma bad_shard_takes_all: "account_in_monitor_scope [] ''2/2'' ''alice'' None None"
  by code_simp

section \<open>Facts about windows\<close>

lemma parse_hhmm_bounds:
  assumes "parse_hhmm fr v = Some t"
  shows "0 \<le> ct_hour t \<and> ct_hour t < 24 \<and> 0 \<le> ct_minute t \<and> ct_minute t < 60 \<and> 0 \<le> minute_of t \<and> minute_of t < 1440"
proof -
  have "(\<exists>s. clock_field (Suc 0) s = Some (ct_hour t)) \<and> (\<exists>u. clock_field 2 u = Some (ct_minute t)) \<and> ct_hour t \<le> 23 \<and> ct_minute t \<le> 59"
    using assms unfolding parse_hhmm_def Let_def by (auto split: if_splits list.splits option.splits)
  moreover have "0 \<le> x" if "clock_field n s = Some x" for n s x using that by (auto simp: clock_field_def split: if_splits)
  ultimately have "0 \<le> ct_hour t" "ct_hour t \<le> 23" "0 \<le> ct_minute t" "ct_minute t \<le> 59" by blast+
  then show ?thesis by (simp add: minute_of_def)
qed

lemma minute_inject:
  fixes h m :: int
  assumes "0 \<le> m" and "m < 60" and "0 \<le> m'" and "m' < 60"
  shows "(h = h' \<and> m = m') = (60 * h + m = 60 * h' + m')"
proof -
  have d: "(60 * x + y) div 60 = x" "(60 * x + y) mod 60 = y" if "0 \<le> y" "y < 60" for x y :: int using that by simp_all
  show ?thesis using d [OF assms(1,2)] d [OF assms(3,4)] by metis
qed

lemma parse_hhmm_minute:
  "parse_hhmm fr v = Some x \<Longrightarrow> parse_hhmm fr w = Some y \<Longrightarrow> (ct_hour x = ct_hour y \<and> ct_minute x = ct_minute y) = (minute_of x = minute_of y)"
  unfolding minute_of_def by (intro minute_inject) (simp_all add: parse_hhmm_bounds)

text \<open>Whoever knows the two minutes knows the window.\<close>

lemma window_by_minutes:
  assumes "parse_hhmm fr a = Some s" and "parse_hhmm fr b = Some e"
    and "map_option minute_of (parse_hhmm fr a') = Some (minute_of s)" and "map_option minute_of (parse_hhmm fr b') = Some (minute_of e)"
  shows "is_within_time_window zone fr now a' b' tz = is_within_time_window zone fr now a b tz"
proof -
  obtain s' e' where p: "parse_hhmm fr a' = Some s'" "parse_hhmm fr b' = Some e'" "minute_of s' = minute_of s" "minute_of e' = minute_of e"
    using assms(3,4) by auto
  have same: "(ct_hour x = ct_hour y \<and> ct_minute x = ct_minute y) = (minute_of x = minute_of y)"
    if "parse_hhmm fr v = Some x" "parse_hhmm fr w = Some y" for v w x y
    using parse_hhmm_minute [OF that] .
  show ?thesis
    unfolding is_within_time_window_def assms(1,2) p(1,2) using p(3,4) same [OF assms(1,2)] same [OF p(1,2)] by (auto split: option.splits)
qed

text \<open>Two digits are read back.\<close>

lemma clock_field_two_digits: "0 \<le> n \<Longrightarrow> n < 100 \<Longrightarrow> clock_field k (two_digits n) = (if k \<le> 2 then Some n else None)"
proof -
  assume n: "0 \<le> n" "n < 100"
  have l: "length (two_digits n) = 2"
  proof (cases "n < 10")
    case True
    then have "nat n < 10" using n by linarith
    then show ?thesis using n True by (simp add: two_digits_def str_int_def str_nat.simps [of "nat n"])
  next
    case False
    moreover have "nat n div 10 < 10" using n by linarith
    ultimately show ?thesis using n by (simp add: two_digits_def str_int_def str_nat.simps [of "nat n"] str_nat.simps [of "nat n div 10"])
  qed
  have d: "list_all ascii_digit (two_digits n)" "digits_nat (two_digits n) = nat n"
    using n str_nat_digits [of "nat n"] digits_str_nat [of "nat n"]
    by (auto simp: two_digits_def str_int_def ascii_digit_def digits_nat_def)
  show ?thesis using l d n by (simp add: clock_field_def)
qed

lemma two_digits_chars: "0 \<le> n \<Longrightarrow> c \<in> set (two_digits n) \<Longrightarrow> ascii_digit c"
  using str_nat_digits [of "nat n"] by (auto simp: two_digits_def str_int_def list_all_iff ascii_digit_def split: if_splits)

lemma digit_not_space: "ascii_digit c \<Longrightarrow> \<not> py_space c"
  by (auto simp: ascii_digit_def py_space_def Let_def)

lemma filter_one: "r < n \<Longrightarrow> filter (\<lambda>i. i = r) [0..<n] = [r]"
  by (induction n) (auto simp: less_Suc_eq)

lemma colon_no_digit: "\<not> ascii_digit CHR '':''"
  by code_simp

lemma parse_hhmm_hhmm:
  assumes "parse_hhmm fr v = Some t"
  shows "parse_hhmm fr (PStr (hhmm t)) = Some (t\<lparr>ct_second := 0\<rparr>)"
proof -
  note b = parse_hhmm_bounds [OF assms]
  let ?h = "two_digits (ct_hour t)" and ?m = "two_digits (ct_minute t)"
  have cs: "\<forall>c \<in> set ?h \<union> set ?m. ascii_digit c" using b two_digits_chars by blast
  then have no: "CHR '':'' \<notin> set ?h" "CHR '':'' \<notin> set ?m" using colon_no_digit by blast+
  have "\<not> py_space CHR '':''" by code_simp
  then have "\<forall>c \<in> set (hhmm t). \<not> py_space c" using cs digit_not_space by (auto simp: hhmm_def)
  then have "py_strip (str_or_blank fr (PStr (hhmm t))) = ?h @ CHR '':'' # ?m"
    by (subst py_strip_id) (auto simp: str_or_blank_def py_str_def hhmm_def)
  then have "split_on CHR '':'' (py_strip (str_or_blank fr (PStr (hhmm t)))) = [?h, ?m]"
    using split_on_clean [OF no(1)] split_on_one [OF no(2)] by simp
  then show ?thesis using b clock_field_two_digits [of "ct_hour t"] clock_field_two_digits [of "ct_minute t"]
    by (cases t) (simp add: parse_hhmm_def)
qed

section \<open>Properties\<close>

text \<open>
  Sharding loses no account and gives none to two processes: when an account is listened for without
  shards, then of the processes that are started with the shards \<open>0/n\<close> to \<open>n-1/n\<close> exactly one listens for it,
  and otherwise none.
\<close>

theorem shards_partition:
  assumes "0 < n"
  shows "length (filter (\<lambda>i. account_in_monitor_scope allow (str_nat i @ ''/'' @ str_nat n) account None None) [0..<n])
    = of_bool (account_in_monitor_scope allow [] account None None)"
proof -
  let ?r = "nat (uint (crc32 (utf8 (account_id account))) mod int n)"
  have "parse_monitor_shard (str_nat i @ ''/'' @ str_nat n) = Some (int i, int n)" if "i < n" for i
    using that by (rule parse_shard_text)
  moreover have "parse_monitor_shard [] = None" by code_simp
  ultimately have s: "account_in_monitor_scope allow (str_nat i @ ''/'' @ str_nat n) account None None \<longleftrightarrow>
      account_in_monitor_scope allow [] account None None \<and> i = ?r" if "i < n" for i
    using that by (auto simp: account_in_monitor_scope_def Let_def)
  have "?r < n" using assms by (simp add: nat_less_iff)
  then have one: "filter (\<lambda>i. i = ?r) [0..<n] = [?r]" by (rule filter_one)
  have "filter (\<lambda>i. account_in_monitor_scope allow (str_nat i @ ''/'' @ str_nat n) account None None) [0..<n] =
      filter (\<lambda>i. account_in_monitor_scope allow [] account None None \<and> i = ?r) [0..<n]"
    by (intro filter_cong refl s) simp
  then show ?thesis using one by (cases "account_in_monitor_scope allow [] account None None") simp_all
qed

lemma shards_partition_witness:
  "length (filter (\<lambda>i. account_in_monitor_scope [] (str_nat i @ ''/'' @ str_nat 3) ''alice.session'' None None) [0..<3]) = 1"
proof -
  have "account_in_monitor_scope [] [] ''alice.session'' None None" by code_simp
  then show ?thesis using shards_partition [of 3 "[]" "''alice.session''"] by simp
qed

text \<open>
  A window is the part of the circle of the day from its start up to its end, also across midnight: a time
  is inside exactly when it is less far, going forward from the start, than the end is; a window that
  starts and ends in the same minute is the whole day.
\<close>

theorem window_on_the_circle:
  assumes "parse_hhmm fr a = Some s" and "parse_hhmm fr b = Some e"
  shows "is_within_time_window zone fr (Some t) a b tz \<longleftrightarrow>
    minute_of s = minute_of e
    \<or> (moment_clock zone fr t tz mod 86400 div 60 - minute_of s) mod 1440 < (minute_of e - minute_of s) mod 1440"
proof -
  let ?c = "moment_clock zone fr t tz mod 86400 div 60"
  have c: "0 \<le> ?c" "?c < 1440" by simp_all
  note s = parse_hhmm_bounds [OF assms(1)] and e = parse_hhmm_bounds [OF assms(2)]
  have same: "(ct_hour s = ct_hour e \<and> ct_minute s = ct_minute e) = (minute_of s = minute_of e)"
    by (rule parse_hhmm_minute [OF assms])
  have m: "(x - y) mod 1440 = (if x < y then x - y + 1440 else x - y)" if "0 \<le> x" "x < 1440" "0 \<le> y" "y < 1440" for x y :: int
  proof (cases "x < y")
    case True
    have "(x - y) mod 1440 = (x - y + 1440) mod 1440" by simp
    then show ?thesis using that True by (simp only: mod_pos_pos_trivial if_True)
  qed (use that in simp)
  have "is_within_time_window zone fr (Some t) a b tz =
      (minute_of s = minute_of e \<or> (if minute_of s < minute_of e then minute_of s \<le> ?c \<and> ?c < minute_of e
        else ?c \<ge> minute_of s \<or> ?c < minute_of e))"
    unfolding is_within_time_window_def assms using same by (simp add: Let_def)
  then show ?thesis using m [of ?c "minute_of s"] m [of "minute_of e" "minute_of s"] c s e by auto
qed

definition window_zone :: "string \<Rightarrow> (int \<Rightarrow> int) option" where
  "window_zone name = (if name = ''Asia/Shanghai'' then Some (\<lambda>t. 28800) else None)"

lemma window_on_the_circle_witness:
  "is_within_time_window window_zone (\<lambda>_. []) (Some \<lparr>wt_seconds = 17 * 3600, wt_offset = Some 0\<rparr>) (PStr ''23:00'') (PStr ''2:00'')
     (PStr ''Asia/Shanghai'')"
proof -
  have "parse_hhmm (\<lambda>_. []) (PStr ''23:00'') = Some \<lparr>ct_hour = 23, ct_minute = 0, ct_second = 0\<rparr>"
    "parse_hhmm (\<lambda>_. []) (PStr ''2:00'') = Some \<lparr>ct_hour = 2, ct_minute = 0, ct_second = 0\<rparr>" by code_simp+
  from window_on_the_circle [OF this] show ?thesis
    by (simp add: minute_of_def moment_clock_def resolve_tz_def window_zone_def py_str_def str_or_blank_def py_strip_def py_space_def)
qed

text \<open>
  Storing a window loses nothing: the normalised texts of a window, written with two digits and without
  seconds, are those of the same times of the day, and are read back unchanged.
\<close>

theorem window_normal_form:
  assumes "normalize_time_window fr a b = Some (a', b')"
  shows "is_within_time_window zone fr now (PStr a') (PStr b') tz = is_within_time_window zone fr now a b tz
    \<and> normalize_time_window fr (PStr a') (PStr b') = Some (a', b')"
proof -
  obtain s e where p: "parse_hhmm fr a = Some s" "parse_hhmm fr b = Some e" "a' = hhmm s" "b' = hhmm e"
    using assms by (auto simp: normalize_time_window_def split: option.splits)
  note q = parse_hhmm_hhmm [OF p(1)] parse_hhmm_hhmm [OF p(2)]
  have "is_within_time_window zone fr now (PStr a') (PStr b') tz = is_within_time_window zone fr now a b tz"
    by (rule window_by_minutes [OF p(1,2)]) (simp_all add: p(3,4) q minute_of_def)
  then show ?thesis by (simp add: normalize_time_window_def p(3,4) q)
qed

lemma window_normal_form_witness:
  "normalize_time_window (\<lambda>_. []) (PStr ''7:05:30'') (PStr ''23:00'') = Some (''07:05'', ''23:00'')
   \<and> is_within_time_window window_zone (\<lambda>_. []) None (PStr ''07:05'') (PStr ''23:00'') PNone
     = is_within_time_window window_zone (\<lambda>_. []) None (PStr ''7:05:30'') (PStr ''23:00'') PNone"
proof -
  have n: "normalize_time_window (\<lambda>_. []) (PStr ''7:05:30'') (PStr ''23:00'') = Some (''07:05'', ''23:00'')" by code_simp
  with window_normal_form [OF n, of window_zone None PNone] show ?thesis by blast
qed

end
