(* ===== verification/Keyword_Rules.thy ===== *)
theory Keyword_Rules
  imports Monitor_Scope
begin

text \<open>
  The rules of the keyword monitor and the functions on them, \<^verbatim>\<open>backend/services/keyword_monitor/rules.py\<close>,
  with the test for dangerous regular expressions of \<^verbatim>\<open>tg_signer/utils.py\<close>. A configured action is
  a dictionary of values. The engine of regular expressions is the parameter \<open>rx\<close>: the matches of
  a pattern in a text in order, each with its groups, up to the deadline if that is reached and none
  for an invalid pattern. What an attribute of a message may be missing is an option.
\<close>

section \<open>Messages and rules\<close>

record tg_user =
  us_id :: int
  us_username :: "string option"
  us_first_name :: "string option"
  us_last_name :: "string option"
  us_is_self :: bool

record tg_chat =
  ch_id :: "int option"
  ch_title :: "string option"
  ch_username :: "string option"

record tg_msg =
  ms_id :: "int option"
  ms_text :: "string option"
  ms_caption :: "string option"
  ms_link :: "string option"
  ms_chat :: tg_chat
  ms_from :: "tg_user option"
  ms_thread_id :: "int option"
  ms_direct_topic_id :: "int option"
  ms_reply_top_id :: "int option"
  ms_reply_id :: "int option"
  ms_topic_id :: "int option"

record keyword_rule =
  kr_account :: string
  kr_task :: string
  kr_chat_id :: int
  kr_chat_name :: string
  kr_thread_id :: "int option"
  kr_senders :: "string list option"
  kr_action :: pydict

text \<open>\<^verbatim>\<open>a or b\<close> of two texts.\<close>

definition str_first :: "string option \<Rightarrow> string \<Rightarrow> string" where
  "str_first a b = (case a of None \<Rightarrow> b | Some s \<Rightarrow> if s = [] then b else s)"

definition message_text :: "tg_msg \<Rightarrow> string" where
  "message_text m = py_strip (str_first (ms_text m) (str_first (ms_caption m) []))"

definition message_url :: "tg_msg \<Rightarrow> string" where
  "message_url m =
     (let link = str_first (ms_link m) []; username = str_first (ch_username (ms_chat m)) [];
          mid = (case ms_id m of None \<Rightarrow> ''None'' | Some i \<Rightarrow> str_int i)
      in if link \<noteq> [] then link
         else if username \<noteq> [] then ''https://t.me/'' @ username @ ''/'' @ mid
         else (case ch_id (ms_chat m) of
                 None \<Rightarrow> []
               | Some c \<Rightarrow> if startswith (str_int c) ''-100'' then ''https://t.me/c/'' @ drop 4 (str_int c) @ ''/'' @ mid else []))"

section \<open>Keywords\<close>

definition parse_keywords :: "(py \<Rightarrow> string) \<Rightarrow> py \<Rightarrow> bool \<Rightarrow> string list" where
  "parse_keywords fr value split_commas =
     stripped_items (case value of
         PList xs \<Rightarrow> map (py_str fr) xs
       | _ \<Rightarrow> if split_commas then split_by comma_or_newline (str_or_blank fr value) else split_by line_break (str_or_blank fr value))"

definition match_mode :: "pydict \<Rightarrow> exc + string" where
  "match_mode a =
     (let v = act_get a ''match_mode''
      in if \<not> py_truthy v then Inr ''contains''
         else (case v of PStr s \<Rightarrow> Inr (py_strip s) | _ \<Rightarrow> Inl (exc_of ''AttributeError'' ''no attribute strip'')))"

definition keywords_of :: "(py \<Rightarrow> string) \<Rightarrow> pydict \<Rightarrow> string \<Rightarrow> string list" where
  "keywords_of fr a mode = parse_keywords fr (act_get a ''keywords'') (mode \<noteq> ''regex'')"

text \<open>The first group with a text, or the whole match.\<close>

definition regex_keyword_value :: "string \<times> string option list \<Rightarrow> string" where
  "regex_keyword_value m =
     (case m of (whole, groups) \<Rightarrow>
       (case stripped_items (List.map_filter id groups) of [] \<Rightarrow> py_strip whole | v # _ \<Rightarrow> v))"

definition max_match_chars :: nat where "max_match_chars = 4096"

definition ignore_case :: "pydict \<Rightarrow> bool" where
  "ignore_case a = py_truthy (look a ''ignore_case'' (PBool True))"

definition folded :: "bool \<Rightarrow> string \<Rightarrow> string" where
  "folded ic s = (if ic then py_lower s else s)"

definition keyword_values ::
  "(bool \<Rightarrow> string \<Rightarrow> string \<Rightarrow> (string \<times> string option list) list) \<Rightarrow> string \<Rightarrow> bool \<Rightarrow> string \<Rightarrow> string \<Rightarrow> string list" where
  "keyword_values rx mode ic text keyword =
     (let haystack = take max_match_chars (folded ic text); needle = folded ic keyword
      in if mode = ''exact'' then (if haystack = needle then [keyword] else [])
         else if mode = ''regex''
           then filter (\<lambda>v. v \<noteq> []) (map regex_keyword_value (rx ic keyword (take max_match_chars text)))
         else (if py_contains needle haystack then [keyword] else []))"

definition add_new :: "'a \<Rightarrow> 'a list \<Rightarrow> 'a list" where
  "add_new x xs = (if x \<in> set xs then xs else xs @ [x])"

definition match_all_keyword_values ::
  "(py \<Rightarrow> string) \<Rightarrow> (bool \<Rightarrow> string \<Rightarrow> string \<Rightarrow> (string \<times> string option list) list) \<Rightarrow> pydict \<Rightarrow> string \<Rightarrow> exc + string list" where
  "match_all_keyword_values fr rx a text =
     (case match_mode a of
        Inl e \<Rightarrow> Inl e
      | Inr mode \<Rightarrow>
          if keywords_of fr a mode = [] \<or> text = [] then Inr []
          else Inr (fold (\<lambda>k. fold add_new (keyword_values rx mode (ignore_case a) text k)) (keywords_of fr a mode) []))"

section \<open>Dangerous regular expressions\<close>

definition is_paren :: "char \<Rightarrow> bool" where
  "is_paren c \<longleftrightarrow> c = CHR ''('' \<or> c = CHR '')''"

text \<open>A quantifier \<open>*\<close>, \<open>+\<close> or \<open>{n,m}\<close>, numbers left out at will, at the head of a text.\<close>

definition brace_head :: "string \<Rightarrow> bool" where
  "brace_head s \<longleftrightarrow> startswith s ''{'' \<and>
     (let r = dropWhile ascii_digit (tl s) in startswith r '','' \<and> startswith (dropWhile ascii_digit (tl r)) ''}'')"

definition quantifier_head :: "string \<Rightarrow> bool" where
  "quantifier_head s \<longleftrightarrow> startswith s ''*'' \<or> startswith s ''+'' \<or> brace_head s"

fun has_choice :: "string \<Rightarrow> bool" where
  "has_choice [] = False"
| "has_choice (c # cs) = (c = CHR ''|'' \<or> quantifier_head (c # cs) \<or> has_choice cs)"

text \<open>A group without parentheses inside at the head: its body and what follows.\<close>

definition group_head :: "string \<Rightarrow> (string \<times> string) option" where
  "group_head s =
     (let body = takeWhile (\<lambda>c. \<not> is_paren c) (tl s); r = dropWhile (\<lambda>c. \<not> is_paren c) (tl s)
      in if startswith s ''('' \<and> startswith r '')'' then Some (body, tl r) else None)"

fun unsafe_group :: "string \<Rightarrow> bool" where
  "unsafe_group [] = False"
| "unsafe_group (c # cs) =
     ((case group_head (c # cs) of None \<Rightarrow> False
       | Some (body, rest) \<Rightarrow> has_choice body \<and> quantifier_head (dropWhile py_space rest)) \<or> unsafe_group cs)"

text \<open>An outer pair of parentheses around one group with at most a \<open>*\<close> or \<open>+\<close>: the group, and what follows.\<close>

definition outer_pair :: "string \<Rightarrow> (string \<times> string) option" where
  "outer_pair s =
     (if \<not> startswith s ''('' then None
      else (case group_head (dropWhile py_space (tl s)) of
              None \<Rightarrow> None
            | Some (body, rest) \<Rightarrow>
                if body = [] then None
                else (let q = (if startswith rest ''*'' \<or> startswith rest ''+'' then [hd rest] else []);
                          r = dropWhile py_space (drop (length q) rest)
                      in if startswith r '')'' then Some (''('' @ body @ '')'' @ q, tl r) else None)))"

lemma length_group_head: "group_head s = Some (body, rest) \<Longrightarrow> length rest < length s"
  using length_dropWhile_le [of "\<lambda>c. \<not> is_paren c" "tl s"]
  by (cases s) (auto simp: group_head_def Let_def startswith_def take_Suc split: if_splits)

lemma length_outer_pair: "outer_pair s = Some (g, rest) \<Longrightarrow> length rest < length s"
proof -
  assume a: "outer_pair s = Some (g, rest)"
  then obtain body r where gh: "group_head (dropWhile py_space (tl s)) = Some (body, r)" and st: "startswith s ''(''"
    by (auto simp: outer_pair_def split: if_splits option.splits)
  have "length rest \<le> length r"
    using a gh st length_dropWhile_le [of py_space r] length_dropWhile_le [of py_space "drop (Suc 0) r"]
    by (auto simp: outer_pair_def Let_def split: if_splits)
  moreover have "length r < length (dropWhile py_space (tl s))" by (rule length_group_head [OF gh])
  moreover have "length (dropWhile py_space (tl s)) \<le> length s" using length_dropWhile_le [of py_space "tl s"] by simp
  ultimately show ?thesis by linarith
qed

function strip_pairs :: "string \<Rightarrow> string" where
  "strip_pairs s =
     (case outer_pair s of
        Some (g, rest) \<Rightarrow> g @ strip_pairs rest
      | None \<Rightarrow> (case s of [] \<Rightarrow> [] | c # cs \<Rightarrow> c # strip_pairs cs))"
  by pat_completeness auto
termination by (relation "measure length") (auto simp: length_outer_pair)

declare strip_pairs.simps [simp del]

fun simplified_unsafe :: "nat \<Rightarrow> string \<Rightarrow> bool" where
  "simplified_unsafe 0 s = False"
| "simplified_unsafe (Suc n) s = (let t = strip_pairs s in if t = s then False else if unsafe_group t then True else simplified_unsafe n t)"

definition is_unsafe_keyword_regex :: "string \<Rightarrow> bool" where
  "is_unsafe_keyword_regex p \<longleftrightarrow> p \<noteq> [] \<and> (unsafe_group p \<or> simplified_unsafe 5 p)"

definition action_has_unsafe_keyword_regex :: "(py \<Rightarrow> string) \<Rightarrow> pydict \<Rightarrow> exc + bool" where
  "action_has_unsafe_keyword_regex fr a =
     (if a = [] then Inr False
      else (case match_mode a of
              Inl e \<Rightarrow> Inl e
            | Inr mode \<Rightarrow> Inr (mode = ''regex'' \<and> list_ex is_unsafe_keyword_regex (keywords_of fr a mode))))"

definition validate_action_regex_safety :: "(py \<Rightarrow> string) \<Rightarrow> pydict \<Rightarrow> exc + unit" where
  "validate_action_regex_safety fr a =
     (if a = [] then Inr ()
      else (case match_mode a of
              Inl e \<Rightarrow> Inl e
            | Inr mode \<Rightarrow>
                (let unsafe = filter is_unsafe_keyword_regex (keywords_of fr a mode)
                 in if mode = ''regex'' \<and> unsafe \<noteq> []
                    then Inl (exc_of ''ValueError'' (''unsafe regex: '' @ join_with ''; '' (take 3 unsafe))) else Inr ())))"

section \<open>Conversions of configured values\<close>

definition as_bool :: "(py \<Rightarrow> string) \<Rightarrow> py \<Rightarrow> bool \<Rightarrow> bool" where
  "as_bool fr v dflt =
     (case v of
        PNone \<Rightarrow> dflt
      | PBool b \<Rightarrow> b
      | _ \<Rightarrow> (let t = py_lower (py_strip (py_str fr v))
              in if t \<in> {''1'', ''true'', ''yes'', ''on''} then True
                 else if t \<in> {''0'', ''false'', ''no'', ''off''} then False else dflt))"

definition as_non_negative_float :: "py \<Rightarrow> pyfloat \<Rightarrow> pyfloat" where
  "as_non_negative_float v dflt =
     (case py_float v of None \<Rightarrow> dflt | Some x \<Rightarrow> if fl_less x (Fin 0) then dflt else x)"

definition as_positive_int :: "py \<Rightarrow> int \<Rightarrow> int \<Rightarrow> int" where
  "as_positive_int v dflt minimum = (case py_int v of None \<Rightarrow> dflt | Some n \<Rightarrow> if n < minimum then dflt else n)"

definition as_int_or_none :: "(py \<Rightarrow> string) \<Rightarrow> py \<Rightarrow> int option" where
  "as_int_or_none fr v = (if v = PNone \<or> py_strip (py_str fr v) = [] then None else py_int v)"

datatype chat_target = ChatId int | ChatName string

definition parse_forward_chat_id :: "(py \<Rightarrow> string) \<Rightarrow> py \<Rightarrow> chat_target option" where
  "parse_forward_chat_id fr v =
     (let t = py_strip (py_str fr v)
      in if v = PNone \<or> t = [] then None
         else if startswith t ''@'' then Some (ChatName t)
         else (case int_of_str t of None \<Rightarrow> Some (ChatName t) | Some i \<Rightarrow> Some (ChatId i)))"

definition is_immediate_continue_action :: "pydict \<Rightarrow> bool" where
  "is_immediate_continue_action a \<longleftrightarrow> a \<noteq> [] \<and> py_int (act_get a ''action'') \<in> {Some 1, Some 2}"

definition normalize_bot_username :: "(py \<Rightarrow> string) \<Rightarrow> py \<Rightarrow> string" where
  "normalize_bot_username fr v = py_strip (lstrip_chars ''@'' (py_strip (str_or_blank fr v)))"

text \<open>\<^verbatim>\<open>max(a, b)\<close> of floats, and the delay: \<open>uni\<close> is the random number between two.\<close>

definition fl_max :: "pyfloat \<Rightarrow> pyfloat \<Rightarrow> pyfloat" where
  "fl_max a b = (if fl_less a b then b else a)"

definition resolve_action_delay ::
  "(py \<Rightarrow> string) \<Rightarrow> (pyfloat \<Rightarrow> pyfloat \<Rightarrow> pyfloat) \<Rightarrow> pydict \<Rightarrow> pyfloat \<Rightarrow> pyfloat" where
  "resolve_action_delay fr uni a fallback =
     (let raw = act_get a ''delay''; t = py_strip (py_str fr raw); other = fl_max fallback (Fin 0);
          left = takeWhile (\<lambda>c. c \<noteq> CHR ''-'') t; right = drop (Suc (length left)) t
      in if raw = PNone \<or> t = [] then other
         else if CHR ''-'' \<in> set t
           then (case (parse_float left, parse_float right) of
                   (Some x, Some y) \<Rightarrow> fl_max (if fl_less y x then uni y x else uni x y) (Fin 0)
                 | _ \<Rightarrow> other)
         else (case parse_float t of Some x \<Rightarrow> fl_max x (Fin 0) | None \<Rightarrow> other))"

section \<open>Templates\<close>

definition ident_start :: "char \<Rightarrow> bool" where
  "ident_start c \<longleftrightarrow> (let n = of_char c :: nat in (65 \<le> n \<and> n \<le> 90) \<or> (97 \<le> n \<and> n \<le> 122) \<or> n = 95)"

definition ident_char :: "char \<Rightarrow> bool" where
  "ident_char c \<longleftrightarrow> ident_start c \<or> ascii_digit c"

text \<open>A name and a closing brace at the head: the name and what follows.\<close>

definition name_head :: "string \<Rightarrow> (string \<times> string) option" where
  "name_head s =
     (let name = takeWhile ident_char s; r = dropWhile ident_char s
      in if name \<noteq> [] \<and> ident_start (hd name) \<and> startswith r ''}'' then Some (name, tl r) else None)"

definition placeholder_head :: "string \<Rightarrow> (string \<times> string) option" where
  "placeholder_head s =
     (if startswith s ''${'' then name_head (drop 2 s)
      else if startswith s ''{'' then name_head (tl s) else None)"

lemma length_name_head: "name_head s = Some (n, r) \<Longrightarrow> length r < length s"
  using length_dropWhile_le [of ident_char s]
  by (cases "dropWhile ident_char s") (auto simp: name_head_def Let_def startswith_def split: if_splits)

lemma length_placeholder_head: "placeholder_head s = Some (n, r) \<Longrightarrow> length r < length s"
  using length_name_head [of "drop 2 s" n r] length_name_head [of "tl s" n r]
  by (auto simp: placeholder_head_def split: if_splits)

function render_text :: "(string, string) odict \<Rightarrow> string \<Rightarrow> string" where
  "render_text vars s =
     (case placeholder_head s of
        Some (n, r) \<Rightarrow> look vars n [] @ render_text vars r
      | None \<Rightarrow> (case s of [] \<Rightarrow> [] | c # cs \<Rightarrow> c # render_text vars cs))"
  by pat_completeness auto
termination by (relation "measure (\<lambda>(vars, s). length s)") (auto simp: length_placeholder_head)

declare render_text.simps [simp del]

definition render_template :: "(string, string) odict \<Rightarrow> py \<Rightarrow> py" where
  "render_template vars v = (case v of PStr s \<Rightarrow> PStr (render_text vars s) | _ \<Rightarrow> v)"

definition render_action_templates :: "(string, string) odict \<Rightarrow> pydict \<Rightarrow> pydict" where
  "render_action_templates vars a =
     map (\<lambda>(k, v). (k, case v of PList xs \<Rightarrow> PList (map (render_template vars) xs) | _ \<Rightarrow> render_template vars v)) a"

section \<open>Who, where and when\<close>

definition parse_sender_filter :: "(py \<Rightarrow> string) \<Rightarrow> py \<Rightarrow> string list option" where
  "parse_sender_filter fr v =
     (if \<not> py_truthy v then None
      else (let items = (case v of
                PList xs \<Rightarrow> map py_lower (stripped_items (map (py_str fr) xs))
              | _ \<Rightarrow> map (\<lambda>s. lstrip_chars ''@'' (py_lower s)) (stripped_items (split_by comma_or_newline (py_str fr v))))
            in if items = [] then None else Some items))"

definition message_matches_sender :: "tg_msg \<Rightarrow> string list option \<Rightarrow> bool" where
  "message_matches_sender m senders =
     (case senders of None \<Rightarrow> True
      | Some names \<Rightarrow> (case ms_from m of None \<Rightarrow> False | Some u \<Rightarrow> py_lower (str_first (us_username u) []) \<in> set names))"

definition message_thread_candidates :: "tg_msg \<Rightarrow> int list" where
  "message_thread_candidates m =
     fold add_new (List.map_filter id [ms_thread_id m, ms_direct_topic_id m, ms_reply_top_id m, ms_reply_id m, ms_topic_id m]) []"

definition message_matches_thread :: "tg_msg \<Rightarrow> int option \<Rightarrow> bool" where
  "message_matches_thread m thread = (case thread of None \<Rightarrow> True | Some t \<Rightarrow> t \<in> set (message_thread_candidates m))"

definition action_ignore_self :: "(py \<Rightarrow> string) \<Rightarrow> pydict \<Rightarrow> bool" where
  "action_ignore_self fr a = as_bool fr (act_get a ''ignore_self'') True"

definition message_is_self :: "tg_msg \<Rightarrow> bool" where
  "message_is_self m = (case ms_from m of None \<Rightarrow> False | Some u \<Rightarrow> us_is_self u)"

definition action_time_window :: "(py \<Rightarrow> string) \<Rightarrow> pydict \<Rightarrow> (string \<times> string) option" where
  "action_time_window fr a = normalize_time_window fr (act_get a ''active_time_start'') (act_get a ''active_time_end'')"

text \<open>The time is the present instant, on the clock of the time zone of the panel.\<close>

definition action_in_active_time_window ::
  "(string \<Rightarrow> (int \<Rightarrow> int) option) \<Rightarrow> (py \<Rightarrow> string) \<Rightarrow> string \<Rightarrow> int \<Rightarrow> pydict \<Rightarrow> bool" where
  "action_in_active_time_window zone fr panel_tz instant a =
     (case action_time_window fr a of
        None \<Rightarrow> True
      | Some (s, e) \<Rightarrow>
          (let tz = (if panel_tz = [] then PNone else PStr panel_tz); off = resolve_tz zone fr tz instant
           in is_within_time_window zone fr (Some \<lparr>wt_seconds = instant + off, wt_offset = Some off\<rparr>) (PStr s) (PStr e) tz))"

end
