(* ===== verification/Keyword_Rules_Props.thy ===== *)
theory Keyword_Rules_Props
  imports Keyword_Rules
begin

text \<open>
  The functions on rules: which keywords are found, that the values put into a template are not
  expanded again, that delays are not negative, and which patterns the test refuses.
\<close>

section \<open>Keywords\<close>

lemma add_new_all: "set (fold add_new xs acc) = set acc \<union> set xs" "distinct acc \<Longrightarrow> distinct (fold add_new xs acc)"
  by (induction xs arbitrary: acc) (auto simp: add_new_def)

lemma values_all:
  "set (fold (\<lambda>k. fold add_new (f k)) ks acc) = set acc \<union> (\<Union>k \<in> set ks. set (f k))"
  "distinct acc \<Longrightarrow> distinct (fold (\<lambda>k. fold add_new (f k)) ks acc)"
  by (induction ks arbitrary: acc) (auto simp: add_new_all)

lemma keywords_nonempty: "k \<in> set (keywords_of fr a mode) \<Longrightarrow> k \<noteq> [] \<and> py_strip k = k"
  by (auto simp: keywords_of_def parse_keywords_def dest: stripped_items_spec)

text \<open>Whether a keyword occurs in the part of the text that is looked at.\<close>

definition occurs :: "string \<Rightarrow> bool \<Rightarrow> string \<Rightarrow> string \<Rightarrow> bool" where
  "occurs mode ic text k \<longleftrightarrow>
     (let hay = take max_match_chars (folded ic text) in if mode = ''exact'' then hay = folded ic k else py_contains (folded ic k) hay)"

lemma values_of_keywords:
  assumes "match_mode a = Inr mode" and "mode \<noteq> ''regex''" and "match_all_keyword_values fr rx a text = Inr vs"
  shows "distinct vs \<and> set vs = (if text = [] then {} else {k \<in> set (keywords_of fr a mode). occurs mode (ignore_case a) text k})"
proof -
  have kv: "keyword_values rx mode ic text k = (if occurs mode ic text k then [k] else [])" for ic k
    using assms(2) by (simp add: keyword_values_def occurs_def Let_def)
  have "vs = (if keywords_of fr a mode = [] \<or> text = [] then []
      else fold (\<lambda>k. fold add_new (keyword_values rx mode (ignore_case a) text k)) (keywords_of fr a mode) [])"
    using assms(1,3) by (auto simp: match_all_keyword_values_def split: if_splits)
  then show ?thesis
    using values_all(1) [of "keyword_values rx mode (ignore_case a) text" "keywords_of fr a mode" "[]"]
      values_all(2) [of "[]" "keyword_values rx mode (ignore_case a) text" "keywords_of fr a mode"] by (auto simp: kv)
qed

section \<open>Templates\<close>

definition no_placeholder :: "string \<Rightarrow> bool" where
  "no_placeholder s \<longleftrightarrow> CHR ''$'' \<notin> set s \<and> CHR ''{'' \<notin> set s"

lemma render_plain: "no_placeholder a \<Longrightarrow> render_text vars (a @ b) = a @ render_text vars b"
proof (induction a)
  case (Cons c a)
  have "placeholder_head (c # a @ b) = None" using Cons.prems by (auto simp: no_placeholder_def placeholder_head_def startswith_def)
  then have "render_text vars (c # a @ b) = c # render_text vars (a @ b)" by (subst render_text.simps) simp
  then show ?case using Cons by (simp add: no_placeholder_def)
qed simp

lemma render_name:
  assumes "n \<noteq> []" and "ident_start (hd n)" and "\<forall>c \<in> set n. ident_char c"
  shows "render_text vars (''{'' @ n @ ''}'' @ b) = look vars n [] @ render_text vars b"
    and "render_text vars (''${'' @ n @ ''}'' @ b) = look vars n [] @ render_text vars b"
proof -
  have close: "\<not> ident_char CHR ''}''" by code_simp
  have "takeWhile ident_char (n @ CHR ''}'' # b) = n" "dropWhile ident_char (n @ CHR ''}'' # b) = CHR ''}'' # b"
    using assms(3) close by (simp_all add: takeWhile_append2 dropWhile_append2)
  then have "name_head (n @ CHR ''}'' # b) = Some (n, b)" using assms(1,2) by (simp add: name_head_def startswith_def)
  then have "placeholder_head (''{'' @ n @ ''}'' @ b) = Some (n, b)" "placeholder_head (''${'' @ n @ ''}'' @ b) = Some (n, b)"
    using assms(1) by (simp_all add: placeholder_head_def startswith_def)
  then show "render_text vars (''{'' @ n @ ''}'' @ b) = look vars n [] @ render_text vars b"
    "render_text vars (''${'' @ n @ ''}'' @ b) = look vars n [] @ render_text vars b"
    by (subst render_text.simps, simp)+
qed

text \<open>The text of a message goes into the template as it is, whatever it holds.\<close>

lemma message_not_expanded:
  "no_placeholder a \<Longrightarrow> no_placeholder b \<Longrightarrow>
   render_text vars (a @ ''{text}'' @ b) = a @ look vars ''text'' [] @ b"
proof -
  assume ab: "no_placeholder a" "no_placeholder b"
  have "render_text vars (''{'' @ ''text'' @ ''}'' @ b) = look vars ''text'' [] @ render_text vars b"
    by (rule render_name) (code_simp+)
  moreover have "render_text vars [] = []" by (subst render_text.simps) (simp add: placeholder_head_def startswith_def)
  ultimately show ?thesis using render_plain [OF ab(1), of vars "''{text}'' @ b"] render_plain [OF ab(2), of vars "[]"] by simp
qed

section \<open>Delays\<close>

lemma fl_max_zero: "fl_max x (Fin 0) = Fin d \<Longrightarrow> 0 \<le> d"
  by (cases x) (auto simp: fl_max_def split: if_splits)

lemma delay_not_negative: "resolve_action_delay fr uni a fallback = Fin d \<Longrightarrow> 0 \<le> d"
  by (auto simp: resolve_action_delay_def Let_def dest!: fl_max_zero split: if_splits option.splits)

text \<open>A delay that is not a number is not refused.\<close>

lemma nan_delay: "resolve_action_delay fr uni [(''delay'', PStr ''nan'')] (Fin 1) = NaN"
  by (simp add: resolve_action_delay_def act_get_def look_def py_str_def py_strip_def py_space_def parse_float_def py_lower_def
      startswith_def fl_max_def Let_def)

section \<open>Dangerous patterns\<close>

lemma unsafe_group_append: "unsafe_group s \<Longrightarrow> unsafe_group (p @ s)"
  by (induction p) auto

text \<open>A repeated group with a choice or a repetition inside is refused wherever it stands.\<close>

lemma repeated_choice_refused:
  assumes "has_choice body" and "\<forall>c \<in> set body. \<not> is_paren c" and "\<forall>c \<in> set blanks. py_space c" and "quantifier_head q"
  shows "is_unsafe_keyword_regex (p @ ''('' @ body @ '')'' @ blanks @ q)"
proof -
  let ?s = "''('' @ body @ '')'' @ blanks @ q"
  have close: "is_paren CHR '')''" by (simp add: is_paren_def)
  have "takeWhile (\<lambda>c. \<not> is_paren c) (body @ CHR '')'' # blanks @ q) = body"
    "dropWhile (\<lambda>c. \<not> is_paren c) (body @ CHR '')'' # blanks @ q) = CHR '')'' # blanks @ q"
    using assms(2) close by (simp_all add: takeWhile_append2 dropWhile_append2)
  then have "group_head ?s = Some (body, blanks @ q)" by (simp add: group_head_def startswith_def)
  moreover have "dropWhile py_space (blanks @ q) = q"
  proof -
    have "q = [] \<or> \<not> py_space (hd q)" using assms(4)
      by (cases q) (auto simp: quantifier_head_def brace_head_def startswith_def py_space_def Let_def)
    then have "dropWhile py_space q = q" by (cases q) auto
    then show ?thesis using assms(3) by (simp add: dropWhile_append2)
  qed
  ultimately have "unsafe_group ?s" using assms(1,4) by simp
  then have "unsafe_group (p @ ?s)" by (rule unsafe_group_append)
  then show ?thesis by (simp add: is_unsafe_keyword_regex_def)
qed

end
