(* ===== verification/Keyword_Hits.thy ===== *)
theory Keyword_Hits
  imports Py_Text "HOL-Library.List_Lexorder" "HOL-Library.Char_ord"
begin

text \<open>
  The record of keyword hits, \<^verbatim>\<open>backend/services/keyword_monitor/hits.py\<close>: the newest hits first in memory,
  the file appended to, so oldest first. A line of the file is the dictionary it holds, or \<open>None\<close>
  when it is no JSON object; reading the file does not fail, and writing fails when \<open>disk\<close> is
  false. Infinite numbers do not occur in it. Times are texts, ids the random ones of \<^verbatim>\<open>uuid4\<close>.
\<close>

definition max_records :: nat where "max_records = 5000"
definition rewrite_batch :: nat where "rewrite_batch = 100"
definition max_list_limit :: int where "max_list_limit = 500"

record keyword_hit =
  ht_id :: string
  ht_time :: string
  ht_account :: string
  ht_task :: string
  ht_chat_id :: py
  ht_chat_title :: string
  ht_keyword :: string
  ht_keywords :: "string list"
  ht_message_id :: "int option"
  ht_text :: string
  ht_sender :: string
  ht_url :: string
  ht_push_channel :: string
  ht_thread_id :: "int option"

record hit_store =
  hs_records :: "keyword_hit list"
  hs_loaded :: bool
  hs_file :: "pydict option list"

section \<open>Cleaning values\<close>

definition not_nul :: "char \<Rightarrow> bool" where
  "not_nul c \<longleftrightarrow> c \<noteq> CHR 0x00"

definition strip_nul :: "string \<Rightarrow> string" where
  "strip_nul s = py_strip (filter not_nul s)"

definition clip :: "nat \<Rightarrow> string \<Rightarrow> string" where
  "clip n s = take n (strip_nul s)"

definition as_optional_int :: "py \<Rightarrow> int option" where
  "as_optional_int v = (case v of PNone \<Rightarrow> None | PBool b \<Rightarrow> None | _ \<Rightarrow> py_int v)"

definition normalize_account :: "string \<Rightarrow> string" where
  "normalize_account s = removesuffix ''.session'' (strip_nul s)"

fun unix_newlines :: "string \<Rightarrow> string" where
  "unix_newlines [] = []"
| "unix_newlines [c] = [c]"
| "unix_newlines (c # d # cs) = (if c = CHR 0x0D \<and> d = CHR 0x0A then d # unix_newlines cs else c # unix_newlines (d # cs))"

definition safe_message_text :: "string \<Rightarrow> string" where
  "safe_message_text s = (let t = unix_newlines (strip_nul s) in if length t > 500 then take 497 t @ ''...'' else t)"

definition safe_url :: "string \<Rightarrow> string" where
  "safe_url s = (let u = strip_nul s; l = py_lower u
     in if startswith l ''http://'' \<or> startswith l ''https://'' then take 500 u else [])"

definition clean_keywords :: "string list \<Rightarrow> string list" where
  "clean_keywords ks = take 20 (map (clip 200) (filter (\<lambda>k. strip_nul k \<noteq> []) ks))"

text \<open>What a value gives when it is iterated over, \<open>None\<close> for a \<^verbatim>\<open>TypeError\<close>.\<close>

definition iterated :: "(py \<Rightarrow> string) \<Rightarrow> py \<Rightarrow> string list option" where
  "iterated fr v =
     (if \<not> py_truthy v then Some []
      else (case v of
              PList xs \<Rightarrow> Some (map (str_or_blank fr) xs)
            | PStr s \<Rightarrow> Some (map (\<lambda>c. [c]) s)
            | PDict d \<Rightarrow> Some (map (\<lambda>(k, w). case k of KS s \<Rightarrow> s | KI i \<Rightarrow> str_int i) d)
            | _ \<Rightarrow> None))"

text \<open>A line of the file as a record: \<open>Inr None\<close> without an id.\<close>

definition normalize_hit_record :: "(py \<Rightarrow> string) \<Rightarrow> pydict \<Rightarrow> exc + keyword_hit option" where
  "normalize_hit_record fr raw =
     (let txt = (\<lambda>k. str_or_blank fr (act_get raw k)); rid = clip 64 (txt ''id'');
          chat = (case act_get raw ''chat_id'' of PNone \<Rightarrow> PNone | PInt i \<Rightarrow> PInt i | PBool b \<Rightarrow> PBool b | PStr s \<Rightarrow> PStr s
                  | v \<Rightarrow> PStr (py_str fr v))
      in if rid = [] then Inr None
         else (case iterated fr (act_get raw ''keywords'') of
                 None \<Rightarrow> Inl (exc_of ''TypeError'' ''object is not iterable'')
               | Some ks \<Rightarrow> Inr (Some
                   \<lparr>ht_id = rid, ht_time = clip 40 (txt ''time''), ht_account = clip 120 (txt ''account_name''),
                    ht_task = clip 120 (txt ''task_name''), ht_chat_id = chat, ht_chat_title = clip 200 (txt ''chat_title''),
                    ht_keyword = clip 200 (txt ''keyword''), ht_keywords = clean_keywords ks,
                    ht_message_id = as_optional_int (act_get raw ''message_id''), ht_text = safe_message_text (txt ''message_text''),
                    ht_sender = clip 120 (txt ''sender''), ht_url = safe_url (txt ''url''), ht_push_channel = clip 40 (txt ''push_channel''),
                    ht_thread_id = as_optional_int (act_get raw ''message_thread_id'')\<rparr>)))"

section \<open>The file\<close>

definition int_value :: "int option \<Rightarrow> py" where
  "int_value v = (case v of None \<Rightarrow> PNone | Some i \<Rightarrow> PInt i)"

definition hit_json :: "keyword_hit \<Rightarrow> pydict" where
  "hit_json h = [(''id'', PStr (ht_id h)), (''time'', PStr (ht_time h)), (''account_name'', PStr (ht_account h)),
     (''task_name'', PStr (ht_task h)), (''chat_id'', ht_chat_id h), (''chat_title'', PStr (ht_chat_title h)),
     (''keyword'', PStr (ht_keyword h)), (''keywords'', PList (map PStr (ht_keywords h))),
     (''message_id'', int_value (ht_message_id h)), (''message_text'', PStr (ht_text h)), (''sender'', PStr (ht_sender h)),
     (''url'', PStr (ht_url h)), (''push_channel'', PStr (ht_push_channel h)), (''message_thread_id'', int_value (ht_thread_id h))]"

fun load_lines :: "(py \<Rightarrow> string) \<Rightarrow> pydict option list \<Rightarrow> exc + keyword_hit list" where
  "load_lines fr [] = Inr []"
| "load_lines fr (None # ls) = load_lines fr ls"
| "load_lines fr (Some d # ls) =
     (case normalize_hit_record fr d of
        Inl e \<Rightarrow> Inl e
      | Inr h \<Rightarrow> (case load_lines fr ls of Inl e \<Rightarrow> Inl e
                  | Inr hs \<Rightarrow> Inr (case h of None \<Rightarrow> hs | Some x \<Rightarrow> x # hs)))"

definition ensure_loaded :: "(py \<Rightarrow> string) \<Rightarrow> hit_store \<Rightarrow> exc + hit_store" where
  "ensure_loaded fr s =
     (if hs_loaded s then Inr s
      else (case load_lines fr (hs_file s) of
              Inl e \<Rightarrow> Inl e
            | Inr hs \<Rightarrow> Inr (s\<lparr>hs_records := take max_records (rev hs), hs_loaded := True\<rparr>)))"

definition rewrite_file :: "hit_store \<Rightarrow> hit_store" where
  "rewrite_file s = s\<lparr>hs_file := map (Some \<circ> hit_json) (rev (hs_records s))\<rparr>"

definition disk_error :: exc where "disk_error = exc_of ''OSError'' ''disk''"

section \<open>Operations\<close>

text \<open>A hit as it is stored; the message, thread and chat ids are taken as they are.\<close>

definition stored_hit :: "string \<Rightarrow> string \<Rightarrow> keyword_hit \<Rightarrow> keyword_hit" where
  "stored_hit rid now h =
     h\<lparr>ht_id := rid, ht_time := now, ht_account := clip 120 (ht_account h), ht_task := clip 120 (ht_task h),
       ht_chat_title := clip 200 (ht_chat_title h), ht_keyword := clip 200 (ht_keyword h), ht_keywords := clean_keywords (ht_keywords h),
       ht_text := safe_message_text (ht_text h), ht_sender := clip 120 (ht_sender h), ht_url := safe_url (ht_url h),
       ht_push_channel := clip 40 (ht_push_channel h)\<rparr>"

definition record_keyword_hit :: "(py \<Rightarrow> string) \<Rightarrow> bool \<Rightarrow> string \<Rightarrow> string \<Rightarrow> keyword_hit \<Rightarrow> hit_store \<Rightarrow> (exc + keyword_hit) \<times> hit_store" where
  "record_keyword_hit fr disk rid now args s =
     (case ensure_loaded fr s of
        Inl e \<Rightarrow> (Inl e, s)
      | Inr s0 \<Rightarrow>
          (let h = stored_hit rid now args; s1 = s0\<lparr>hs_records := h # hs_records s0\<rparr>
           in if length (hs_records s1) \<ge> max_records + rewrite_batch
              then (let s2 = s1\<lparr>hs_records := take max_records (hs_records s1)\<rparr>
                    in if disk then (Inr h, rewrite_file s2) else (Inl disk_error, s2))
              else if disk then (Inr h, s1\<lparr>hs_file := hs_file s1 @ [Some (hit_json h)]\<rparr>) else (Inl disk_error, s1)))"

text \<open>The hits of an account and a task; an empty text means all of them.\<close>

definition wanted :: "string \<Rightarrow> string \<Rightarrow> keyword_hit \<Rightarrow> bool" where
  "wanted account task h \<longleftrightarrow>
     (normalize_account account = [] \<or> normalize_account (ht_account h) = normalize_account account)
     \<and> (py_strip task = [] \<or> ht_task h = py_strip task)"

record hit_page =
  hp_total :: int
  hp_offset :: int
  hp_limit :: int
  hp_items :: "keyword_hit list"

definition or_zero :: "int \<Rightarrow> int \<Rightarrow> int" where
  "or_zero v d = (if v = 0 then d else v)"

definition list_keyword_hits :: "(py \<Rightarrow> string) \<Rightarrow> string \<Rightarrow> string \<Rightarrow> int \<Rightarrow> int \<Rightarrow> int \<Rightarrow> hit_store \<Rightarrow> exc + hit_page \<times> hit_store" where
  "list_keyword_hits fr account task limit offset max_limit s =
     (case ensure_loaded fr s of
        Inl e \<Rightarrow> Inl e
      | Inr s0 \<Rightarrow>
          (let ceiling = max 1 (min (or_zero max_limit max_list_limit) (int max_records));
               l = max 1 (min (or_zero limit 100) ceiling); off = max 0 offset;
               found = filter (wanted account task) (hs_records s0)
           in Inr (\<lparr>hp_total = int (length found), hp_offset = off, hp_limit = l, hp_items = take (nat l) (drop (nat off) found)\<rparr>, s0)))"

datatype grouping = ByTask | ByAccount | ByChat

definition grouping_of :: "string \<Rightarrow> grouping" where
  "grouping_of s = (let t = py_lower (py_strip s) in if t = ''account'' then ByAccount else if t = ''chat'' then ByChat else ByTask)"

text \<open>Key and label of the group of a hit.\<close>

definition bucket_key :: "(py \<Rightarrow> string) \<Rightarrow> grouping \<Rightarrow> keyword_hit \<Rightarrow> string \<times> string" where
  "bucket_key fr g h =
     (let dash = (\<lambda>s. if s = [] then ''-'' else s)
      in case g of
           ByTask \<Rightarrow> (dash (ht_task h), dash (ht_task h))
         | ByAccount \<Rightarrow> (dash (ht_account h), dash (ht_account h))
         | ByChat \<Rightarrow> (if ht_chat_id h = PNone then ''-'' else py_str fr (ht_chat_id h),
                       if ht_chat_title h \<noteq> [] then ht_chat_title h else if py_truthy (ht_chat_id h) then py_str fr (ht_chat_id h) else ''-''))"

record hit_group =
  hg_key :: string
  hg_label :: string
  hg_count :: nat
  hg_items :: "keyword_hit list"

definition add_to_bucket :: "(py \<Rightarrow> string) \<Rightarrow> grouping \<Rightarrow> nat \<Rightarrow> keyword_hit \<Rightarrow> (string \<times> string, nat \<times> keyword_hit list) odict \<Rightarrow> (string \<times> string, nat \<times> keyword_hit list) odict" where
  "add_to_bucket fr g per h bs =
     (case look bs (bucket_key fr g h) (0, []) of
        (n, hs) \<Rightarrow> AList.update (bucket_key fr g h) (Suc n, if length hs < per then hs @ [h] else hs) bs)"

definition group_keyword_hits :: "(py \<Rightarrow> string) \<Rightarrow> string \<Rightarrow> string \<Rightarrow> string \<Rightarrow> int \<Rightarrow> hit_store \<Rightarrow> exc + hit_group list \<times> hit_store" where
  "group_keyword_hits fr account task group_by limit s =
     (case ensure_loaded fr s of
        Inl e \<Rightarrow> Inl e
      | Inr s0 \<Rightarrow>
          (let per = nat (max 1 (min (or_zero limit 20) 100));
               bs = fold (add_to_bucket fr (grouping_of group_by) per) (filter (wanted account task) (hs_records s0)) [];
               groups = map (\<lambda>((k, l), (n, hs)). \<lparr>hg_key = k, hg_label = l, hg_count = n, hg_items = hs\<rparr>) bs
           in Inr (sort_key (\<lambda>x. - int (hg_count x)) (sort_key hg_label groups), s0)))"

text \<open>The number of records deleted.\<close>

definition clear_keyword_hits :: "(py \<Rightarrow> string) \<Rightarrow> bool \<Rightarrow> string \<Rightarrow> string \<Rightarrow> hit_store \<Rightarrow> (exc + nat) \<times> hit_store" where
  "clear_keyword_hits fr disk account task s =
     (case ensure_loaded fr s of
        Inl e \<Rightarrow> (Inl e, s)
      | Inr s0 \<Rightarrow>
          (let kept = (if normalize_account account = [] \<and> py_strip task = [] then [] else filter (\<lambda>h. \<not> wanted account task h) (hs_records s0));
               s1 = s0\<lparr>hs_records := kept\<rparr>
           in if disk then (Inr (length (hs_records s0) - length kept), rewrite_file s1) else (Inl disk_error, s1)))"

section \<open>The export\<close>

definition formula_starts :: "char list" where
  "formula_starts = [CHR ''='', CHR ''+'', CHR ''-'', CHR ''@'', CHR 0x09, CHR 0x0D]"

definition csv_cell :: "(py \<Rightarrow> string) \<Rightarrow> py \<Rightarrow> string" where
  "csv_cell fr v =
     (case v of
        PNone \<Rightarrow> []
      | PInt i \<Rightarrow> str_int i
      | PFloat x \<Rightarrow> py_str fr v
      | _ \<Rightarrow> (let t = filter not_nul (py_str fr v)
              in if t \<noteq> [] \<and> hd t \<in> set formula_starts
                 then (if py_isdigit (lstrip_chars ''+-'' t) then t else CHR 0x27 # t) else t))"

definition export_header :: "string list" where
  "export_header = [''time'', ''account_name'', ''task_name'', ''chat_id'', ''chat_title'', ''keyword'', ''keywords'', ''sender'',
     ''message_id'', ''message_text'', ''url'', ''push_channel'', ''message_thread_id'']"

definition export_row :: "(py \<Rightarrow> string) \<Rightarrow> keyword_hit \<Rightarrow> string list" where
  "export_row fr h = map (csv_cell fr)
     [PStr (ht_time h), PStr (ht_account h), PStr (ht_task h), ht_chat_id h, PStr (ht_chat_title h), PStr (ht_keyword h),
      PStr (join_with ''|'' (ht_keywords h)), PStr (ht_sender h), int_value (ht_message_id h), PStr (ht_text h), PStr (ht_url h),
      PStr (ht_push_channel h), int_value (ht_thread_id h)]"

text \<open>\<^verbatim>\<open>csv.writer\<close>: a field is quoted when it holds a comma, a quote or a line break.\<close>

definition csv_field :: "string \<Rightarrow> string" where
  "csv_field s =
     (if \<exists>c \<in> set s. c \<in> {CHR '','', CHR 0x22, CHR 0x0D, CHR 0x0A}
      then [CHR 0x22] @ concat (map (\<lambda>c. if c = CHR 0x22 then [c, c] else [c]) s) @ [CHR 0x22] else s)"

definition csv_line :: "string list \<Rightarrow> string" where
  "csv_line cells = join_with '','' (map csv_field cells) @ [CHR 0x0D, CHR 0x0A]"

definition export_keyword_hits_csv :: "(py \<Rightarrow> string) \<Rightarrow> string \<Rightarrow> string \<Rightarrow> int option \<Rightarrow> hit_store \<Rightarrow> exc + string \<times> hit_store" where
  "export_keyword_hits_csv fr account task limit s =
     (let l = min (max 1 (case limit of None \<Rightarrow> 2000 | Some n \<Rightarrow> if n \<ge> 0 then n else 2000)) (int max_records)
      in case list_keyword_hits fr account task l 0 (int max_records) s of
           Inl e \<Rightarrow> Inl e
         | Inr (page, s0) \<Rightarrow> Inr (concat (map csv_line (export_header # map (export_row fr) (hp_items page))), s0))"

end
