(* ===== verification/Keyword_Hits_Props.thy ===== *)
theory Keyword_Hits_Props
  imports Keyword_Hits
begin

text \<open>
  The record of hits over histories of hits, deletions and restarts: it is bounded, a restart
  keeps the newest hits, and groups count exactly. Exported cells are no formulas.
\<close>

section \<open>Histories\<close>

text \<open>Whether the disk works, and the operation.\<close>

datatype hit_op = HRecord bool string string keyword_hit | HClear bool string string | HRestart

definition hit_step :: "(py \<Rightarrow> string) \<Rightarrow> hit_op \<Rightarrow> hit_store \<Rightarrow> hit_store" where
  "hit_step fr op s =
     (case op of
        HRecord disk rid now h \<Rightarrow> snd (record_keyword_hit fr disk rid now h s)
      | HClear disk account task \<Rightarrow> snd (clear_keyword_hits fr disk account task s)
      | HRestart \<Rightarrow> s\<lparr>hs_records := [], hs_loaded := False\<rparr>)"

definition hit_run :: "(py \<Rightarrow> string) \<Rightarrow> hit_op list \<Rightarrow> hit_store \<Rightarrow> hit_store" where
  "hit_run fr ops s = fold (hit_step fr) ops s"

definition no_hits :: hit_store where
  "no_hits = \<lparr>hs_records = [], hs_loaded = False, hs_file = []\<rparr>"

section \<open>What a line gives back\<close>

definition plain_hit :: "keyword_hit \<Rightarrow> bool" where
  "plain_hit h \<longleftrightarrow> ht_id h \<noteq> [] \<and> clip 64 (ht_id h) = ht_id h
     \<and> (case ht_chat_id h of PNone \<Rightarrow> True | PInt i \<Rightarrow> True | PStr t \<Rightarrow> True | _ \<Rightarrow> False)"

text \<open>What tells hits apart.\<close>

definition hit_key :: "keyword_hit \<Rightarrow> string \<times> py \<times> int option \<times> int option" where
  "hit_key h = (ht_id h, ht_chat_id h, ht_message_id h, ht_thread_id h)"

lemma str_or_blank_text [simp]: "str_or_blank fr (PStr s) = s"
  by (simp add: str_or_blank_def py_str_def)

lemma as_optional_int_value [simp]: "as_optional_int (int_value v) = v"
  by (simp add: as_optional_int_def int_value_def py_int_def split: option.splits)

lemma iterated_texts: "iterated fr (PList (map PStr ks)) = Some ks"
  by (simp add: iterated_def comp_def)

lemma reread:
  assumes "plain_hit h"
  shows "\<exists>h'. normalize_hit_record fr (hit_json h) = Inr (Some h') \<and> hit_key h' = hit_key h \<and> plain_hit h'"
proof -
  have get: "act_get (hit_json h) ''id'' = PStr (ht_id h)" "act_get (hit_json h) ''chat_id'' = ht_chat_id h"
    "act_get (hit_json h) ''keywords'' = PList (map PStr (ht_keywords h))"
    "act_get (hit_json h) ''message_id'' = int_value (ht_message_id h)"
    "act_get (hit_json h) ''message_thread_id'' = int_value (ht_thread_id h)"
    by (simp_all add: act_get_def hit_json_def look_def)
  have id: "clip 64 (ht_id h) = ht_id h" "ht_id h \<noteq> []" using assms by (simp_all add: plain_hit_def)
  have chat: "(case ht_chat_id h of PNone \<Rightarrow> PNone | PInt i \<Rightarrow> PInt i | PBool b \<Rightarrow> PBool b | PStr s \<Rightarrow> PStr s | v \<Rightarrow> PStr (py_str fr v)) = ht_chat_id h"
    using assms by (auto simp: plain_hit_def split: py.splits)
  show ?thesis unfolding normalize_hit_record_def Let_def get iterated_texts str_or_blank_text id(1) chat
    using assms id by (simp add: hit_key_def plain_hit_def)
qed

lemma load_file:
  assumes "list_all plain_hit raws"
  shows "\<exists>hs. load_lines fr (map (Some \<circ> hit_json) raws) = Inr hs \<and> map hit_key hs = map hit_key raws \<and> list_all plain_hit hs"
  using assms
proof (induction raws)
  case (Cons r raws)
  then obtain hs where "load_lines fr (map (Some \<circ> hit_json) raws) = Inr hs" "map hit_key hs = map hit_key raws" "list_all plain_hit hs"
    using Cons.IH by (metis list.pred_inject(2))
  moreover obtain h where "normalize_hit_record fr (hit_json r) = Inr (Some h)" "hit_key h = hit_key r" "plain_hit h"
    using reread Cons.prems by fastforce
  ultimately show ?case unfolding comp_def by simp
qed simp

section \<open>The invariant\<close>

text \<open>The lines of the file, newest first, are the hits in memory and older ones; there are older ones only
  behind a full memory.\<close>

definition file_follows :: "keyword_hit list \<Rightarrow> hit_store \<Rightarrow> bool" where
  "file_follows raws s \<longleftrightarrow> hs_file s = map (Some \<circ> hit_json) (rev raws) \<and> list_all plain_hit raws \<and>
     (hs_loaded s \<longrightarrow> list_all plain_hit (hs_records s)
        \<and> map hit_key (hs_records s) = take (length (hs_records s)) (map hit_key raws)
        \<and> (length (hs_records s) = length raws \<or> max_records \<le> length (hs_records s) \<and> length (hs_records s) \<le> length raws))"

lemma list_all_take: "list_all P xs \<Longrightarrow> list_all P (take n xs)"
  by (auto simp: list_all_iff dest: in_set_takeD)

lemma ensure_loaded_follows:
  assumes "file_follows raws s"
  shows "\<exists>s0. ensure_loaded fr s = Inr s0 \<and> hs_loaded s0 \<and> file_follows raws s0 \<and> (hs_loaded s \<longrightarrow> s0 = s)
    \<and> (\<not> hs_loaded s \<longrightarrow> map hit_key (hs_records s0) = take max_records (map hit_key raws))"
proof (cases "hs_loaded s")
  case False
  have "list_all plain_hit (rev raws)" using assms by (simp add: file_follows_def)
  from load_file [OF this, of fr] obtain hs where
    hs: "load_lines fr (hs_file s) = Inr hs" "map hit_key hs = map hit_key (rev raws)" "list_all plain_hit hs"
    using assms by (auto simp: file_follows_def)
  have k: "map hit_key (rev hs) = map hit_key raws" using hs(2) by (metis rev_map rev_rev_ident)
  then have l: "length hs = length raws" by (metis length_map length_rev)
  have "ensure_loaded fr s = Inr (s\<lparr>hs_records := take max_records (rev hs), hs_loaded := True\<rparr>)"
    using False hs(1) by (simp add: ensure_loaded_def)
  moreover have "file_follows raws (s\<lparr>hs_records := take max_records (rev hs), hs_loaded := True\<rparr>)"
    using assms hs(3) l k by (auto simp: file_follows_def take_map [symmetric] min_def intro: list_all_take)
  moreover have "map hit_key (take max_records (rev hs)) = take max_records (map hit_key raws)"
    unfolding take_map [symmetric] k ..
  ultimately show ?thesis using False by auto
qed (use assms in \<open>simp add: ensure_loaded_def\<close>)

definition good_op :: "hit_op \<Rightarrow> bool" where
  "good_op op = (case op of HRecord disk rid now h \<Rightarrow> disk \<and> plain_hit (h\<lparr>ht_id := rid\<rparr>) | HClear disk account task \<Rightarrow> disk | HRestart \<Rightarrow> True)"

lemma plain_stored: "plain_hit (stored_hit rid now h) = plain_hit (h\<lparr>ht_id := rid\<rparr>)"
  by (simp add: plain_hit_def stored_hit_def)

lemma rewrite_follows: "list_all plain_hit (hs_records s) \<Longrightarrow> file_follows (hs_records s) (rewrite_file s)"
  by (simp add: file_follows_def rewrite_file_def)

lemma step_follows:
  assumes "file_follows raws s" and "good_op op"
  shows "\<exists>raws'. file_follows raws' (hit_step fr op s)"
proof -
  obtain s0 where s0: "ensure_loaded fr s = Inr s0" "hs_loaded s0" "file_follows raws s0"
    using ensure_loaded_follows [OF assms(1)] by blast
  have p: "list_all plain_hit (hs_records s0)" using s0(2,3) by (simp add: file_follows_def)
  show ?thesis
  proof (cases op)
    case (HRecord disk rid now h)
    let ?h = "stored_hit rid now h"
    have h: "plain_hit ?h" and disk using assms(2) HRecord by (simp_all add: good_op_def plain_stored)
    let ?s2 = "s0\<lparr>hs_records := take max_records (?h # hs_records s0)\<rparr>"
    have 1: "file_follows (hs_records ?s2) (rewrite_file ?s2)" using p h by (intro rewrite_follows) (simp add: list_all_take)
    have 2: "file_follows (?h # raws) (s0\<lparr>hs_records := ?h # hs_records s0, hs_file := hs_file s0 @ [Some (hit_json ?h)]\<rparr>)"
      using s0(2,3) h p by (auto simp: file_follows_def)
    show ?thesis using 1 2 \<open>disk\<close> s0(1) by (auto simp: HRecord hit_step_def record_keyword_hit_def Let_def)
  next
    case (HClear disk account task)
    have 1: "file_follows (hs_records (s0\<lparr>hs_records := hs\<rparr>)) (rewrite_file (s0\<lparr>hs_records := hs\<rparr>))" if "set hs \<subseteq> set (hs_records s0)" for hs
      using p that by (intro rewrite_follows) (auto simp: list_all_iff)
    show ?thesis using 1 [of "[]"] 1 [of "filter (\<lambda>h. \<not> wanted account task h) (hs_records s0)"] assms(2) s0(1)
      by (auto simp: HClear hit_step_def clear_keyword_hits_def Let_def good_op_def)
  next
    case HRestart
    then show ?thesis using assms(1) by (auto simp: hit_step_def file_follows_def)
  qed
qed

lemma run_follows: "list_all good_op ops \<Longrightarrow> file_follows raws s \<Longrightarrow> \<exists>raws'. file_follows raws' (hit_run fr ops s)"
proof (induction ops arbitrary: raws s)
  case (Cons op ops)
  then obtain raws' where "file_follows raws' (hit_step fr op s)" using step_follows by fastforce
  then show ?case using Cons by (auto simp: hit_run_def)
qed (auto simp: hit_run_def)

lemma no_hits_follows: "file_follows [] no_hits"
  by (simp add: file_follows_def no_hits_def)

section \<open>The bound\<close>

lemma step_bounded:
  assumes "length (hs_records s) < max_records + rewrite_batch"
  shows "length (hs_records (hit_step fr op s)) < max_records + rewrite_batch"
proof -
  have b: "max_records < max_records + rewrite_batch" by (simp add: rewrite_batch_def)
  have e: "length (hs_records s0) < max_records + rewrite_batch" if "ensure_loaded fr s = Inr s0" for s0
    using that assms b by (auto simp: ensure_loaded_def split: if_splits sum.splits)
  have f: "length (filter P (hs_records s0)) < max_records + rewrite_batch" if "ensure_loaded fr s = Inr s0" for s0 P
    using e [OF that] length_filter_le [of P "hs_records s0"] by linarith
  show ?thesis
  proof (cases op)
    case (HRecord disk rid now h)
    then show ?thesis using assms e b
      by (cases "ensure_loaded fr s") (auto simp: hit_step_def record_keyword_hit_def Let_def rewrite_file_def)
  next
    case (HClear disk account task)
    then show ?thesis using assms f b
      by (cases "ensure_loaded fr s") (auto simp: hit_step_def clear_keyword_hits_def Let_def rewrite_file_def)
  next
    case HRestart
    then show ?thesis using b by (simp add: hit_step_def)
  qed
qed

lemma run_bounded: "length (hs_records s) < max_records + rewrite_batch \<Longrightarrow> length (hs_records (hit_run fr ops s)) < max_records + rewrite_batch"
proof (induction ops arbitrary: s)
  case (Cons op ops)
  then show ?case using step_bounded [OF Cons.prems] by (simp add: hit_run_def)
qed (simp add: hit_run_def)

section \<open>Groups\<close>

definition group_of :: "(py \<Rightarrow> string) \<Rightarrow> grouping \<Rightarrow> keyword_hit list \<Rightarrow> string \<times> string \<Rightarrow> keyword_hit list" where
  "group_of fr g hs k = filter (\<lambda>h. bucket_key fr g h = k) hs"

lemma buckets_exact:
  "od_wf (fold (add_to_bucket fr g per) hs []) \<and>
   map_of (fold (add_to_bucket fr g per) hs []) k =
     (if group_of fr g hs k = [] then None else Some (length (group_of fr g hs k), take per (group_of fr g hs k)))"
proof (induction hs arbitrary: k rule: rev_induct)
  case (snoc h hs)
  let ?bs = "fold (add_to_bucket fr g per) hs []" and ?k = "bucket_key fr g h"
  have l: "look ?bs ?k (0, []) = (length (group_of fr g hs ?k), take per (group_of fr g hs ?k))"
    using snoc.IH [of ?k] by (simp add: look_def)
  have t: "(if length (take per xs) < per then take per xs @ [h] else take per xs) = take per (xs @ [h])" for xs :: "keyword_hit list"
    by (auto simp: min_def)
  have s: "fold (add_to_bucket fr g per) (hs @ [h]) [] =
      AList.update ?k (Suc (length (group_of fr g hs ?k)), take per (group_of fr g hs ?k @ [h])) ?bs"
    by (simp add: add_to_bucket_def l t)
  have "group_of fr g (hs @ [h]) k = (if k = ?k then group_of fr g hs k @ [h] else group_of fr g hs k)"
    by (auto simp: group_of_def)
  then show ?case unfolding s using snoc.IH [of k] by (auto simp: od_map_of_update)
qed (simp add: group_of_def)

lemma groups_exact:
  assumes "group_keyword_hits fr account task group_by limit s = Inr (gs, s0)"
  defines "found \<equiv> filter (wanted account task) (hs_records s0)" and "g \<equiv> grouping_of group_by"
  shows "distinct (map (\<lambda>x. (hg_key x, hg_label x)) gs)"
    and "x \<in> set gs \<longleftrightarrow> group_of fr g found (hg_key x, hg_label x) \<noteq> []
      \<and> hg_count x = length (group_of fr g found (hg_key x, hg_label x))
      \<and> hg_items x = take (nat (max 1 (min (or_zero limit 20) 100))) (group_of fr g found (hg_key x, hg_label x))"
proof -
  let ?per = "nat (max 1 (min (or_zero limit 20) 100))"
  let ?bs = "fold (add_to_bucket fr g ?per) found []"
  let ?f = "\<lambda>((k, l), (n, hs)). \<lparr>hg_key = k, hg_label = l, hg_count = n, hg_items = hs\<rparr>"
  have gs: "gs = sort_key (\<lambda>x. - int (hg_count x)) (sort_key hg_label (map ?f ?bs))"
    using assms(1) unfolding group_keyword_hits_def Let_def found_def g_def by (auto split: sum.splits)
  have wf: "od_wf ?bs" using buckets_exact [of fr g ?per found] by blast
  have "map (\<lambda>x. (hg_key x, hg_label x)) (map ?f ?bs) = map fst ?bs" by (auto simp: comp_def case_prod_beta)
  then have d: "distinct (map (\<lambda>x. (hg_key x, hg_label x)) (map ?f ?bs))" using wf by (simp only:)
  have p: "distinct (map h (sort_key key xs)) = distinct (map h xs)" for h :: "hit_group \<Rightarrow> string \<times> string" and key :: "hit_group \<Rightarrow> 'b::linorder" and xs
    by (simp add: distinct_map)
  show "distinct (map (\<lambda>x. (hg_key x, hg_label x)) gs)" unfolding gs p using d .
  have "set gs = ?f ` set ?bs" by (simp add: gs)
  then have "x \<in> set gs \<longleftrightarrow> (\<exists>e \<in> set ?bs. x = ?f e)" by (simp only: image_iff)
  also have "\<dots> \<longleftrightarrow> ((hg_key x, hg_label x), hg_count x, hg_items x) \<in> set ?bs"
    by (cases x) (force simp: case_prod_beta)
  also have "\<dots> \<longleftrightarrow> map_of ?bs (hg_key x, hg_label x) = Some (hg_count x, hg_items x)" using wf by simp
  also have "\<dots> \<longleftrightarrow> (if group_of fr g found (hg_key x, hg_label x) = [] then None
      else Some (length (group_of fr g found (hg_key x, hg_label x)), take ?per (group_of fr g found (hg_key x, hg_label x))))
      = Some (hg_count x, hg_items x)"
    using buckets_exact [of fr g ?per found "(hg_key x, hg_label x)"] by (simp only:)
  finally show "x \<in> set gs \<longleftrightarrow> group_of fr g found (hg_key x, hg_label x) \<noteq> []
      \<and> hg_count x = length (group_of fr g found (hg_key x, hg_label x))
      \<and> hg_items x = take ?per (group_of fr g found (hg_key x, hg_label x))"
    by auto
qed

section \<open>Cells\<close>

text \<open>No spreadsheet takes the cell for a formula, signs before digits apart.\<close>

definition inert :: "string \<Rightarrow> bool" where
  "inert s \<longleftrightarrow> s = [] \<or> hd s \<notin> set formula_starts \<or> py_isdigit (lstrip_chars ''+-'' s)"

lemma int_inert: "inert (str_int i)"
proof (cases "i < 0")
  case True
  obtain c cs where s: "str_nat (nat (- i)) = c # cs" by (metis list.exhaust str_nat.simps append_is_Nil_conv list.distinct(1))
  have d: "list_all ascii_digit (c # cs)" using str_nat_digits [of "nat (- i)"] s by simp
  then have "c \<notin> set ''+-''" by (auto simp: ascii_digit_def)
  then show ?thesis using True s d by (auto simp: inert_def str_int_def lstrip_chars_def py_isdigit_def list_all_iff)
next
  case False
  obtain c cs where s: "str_nat (nat i) = c # cs" by (metis list.exhaust str_nat.simps append_is_Nil_conv list.distinct(1))
  have "ascii_digit c" using str_nat_digits [of "nat i"] s by simp
  then have "c \<notin> set formula_starts" by (auto simp: ascii_digit_def formula_starts_def)
  then show ?thesis using False s by (simp add: inert_def str_int_def)
qed

lemma cell_inert: "(case v of PFloat x \<Rightarrow> False | _ \<Rightarrow> True) \<Longrightarrow> inert (csv_cell fr v)"
proof -
  assume v: "case v of PFloat x \<Rightarrow> False | _ \<Rightarrow> True"
  have t: "inert (if t \<noteq> [] \<and> hd t \<in> set formula_starts then (if py_isdigit (lstrip_chars ''+-'' t) then t else CHR 0x27 # t) else t)" for t
    by (auto simp: inert_def formula_starts_def)
  have "inert []" by (simp add: inert_def)
  then show ?thesis using v t int_inert by (cases v) (simp_all add: csv_cell_def Let_def)
qed

section \<open>Properties\<close>

text \<open>
  C24: A restart loses no hit but the oldest beyond the limit: after any history of recorded hits, deletions and
  restarts with a disk that works, reading the file again gives the newest hits of the memory in their
  order, up to \<open>max_records\<close>, and no deleted one comes back.
\<close>

theorem restart_keeps_hits:
  assumes "list_all good_op ops" and "ensure_loaded fr (hit_run fr ops no_hits) = Inr s"
  shows "\<exists>s'. ensure_loaded fr (hit_step fr HRestart s) = Inr s'
    \<and> map hit_key (hs_records s') = take max_records (map hit_key (hs_records s))"
proof -
  obtain raws where raws: "file_follows raws (hit_run fr ops no_hits)" using run_follows [OF assms(1) no_hits_follows] by blast
  have s: "file_follows raws s" "hs_loaded s" using ensure_loaded_follows [OF raws, of fr] assms(2) by auto
  have "file_follows raws (hit_step fr HRestart s)" "\<not> hs_loaded (hit_step fr HRestart s)"
    using s(1) by (auto simp: hit_step_def file_follows_def)
  then obtain s' where s': "ensure_loaded fr (hit_step fr HRestart s) = Inr s'" "map hit_key (hs_records s') = take max_records (map hit_key raws)"
    using ensure_loaded_follows [of raws "hit_step fr HRestart s" fr] by blast
  have "take max_records (map hit_key raws) = take max_records (map hit_key (hs_records s))"
    using s by (auto simp: file_follows_def min_def)
  then show ?thesis using s' by simp
qed

definition sample_hit :: keyword_hit where
  "sample_hit = \<lparr>ht_id = [], ht_time = [], ht_account = ''alice'', ht_task = ''watch'', ht_chat_id = PInt (- 5), ht_chat_title = ''news'',
     ht_keyword = ''sale'', ht_keywords = [''sale''], ht_message_id = Some 7, ht_text = ''a sale'', ht_sender = ''bob'', ht_url = [],
     ht_push_channel = ''telegram'', ht_thread_id = None\<rparr>"

definition sample_ops :: "hit_op list" where
  "sample_ops = [HRecord True ''h1'' ''t1'' sample_hit, HRestart, HRecord True ''h2'' ''t2'' (sample_hit\<lparr>ht_account := ''bob''\<rparr>),
     HRecord True ''h3'' ''t3'' sample_hit, HClear True ''bob'' []]"

lemma restart_keeps_hits_witness:
  "\<exists>s s'. ensure_loaded (\<lambda>_. []) (hit_run (\<lambda>_. []) sample_ops no_hits) = Inr s \<and> map ht_id (hs_records s) = [''h3'', ''h1'']
    \<and> ensure_loaded (\<lambda>_. []) (hit_step (\<lambda>_. []) HRestart s) = Inr s'
    \<and> map hit_key (hs_records s') = take max_records (map hit_key (hs_records s))"
proof -
  have "list_all good_op sample_ops" by code_simp
  moreover have "case ensure_loaded (\<lambda>_. []) (hit_run (\<lambda>_. []) sample_ops no_hits) of Inl e \<Rightarrow> False | Inr s \<Rightarrow> map ht_id (hs_records s) = [''h3'', ''h1'']"
    by code_simp
  ultimately show ?thesis using restart_keeps_hits [of sample_ops "\<lambda>_. []"] by (auto split: sum.splits)
qed

text \<open>
  Whatever texts Telegram delivers, no cell of the exported table is a formula: each is empty, starts with a
  harmless character, or is a number with signs before it; and each field is one cell of the row.
\<close>

theorem export_cells_inert:
  assumes "plain_hit h"
  shows "list_all inert (export_row fr h) \<and> length (export_row fr h) = length export_header"
proof -
  have "inert (csv_cell fr (ht_chat_id h))" using assms by (intro cell_inert) (auto simp: plain_hit_def split: py.splits)
  then show ?thesis by (simp add: export_row_def export_header_def cell_inert int_value_def split: option.splits)
qed

lemma export_cells_inert_witness:
  "list_all inert (export_row (\<lambda>_. []) (sample_hit\<lparr>ht_id := ''h'', ht_text := ''=1+1''\<rparr>))
   \<and> CHR 0x27 # ''=1+1'' \<in> set (export_row (\<lambda>_. []) (sample_hit\<lparr>ht_id := ''h'', ht_text := ''=1+1''\<rparr>))"
proof -
  have "plain_hit (sample_hit\<lparr>ht_id := ''h'', ht_text := ''=1+1''\<rparr>)" by code_simp
  moreover have "CHR 0x27 # ''=1+1'' \<in> set (export_row (\<lambda>_. []) (sample_hit\<lparr>ht_id := ''h'', ht_text := ''=1+1''\<rparr>))" by code_simp
  ultimately show ?thesis using export_cells_inert by blast
qed

text \<open>However the operations interleave and fail, the memory is bounded.\<close>

lemma hits_bounded: "length (hs_records (hit_run fr ops no_hits)) < max_records + rewrite_batch"
  by (intro run_bounded) (simp add: no_hits_def max_records_def)

section \<open>Corners\<close>

text \<open>One line whose keywords are a number makes every operation fail, although dirty lines are meant to be skipped.\<close>

lemma bad_keywords_break_loading:
  "isl (ensure_loaded fr \<lparr>hs_records = [], hs_loaded = False, hs_file = [Some [(''id'', PStr ''x''), (''keywords'', PInt 5)]]\<rparr>)"
  by (simp add: ensure_loaded_def normalize_hit_record_def act_get_def look_def clip_def strip_nul_def not_nul_def
      py_strip_def py_space_def Let_def iterated_def str_or_blank_def py_str_def)

text \<open>Only a hit that fills the memory rewrites the file, and a restart does not: with a restart between any
  two hits the file grows without bound.\<close>

lemma file_grows:
  "\<exists>ops. list_all good_op ops \<and> length (hs_file (hit_run fr ops no_hits)) = n \<and> (n > 0 \<longrightarrow> hs_loaded (hit_run fr ops no_hits))"
proof (induction n)
  case 0
  then show ?case by (intro exI [of _ "[]"]) (simp add: hit_run_def no_hits_def)
next
  case (Suc n)
  then obtain ops where ops: "list_all good_op ops" "length (hs_file (hit_run fr ops no_hits)) = n" by blast
  let ?s = "hit_step fr HRestart (hit_run fr ops no_hits)" and ?op = "HRecord True ''h'' ''t'' sample_hit"
  have g: "list_all good_op (ops @ [HRestart, ?op])"
  proof -
    have "good_op ?op" by code_simp
    then show ?thesis using ops(1) by (simp add: good_op_def)
  qed
  obtain raws where "file_follows raws (hit_run fr ops no_hits)" using run_follows [OF ops(1) no_hits_follows] by blast
  then have "file_follows raws ?s" by (auto simp: hit_step_def file_follows_def)
  then obtain s0 where s0: "ensure_loaded fr ?s = Inr s0" using ensure_loaded_follows by blast
  have small: "length (hs_records s0) \<le> max_records" "hs_file s0 = hs_file ?s" "hs_loaded s0"
    using s0 by (auto simp: ensure_loaded_def hit_step_def split: sum.splits)
  have "hit_run fr (ops @ [HRestart, ?op]) no_hits = hit_step fr ?op ?s" by (simp add: hit_run_def)
  moreover have "hit_step fr ?op ?s = s0\<lparr>hs_records := stored_hit ''h'' ''t'' sample_hit # hs_records s0,
      hs_file := hs_file s0 @ [Some (hit_json (stored_hit ''h'' ''t'' sample_hit))]\<rparr>"
    using small s0 by (simp add: hit_step_def [of fr ?op] record_keyword_hit_def Let_def rewrite_batch_def)
  ultimately show ?case using g small ops(2) by (intro exI [of _ "ops @ [HRestart, ?op]"]) (simp add: hit_step_def)
qed

end
