(* ===== verification/Keyword_Monitor.thy ===== *)
theory Keyword_Monitor
  imports Keyword_Rules Keyword_Hits
begin

text \<open>
  The keyword monitor at work, \<^verbatim>\<open>backend/services/keyword_monitor/runtime.py\<close>: which rules are loaded, which
  messages were seen, and what a message sets off. The record \<open>monitor_env\<close> is the world at the
  time of a call: clocks, zones, regular expressions, whether the disk works, and what the Telegram
  client and the push services answer. What is sent is returned as a list of \<open>dispatch\<close>es. The set
  of seen ids of a chat is a list without repetition; the file of the seen messages is the dictionary
  it holds, \<open>None\<close> when there is none to be read. The texts of logs are English and shorter.
\<close>

section \<open>State\<close>

record log_status =
  ls_updated_at :: string
  ls_message :: string
  ls_active :: "bool option"

datatype dispatch =
    Forward keyword_rule chat_target "int option" string
  | Continue keyword_rule "(string, string) odict"
  | Push keyword_rule string string string

record monitor_env =
  mv_fr :: "py \<Rightarrow> string"
  mv_rx :: "bool \<Rightarrow> string \<Rightarrow> string \<Rightarrow> (string \<times> string option list) list"
  mv_zone :: "string \<Rightarrow> (int \<Rightarrow> int) option"
  mv_panel_tz :: string
  mv_instant :: int
  mv_clock :: time
  mv_stamp :: string
  mv_uuid :: "nat \<Rightarrow> string"
  mv_disk :: bool
  mv_send :: "dispatch \<Rightarrow> exc option"
  mv_start :: "string \<Rightarrow> bool"
  mv_connected :: "string \<Rightarrow> bool"

type_synonym rule_key = "string \<times> string \<times> int \<times> int option \<times> string list option \<times> pydict"

record monitor =
  km_rules :: "keyword_rule list"
  km_active_key :: "rule_key list option"
  km_handlers :: "string list"
  km_logs :: "(string \<times> string, string list) odict"
  km_status :: "(string \<times> string, log_status) odict"
  km_skip :: "(string \<times> string \<times> string, time) odict"
  km_seen :: "(string, int) odict"
  km_baseline :: "(string, int) odict"
  km_window :: "(string, int list) odict"
  km_dirty :: bool
  km_last_persist :: time
  km_file :: "pydict option"
  km_hits :: hit_store

definition new_monitor :: "pydict option \<Rightarrow> hit_store \<Rightarrow> monitor" where
  "new_monitor file hits = \<lparr>km_rules = [], km_active_key = None, km_handlers = [], km_logs = [], km_status = [], km_skip = [],
     km_seen = [], km_baseline = [], km_window = [], km_dirty = False, km_last_persist = 0, km_file = file, km_hits = hits\<rparr>"

section \<open>Logs\<close>

definition rule_id :: "keyword_rule \<Rightarrow> string \<times> string" where
  "rule_id r = (kr_account r, kr_task r)"

definition should_log_rule_event :: "keyword_rule \<Rightarrow> string \<Rightarrow> time \<Rightarrow> time \<Rightarrow> monitor \<Rightarrow> bool \<times> monitor" where
  "should_log_rule_event r event interval now s =
     (let key = (kr_account r, kr_task r, event)
      in if now - look (km_skip s) key 0 < interval then (False, s)
         else (True, s\<lparr>km_skip := AList.update key now (km_skip s)\<rparr>))"

definition max_task_logs :: nat where "max_task_logs = 1000"

definition append_task_log :: "string \<times> string \<Rightarrow> string \<Rightarrow> bool option \<Rightarrow> string \<Rightarrow> monitor \<Rightarrow> monitor" where
  "append_task_log key line active stamp s =
     (let logs = look (km_logs s) key [] @ [stamp @ '' - '' @ line];
          old = look (km_status s) key \<lparr>ls_updated_at = [], ls_message = [], ls_active = None\<rparr>
      in s\<lparr>km_logs := AList.update key (drop (length logs - max_task_logs) logs) (km_logs s),
           km_status := AList.update key \<lparr>ls_updated_at = stamp, ls_message = line,
             ls_active = (case active of None \<Rightarrow> ls_active old | Some b \<Rightarrow> Some b)\<rparr> (km_status s)\<rparr>)"

definition append_rule_log :: "keyword_rule \<Rightarrow> string \<Rightarrow> bool option \<Rightarrow> string \<Rightarrow> monitor \<Rightarrow> monitor" where
  "append_rule_log r line active stamp s = append_task_log (rule_id r) line active stamp s"

definition get_task_logs :: "string \<Rightarrow> string option \<Rightarrow> monitor \<Rightarrow> string list" where
  "get_task_logs task account s =
     (if account \<noteq> None \<and> account \<noteq> Some [] then look (km_logs s) (the account, task) []
      else (case List.find (\<lambda>((a, t), ls). t = task) (km_logs s) of None \<Rightarrow> [] | Some (k, ls) \<Rightarrow> ls))"

record history_entry =
  he_time :: string
  he_success :: bool
  he_message :: string
  he_account :: string
  he_logs :: "string list"
  he_truncated :: bool
  he_line_count :: nat

definition get_task_history_entry :: "string \<Rightarrow> string \<Rightarrow> monitor \<Rightarrow> history_entry option" where
  "get_task_history_entry task account s =
     (let logs = look (km_logs s) (account, task) []; status = map_of (km_status s) (account, task);
          flow_logs = drop (length logs - 500) logs
      in if logs = [] \<and> status = None then None
         else Some \<lparr>he_time = (case status of None \<Rightarrow> [] | Some t \<Rightarrow> ls_updated_at t),
                    he_success = (case status of None \<Rightarrow> False | Some t \<Rightarrow> ls_active t = Some True),
                    he_message = (case status of None \<Rightarrow> ''keyword monitor'' | Some t \<Rightarrow> ls_message t), he_account = account,
                    he_logs = flow_logs, he_truncated = (length flow_logs < length logs), he_line_count = length logs\<rparr>)"

section \<open>Loading the rules\<close>

record monitor_chat =
  mc_chat_id :: py
  mc_name :: py
  mc_thread_id :: py
  mc_sender_filter :: py
  mc_actions :: "pydict list"

record monitor_task =
  mt_account :: py
  mt_name :: py
  mt_enabled :: py
  mt_chats :: "monitor_chat list"

definition rule_of_action :: "(py \<Rightarrow> string) \<Rightarrow> string \<Rightarrow> string \<Rightarrow> int \<Rightarrow> monitor_chat \<Rightarrow> pydict \<Rightarrow> keyword_rule" where
  "rule_of_action fr account task chat c a =
     \<lparr>kr_account = account, kr_task = task, kr_chat_id = chat,
      kr_chat_name = (if py_truthy (mc_name c) then py_str fr (mc_name c) else str_int chat),
      kr_thread_id = as_int_or_none fr (mc_thread_id c), kr_senders = parse_sender_filter fr (mc_sender_filter c), kr_action = a\<rparr>"

text \<open>The rule of an action, if it is one of the monitor with keywords and without a dangerous pattern.\<close>

definition action_rule :: "(py \<Rightarrow> string) \<Rightarrow> string \<Rightarrow> string \<Rightarrow> int \<Rightarrow> monitor_chat \<Rightarrow> pydict \<Rightarrow> exc + keyword_rule option" where
  "action_rule fr account task chat c a =
     (if py_int (act_get a ''action'') \<noteq> Some 8 then Inr None
      else (case match_mode a of
              Inl e \<Rightarrow> Inl e
            | Inr mode \<Rightarrow>
                if keywords_of fr a mode = [] then Inr None
                else (case action_has_unsafe_keyword_regex fr a of
                        Inl e \<Rightarrow> Inl e
                      | Inr unsafe \<Rightarrow> Inr (if unsafe then None else Some (rule_of_action fr account task chat c a)))))"

fun collect_rules :: "('a \<Rightarrow> exc + 'b list) \<Rightarrow> 'a list \<Rightarrow> exc + 'b list" where
  "collect_rules f [] = Inr []"
| "collect_rules f (x # xs) =
     (case f x of Inl e \<Rightarrow> Inl e
      | Inr ys \<Rightarrow> (case collect_rules f xs of Inl e \<Rightarrow> Inl e | Inr zs \<Rightarrow> Inr (ys @ zs)))"

definition chat_rules :: "(py \<Rightarrow> string) \<Rightarrow> string \<Rightarrow> string \<Rightarrow> monitor_chat \<Rightarrow> exc + keyword_rule list" where
  "chat_rules fr account task c =
     (case py_int (mc_chat_id c) of
        None \<Rightarrow> Inr []
      | Some chat \<Rightarrow>
          collect_rules (\<lambda>a. case action_rule fr account task chat c a of
                              Inl e \<Rightarrow> Inl e | Inr None \<Rightarrow> Inr [] | Inr (Some r) \<Rightarrow> Inr [r]) (mc_actions c))"

definition task_rules :: "(py \<Rightarrow> string) \<Rightarrow> string \<Rightarrow> string \<Rightarrow> monitor_task \<Rightarrow> exc + keyword_rule list" where
  "task_rules fr env_allow env_shard t =
     (let account = py_strip (str_or_blank fr (mt_account t)); task = py_strip (str_or_blank fr (mt_name t))
      in if account = [] \<or> task = [] \<or> \<not> py_truthy (mt_enabled t) then Inr []
         else if \<not> account_in_monitor_scope env_allow env_shard account None None then Inr []
         else collect_rules (chat_rules fr account task) (mt_chats t))"

definition load_rules :: "(py \<Rightarrow> string) \<Rightarrow> string \<Rightarrow> string \<Rightarrow> monitor_task list \<Rightarrow> exc + keyword_rule list" where
  "load_rules fr env_allow env_shard tasks = collect_rules (task_rules fr env_allow env_shard) tasks"

section \<open>Messages seen before\<close>

definition seen_key :: "string \<Rightarrow> int \<Rightarrow> string" where
  "seen_key account chat = account @ '':'' @ str_int chat"

definition max_window :: nat where "max_window = 300"
definition kept_window :: nat where "kept_window = 200"
definition seen_persist_interval :: time where "seen_persist_interval = 30"

definition stored_seen :: "pydict option \<Rightarrow> (string, int) odict" where
  "stored_seen file =
     List.map_filter (\<lambda>(k, v). case v of PInt n \<Rightarrow> if n > 0 then Some (k, n) else None | _ \<Rightarrow> None)
       (case file of None \<Rightarrow> [] | Some d \<Rightarrow> d)"

definition load_seen_state :: "time \<Rightarrow> monitor \<Rightarrow> monitor" where
  "load_seen_state now s =
     (let loaded = stored_seen (km_file s)
      in s\<lparr>km_seen := loaded, km_baseline := loaded, km_window := map (\<lambda>(k, n). (k, [])) loaded, km_dirty := False,
           km_last_persist := now\<rparr>)"

definition persist_seen_state :: "bool \<Rightarrow> time \<Rightarrow> monitor \<Rightarrow> monitor" where
  "persist_seen_state disk now s =
     (if disk then s\<lparr>km_file := Some (map (\<lambda>(k, n). (k, PInt n)) (km_seen s)), km_last_persist := now, km_dirty := False\<rparr> else s)"

definition maybe_persist_seen_state :: "bool \<Rightarrow> bool \<Rightarrow> time \<Rightarrow> monitor \<Rightarrow> monitor" where
  "maybe_persist_seen_state forced disk now s =
     (if \<not> km_dirty s then s
      else if \<not> forced \<and> now - km_last_persist s < seen_persist_interval then s
      else persist_seen_state disk now s)"

text \<open>The newest ids of a window that has grown too large.\<close>

definition trim_window :: "int list \<Rightarrow> int list" where
  "trim_window w = (if length w > max_window then take kept_window (rev (sort w)) else w)"

definition is_seen_message :: "bool \<Rightarrow> time \<Rightarrow> string \<Rightarrow> int \<Rightarrow> int option \<Rightarrow> monitor \<Rightarrow> bool \<times> monitor" where
  "is_seen_message disk now account chat mid s =
     (case mid of
        None \<Rightarrow> (False, s)
      | Some m \<Rightarrow>
          (let key = seen_key account chat; w = look (km_window s) key []
           in if m \<le> look (km_baseline s) key 0 then (True, s)
              else if m \<in> set w then (True, s\<lparr>km_window := AList.update key w (km_window s)\<rparr>)
              else (let s1 = s\<lparr>km_window := AList.update key (trim_window (w @ [m])) (km_window s)\<rparr>
                    in (False, if m > look (km_seen s) key 0
                               then maybe_persist_seen_state False disk now (s1\<lparr>km_seen := AList.update key m (km_seen s), km_dirty := True\<rparr>)
                               else s1))))"

section \<open>A message\<close>

definition same_chat :: "string \<Rightarrow> int \<Rightarrow> keyword_rule \<Rightarrow> bool" where
  "same_chat account chat r \<longleftrightarrow> kr_account r = account \<and> kr_chat_id r = chat"

definition rule_applies :: "monitor_env \<Rightarrow> tg_msg \<Rightarrow> keyword_rule \<Rightarrow> bool" where
  "rule_applies env m r \<longleftrightarrow> message_matches_thread m (kr_thread_id r) \<and> message_matches_sender m (kr_senders r)
     \<and> \<not> (message_is_self m \<and> action_ignore_self (mv_fr env) (kr_action r))
     \<and> action_in_active_time_window (mv_zone env) (mv_fr env) (mv_panel_tz env) (mv_instant env) (kr_action r)"

definition chat_title_of :: "tg_msg \<Rightarrow> int \<Rightarrow> string" where
  "chat_title_of m chat = str_first (ch_title (ms_chat m)) (str_first (ch_username (ms_chat m)) (str_int chat))"

definition sender_of :: "tg_msg \<Rightarrow> string" where
  "sender_of m =
     (case ms_from m of None \<Rightarrow> []
      | Some u \<Rightarrow> (let names = join_with '' '' (filter (\<lambda>x. x \<noteq> []) [str_first (us_first_name u) [], str_first (us_last_name u) []])
                  in str_first (us_username u) (if names = [] then str_int (us_id u) else names)))"

definition id_text :: "int option \<Rightarrow> string" where
  "id_text v = (case v of None \<Rightarrow> ''None'' | Some i \<Rightarrow> str_int i)"

definition build_variables :: "string \<Rightarrow> keyword_rule \<Rightarrow> tg_msg \<Rightarrow> string \<Rightarrow> string \<Rightarrow> int \<Rightarrow> (string, string) odict" where
  "build_variables account r m text matched chat =
     [(''keyword'', matched), (''message'', text), (''text'', text), (''sender'', sender_of m), (''chat_id'', str_int chat),
      (''chat_title'', chat_title_of m chat), (''message_id'', id_text (ms_id m)), (''url'', message_url m),
      (''task_name'', kr_task r), (''account_name'', account)]"

definition newline :: string where "newline = [CHR 0x0A]"

definition hit_body :: "monitor_env \<Rightarrow> string \<Rightarrow> keyword_rule \<Rightarrow> tg_msg \<Rightarrow> string \<Rightarrow> string list \<Rightarrow> int \<Rightarrow> string" where
  "hit_body env account r m text values chat =
     join_with newline ([''account: '' @ account, ''task: '' @ kr_task r, ''chat: '' @ chat_title_of m chat, ''keyword: '' @ hd values]
       @ (if length values > 1 then [''keywords: '' @ join_with '', '' (take 20 values)] else [])
       @ (if sender_of m \<noteq> [] then [''sender: '' @ sender_of m] else []) @ [''time (UTC): '' @ mv_stamp env, [], text])"

definition push_channel_of :: "(py \<Rightarrow> string) \<Rightarrow> pydict \<Rightarrow> string" where
  "push_channel_of fr a = py_strip (if py_truthy (act_get a ''push_channel'') then py_str fr (act_get a ''push_channel'') else ''telegram'')"

definition hit_of :: "monitor_env \<Rightarrow> string \<Rightarrow> keyword_rule \<Rightarrow> tg_msg \<Rightarrow> string \<Rightarrow> string list \<Rightarrow> int \<Rightarrow> keyword_hit" where
  "hit_of env account r m text values chat =
     \<lparr>ht_id = [], ht_time = [], ht_account = account, ht_task = kr_task r, ht_chat_id = PInt chat, ht_chat_title = chat_title_of m chat,
      ht_keyword = hd values, ht_keywords = values, ht_message_id = ms_id m, ht_text = text, ht_sender = sender_of m, ht_url = message_url m,
      ht_push_channel = push_channel_of (mv_fr env) (kr_action r),
      ht_thread_id = (case message_thread_candidates m of [] \<Rightarrow> None | t # _ \<Rightarrow> Some t)\<rparr>"

text \<open>The three channels: what is sent, the state after it, and the exception that ends the handling.\<close>

definition handle_forward :: "monitor_env \<Rightarrow> keyword_rule \<Rightarrow> string \<Rightarrow> string \<Rightarrow> monitor \<Rightarrow> dispatch list \<times> exc option \<times> monitor" where
  "handle_forward env r body url s =
     (case parse_forward_chat_id (mv_fr env) (act_get (kr_action r) ''forward_chat_id'') of
        None \<Rightarrow> ([], None, s)
      | Some target \<Rightarrow>
          (let d = Forward r target (as_int_or_none (mv_fr env) (act_get (kr_action r) ''forward_message_thread_id''))
                     (take 3900 (if url = [] then body else body @ newline @ newline @ ''link: '' @ url));
               line = (case mv_send env d of None \<Rightarrow> ''forwarded'' | Some x \<Rightarrow> ''forwarding failed'')
           in ([d], None, append_rule_log r line None (mv_stamp env) s)))"

definition handle_push :: "monitor_env \<Rightarrow> keyword_rule \<Rightarrow> string \<Rightarrow> string \<Rightarrow> string \<Rightarrow> monitor \<Rightarrow> dispatch list \<times> exc option \<times> monitor" where
  "handle_push env r channel body matched s =
     (let d = Push r channel body matched; line = (case mv_send env d of None \<Rightarrow> ''pushed'' | Some x \<Rightarrow> ''push failed'')
      in ([d], None, append_rule_log r line None (mv_stamp env) s))"

definition handle_continue :: "monitor_env \<Rightarrow> keyword_rule \<Rightarrow> (string, string) odict \<Rightarrow> monitor \<Rightarrow> dispatch list \<times> exc option \<times> monitor" where
  "handle_continue env r vars s = (let d = Continue r vars in ([d], mv_send env d, s))"

definition handle_hit ::
  "monitor_env \<Rightarrow> string \<Rightarrow> tg_msg \<Rightarrow> int \<Rightarrow> string \<Rightarrow> nat \<Rightarrow> keyword_rule \<Rightarrow> string list \<Rightarrow> monitor \<Rightarrow> dispatch list \<times> exc option \<times> monitor" where
  "handle_hit env account m chat text i r values s =
     (let channel = push_channel_of (mv_fr env) (kr_action r); body = hit_body env account r m text values chat;
          s1 = append_rule_log r (''keyword hit: '' @ join_with '','' (take 8 values)) (Some True) (mv_stamp env) s;
          s2 = s1\<lparr>km_hits := snd (record_keyword_hit (mv_fr env) (mv_disk env) (mv_uuid env i) (mv_stamp env)
                 (hit_of env account r m text values chat) (km_hits s1))\<rparr>
      in if channel = ''forward'' then handle_forward env r body (message_url m) s2
         else if channel = ''continue'' then handle_continue env r (build_variables account r m text (hd values) chat) s2
         else handle_push env r channel body (hd values) s2)"

fun handle_rules ::
  "monitor_env \<Rightarrow> string \<Rightarrow> tg_msg \<Rightarrow> int \<Rightarrow> string \<Rightarrow> nat \<Rightarrow> keyword_rule list \<Rightarrow> monitor \<Rightarrow> dispatch list \<times> monitor" where
  "handle_rules env account m chat text i [] s = ([], s)"
| "handle_rules env account m chat text i (r # rs) s =
     (case match_all_keyword_values (mv_fr env) (mv_rx env) (kr_action r) text of
        Inl e \<Rightarrow> ([], s)
      | Inr [] \<Rightarrow>
          (case should_log_rule_event r ''keyword_miss'' 60 (mv_clock env) s of
             (b, s1) \<Rightarrow> handle_rules env account m chat text (Suc i) rs
               (if b then append_rule_log r ''no keyword in the message'' (Some True) (mv_stamp env) s1 else s1))
      | Inr (v # vs) \<Rightarrow>
          (case handle_hit env account m chat text i r (v # vs) s of
             (ds, Some e, s1) \<Rightarrow> (ds, s1)
           | (ds, None, s1) \<Rightarrow> (case handle_rules env account m chat text (Suc i) rs s1 of (es, s2) \<Rightarrow> (ds @ es, s2))))"

definition log_mismatch :: "monitor_env \<Rightarrow> keyword_rule \<Rightarrow> monitor \<Rightarrow> monitor" where
  "log_mismatch env r s =
     (if kr_thread_id r = None then s
      else (case should_log_rule_event r ''thread_mismatch'' 45 (mv_clock env) s of
              (b, s1) \<Rightarrow> if b then append_rule_log r ''message in another topic'' (Some True) (mv_stamp env) s1 else s1))"

definition on_message :: "monitor_env \<Rightarrow> string \<Rightarrow> tg_msg \<Rightarrow> monitor \<Rightarrow> dispatch list \<times> monitor" where
  "on_message env account m s =
     (let text = message_text m
      in if text = [] then ([], s)
         else (case ch_id (ms_chat m) of
                 None \<Rightarrow> ([], s)
               | Some chat \<Rightarrow>
                   (case is_seen_message (mv_disk env) (mv_clock env) account chat (ms_id m) s of
                      (True, s1) \<Rightarrow> ([], s1)
                    | (False, s1) \<Rightarrow>
                        (let here = filter (same_chat account chat) (km_rules s1); matched = filter (rule_applies env m) here
                         in if here = [] then ([], s1)
                            else if matched = [] then ([], fold (log_mismatch env) here s1)
                            else handle_rules env account m chat text 0 matched s1))))"

section \<open>Starting and stopping\<close>

definition rules_key :: "keyword_rule list \<Rightarrow> rule_key list" where
  "rules_key rs = map (\<lambda>r. (kr_account r, kr_task r, kr_chat_id r, kr_thread_id r, kr_senders r, kr_action r)) rs"

definition handlers_are_active_for :: "monitor_env \<Rightarrow> keyword_rule list \<Rightarrow> monitor \<Rightarrow> bool" where
  "handlers_are_active_for env rs s =
     (if rs = [] then km_handlers s = []
      else list_all (\<lambda>r. kr_account r \<in> set (filter (mv_connected env) (km_handlers s))) rs)"

definition account_of_key :: "string \<Rightarrow> string" where
  "account_of_key k = takeWhile (\<lambda>c. c \<noteq> CHR '':'') k"

definition prune_inactive_rule_state :: "keyword_rule list \<Rightarrow> monitor \<Rightarrow> monitor" where
  "prune_inactive_rule_state rs s =
     (let known = map rule_id rs; accounts = map (\<lambda>r. py_strip (kr_account r)) rs;
          gone = filter (\<lambda>k. account_of_key k \<notin> set accounts) (map fst (km_seen s)); kept = (\<lambda>k. k \<notin> set gone)
      in s\<lparr>km_logs := filter (\<lambda>(k, v). k \<in> set known) (km_logs s), km_status := filter (\<lambda>(k, v). k \<in> set known) (km_status s),
           km_skip := filter (\<lambda>((a, t, e), v). (a, t) \<in> set known) (km_skip s),
           km_seen := filter (\<lambda>(k, v). kept k) (km_seen s), km_baseline := filter (\<lambda>(k, v). kept k) (km_baseline s),
           km_window := filter (\<lambda>(k, v). kept k) (km_window s), km_dirty := (if gone = [] then km_dirty s else True)\<rparr>)"

definition stop_monitor :: "monitor_env \<Rightarrow> monitor \<Rightarrow> monitor" where
  "stop_monitor env s =
     (let s1 = fold (\<lambda>r. append_rule_log r ''stopped'' (Some False) (mv_stamp env)) (km_rules s) s
      in maybe_persist_seen_state True (mv_disk env) (mv_clock env) (s1\<lparr>km_handlers := [], km_rules := [], km_active_key := None\<rparr>))"

text \<open>\<open>mv_start\<close> tells whether the client of an account can be started.\<close>

definition start_account :: "monitor_env \<Rightarrow> keyword_rule list \<Rightarrow> string \<Rightarrow> monitor \<Rightarrow> monitor" where
  "start_account env rs account s =
     (let ok = mv_start env account; mine = filter (\<lambda>r. kr_account r = account) rs;
          s1 = (if ok then s\<lparr>km_handlers := km_handlers s @ [account]\<rparr> else s)
      in fold (\<lambda>r. append_rule_log r (if ok then ''started'' else ''start failed'') (Some ok) (mv_stamp env)) mine s1)"

definition restart_with_rules :: "monitor_env \<Rightarrow> keyword_rule list \<Rightarrow> monitor \<Rightarrow> monitor" where
  "restart_with_rules env rs s =
     (let s1 = prune_inactive_rule_state rs s
      in if Some (rules_key rs) = km_active_key s1 \<and> handlers_are_active_for env rs s1
         then fold (\<lambda>r t. if look (km_logs t) (rule_id r) [] = [] then append_rule_log r ''running'' (Some True) (mv_stamp env) t else t) rs s1
         else (let s2 = (stop_monitor env s1)\<lparr>km_rules := rs\<rparr>
               in if rs = [] then s2\<lparr>km_active_key := Some (rules_key rs)\<rparr>
                  else (let s3 = load_seen_state (mv_clock env) s2; accounts = sort (remdups (map kr_account rs));
                            s4 = fold (start_account env rs) accounts s3
                        in s4\<lparr>km_active_key := (if list_all (mv_start env) accounts then Some (rules_key rs) else None)\<rparr>)))"

definition restart_from_tasks :: "monitor_env \<Rightarrow> string \<Rightarrow> string \<Rightarrow> monitor_task list \<Rightarrow> monitor \<Rightarrow> exc + monitor" where
  "restart_from_tasks env env_allow env_shard tasks s =
     (case load_rules (mv_fr env) env_allow env_shard tasks of
        Inl e \<Rightarrow> Inl e
      | Inr rs \<Rightarrow> Inr (restart_with_rules env rs s))"

end
