(* ===== verification/Keyword_Monitor_Props.thy ===== *)
theory Keyword_Monitor_Props
  imports Keyword_Monitor "HOL-Library.Sublist"
begin

text \<open>
  What the keyword monitor promises: a message is handled once as long as its window remembers it, an
  orderly restart repeats nothing, what is sent has a rule that applies, and the rules that are loaded
  are safe.
\<close>

section \<open>Keys\<close>

lemma colon_not_in_int: "CHR '':'' \<notin> set (str_int i)"
proof -
  have "CHR '':'' \<notin> set (str_nat n)" for n
    using str_nat_digits [of n] by (auto simp: list_all_iff ascii_digit_def)
  then show ?thesis by (simp add: str_int_def)
qed

lemma str_int_inject [simp]: "str_int i = str_int j \<longleftrightarrow> i = j"
proof -
  have "hd (str_nat n) \<noteq> CHR ''-''" for n
  proof -
    have "str_nat n \<noteq> []" by (subst str_nat.simps) simp
    then show ?thesis using str_nat_digits [of n] by (cases "str_nat n") (auto simp: ascii_digit_def)
  qed
  then have "''-'' @ str_nat m \<noteq> str_nat n" for m n by (metis append_Cons list.sel(1))
  then show ?thesis by (auto simp: str_int_def split: if_splits) (metis append_Cons append_Nil)+
qed

lemma seen_key_inject [simp]: "seen_key a c = seen_key a' c' \<longleftrightarrow> a = a' \<and> c = c'"
proof
  assume k: "seen_key a c = seen_key a' c'"
  have t: "takeWhile (\<lambda>x. x \<noteq> CHR '':'') (rev (seen_key b d)) = rev (str_int d)" for b d
  proof -
    have "takeWhile (\<lambda>x. x \<noteq> CHR '':'') (rev (str_int d) @ CHR '':'' # rev b) = rev (str_int d)"
      using colon_not_in_int [of d] by (subst takeWhile_append2) auto
    then show ?thesis by (simp add: seen_key_def)
  qed
  have "rev (str_int c) = rev (str_int c')" using t [of a c] t [of a' c'] k by simp
  then show "a = a' \<and> c = c'" using k by (simp add: seen_key_def)
qed simp

lemma account_of_seen_key: "CHR '':'' \<notin> set a \<Longrightarrow> account_of_key (seen_key a c) = a"
proof -
  assume "CHR '':'' \<notin> set a"
  then have "takeWhile (\<lambda>x. x \<noteq> CHR '':'') (a @ CHR '':'' # str_int c) = a" by (subst takeWhile_append2) auto
  then show ?thesis by (simp add: account_of_key_def seen_key_def)
qed

section \<open>Trimming a window\<close>

lemma takeWhile_descending:
  fixes xs :: "int list"
  shows "sorted_wrt (>) xs \<Longrightarrow> takeWhile (\<lambda>n. x < n) xs = filter (\<lambda>n. x < n) xs"
proof (induction xs)
  case (Cons y ys)
  show ?case
  proof (cases "x < y")
    case False
    then have "filter (\<lambda>n. x < n) ys = []" using Cons.prems by (auto simp: filter_empty_conv)
    then show ?thesis using False by simp
  qed (use Cons in simp)
qed simp

lemma newest_above:
  fixes w :: "int list"
  assumes "distinct w" and "x \<in> set w \<or> k \<le> card {n \<in> set w. x < n}"
  defines "new \<equiv> take k (rev (sort w))"
  shows "x \<in> set new \<or> k \<le> card {n \<in> set new. x < n}"
proof -
  let ?d = "rev (sort w)"
  have d: "sorted_wrt (>) ?d" using assms(1) by (simp add: sorted_wrt_rev strict_sorted_iff)
  let ?u = "takeWhile (\<lambda>n. x < n) ?d"
  have u: "set ?u = {n \<in> set w. x < n}" unfolding takeWhile_descending [OF d] by auto
  have "distinct ?u" using assms(1) by (intro distinct_takeWhile) simp
  then have len: "length ?u = card {n \<in> set w. x < n}" using u distinct_card by metis
  show ?thesis
  proof (cases "k \<le> length ?u")
    case True
    have "?d = ?u @ dropWhile (\<lambda>n. x < n) ?d" by simp
    then have "new = take k ?u" using True by (metis new_def append_take_drop_id take_append diff_is_0_eq' take0 append_Nil2)
    then have "{n \<in> set new. x < n} = set new" using u by (auto dest: in_set_takeD)
    moreover have "distinct new" "length new = k" using assms(1) True \<open>new = take k ?u\<close> by (auto simp: new_def distinct_take)
    ultimately show ?thesis by (simp add: distinct_card)
  next
    case False
    then have x: "x \<in> set ?d" using assms(2) len by auto
    have "dropWhile (\<lambda>n. x < n) ?d \<noteq> []" using x by (auto simp: dropWhile_eq_Nil_conv)
    then obtain y ys where y: "dropWhile (\<lambda>n. x < n) ?d = y # ys" by (cases "dropWhile (\<lambda>n. x < n) ?d") auto
    have e: "?d = ?u @ y # ys" using y by (metis takeWhile_dropWhile_id)
    have "\<not> x < y" using y by (metis dropWhile_eq_Cons_conv)
    moreover have "x \<in> set (y # ys)" using x e set_takeWhileD by (metis (no_types, lifting) Un_iff less_irrefl set_append)
    moreover have "sorted_wrt (>) (y # ys)" using d e by (metis sorted_wrt_append)
    ultimately have "x = y" by auto
    moreover have "y \<in> set (take k (u @ y # ys))" if "length u < k" for u
      using that by (cases "k - length u") auto
    ultimately have "x \<in> set new" using e False by (metis new_def not_le)
    then show ?thesis ..
  qed
qed

lemma trim_window_keeps:
  assumes "distinct w" and "x \<in> set w \<or> kept_window \<le> card {n \<in> set w. x < n}"
  shows "x \<in> set (trim_window w) \<or> kept_window \<le> card {n \<in> set (trim_window w). x < n}"
  using assms newest_above [OF assms] by (simp add: trim_window_def)

lemma trim_window_sub: "set (trim_window w) \<subseteq> set w" "distinct w \<Longrightarrow> distinct (trim_window w)"
  by (auto simp: trim_window_def dest: in_set_takeD intro: distinct_take)

lemma trim_window_bound: "length (trim_window w) \<le> max_window"
  by (auto simp: trim_window_def kept_window_def max_window_def)

section \<open>Histories of messages\<close>

type_synonym delivery = "monitor_env \<times> string \<times> tg_msg"

text \<open>The fields that remember messages; nothing but the test of a message changes them.\<close>

definition seen_part :: "monitor \<Rightarrow> (string, int) odict \<times> (string, int) odict \<times> (string, int list) odict \<times> bool \<times> pydict option" where
  "seen_part s = (km_seen s, km_baseline s, km_window s, km_dirty s, km_file s)"

text \<open>The chat and id of a message that passes the test.\<close>

definition taken :: "delivery \<Rightarrow> monitor \<Rightarrow> (string \<times> int \<times> int option) list" where
  "taken ev s =
     (case ev of (env, account, m) \<Rightarrow>
       if message_text m = [] then []
       else (case ch_id (ms_chat m) of
               None \<Rightarrow> []
             | Some chat \<Rightarrow> if fst (is_seen_message (mv_disk env) (mv_clock env) account chat (ms_id m) s) then []
                           else [(account, chat, ms_id m)]))"

definition deliver_message :: "delivery \<Rightarrow> monitor \<Rightarrow> monitor" where
  "deliver_message ev s = (case ev of (env, account, m) \<Rightarrow> snd (on_message env account m s))"

fun all_taken :: "delivery list \<Rightarrow> monitor \<Rightarrow> (string \<times> int \<times> int option) list" where
  "all_taken [] s = []"
| "all_taken (ev # evs) s = taken ev s @ all_taken evs (deliver_message ev s)"

lemma seen_part_logs [simp]:
  "seen_part (append_rule_log r line active stamp s) = seen_part s"
  "seen_part (s\<lparr>km_hits := h\<rparr>) = seen_part s"
  "should_log_rule_event r e i now s = (b, s1) \<Longrightarrow> seen_part s1 = seen_part s"
  by (auto simp: seen_part_def append_rule_log_def append_task_log_def should_log_rule_event_def Let_def split: if_splits)

lemma seen_part_mismatch [simp]: "seen_part (log_mismatch env r s) = seen_part s"
  by (auto simp: log_mismatch_def dest: seen_part_logs(3) split: prod.splits)

lemma seen_part_fold:
  assumes "\<And>r s. seen_part (f r s) = seen_part s"
  shows "seen_part (fold f rs s) = seen_part s"
  by (induction rs arbitrary: s) (simp_all add: assms)

lemma seen_part_handle_hit: "seen_part (snd (snd (handle_hit env account m chat text i r vs s))) = seen_part s"
  by (auto simp: handle_hit_def Let_def handle_forward_def handle_continue_def handle_push_def split: option.splits)

lemma seen_part_handle_rules: "seen_part (snd (handle_rules env account m chat text i rs s)) = seen_part s"
proof (induction rs arbitrary: i s)
  case (Cons r rs)
  note IH = Cons.IH
  show ?case
  proof (cases "match_all_keyword_values (mv_fr env) (mv_rx env) (kr_action r) text")
    case (Inr vs)
    note vs = Inr
    show ?thesis
    proof (cases "vs = []")
      case True
      then show ?thesis using vs IH by (auto dest: seen_part_logs(3) split: prod.splits)
    next
      case False
      obtain ds x s1 where h: "handle_hit env account m chat text i r vs s = (ds, x, s1)"
        by (cases "handle_hit env account m chat text i r vs s") auto
      have "seen_part s1 = seen_part s" using seen_part_handle_hit [of env account m chat "text" i r vs s] h by simp
      then show ?thesis using vs False h IH [of "Suc i" s1]
        by (auto split: prod.splits option.splits list.splits)
    qed
  qed simp
qed simp

text \<open>A message that is not taken sends nothing; of the memory it changes what the test does.\<close>

lemma deliver_seen:
  "seen_part (deliver_message (env, account, m) s) =
     (case ch_id (ms_chat m) of
        Some chat \<Rightarrow> if message_text m = [] then seen_part s
                     else seen_part (snd (is_seen_message (mv_disk env) (mv_clock env) account chat (ms_id m) s))
      | None \<Rightarrow> seen_part s)"
proof (cases "message_text m = [] \<or> ch_id (ms_chat m) = None")
  case False
  then obtain chat where c: "ch_id (ms_chat m) = Some chat" "message_text m \<noteq> []" by auto
  obtain b s1 where t: "is_seen_message (mv_disk env) (mv_clock env) account chat (ms_id m) s = (b, s1)"
    by (cases "is_seen_message (mv_disk env) (mv_clock env) account chat (ms_id m) s")
  show ?thesis using c t seen_part_fold [of "log_mismatch env"] seen_part_handle_rules
    by (auto simp: deliver_message_def on_message_def Let_def split: bool.splits)
qed (auto simp: deliver_message_def on_message_def Let_def split: option.splits)

lemma not_taken_silent: "taken (env, account, m) s = [] \<Longrightarrow> fst (on_message env account m s) = []"
  by (auto simp: taken_def on_message_def Let_def split: option.splits if_splits prod.splits bool.splits)

section \<open>The window\<close>

lemma persist_window [simp]:
  "km_window (maybe_persist_seen_state b disk now s) = km_window s"
  "km_baseline (maybe_persist_seen_state b disk now s) = km_baseline s"
  "km_seen (maybe_persist_seen_state b disk now s) = km_seen s"
  by (simp_all add: maybe_persist_seen_state_def persist_seen_state_def)

lemma seen_window:
  assumes "is_seen_message disk now account chat mid s = (b, s1)"
  shows "look (km_window s1) k [] =
    (case mid of None \<Rightarrow> look (km_window s) k []
     | Some m \<Rightarrow> if \<not> b \<and> k = seen_key account chat then trim_window (look (km_window s) k [] @ [m]) else look (km_window s) k [])"
  using assms by (auto simp: is_seen_message_def Let_def split: option.splits if_splits)

lemma not_seen_new:
  "is_seen_message disk now account chat (Some m) s = (False, s1) \<Longrightarrow>
   m \<notin> set (look (km_window s) (seen_key account chat) []) \<and> look (km_baseline s) (seen_key account chat) 0 < m"
  by (auto simp: is_seen_message_def Let_def split: if_splits)

text \<open>What a window of a chat remembers of the messages taken: every one of them, unless it holds \<open>kept_window\<close> newer ones.\<close>

definition remembers :: "string \<Rightarrow> int \<Rightarrow> (string \<times> int \<times> int option) list \<Rightarrow> monitor \<Rightarrow> bool" where
  "remembers a c taken_ids s \<longleftrightarrow>
     (let w = look (km_window s) (seen_key a c) []
      in distinct w \<and> (\<forall>n \<in> set w. (a, c, Some n) \<in> set taken_ids)
         \<and> (\<forall>m. (a, c, Some m) \<in> set taken_ids \<longrightarrow> m \<in> set w \<or> kept_window \<le> card {n \<in> set w. m < n}))"

lemma card_above_Cons: "kept_window \<le> card {n \<in> set w. x < n} \<Longrightarrow> kept_window \<le> card {n \<in> set (w @ [m]). x < n}"
  by (rule order_trans [OF _ card_mono]) auto

lemma remembers_new:
  assumes "remembers a c T s" and "m \<notin> set (look (km_window s) (seen_key a c) [])"
    and "look (km_window s1) (seen_key a c) [] = trim_window (look (km_window s) (seen_key a c) [] @ [m])"
  shows "remembers a c (T @ [(a, c, Some m)]) s1"
proof -
  let ?w = "look (km_window s) (seen_key a c) []"
  have w: "distinct ?w" "\<forall>n \<in> set ?w. (a, c, Some n) \<in> set T"
    and old: "\<And>x. (a, c, Some x) \<in> set T \<Longrightarrow> x \<in> set ?w \<or> kept_window \<le> card {n \<in> set ?w. x < n}"
    using assms(1) by (auto simp: remembers_def Let_def)
  have d: "distinct (?w @ [m])" using w(1) assms(2) by simp
  have "x \<in> set (?w @ [m]) \<or> kept_window \<le> card {n \<in> set (?w @ [m]). x < n}" if "(a, c, Some x) \<in> set (T @ [(a, c, Some m)])" for x
    using that old [of x] card_above_Cons [of ?w x m] by auto
  then have keep: "x \<in> set (trim_window (?w @ [m])) \<or> kept_window \<le> card {n \<in> set (trim_window (?w @ [m])). x < n}"
    if "(a, c, Some x) \<in> set (T @ [(a, c, Some m)])" for x
    using that trim_window_keeps [OF d] by blast
  have "\<forall>n \<in> set (trim_window (?w @ [m])). (a, c, Some n) \<in> set (T @ [(a, c, Some m)])"
    using trim_window_sub(1) [of "?w @ [m]"] w(2) by auto
  then show ?thesis using keep trim_window_sub(2) [OF d] assms(3) by (simp add: remembers_def Let_def)
qed

lemma remembers_other:
  assumes "remembers a c T s" and "look (km_window s1) (seen_key a c) [] = look (km_window s) (seen_key a c) []"
    and "\<And>m. (a, c, Some m) \<notin> set us"
  shows "remembers a c (T @ us) s1"
  using assms by (auto simp: remembers_def Let_def)

lemma deliver_window: "km_window (deliver_message (env, account, m) s) =
    (case ch_id (ms_chat m) of
        Some chat \<Rightarrow> if message_text m = [] then km_window s
                     else km_window (snd (is_seen_message (mv_disk env) (mv_clock env) account chat (ms_id m) s))
      | None \<Rightarrow> km_window s)"
  using deliver_seen [of env account m s] by (auto simp: seen_part_def split: option.splits if_splits)

lemma remembers_deliver:
  assumes "remembers a c T s"
  shows "remembers a c (T @ taken ev s) (deliver_message ev s)"
proof -
  obtain env account m where ev: "ev = (env, account, m)" by (cases ev)
  show ?thesis
  proof (cases "message_text m = [] \<or> ch_id (ms_chat m) = None")
    case True
    then show ?thesis using assms by (auto simp: ev taken_def remembers_def Let_def deliver_window split: option.splits)
  next
    case False
    then obtain chat where c: "ch_id (ms_chat m) = Some chat" and t: "message_text m \<noteq> []" by auto
    obtain b s1 where s1: "is_seen_message (mv_disk env) (mv_clock env) account chat (ms_id m) s = (b, s1)"
      by (cases "is_seen_message (mv_disk env) (mv_clock env) account chat (ms_id m) s")
    have tk: "taken ev s = (if b then [] else [(account, chat, ms_id m)])" using c t s1 by (simp add: ev taken_def)
    have w: "look (km_window (deliver_message ev s)) k [] = look (km_window s1) k []" for k using c t s1 by (simp add: ev deliver_window)
    show ?thesis
    proof (cases "\<not> b \<and> account = a \<and> chat = c \<and> ms_id m \<noteq> None")
      case True
      then obtain n where n: "ms_id m = Some n" "account = a" "chat = c" "\<not> b" by auto
      then have s1': "is_seen_message (mv_disk env) (mv_clock env) a c (Some n) s = (False, s1)" using s1 by simp
      have "look (km_window (deliver_message ev s)) (seen_key a c) [] = trim_window (look (km_window s) (seen_key a c) [] @ [n])"
        using w seen_window [OF s1', of "seen_key a c"] by simp
      then show ?thesis using remembers_new [OF assms] not_seen_new [OF s1'] tk n by simp
    next
      case False
      then have "look (km_window (deliver_message ev s)) (seen_key a c) [] = look (km_window s) (seen_key a c) []"
        using w seen_window [OF s1, of "seen_key a c"] by (auto split: option.splits)
      moreover have "(a, c, Some x) \<notin> set (taken ev s)" for x using False tk by auto
      ultimately show ?thesis using remembers_other [OF assms] by blast
    qed
  qed
qed

lemma remembers_run: "remembers a c T s \<Longrightarrow> remembers a c (T @ all_taken evs s) (fold deliver_message evs s)"
proof (induction evs arbitrary: T s)
  case (Cons ev evs)
  then show ?case using Cons.IH [OF remembers_deliver [OF Cons.prems, of ev]] by simp
qed simp

lemma taken_cases: "taken ev s = [] \<or> (\<exists>x. taken ev s = [x])"
  by (auto simp: taken_def split: prod.splits option.splits)

lemma all_taken_split:
  "all_taken evs s = us @ x # vs \<Longrightarrow> \<exists>before ev later. evs = before @ ev # later \<and> all_taken before s = us \<and> taken ev (fold deliver_message before s) = [x]"
proof (induction evs arbitrary: s us)
  case (Cons ev evs)
  show ?case
  proof (cases "taken ev s = [] \<or> us \<noteq> []")
    case True
    then obtain us' where us: "us = taken ev s @ us'" "all_taken evs (deliver_message ev s) = us' @ x # vs"
      using Cons.prems taken_cases [of ev s] by (cases us) auto
    from Cons.IH [OF us(2)] obtain before e later where b: "evs = before @ e # later" "all_taken before (deliver_message ev s) = us'"
      "taken e (fold deliver_message before (deliver_message ev s)) = [x]" by blast
    then show ?thesis using us(1) by (intro exI [of _ "ev # before"] exI [of _ e] exI [of _ later]) simp
  next
    case False
    then have "taken ev s = [x]" using Cons.prems taken_cases [of ev s] by auto
    then show ?thesis using False by (intro exI [of _ "[]"] exI [of _ ev] exI [of _ evs]) simp
  qed
qed simp

lemma taken_new:
  assumes "taken ev s = [(a, c, Some m)]"
  shows "m \<notin> set (look (km_window s) (seen_key a c) []) \<and> look (km_baseline s) (seen_key a c) 0 < m"
proof -
  obtain env account msg where ev: "ev = (env, account, msg)" by (cases ev)
  have "\<not> fst (is_seen_message (mv_disk env) (mv_clock env) a c (Some m) s)"
    using assms by (auto simp: ev taken_def split: option.splits if_splits)
  then show ?thesis using not_seen_new by (metis (full_types) prod.collapse)
qed

section \<open>The memory across restarts\<close>

text \<open>The ids of the messages seen are positive and not below the baseline, and what is not dirty is on the disk.\<close>

definition seen_ok :: "monitor \<Rightarrow> bool" where
  "seen_ok s \<longleftrightarrow> (\<forall>e \<in> set (km_seen s). 0 < snd e) \<and> (\<forall>k. 0 \<le> look (km_baseline s) k 0 \<and> look (km_baseline s) k 0 \<le> look (km_seen s) k 0)
     \<and> (\<not> km_dirty s \<longrightarrow> stored_seen (km_file s) = km_seen s)"

definition covers :: "(string \<times> int \<times> int option) list \<Rightarrow> monitor \<Rightarrow> bool" where
  "covers T s \<longleftrightarrow> (\<forall>a c m. (a, c, Some m) \<in> set T \<longrightarrow> m \<le> look (km_seen s) (seen_key a c) 0)"

lemma stored_seen_positive: "e \<in> set (stored_seen file) \<Longrightarrow> 0 < snd e"
  by (auto simp: stored_seen_def map_filter_def split: py.splits if_splits)

lemma look_positive: "\<forall>e \<in> set d. (0::int) < snd e \<Longrightarrow> 0 \<le> look d k 0"
  by (auto simp: look_def split: option.splits dest!: map_of_SomeD)

lemma stored_seen_written: "\<forall>e \<in> set d. 0 < snd e \<Longrightarrow> stored_seen (Some (map (\<lambda>(k, n). (k, PInt n)) d)) = d"
  by (induction d) (auto simp: stored_seen_def map_filter_simps)

lemma seen_ok_load: "seen_ok (load_seen_state now s)"
  using look_positive [of "stored_seen (km_file s)"] stored_seen_positive by (auto simp: seen_ok_def load_seen_state_def Let_def)

lemma seen_ok_persist:
  "seen_ok s \<Longrightarrow> seen_ok (maybe_persist_seen_state b disk now s)"
  using stored_seen_written [of "km_seen s"] by (auto simp: seen_ok_def maybe_persist_seen_state_def persist_seen_state_def)

lemma seen_ok_new:
  assumes "seen_ok s" and "look (km_seen s) k 0 < m"
  shows "seen_ok (s\<lparr>km_window := w, km_seen := AList.update k m (km_seen s), km_dirty := True\<rparr>)"
proof -
  have "0 \<le> look (km_seen s) k 0" using assms(1) by (intro look_positive) (simp add: seen_ok_def)
  then have "0 < m" using assms(2) by simp
  moreover have b: "0 \<le> look (km_baseline s) j 0" "look (km_baseline s) j 0 \<le> look (km_seen s) j 0" for j
    using assms(1) by (simp_all add: seen_ok_def)
  moreover have "look (km_baseline s) k 0 \<le> m" using b(2) [of k] assms(2) by linarith
  ultimately show ?thesis using assms(1) set_update_subset [of k m "km_seen s"] by (auto simp: seen_ok_def)
qed

lemma seen_ok_window: "seen_ok (s\<lparr>km_window := w\<rparr>) = seen_ok s"
  by (simp add: seen_ok_def)

lemma seen_of_window: "km_seen (s\<lparr>km_window := w\<rparr>) = km_seen s"
  by simp

lemma test_keeps:
  assumes "is_seen_message disk now account chat mid s = (b, s1)" and "seen_ok s" and "covers T s"
  shows "seen_ok s1 \<and> covers (T @ (if b then [] else [(account, chat, mid)])) s1"
proof (cases "b \<or> mid = None")
  case True
  then show ?thesis using assms by (auto simp: is_seen_message_def Let_def seen_ok_def covers_def split: option.splits if_splits)
next
  case False
  then obtain m where m: "mid = Some m" "\<not> b" by auto
  let ?k = "seen_key account chat"
  show ?thesis
  proof (cases "look (km_seen s) ?k 0 < m")
    case True
    let ?s2 = "s\<lparr>km_window := AList.update ?k (trim_window (look (km_window s) ?k [] @ [m])) (km_window s),
        km_seen := AList.update ?k m (km_seen s), km_dirty := True\<rparr>"
    have s1: "s1 = maybe_persist_seen_state False disk now ?s2"
      using assms(1) m True by (auto simp: is_seen_message_def Let_def split: if_splits)
    have "seen_ok s1" unfolding s1 by (intro seen_ok_persist seen_ok_new assms(2) True)
    moreover have "x \<le> look (km_seen s1) (seen_key a c) 0" if "(a, c, Some x) \<in> set (T @ [(account, chat, Some m)])" for a c x
    proof (cases "a = account \<and> c = chat")
      case True
      then have "look (km_seen s1) (seen_key a c) 0 = m" by (simp add: s1)
      moreover have "x \<le> m"
      proof (cases "x = m")
        case False
        then have "x \<le> look (km_seen s) ?k 0" using that True assms(3) by (auto simp: covers_def)
        then show ?thesis using \<open>look (km_seen s) ?k 0 < m\<close> by linarith
      qed simp
      ultimately show ?thesis by simp
    qed (use that assms(3) in \<open>auto simp: s1 covers_def\<close>)
    ultimately show ?thesis using m by (auto simp: covers_def)
  next
    case False
    then have "s1 = s\<lparr>km_window := km_window s1\<rparr>"
      using assms(1) m by (auto simp: is_seen_message_def Let_def split: if_splits)
    then have "seen_ok s1 = seen_ok s" "km_seen s1 = km_seen s" by (metis seen_ok_window, metis seen_of_window)
    moreover have "x \<le> look (km_seen s) (seen_key a c) 0" if "(a, c, Some x) \<in> set (T @ [(account, chat, Some m)])" for a c x
      using that assms(3) False by (auto simp: covers_def)
    ultimately show ?thesis using assms(2) m by (auto simp: covers_def)
  qed
qed

lemma seen_part_ok: "seen_part s = seen_part s' \<Longrightarrow> seen_ok s \<and> covers T s \<longleftrightarrow> seen_ok s' \<and> covers T s'"
  by (simp add: seen_part_def seen_ok_def covers_def)

lemma deliver_keeps:
  assumes "seen_ok s" and "covers T s"
  shows "seen_ok (deliver_message ev s) \<and> covers (T @ taken ev s) (deliver_message ev s)"
proof -
  obtain env account m where ev: "ev = (env, account, m)" by (cases ev)
  show ?thesis
  proof (cases "message_text m = [] \<or> ch_id (ms_chat m) = None")
    case True
    then have "seen_part (deliver_message ev s) = seen_part s" "taken ev s = []"
      by (auto simp: ev taken_def deliver_seen split: option.splits)
    then show ?thesis using assms seen_part_ok [of "deliver_message ev s" s T] by simp
  next
    case False
    then obtain chat where c: "ch_id (ms_chat m) = Some chat" and t: "message_text m \<noteq> []" by auto
    obtain b s1 where s1: "is_seen_message (mv_disk env) (mv_clock env) account chat (ms_id m) s = (b, s1)"
      by (cases "is_seen_message (mv_disk env) (mv_clock env) account chat (ms_id m) s")
    have "taken ev s = (if b then [] else [(account, chat, ms_id m)])" using c t s1 by (simp add: ev taken_def)
    moreover have "seen_part (deliver_message ev s) = seen_part s1" using c t s1 by (simp add: ev deliver_seen)
    ultimately show ?thesis using test_keeps [OF s1 assms] seen_part_ok [of "deliver_message ev s" s1 "T @ taken ev s"] by simp
  qed
qed

lemma run_keeps: "seen_ok s \<Longrightarrow> covers T s \<Longrightarrow> seen_ok (fold deliver_message evs s) \<and> covers (T @ all_taken evs s) (fold deliver_message evs s)"
proof (induction evs arbitrary: T s)
  case (Cons ev evs)
  then show ?case using deliver_keeps [OF Cons.prems, of ev] Cons.IH [of "deliver_message ev s" "T @ taken ev s"] by simp
qed simp

lemma look_filter: "P k \<Longrightarrow> look (filter (\<lambda>(k, v). P k) d) k z = look d k z"
proof -
  assume "P k"
  then have "map_of (filter (\<lambda>(k, v). P k) d) k = map_of d k" by (induction d) auto
  then show ?thesis by (simp add: look_def)
qed

lemma prune_keeps:
  assumes "account_of_key k \<in> set (map (\<lambda>r. py_strip (kr_account r)) rs)"
  shows "look (km_seen (prune_inactive_rule_state rs s)) k 0 = look (km_seen s) k 0"
proof -
  define gone where "gone = filter (\<lambda>k. account_of_key k \<notin> set (map (\<lambda>r. py_strip (kr_account r)) rs)) (map fst (km_seen s))"
  have "km_seen (prune_inactive_rule_state rs s) = filter (\<lambda>(k, v). k \<notin> set gone) (km_seen s)"
    by (simp add: prune_inactive_rule_state_def Let_def gone_def)
  moreover have "k \<notin> set gone" using assms by (simp add: gone_def)
  ultimately show ?thesis by (simp add: look_filter [where P = "\<lambda>k. k \<notin> set gone"])
qed

lemma seen_part_start [simp]: "seen_part (start_account env rs account s) = seen_part s"
proof -
  have h: "seen_part (s\<lparr>km_handlers := h\<rparr>) = seen_part s" for h by (simp add: seen_part_def)
  show ?thesis unfolding start_account_def Let_def
    by (subst seen_part_fold) (simp_all add: h)
qed

text \<open>Unless nothing has changed, a restart ends with what is on the disk as its baseline.\<close>

lemma restart_baseline:
  assumes "rs \<noteq> []" and "\<not> (Some (rules_key rs) = km_active_key s \<and> handlers_are_active_for env rs s)"
    and "seen_ok s" and "mv_disk env"
  shows "km_baseline (restart_with_rules env rs s) = km_seen (prune_inactive_rule_state rs s)"
proof -
  let ?p = "prune_inactive_rule_state rs s"
  have early: "\<not> (Some (rules_key rs) = km_active_key ?p \<and> handlers_are_active_for env rs ?p)"
  proof -
    have "km_active_key ?p = km_active_key s" "handlers_are_active_for env rs ?p = handlers_are_active_for env rs s"
      by (simp_all add: prune_inactive_rule_state_def Let_def handlers_are_active_for_def)
    then show ?thesis using assms(2) by simp
  qed
  have pos: "\<forall>e \<in> set (km_seen ?p). 0 < snd e" using assms(3) by (auto simp: prune_inactive_rule_state_def Let_def seen_ok_def)
  have clean: "\<not> km_dirty ?p \<Longrightarrow> stored_seen (km_file ?p) = km_seen ?p"
  proof -
    assume nd: "\<not> km_dirty ?p"
    let ?gone = "filter (\<lambda>k. account_of_key k \<notin> set (map (\<lambda>r. py_strip (kr_account r)) rs)) (map fst (km_seen s))"
    have g: "?gone = []" and d: "\<not> km_dirty s" using nd by (auto simp: prune_inactive_rule_state_def Let_def split: if_splits)
    have "km_seen ?p = km_seen s" "km_file ?p = km_file s"
      unfolding prune_inactive_rule_state_def Let_def g by simp_all
    then show ?thesis using assms(3) d by (simp add: seen_ok_def)
  qed
  define t where "t = (fold (\<lambda>r. append_rule_log r ''stopped'' (Some False) (mv_stamp env)) (km_rules ?p) ?p)
      \<lparr>km_handlers := [], km_rules := [], km_active_key := None\<rparr>"
  have "seen_part t = seen_part ?p" unfolding t_def using seen_part_fold [of "\<lambda>r. append_rule_log r ''stopped'' (Some False) (mv_stamp env)", OF seen_part_logs(1), of "km_rules ?p" ?p]
    by (simp add: seen_part_def)
  then have p: "km_seen t = km_seen ?p" "km_dirty t = km_dirty ?p" "km_file t = km_file ?p" by (simp_all add: seen_part_def)
  have "stored_seen (km_file (maybe_persist_seen_state True (mv_disk env) (mv_clock env) t)) = km_seen ?p"
    using p clean stored_seen_written [OF pos] assms(4) by (simp add: maybe_persist_seen_state_def persist_seen_state_def)
  then have "stored_seen (km_file (stop_monitor env ?p)) = km_seen ?p" by (simp add: stop_monitor_def t_def Let_def)
  then have l: "km_baseline (load_seen_state (mv_clock env) ((stop_monitor env ?p)\<lparr>km_rules := rs\<rparr>)) = km_seen ?p"
    by (simp add: load_seen_state_def Let_def)
  have f: "km_baseline (fold (start_account env rs) as u) = km_baseline u" for as u
    using seen_part_fold [of "start_account env rs", OF seen_part_start, of as u] by (simp add: seen_part_def)
  show ?thesis unfolding restart_with_rules_def Let_def by (subst if_not_P [OF early]) (use assms(1) l f in simp)
qed

section \<open>What is sent\<close>

definition dispatch_rule :: "dispatch \<Rightarrow> keyword_rule" where
  "dispatch_rule d = (case d of Forward r t i b \<Rightarrow> r | Continue r vs \<Rightarrow> r | Push r c b k \<Rightarrow> r)"

definition has_keyword :: "monitor_env \<Rightarrow> string \<Rightarrow> keyword_rule \<Rightarrow> bool" where
  "has_keyword env text r \<longleftrightarrow> (case match_all_keyword_values (mv_fr env) (mv_rx env) (kr_action r) text of Inl e \<Rightarrow> False | Inr vs \<Rightarrow> vs \<noteq> [])"

lemma handle_hit_rules:
  "handle_hit env account m chat text i r vs s = (ds, x, s1) \<Longrightarrow> ds = [] \<or> (\<exists>d. ds = [d] \<and> dispatch_rule d = r)"
  by (auto simp: handle_hit_def Let_def handle_forward_def handle_continue_def handle_push_def dispatch_rule_def split: if_splits option.splits)

lemma handle_rules_rules:
  "subseq (map dispatch_rule (fst (handle_rules env account m chat text i rs s))) (filter (has_keyword env text) rs)"
proof (induction rs arbitrary: i s)
  case (Cons r rs)
  note IH = Cons.IH
  show ?case
  proof (cases "match_all_keyword_values (mv_fr env) (mv_rx env) (kr_action r) text")
    case (Inr vs)
    note vs = Inr
    show ?thesis
    proof (cases "vs = []")
      case True
      then show ?thesis using vs IH by (auto simp: has_keyword_def split: prod.splits)
    next
      case False
      obtain ds x s1 where h: "handle_hit env account m chat text i r vs s = (ds, x, s1)"
        by (cases "handle_hit env account m chat text i r vs s") auto
      have d: "ds = [] \<or> (\<exists>d. ds = [d] \<and> dispatch_rule d = r)" by (rule handle_hit_rules [OF h])
      have k: "has_keyword env text r" using vs False by (simp add: has_keyword_def)
      obtain es s2 where e: "handle_rules env account m chat text (Suc i) rs s1 = (es, s2)"
        by (cases "handle_rules env account m chat text (Suc i) rs s1")
      have "subseq (map dispatch_rule es) (filter (has_keyword env text) rs)" using IH [of "Suc i" s1] e by simp
      moreover have "fst (handle_rules env account m chat text i (r # rs) s) = (if x = None then ds @ es else ds)"
        using vs False h e by (auto split: list.splits option.splits)
      ultimately show ?thesis using d k by (auto intro: list_emb_Nil)
    qed
  qed (simp add: has_keyword_def)
qed simp

section \<open>Loading\<close>

lemma collect_rules_in:
  "collect_rules f xs = Inr ys \<Longrightarrow> y \<in> set ys \<Longrightarrow> \<exists>x \<in> set xs. \<exists>zs. f x = Inr zs \<and> y \<in> set zs"
  by (induction xs arbitrary: ys) (auto split: sum.splits)

lemma action_rule_safe:
  assumes "action_rule fr account task chat c a = Inr (Some r)"
  shows "kr_account r = account \<and> kr_task r = task \<and> kr_action r = a \<and>
    (\<exists>mode. match_mode a = Inr mode \<and> keywords_of fr a mode \<noteq> [] \<and> (mode = ''regex'' \<longrightarrow> \<not> list_ex is_unsafe_keyword_regex (keywords_of fr a mode)))"
proof -
  have "a \<noteq> []" using assms by (auto simp: action_rule_def act_get_def look_def py_int_def split: if_splits)
  then show ?thesis using assms
    by (auto simp: action_rule_def rule_of_action_def action_has_unsafe_keyword_regex_def split: if_splits sum.splits)
qed

section \<open>Properties\<close>

text \<open>
  C21: A message is handled once as long as it is not old: when a run of the monitor takes the same message of a
  chat a second time, delivered again or edited, then at least \<open>kept_window\<close> newer messages of that
  chat were taken before, however the messages of accounts and chats interleave.
\<close>

theorem redelivery_only_of_old:
  assumes "all_taken evs s = xs @ (a, c, Some m) # ys @ (a, c, Some m) # zs" and "distinct (look (km_window s) (seen_key a c) [])"
  shows "kept_window \<le> card {n. m < n \<and> (n \<in> set (look (km_window s) (seen_key a c) []) \<or> (a, c, Some n) \<in> set (xs @ (a, c, Some m) # ys))}"
proof -
  let ?T = "xs @ (a, c, Some m) # ys" and ?W = "map (\<lambda>n. (a, c, Some n)) (look (km_window s) (seen_key a c) [])"
  let ?N = "{n. m < n \<and> (n \<in> set (look (km_window s) (seen_key a c) []) \<or> (a, c, Some n) \<in> set ?T)}"
  have "all_taken evs s = ?T @ (a, c, Some m) # zs" using assms(1) by simp
  from all_taken_split [OF this] obtain before ev where
    b: "all_taken before s = ?T" "taken ev (fold deliver_message before s) = [(a, c, Some m)]" by blast
  let ?s = "fold deliver_message before s" and ?w = "look (km_window (fold deliver_message before s)) (seen_key a c) []"
  have "remembers a c ?W s" using assms(2) by (auto simp: remembers_def Let_def)
  from remembers_run [OF this, of before] have r: "remembers a c (?W @ ?T) ?s" by (simp add: b(1))
  then have "m \<in> set ?w \<or> kept_window \<le> card {n \<in> set ?w. m < n}" by (auto simp: remembers_def Let_def)
  then have k: "kept_window \<le> card {n \<in> set ?w. m < n}" using taken_new [OF b(2)] by blast
  have "?N \<subseteq> (\<lambda>(a, c, i). the i) ` set (?W @ ?T)" by (auto simp: image_iff) force+
  then have "finite ?N" by (rule finite_subset) simp
  moreover have "{n \<in> set ?w. m < n} \<subseteq> ?N" using r by (auto simp: remembers_def Let_def)
  ultimately show ?thesis using k card_mono order_trans by meson
qed

definition calm_env :: monitor_env where
  "calm_env = \<lparr>mv_fr = (\<lambda>v. []), mv_rx = (\<lambda>i p t. []), mv_zone = (\<lambda>z. None), mv_panel_tz = [], mv_instant = 0, mv_clock = 100,
     mv_stamp = ''now'', mv_uuid = (\<lambda>i. ''h''), mv_disk = True, mv_send = (\<lambda>d. None), mv_start = (\<lambda>a. True), mv_connected = (\<lambda>a. True)\<rparr>"

definition chat_msg :: "int \<Rightarrow> string \<Rightarrow> tg_msg" where
  "chat_msg i body = \<lparr>ms_id = Some i, ms_text = Some body, ms_caption = None, ms_link = None,
     ms_chat = \<lparr>ch_id = Some (- 100), ch_title = Some ''news'', ch_username = None\<rparr>,
     ms_from = Some \<lparr>us_id = 9, us_username = Some ''Bob'', us_first_name = None, us_last_name = None, us_is_self = False\<rparr>,
     ms_thread_id = None, ms_direct_topic_id = None, ms_reply_top_id = None, ms_reply_id = None, ms_topic_id = None\<rparr>"

definition full_window :: monitor where
  "full_window = (new_monitor None \<lparr>hs_records = [], hs_loaded = False, hs_file = []\<rparr>)
     \<lparr>km_window := [(seen_key ''alice'' (- 100), map int [2..<301])]\<rparr>"

lemma redelivery_only_of_old_witness:
  "kept_window \<le> card {n. 1 < n \<and> (n \<in> set (look (km_window full_window) (seen_key ''alice'' (- 100)) [])
     \<or> (''alice'', - 100, Some n) \<in> set ([] @ (''alice'', - 100 :: int, Some 1) # [(''alice'', - 100, Some 301)]))}"
proof (rule redelivery_only_of_old)
  show "all_taken (map (\<lambda>i. (calm_env, ''alice'', chat_msg i ''a'')) [1, 301, 1]) full_window
      = [] @ (''alice'', - 100, Some 1) # [(''alice'', - 100, Some 301)] @ (''alice'', - 100, Some 1) # []" by code_simp
  show "distinct (look (km_window full_window) (seen_key ''alice'' (- 100)) [])"
    by (simp add: full_window_def look_def distinct_map)
qed



text \<open>
  The rules that are loaded are safe to run: each comes from an enabled task of an account this process
  listens for, has keywords, and none of its regular expressions is one the test calls dangerous.
\<close>

theorem loaded_rules_safe:
  assumes "load_rules fr env_allow env_shard tasks = Inr rs" and "r \<in> set rs"
  shows "(\<exists>t \<in> set tasks. py_truthy (mt_enabled t) \<and> kr_account r = py_strip (str_or_blank fr (mt_account t)))
    \<and> account_in_monitor_scope env_allow env_shard (kr_account r) None None
    \<and> (\<exists>mode. match_mode (kr_action r) = Inr mode \<and> keywords_of fr (kr_action r) mode \<noteq> []
        \<and> (mode = ''regex'' \<longrightarrow> \<not> list_ex is_unsafe_keyword_regex (keywords_of fr (kr_action r) mode)))"
proof -
  obtain t us where t: "t \<in> set tasks" "task_rules fr env_allow env_shard t = Inr us" "r \<in> set us"
    using collect_rules_in assms unfolding load_rules_def by metis
  let ?a = "py_strip (str_or_blank fr (mt_account t))" and ?n = "py_strip (str_or_blank fr (mt_name t))"
  have en: "py_truthy (mt_enabled t)" and sc: "account_in_monitor_scope env_allow env_shard ?a None None"
    and cs: "collect_rules (chat_rules fr ?a ?n) (mt_chats t) = Inr us"
    using t(2,3) by (auto simp: task_rules_def Let_def split: if_splits)
  obtain c vs where "chat_rules fr ?a ?n c = Inr vs" "r \<in> set vs" using collect_rules_in [OF cs t(3)] by blast
  then obtain chat where "collect_rules (\<lambda>a. case action_rule fr ?a ?n chat c a of Inl e \<Rightarrow> Inl e | Inr None \<Rightarrow> Inr [] | Inr (Some r) \<Rightarrow> Inr [r]) (mc_actions c) = Inr vs" "r \<in> set vs"
    by (auto simp: chat_rules_def split: option.splits)
  from collect_rules_in [OF this] obtain a zs where
    a: "(case action_rule fr ?a ?n chat c a of Inl e \<Rightarrow> Inl e | Inr None \<Rightarrow> Inr [] | Inr (Some r) \<Rightarrow> Inr [r]) = Inr zs" "r \<in> set zs" by blast
  then have "action_rule fr ?a ?n chat c a = Inr (Some r)" by (auto split: sum.splits option.splits)
  from action_rule_safe [OF this] show ?thesis using t(1) en sc by auto
qed

section \<open>Witnesses\<close>

definition sale_action :: pydict where
  "sale_action = [(''action'', PInt 8), (''keywords'', PStr ''sale, offer''), (''active_time_start'', PStr ''23:00''), (''active_time_end'', PStr ''2:00'')]"

definition sale_rule :: keyword_rule where
  "sale_rule = \<lparr>kr_account = ''alice'', kr_task = ''watch'', kr_chat_id = - 100, kr_chat_name = ''news'', kr_thread_id = None,
     kr_senders = Some [''bob''], kr_action = sale_action\<rparr>"

definition quiet_monitor :: monitor where
  "quiet_monitor = new_monitor None \<lparr>hs_records = [], hs_loaded = False, hs_file = []\<rparr>"



lemma loaded_rules_safe_witness:
  "\<exists>rs. load_rules (\<lambda>v. []) [] [] [\<lparr>mt_account = PStr ''alice'', mt_name = PStr ''watch'', mt_enabled = PBool True,
      mt_chats = [\<lparr>mc_chat_id = PInt (- 100), mc_name = PNone, mc_thread_id = PNone, mc_sender_filter = PNone, mc_actions =
        [sale_action, [(''action'', PInt 8), (''keywords'', PStr ''(a+)+''), (''match_mode'', PStr ''regex'')]]\<rparr>]\<rparr>] = Inr rs
    \<and> length rs = 1 \<and> (\<forall>r \<in> set rs. account_in_monitor_scope [] [] (kr_account r) None None)"
proof -
  let ?l = "load_rules (\<lambda>v. []) [] [] [\<lparr>mt_account = PStr ''alice'', mt_name = PStr ''watch'', mt_enabled = PBool True,
      mt_chats = [\<lparr>mc_chat_id = PInt (- 100), mc_name = PNone, mc_thread_id = PNone, mc_sender_filter = PNone, mc_actions =
        [sale_action, [(''action'', PInt 8), (''keywords'', PStr ''(a+)+''), (''match_mode'', PStr ''regex'')]]\<rparr>]\<rparr>]"
  have "case ?l of Inl e \<Rightarrow> False | Inr rs \<Rightarrow> length rs = 1" by code_simp
  then obtain rs where "?l = Inr rs" "length rs = 1" by (cases ?l) auto
  then show ?thesis using loaded_rules_safe [of "\<lambda>v. []" "[]" "[]"] by blast
qed

section \<open>Corners\<close>

text \<open>An edited message has the id of the original, so that once that was looked at, the edit never is,
  although there is a handler for edits.\<close>

lemma edit_never_matches:
  "fst (on_message calm_env ''alice'' (chat_msg 5 ''a sale'') (deliver_message (calm_env, ''alice'', chat_msg 5 ''nothing'')
     (quiet_monitor\<lparr>km_rules := [sale_rule]\<rparr>))) = []"
proof -
  have "length (fst (on_message calm_env ''alice'' (chat_msg 5 ''a sale'') (deliver_message (calm_env, ''alice'', chat_msg 5 ''nothing'')
     (quiet_monitor\<lparr>km_rules := [sale_rule]\<rparr>)))) = 0" by code_simp
  then show ?thesis by simp
qed

text \<open>The key of a chat is cut at the first colon when the memory is pruned, so an account with a colon in
  its name forgets at every restart.\<close>

lemma colon_account_forgotten:
  "fst (is_seen_message True 5 ''a:b'' (- 100) (Some 5)
     (restart_with_rules calm_env [sale_rule\<lparr>kr_account := ''a:b''\<rparr>]
       (fold deliver_message [(calm_env, ''a:b'', chat_msg 5 ''a'')] (load_seen_state 0 quiet_monitor)))) = False"
  by code_simp

text \<open>The names of a list of senders keep their at sign, the names of a text lose it.\<close>

lemma at_sign_in_list:
  "parse_sender_filter fr (PList [PStr ''@bob'']) = Some [''@bob'']" "parse_sender_filter fr (PStr ''@bob'') = Some [''bob'']"
  by (simp_all add: parse_sender_filter_def stripped_items_def py_str_def py_strip_def py_space_def py_lower_def Let_def
      comma_or_newline_def lstrip_chars_def)

text \<open>A repetition of a repeated group passes the test.\<close>

lemma nested_star_missed: "\<not> is_unsafe_keyword_regex ''^((a)*)*$''"
  by code_simp

end
