(* ===== verification/Telegram_Calls.thy ===== *)
theory Telegram_Calls
  imports Py_Text
begin

text \<open>
  Calls to Telegram and their retries: \<^verbatim>\<open>call_with_retry\<close> and the verdict on a session of
  \<^verbatim>\<open>tg_signer/compat.py\<close>, \<^verbatim>\<open>compute_backoff\<close> of \<^verbatim>\<open>tg_signer/async_utils.py\<close>, and
  \<^verbatim>\<open>_ensure_client_ready\<close> of the keyword monitor. The client library and the random numbers are
  functions of a world; the class of an exception, as far as the code asks for it, is the constructor
  of \<open>tg_error\<close>. Logs are left out, and so is the cancellation of a call.
\<close>

section \<open>Errors of a call\<close>

datatype tg_error =
    Flood "int option" exc
  | Disconnected exc
  | Unreachable exc
  | Failure exc

definition error_exc :: "tg_error \<Rightarrow> exc" where
  "error_exc e = (case e of Flood v x \<Rightarrow> x | Disconnected x \<Rightarrow> x | Unreachable x \<Rightarrow> x | Failure x \<Rightarrow> x)"

text \<open>What a flood asks to wait: the value of the exception, where it has one that is not zero.\<close>

definition flood_seconds :: "int option \<Rightarrow> int" where
  "flood_seconds v = (let n = (case v of None \<Rightarrow> 1 | Some k \<Rightarrow> if k = 0 then 1 else k) in max n 1)"

definition session_invalid_markers :: "string list" where
  "session_invalid_markers =
     [''UNAUTHORIZED'', ''AUTH_KEY_UNREGISTERED'', ''AUTH_KEY_INVALID'', ''SESSION_REVOKED'', ''SESSION_EXPIRED'', ''USER_DEACTIVATED'']"

definition is_session_invalid_error :: "exc option \<Rightarrow> bool" where
  "is_session_invalid_error err =
     (case err of None \<Rightarrow> False
      | Some e \<Rightarrow> ex_message e \<noteq> [] \<and> (\<exists>k \<in> set session_invalid_markers. py_contains k (py_upper (ex_message e))))"

definition session_check_failure :: "exc \<Rightarrow> exc" where
  "session_check_failure e =
     (if is_session_invalid_error (Some e) then exc_of ''ConnectionError'' (''Session invalid: '' @ ex_message e)
      else exc_of ''ConnectionError'' (''Session check failed ('' @ ex_class e @ ''): '' @ ex_message e))"

definition is_callback_data_invalid :: "exc \<Rightarrow> bool" where
  "is_callback_data_invalid e =
     (py_contains ''data_invalid'' (py_lower (ex_message e)) \<or> py_contains ''encrypted data is invalid'' (py_lower (ex_message e)))"

section \<open>The wait before a retry\<close>

definition round_even :: "real \<Rightarrow> int" where
  "round_even x =
     (let f = \<lfloor>x\<rfloor>; d = x - of_int f
      in if d < 1 / 2 then f else if d > 1 / 2 then f + 1 else if even f then f else f + 1)"

definition round_cents :: "real \<Rightarrow> real" where
  "round_cents x = of_int (round_even (x * 100)) / 100"

definition backoff_base :: "int \<Rightarrow> real \<Rightarrow> nat \<Rightarrow> real" where
  "backoff_base attempt cap shift = min (2 ^ (nat (max attempt 1 - 1) + shift)) cap"

text \<open>The wait with a random factor, and the one without.\<close>

definition compute_backoff :: "int \<Rightarrow> real \<Rightarrow> nat \<Rightarrow> real option \<Rightarrow> real" where
  "compute_backoff attempt cap shift factor =
     (case factor of None \<Rightarrow> backoff_base attempt cap shift
      | Some u \<Rightarrow> min cap (max (1 / 10) (round_cents (backoff_base attempt cap shift * u))))"

section \<open>The client\<close>

record 'w link =
  li_sleep :: "real \<Rightarrow> 'w \<Rightarrow> 'w"
  li_uniform :: "real \<Rightarrow> real \<Rightarrow> 'w \<Rightarrow> real \<times> 'w"
  li_connected :: "'w \<Rightarrow> bool"
  li_initialized :: "'w \<Rightarrow> bool"
  li_connect :: "'w \<Rightarrow> (tg_error + bool) \<times> 'w"
  li_get_me :: "'w \<Rightarrow> (tg_error + unit) \<times> 'w"
  li_initialize :: "'w \<Rightarrow> (tg_error + unit) \<times> 'w"

text \<open>An initialization that finds the client initialized is one.\<close>

definition initialize_once :: "('w, 'm) link_scheme \<Rightarrow> 'w \<Rightarrow> (tg_error + unit) \<times> 'w" where
  "initialize_once li w =
     (if li_initialized li w then (Inr (), w)
      else (case li_initialize li w of
              (Inl (Disconnected e), w1) \<Rightarrow>
                (if py_contains ''already initialized'' (py_lower (ex_message e)) then Inr () else Inl (Disconnected e), w1)
            | (r, w1) \<Rightarrow> (r, w1)))"

definition ensure_client_ready :: "('w, 'm) link_scheme \<Rightarrow> 'w \<Rightarrow> (tg_error + unit) \<times> 'w" where
  "ensure_client_ready li w =
     (if li_connected li w then initialize_once li w
      else (case li_connect li w of
              (Inl e, w1) \<Rightarrow> (Inl e, w1)
            | (Inr ok, w1) \<Rightarrow>
                if \<not> ok then (Inl (Disconnected (exc_of ''ConnectionError'' ''Session invalid: unauthorized'')), w1)
                else (case li_get_me li w1 of
                        (Inl e, w2) \<Rightarrow> (Inl (Disconnected (session_check_failure (error_exc e))), w2)
                      | (Inr u, w2) \<Rightarrow> initialize_once li w2)))"

section \<open>Retries\<close>

definition max_flood_wait :: int where "max_flood_wait = 300"

definition retry_cap :: real where "retry_cap = 8"

text \<open>\<open>attempt\<close> is the number of the next attempt, the other one how many are left. Without any the
  result is \<^verbatim>\<open>None\<close>, and there is no exception.\<close>

fun retry_calls :: "('w, 'm) link_scheme \<Rightarrow> ('w \<Rightarrow> (tg_error + 'a) \<times> 'w) \<Rightarrow> int \<Rightarrow> int \<Rightarrow> nat \<Rightarrow> 'w \<Rightarrow> (tg_error + 'a option) \<times> 'w" where
  "retry_calls li call flood attempt 0 w = (Inr None, w)"
| "retry_calls li call flood attempt (Suc n) w =
     (case call w of
        (Inr x, w1) \<Rightarrow> (Inr (Some x), w1)
      | (Inl (Flood v e), w1) \<Rightarrow>
          (if flood_seconds v > flood \<or> n = 0 then (Inl (Flood v e), w1)
           else retry_calls li call flood (attempt + 1) n (li_sleep li (of_int (flood_seconds v)) w1))
      | (Inl (Failure e), w1) \<Rightarrow> (Inl (Failure e), w1)
      | (Inl e, w1) \<Rightarrow>
          (case li_uniform li (4 / 5) (6 / 5) w1 of
             (u, w2) \<Rightarrow>
               if n = 0 then (Inl e, w2)
               else retry_calls li call flood (attempt + 1) n
                      (li_sleep li (compute_backoff attempt retry_cap 0 (Some u)) (snd (ensure_client_ready li w2)))))"

definition call_with_retry :: "('w, 'm) link_scheme \<Rightarrow> ('w \<Rightarrow> (tg_error + 'a) \<times> 'w) \<Rightarrow> nat \<Rightarrow> 'w \<Rightarrow> (tg_error + 'a option) \<times> 'w" where
  "call_with_retry li call max_retries w = retry_calls li call max_flood_wait 1 max_retries w"

text \<open>\<^verbatim>\<open>_call_client_with_retry\<close> of the monitor: four attempts, so that the result is the call's.\<close>

definition call_client :: "('w, 'm) link_scheme \<Rightarrow> ('w \<Rightarrow> (tg_error + 'a) \<times> 'w) \<Rightarrow> 'w \<Rightarrow> (tg_error + 'a) \<times> 'w" where
  "call_client li call w =
     (case call_with_retry li call 4 w of
        (Inl e, w1) \<Rightarrow> (Inl e, w1)
      | (Inr None, w1) \<Rightarrow> (Inl (Failure (exc_of ''TypeError'' ''no result'')), w1)
      | (Inr (Some x), w1) \<Rightarrow> (Inr x, w1))"

section \<open>Lemmas\<close>

lemma flood_seconds_pos: "1 \<le> flood_seconds v"
  by (simp add: flood_seconds_def Let_def)

lemma compute_backoff_le: "compute_backoff a cap s f \<le> cap"
  by (simp add: compute_backoff_def backoff_base_def split: option.split)

lemma compute_backoff_pos: "0 < cap \<Longrightarrow> 0 < compute_backoff a cap s f"
  by (auto simp: compute_backoff_def backoff_base_def split: option.split)

text \<open>Steps that keep a measure of the world below a bound, per call and per wait.\<close>

lemma retry_calls_count:
  assumes "\<And>w. calls (snd (call w)) = Suc (calls w)"
    and "\<And>s w. calls (li_sleep li s w) = calls w"
    and "\<And>a b w. calls (snd (li_uniform li a b w)) = calls w"
    and "\<And>w. calls (snd (ensure_client_ready li w)) = calls w"
  shows "calls (snd (retry_calls li call flood attempt n w)) \<le> calls w + n"
proof (induction n arbitrary: attempt w)
  case (Suc n)
  obtain r w1 where c: "call w = (r, w1)" by fastforce
  have k: "calls w1 = Suc (calls w)" using assms(1) [of w] c by simp
  obtain u w2 where u: "li_uniform li (4 / 5) (6 / 5) w1 = (u, w2)" by fastforce
  have k2: "calls w2 = calls w1" using assms(3) [of "4 / 5" "6 / 5" w1] u by simp
  show ?case
    using Suc.IH [of "attempt + 1" "li_sleep li (compute_backoff attempt retry_cap 0 (Some u)) (snd (ensure_client_ready li w2))"]
      Suc.IH [of "attempt + 1" "li_sleep li x w1" for x] k k2
    by (auto simp: c u assms(2,4) split: sum.split tg_error.split)
qed simp

lemma retry_calls_slept:
  assumes call: "\<And>w. slept (snd (call w)) = slept w"
    and sleep: "\<And>s w. slept (li_sleep li s w) = slept w + s"
    and uni: "\<And>a b w. slept (snd (li_uniform li a b w)) = slept w"
    and ready: "\<And>w. slept (snd (ensure_client_ready li w)) = slept w"
    and bound: "of_int flood \<le> b" "retry_cap \<le> b"
  shows "slept (snd (retry_calls li call flood attempt n w)) \<le> slept w + real (n - 1) * b"
proof (induction n arbitrary: attempt w)
  case (Suc n)
  obtain r w1 where c: "call w = (r, w1)" by fastforce
  have k: "slept w1 = slept w" using call [of w] c by simp
  obtain u w2 where u: "li_uniform li (4 / 5) (6 / 5) w1 = (u, w2)" by fastforce
  have k2: "slept w2 = slept w" using uni [of "4 / 5" "6 / 5" w1] u k by simp
  have b0: "0 \<le> b" using bound(2) by (simp add: retry_cap_def)
  have step: "slept (snd (retry_calls li call flood (attempt + 1) n x)) \<le> slept w + real n * b"
    if "slept x \<le> slept w + b" "n \<noteq> 0" for x
  proof -
    have "slept (snd (retry_calls li call flood (attempt + 1) n x)) \<le> slept x + real (n - 1) * b" by (rule Suc.IH)
    also have "\<dots> \<le> slept w + b + real (n - 1) * b" using that(1) by simp
    also have "\<dots> = slept w + real n * b" using that(2) by (cases n) (simp_all add: algebra_simps)
    finally show ?thesis .
  qed
  have f: "slept (li_sleep li (of_int (flood_seconds v)) w1) \<le> slept w + b" if "flood_seconds v \<le> flood" for v
    using bound(1) that by (simp add: sleep k)
  have g: "slept (li_sleep li (compute_backoff attempt retry_cap 0 (Some u)) (snd (ensure_client_ready li w2))) \<le> slept w + b"
    using compute_backoff_le [of attempt retry_cap 0 "Some u"] bound(2) by (simp add: sleep ready k2)
  show ?case
    using step [OF g] step [OF f] b0 k k2
    by (auto simp: c u not_less split: sum.split tg_error.split)
qed (use assms in simp)

lemma retry_calls_failure_at_once:
  assumes "call w = (Inl e, w1)" "(\<exists>x. e = Failure x) \<or> (\<exists>v x. e = Flood v x \<and> flood < flood_seconds v)"
  shows "retry_calls li call flood attempt (Suc n) w = (Inl e, w1)"
  using assms by auto

lemma retry_calls_some: "fst (retry_calls li call flood attempt (Suc n) w) \<noteq> Inr None"
proof (induction n arbitrary: attempt w)
  case 0
  show ?case by (auto split: sum.split tg_error.split prod.split)
next
  case (Suc n)
  show ?case using Suc.IH
    by (subst retry_calls.simps) (auto split: sum.split tg_error.split prod.split simp del: retry_calls.simps)
qed

text \<open>A result is one of the call, in some world of the retries.\<close>

lemma retry_calls_from_call:
  "retry_calls li call flood attempt n w = (Inr (Some x), w') \<Longrightarrow> \<exists>w0. call w0 = (Inr x, w')"
proof (induction n arbitrary: attempt w)
  case (Suc n)
  show ?case using Suc.prems
    by (auto split: sum.split_asm tg_error.split_asm prod.split_asm if_splits intro: Suc.IH)
qed simp

lemma call_client_from_call: "call_client li call w = (Inr x, w') \<Longrightarrow> \<exists>w0. call w0 = (Inr x, w')"
  using retry_calls_from_call [of li call max_flood_wait 1 4 w x w']
  by (auto simp: call_client_def call_with_retry_def simp del: retry_calls.simps split: sum.split_asm option.split_asm prod.split_asm)

section \<open>Properties\<close>

text \<open>
  Retries are bounded: a call is made at most as often as there are attempts, and all the waits
  between them together are at most 300 seconds for each attempt after the first, whatever the network
  answers.
\<close>

theorem retries_bounded:
  assumes "\<And>w. calls (snd (call w)) = Suc (calls w) \<and> slept (snd (call w)) = slept w"
    and "\<And>s w. calls (li_sleep li s w) = calls w \<and> slept (li_sleep li s w) = slept w + s"
    and "\<And>a b w. calls (snd (li_uniform li a b w)) = calls w \<and> slept (snd (li_uniform li a b w)) = slept w"
    and "\<And>w. calls (snd (ensure_client_ready li w)) = calls w \<and> slept (snd (ensure_client_ready li w)) = slept w"
  shows "calls (snd (call_with_retry li call n w)) \<le> calls w + n \<and>
    slept (snd (call_with_retry li call n w)) \<le> slept w + real (n - 1) * 300"
  using retry_calls_count [of calls call li] retry_calls_slept [of slept call li max_flood_wait 300] assms
  by (simp add: call_with_retry_def max_flood_wait_def retry_cap_def)

text \<open>A network on which every call is told to wait a minute, with its calls and waits counted.\<close>

definition flooded_link :: "(nat \<times> real) link" where
  "flooded_link = \<lparr>li_sleep = (\<lambda>s (n, t). (n, t + s)), li_uniform = (\<lambda>a b w. (a, w)), li_connected = (\<lambda>w. True),
     li_initialized = (\<lambda>w. True), li_connect = (\<lambda>w. (Inr True, w)), li_get_me = (\<lambda>w. (Inr (), w)), li_initialize = (\<lambda>w. (Inr (), w))\<rparr>"

definition flooded_call :: "nat \<times> real \<Rightarrow> (tg_error + unit) \<times> nat \<times> real" where
  "flooded_call w = (Inl (Flood (Some 60) (exc_of ''FloodWait'' [])), Suc (fst w), snd w)"

theorem retries_bounded_witness:
  "fst (snd (call_with_retry flooded_link flooded_call 4 (0, 0))) \<le> 4 \<and>
   snd (snd (call_with_retry flooded_link flooded_call 4 (0, 0))) \<le> 900"
  using retries_bounded [of fst flooded_call snd flooded_link 4 "(0, 0)"]
  by (simp add: flooded_call_def flooded_link_def ensure_client_ready_def initialize_once_def split_beta)

end
