(* ===== verification/Click_Targets.thy ===== *)
theory Click_Targets
  imports Py_Text
begin

text \<open>
  The buttons of a message and the texts that name them, from \<^verbatim>\<open>tg_signer/compat.py\<close>: the text
  compared, the targets a text lists, and when a target hits a button. The tables of Unicode
  (\<^verbatim>\<open>NFKC\<close> and the categories) are those of ASCII, other characters stay as they are;
  separators beyond the eight bits of a character cannot occur. Reading JSON is a parameter.
\<close>

section \<open>The text compared\<close>

definition ascii_punct :: "char \<Rightarrow> bool" where
  "ascii_punct c \<longleftrightarrow> c \<in> set ''!#%&()*,-./:;?@[]_{}'' \<or> c = CHR 0x22 \<or> c = CHR 0x27 \<or> c = CHR 0x5C"

text \<open>The categories \<^verbatim>\<open>P\<close>, \<^verbatim>\<open>Z\<close> and \<^verbatim>\<open>C\<close>.\<close>

definition unmatched_char :: "char \<Rightarrow> bool" where
  "unmatched_char c \<longleftrightarrow> ascii_punct c \<or> of_char c \<le> (32 :: nat) \<or> of_char c = (127 :: nat)"

definition clean_text_for_match :: "string \<Rightarrow> string" where
  "clean_text_for_match s =
     (let t = filter (\<lambda>c. \<not> unmatched_char c) (py_lower s)
      in if t \<noteq> [] then t else filter (\<lambda>c. \<not> py_space c) (py_lower s))"

section \<open>Hits\<close>

text \<open>A number inside a text, with no digit before or after it.\<close>

fun whole_number_in :: "string \<Rightarrow> bool \<Rightarrow> string \<Rightarrow> bool" where
  "whole_number_in t after_digit [] = False"
| "whole_number_in t after_digit (c # cs) =
     (\<not> after_digit \<and> startswith (c # cs) t \<and> (case drop (length t) (c # cs) of [] \<Rightarrow> True | d # ds \<Rightarrow> \<not> ascii_digit d)
      \<or> whole_number_in t (ascii_digit c) cs)"

definition button_text_matches :: "string \<Rightarrow> string \<Rightarrow> bool" where
  "button_text_matches target button =
     (if target = [] \<or> button = [] then False
      else if target = button then True
      else if py_isdigit target then whole_number_in target False button
      else py_contains target button \<or> length button \<ge> 2 \<and> py_contains button target)"

section \<open>Targets\<close>

text \<open>\<^verbatim>\<open>str.split\<close> at a text of two characters, and the pieces that are not blank.\<close>

fun split_pair :: "char \<Rightarrow> char \<Rightarrow> string \<Rightarrow> string list" where
  "split_pair a b [] = [[]]"
| "split_pair a b [c] = [[c]]"
| "split_pair a b (c # d # s) =
     (if c = a \<and> d = b then [] # split_pair a b s
      else (case split_pair a b (d # s) of [] \<Rightarrow> [[c]] | p # ps \<Rightarrow> (c # p) # ps))"

text \<open>The first splitting that gives several pieces.\<close>

fun first_split :: "string list list \<Rightarrow> string list option" where
  "first_split [] = None"
| "first_split (ps # pss) = (let qs = stripped_items ps in if length qs > 1 then Some qs else first_split pss)"

definition digits_only :: "string \<Rightarrow> bool" where
  "digits_only s \<longleftrightarrow> s \<noteq> [] \<and> list_all ascii_digit s"

text \<open>A number with commas between its thousands, and maybe a fraction.\<close>

definition thousands_number :: "string \<Rightarrow> bool" where
  "thousands_number s =
     (let a = takeWhile (\<lambda>c. c \<noteq> CHR ''.'') s; f = drop (length a) s
      in (case split_on CHR '','' a of
            [] \<Rightarrow> False
          | g # gs \<Rightarrow> gs \<noteq> [] \<and> digits_only g \<and> length g \<le> 3 \<and> list_all (\<lambda>h. digits_only h \<and> length h = 3) gs)
         \<and> (f = [] \<or> digits_only (tl f)))"

definition target_keys :: "string list" where
  "target_keys = [''targets'', ''options'', ''answers'', ''answer'', ''result'', ''results'', ''buttons'', ''button'']"

fun first_key :: "string list \<Rightarrow> (pkey \<times> py) list \<Rightarrow> py option" where
  "first_key [] d = None"
| "first_key (k # ks) d = (case map_of d (KS k) of Some v \<Rightarrow> Some v | None \<Rightarrow> first_key ks d)"

definition looks_like_json :: "string \<Rightarrow> bool" where
  "looks_like_json s \<longleftrightarrow> startswith s ''['' \<and> endswith s '']'' \<or> startswith s ''{'' \<and> endswith s ''}''"

text \<open>The splitting of a text that names no button and is no JSON.\<close>

definition split_targets :: "string \<Rightarrow> string list" where
  "split_targets s =
     (case first_split ([split_pair CHR ''-'' CHR ''>'' s, split_pair CHR ''='' CHR ''>'' s, split_on CHR 0x0A s]
                        @ (if thousands_number s then [] else [split_on CHR '','' s, split_on CHR '';'' s])) of
        None \<Rightarrow> [s] | Some ps \<Rightarrow> ps)"

text \<open>The targets of a text: those its JSON gives, the text where it names a button, or its pieces.\<close>

definition text_targets :: "string list option \<Rightarrow> string list \<Rightarrow> string \<Rightarrow> string list" where
  "text_targets json buttons s =
     (if s = [] then []
      else (case json of
              Some (t # ts) \<Rightarrow> t # ts
            | _ \<Rightarrow>
                (if clean_text_for_match s \<noteq> [] \<and> (\<exists>b \<in> set buttons. clean_text_for_match b = clean_text_for_match s)
                 then [s] else split_targets s)))"

text \<open>\<open>None\<close> is the interpreter's limit on recursion, which the reading of JSON inside a text passes over.\<close>

fun parse_click_targets :: "(py \<Rightarrow> string) \<Rightarrow> (string \<Rightarrow> py option) \<Rightarrow> nat \<Rightarrow> string list \<Rightarrow> py \<Rightarrow> string list option" where
  "parse_click_targets fr loads 0 buttons x = None"
| "parse_click_targets fr loads (Suc n) buttons PNone = Some []"
| "parse_click_targets fr loads (Suc n) buttons (PList xs) = Some (stripped_items (map (py_str fr) xs))"
| "parse_click_targets fr loads (Suc n) buttons (PDict d) =
     (case first_key target_keys d of None \<Rightarrow> Some [] | Some v \<Rightarrow> parse_click_targets fr loads n buttons v)"
| "parse_click_targets fr loads (Suc n) buttons x =
     (let s = py_strip (py_str fr x);
          json = (if looks_like_json s then Option.bind (loads s) (parse_click_targets fr loads n buttons) else None)
      in Some (text_targets json buttons s))"

section \<open>Buttons\<close>

record button =
  bt_text :: "string option"
  bt_data :: "string option"

datatype markup = InlineKeyboard "button list list" | ReplyKeyboard "button list list" | OtherMarkup

datatype button_kind = Inline | Reply

definition texted :: "button_kind \<Rightarrow> button \<Rightarrow> (button_kind \<times> button \<times> string) option" where
  "texted k b = (case bt_text b of None \<Rightarrow> None | Some t \<Rightarrow> if t = [] then None else Some (k, b, t))"

definition collect_clickable_buttons :: "markup option \<Rightarrow> (button_kind \<times> button \<times> string) list" where
  "collect_clickable_buttons m =
     (case m of
        Some (InlineKeyboard rows) \<Rightarrow> List.map_filter (texted Inline) (concat rows)
      | Some (ReplyKeyboard rows) \<Rightarrow> List.map_filter (texted Reply) (concat rows)
      | _ \<Rightarrow> [])"

definition button_texts :: "markup option \<Rightarrow> string list" where
  "button_texts m = map (\<lambda>(k, b, t). t) (collect_clickable_buttons m)"

text \<open>The first button that the target hits.\<close>

definition target_button :: "string \<Rightarrow> markup option \<Rightarrow> (button_kind \<times> button \<times> string) option" where
  "target_button target m =
     (let t = clean_text_for_match target
      in if t = [] then None else find (\<lambda>(k, b, s). button_text_matches t (clean_text_for_match s)) (collect_clickable_buttons m))"

end
