(* ===== verification/Keyword_Clicks.thy ===== *)
theory Keyword_Clicks
  imports Telegram_Calls Click_Targets Keyword_Rules
begin

text \<open>
  The steps after a keyword hit that work on the messages of a chat,
  \<^verbatim>\<open>backend/services/keyword_monitor/continue_actions.py\<close> and \<^verbatim>\<open>tg_signer/core/telegram_actions.py\<close>:
  clicking a button, several in turn, the buttons and texts a language model chooses, and the waits for a
  message. The client, the clocks and the language model are functions of a world. A loop against a
  clock has a bound on its rounds, and no result when the bound is met; \<open>Keyword_Clicks_Props\<close> shows
  bounds that are enough.
\<close>

section \<open>Messages with buttons\<close>

record button_msg = tg_msg +
  cm_markup :: "markup option"
  cm_photo :: bool
  cm_edit_date :: "int option"

definition plain_msg :: "button_msg \<Rightarrow> tg_msg" where
  "plain_msg m = tg_msg.truncate m"

text \<open>\<^verbatim>\<open>message.text or message.caption\<close>, and its truth.\<close>

definition raw_text :: "button_msg \<Rightarrow> string" where
  "raw_text m = str_first (ms_text m) (str_first (ms_caption m) [])"

definition has_text :: "button_msg \<Rightarrow> bool" where
  "has_text m \<longleftrightarrow> raw_text m \<noteq> []"

type_synonym markup_marker = "(button_kind \<times> string option list list) option"

definition reply_markup_marker :: "markup option \<Rightarrow> markup_marker" where
  "reply_markup_marker m =
     (case m of
        Some (InlineKeyboard rows) \<Rightarrow> Some (Inline, map (map bt_text) rows)
      | Some (ReplyKeyboard rows) \<Rightarrow> Some (Reply, map (map bt_text) rows)
      | _ \<Rightarrow> None)"

type_synonym msg_marker = "int option \<times> string option \<times> string option \<times> int option \<times> markup_marker"

definition message_state_marker :: "button_msg \<Rightarrow> msg_marker" where
  "message_state_marker m = (ms_id m, ms_text m, ms_caption m, cm_edit_date m, reply_markup_marker (cm_markup m))"

definition messages_state :: "button_msg list \<Rightarrow> (int option, msg_marker) odict" where
  "messages_state ms = fold (\<lambda>m d. AList.update (ms_id m) (message_state_marker m) d) ms []"

text \<open>The identifiers whose state is not the one before.\<close>

definition changed_ids :: "(int option, msg_marker) odict \<Rightarrow> button_msg list \<Rightarrow> int option list" where
  "changed_ids before ms = map fst (filter (\<lambda>(i, k). map_of before i \<noteq> Some k) (messages_state ms))"

definition message_has_button_text :: "button_msg \<Rightarrow> string \<Rightarrow> bool" where
  "message_has_button_text m t \<longleftrightarrow> target_button t (cm_markup m) \<noteq> None"

definition message_supports_continue_action :: "(py \<Rightarrow> string) \<Rightarrow> button_msg \<Rightarrow> pydict \<Rightarrow> bool" where
  "message_supports_continue_action fr m a =
     (case py_int (act_get a ''action'') of
        None \<Rightarrow> False
      | Some i \<Rightarrow>
          if i = 3 then message_has_button_text m (str_or_blank fr (act_get a ''text''))
          else if i = 4 then cm_photo m \<and> collect_clickable_buttons (cm_markup m) \<noteq> []
          else if i = 5 then has_text m
          else if i = 6 then cm_photo m
          else if i = 7 then has_text m \<and> cm_markup m \<noteq> None
          else False)"

text \<open>The messages a step of this number may use.\<close>

definition message_supports_action :: "button_msg \<Rightarrow> int \<Rightarrow> bool" where
  "message_supports_action m i =
     (if i = 3 then cm_markup m \<noteq> None
      else if i = 9 then has_text m
      else message_supports_continue_action (\<lambda>x. []) m [(''action'', PInt i)])"

definition failure_markers :: "string list" where
  "failure_markers = [''failed'', ''failure'', ''error'', ''invalid'']"

definition success_markers :: "string list" where
  "success_markers = [''success'', ''successful'', ''done'', ''completed'']"

definition message_has_terminal_success_text :: "button_msg \<Rightarrow> bool" where
  "message_has_terminal_success_text m =
     (let items = filter (\<lambda>s. s \<noteq> []) (List.map_filter id [ms_text m, ms_caption m]);
          text = py_lower (join_with [CHR 0x0A] items)
      in py_strip text \<noteq> [] \<and> \<not> (\<exists>k \<in> set failure_markers. py_contains k text) \<and> (\<exists>k \<in> set success_markers. py_contains k text))"

section \<open>The client\<close>

record 'w chat_client = "'w link" +
  cc_perf :: "'w \<Rightarrow> time \<times> 'w"
  cc_send :: "chat_target \<Rightarrow> int option \<Rightarrow> string \<Rightarrow> 'w \<Rightarrow> (tg_error + unit) \<times> 'w"
  cc_dice :: "chat_target \<Rightarrow> int option \<Rightarrow> string option \<Rightarrow> 'w \<Rightarrow> (tg_error + unit) \<times> 'w"
  cc_history :: "chat_target \<Rightarrow> nat \<Rightarrow> 'w \<Rightarrow> (tg_error + button_msg list) \<times> 'w"
  cc_message :: "chat_target \<Rightarrow> int \<Rightarrow> 'w \<Rightarrow> (tg_error + button_msg option) \<times> 'w"
  cc_answer :: "int option \<Rightarrow> int option \<Rightarrow> string \<Rightarrow> 'w \<Rightarrow> (tg_error + unit) \<times> 'w"
  cc_click :: "button_msg \<Rightarrow> string \<Rightarrow> 'w \<Rightarrow> (tg_error + bool) \<times> 'w"
  cc_photo :: "button_msg \<Rightarrow> 'w \<Rightarrow> (tg_error + string) \<times> 'w"
  cc_ai_ready :: "'w \<Rightarrow> bool"
  cc_calculate :: "string \<Rightarrow> py \<Rightarrow> 'w \<Rightarrow> (tg_error + string option) \<times> 'w"
  cc_read_image :: "string \<Rightarrow> py \<Rightarrow> 'w \<Rightarrow> (tg_error + string option) \<times> 'w"
  cc_choose :: "string \<Rightarrow> string \<Rightarrow> (nat \<times> string) list \<Rightarrow> py \<Rightarrow> 'w \<Rightarrow> (tg_error + int list) \<times> 'w"
  cc_fr :: "py \<Rightarrow> string"
  cc_loads :: "string \<Rightarrow> py option"
  cc_depth :: nat

section \<open>One button\<close>

text \<open>The answer to a callback: three attempts, a flood waits as long as it asks.\<close>

fun request_callback_answer :: "('w, 'm) link_scheme \<Rightarrow> ('w \<Rightarrow> (tg_error + unit) \<times> 'w) \<Rightarrow> int \<Rightarrow> nat \<Rightarrow> 'w \<Rightarrow> bool \<times> 'w" where
  "request_callback_answer li call attempt 0 w = (False, w)"
| "request_callback_answer li call attempt (Suc n) w =
     (case call w of
        (Inr u, w1) \<Rightarrow> (True, w1)
      | (Inl (Flood v e), w1) \<Rightarrow>
          (if n = 0 then (False, w1)
           else request_callback_answer li call (attempt + 1) n (li_sleep li (of_int (flood_seconds v)) w1))
      | (Inl (Failure e), w1) \<Rightarrow> (False, w1)
      | (Inl e, w1) \<Rightarrow>
          (if n = 0 then (False, w1)
           else request_callback_answer li call (attempt + 1) n
                  (li_sleep li (compute_backoff attempt 6 1 None) (snd (ensure_client_ready li w1)))))"

text \<open>A click by text, or by the data of the button; only a result that is \<^verbatim>\<open>False\<close> is none.\<close>

definition click_inline_button_unified :: "('w, 'm) chat_client_scheme \<Rightarrow> button_msg \<Rightarrow> button \<Rightarrow> 'w \<Rightarrow> bool \<times> 'w" where
  "click_inline_button_unified cc m b w =
     (let target = (case bt_text b of None \<Rightarrow> bt_data b | Some t \<Rightarrow> if py_strip t = [] then bt_data b else Some t)
      in case target of
           None \<Rightarrow> (False, w)
         | Some t \<Rightarrow> (case cc_click cc m t w of (Inl e, w1) \<Rightarrow> (False, w1) | (Inr r, w1) \<Rightarrow> (r, w1)))"

definition click_inline_button :: "('w, 'm) chat_client_scheme \<Rightarrow> button_msg \<Rightarrow> button \<Rightarrow> 'w \<Rightarrow> bool \<times> 'w" where
  "click_inline_button cc m b w =
     (case bt_data b of
        None \<Rightarrow> click_inline_button_unified cc m b w
      | Some d \<Rightarrow>
          (case request_callback_answer cc (cc_answer cc (ch_id (ms_chat m)) (ms_id m) d) 1 3 w of
             (True, w1) \<Rightarrow> (True, w1)
           | (False, w1) \<Rightarrow> click_inline_button_unified cc m b w1))"

text \<open>A click on a found button: a callback, or its text sent.\<close>

definition press_button :: "('w, 'm) chat_client_scheme \<Rightarrow> chat_target \<Rightarrow> int option \<Rightarrow> button_msg \<Rightarrow> button_kind \<times> button \<times> string \<Rightarrow> 'w \<Rightarrow> (tg_error + bool) \<times> 'w" where
  "press_button cc chat thread m kb w =
     (case kb of (k, b, t) \<Rightarrow>
        (case k of
           Inline \<Rightarrow> (case click_inline_button cc m b w of (r, w1) \<Rightarrow> (Inr r, w1))
         | Reply \<Rightarrow> (case call_client cc (cc_send cc chat thread t) w of
                       (Inl e, w1) \<Rightarrow> (Inl e, w1) | (Inr u, w1) \<Rightarrow> (Inr True, w1))))"

text \<open>Whether it was clicked, and whether there was one to click.\<close>

definition click_keyboard_by_text_result ::
  "('w, 'm) chat_client_scheme \<Rightarrow> chat_target \<Rightarrow> int option \<Rightarrow> string \<Rightarrow> button_msg \<Rightarrow> 'w \<Rightarrow> (tg_error + bool \<times> bool) \<times> 'w" where
  "click_keyboard_by_text_result cc chat thread text m w =
     (case target_button text (cm_markup m) of
        None \<Rightarrow> (Inr (False, False), w)
      | Some kb \<Rightarrow> (case press_button cc chat thread m kb w of (Inl e, w1) \<Rightarrow> (Inl e, w1) | (Inr r, w1) \<Rightarrow> (Inr (r, True), w1)))"

section \<open>Buttons in turn\<close>

definition refresh_message :: "('w, 'm) chat_client_scheme \<Rightarrow> chat_target \<Rightarrow> button_msg \<Rightarrow> 'w \<Rightarrow> button_msg \<times> 'w" where
  "refresh_message cc chat m w =
     (case ms_id m of
        None \<Rightarrow> (m, w)
      | Some i \<Rightarrow>
          if i = 0 then (m, w)
          else (case call_client cc (cc_message cc chat i) w of (Inr (Some m1), w1) \<Rightarrow> (m1, w1) | (r, w1) \<Rightarrow> (m, w1)))"

text \<open>Whether all were clicked, and whether one was; the message is read again between two clicks.\<close>

fun click_rest ::
  "('w, 'm) chat_client_scheme \<Rightarrow> chat_target \<Rightarrow> int option \<Rightarrow> bool \<Rightarrow> string list \<Rightarrow> button_msg \<Rightarrow> bool \<Rightarrow> 'w \<Rightarrow> (tg_error + bool \<times> bool) \<times> 'w" where
  "click_rest cc chat thread first [] m started w = (Inr (True, started), w)"
| "click_rest cc chat thread first (t # ts) m started w =
     (case (if first then (m, w)
            else (case li_uniform cc 1 2 w of (s, w1) \<Rightarrow> refresh_message cc chat m (li_sleep cc s w1))) of
        (m1, w2) \<Rightarrow>
          (case click_keyboard_by_text_result cc chat thread t m1 w2 of
             (Inl e, w3) \<Rightarrow> (Inl e, w3)
           | (Inr (clicked, matched), w3) \<Rightarrow>
               if \<not> clicked \<or> \<not> matched then (Inr (False, started \<or> clicked), w3)
               else click_rest cc chat thread False ts m1 True w3))"

definition click_keyboard_sequence_result ::
  "('w, 'm) chat_client_scheme \<Rightarrow> chat_target \<Rightarrow> int option \<Rightarrow> string list \<Rightarrow> button_msg \<Rightarrow> 'w \<Rightarrow> (tg_error + bool \<times> bool) \<times> 'w" where
  "click_keyboard_sequence_result cc chat thread ts m w =
     (if ts = [] then (Inr (False, False), w) else click_rest cc chat thread True ts m False w)"

section \<open>Waiting for the chat\<close>

definition load_recent_messages :: "('w, 'm) chat_client_scheme \<Rightarrow> chat_target \<Rightarrow> int option \<Rightarrow> nat \<Rightarrow> 'w \<Rightarrow> (tg_error + button_msg list) \<times> 'w" where
  "load_recent_messages cc chat thread limit w =
     (case call_client cc (cc_history cc chat limit) w of
        (Inl e, w1) \<Rightarrow> (Inl e, w1)
      | (Inr ms, w1) \<Rightarrow> (Inr (filter (\<lambda>m. message_matches_thread (plain_msg m) thread) ms), w1))"

text \<open>Rounds of half a second until the deadline, or until the messages pass a test.\<close>

fun poll_rounds :: "('w, 'm) chat_client_scheme \<Rightarrow> chat_target \<Rightarrow> int option \<Rightarrow> nat \<Rightarrow> (button_msg list \<Rightarrow> bool) \<Rightarrow> time \<Rightarrow> nat \<Rightarrow> 'w \<Rightarrow> ((tg_error + bool) \<times> 'w) option" where
  "poll_rounds cc chat thread limit test deadline 0 w = None"
| "poll_rounds cc chat thread limit test deadline (Suc n) w =
     (case cc_perf cc w of
        (now, w1) \<Rightarrow>
          if \<not> now < deadline then Some (Inr False, w1)
          else (case load_recent_messages cc chat thread limit (li_sleep cc (1 / 2) w1) of
                  (Inl e, w2) \<Rightarrow> Some (Inl e, w2)
                | (Inr ms, w2) \<Rightarrow> if test ms then Some (Inr True, w2) else poll_rounds cc chat thread limit test deadline n w2))"

definition poll_chat :: "('w, 'm) chat_client_scheme \<Rightarrow> chat_target \<Rightarrow> int option \<Rightarrow> nat \<Rightarrow> (button_msg list \<Rightarrow> bool) \<Rightarrow> real \<Rightarrow> nat \<Rightarrow> 'w \<Rightarrow> ((tg_error + bool) \<times> 'w) option" where
  "poll_chat cc chat thread limit test timeout n w =
     (case cc_perf cc w of (now, w1) \<Rightarrow> poll_rounds cc chat thread limit test (now + max timeout (1 / 2)) n w1)"

definition chat_advanced :: "(int option, msg_marker) odict \<Rightarrow> button_msg list \<Rightarrow> bool" where
  "chat_advanced before ms \<longleftrightarrow> changed_ids before ms \<noteq> []"

definition changed_message :: "(int option, msg_marker) odict \<Rightarrow> (button_msg \<Rightarrow> bool) \<Rightarrow> button_msg list \<Rightarrow> bool" where
  "changed_message before p ms \<longleftrightarrow> (\<exists>m \<in> set ms. ms_id m \<in> set (changed_ids before ms) \<and> p m)"

definition wait_for_chat_advance where
  "wait_for_chat_advance cc chat thread before limit timeout n w = poll_chat cc chat thread limit (chat_advanced before) timeout n w"

definition wait_for_continue_action_candidate where
  "wait_for_continue_action_candidate cc chat thread a before limit timeout n w =
     poll_chat cc chat thread limit (changed_message before (\<lambda>m. message_supports_continue_action (cc_fr cc) m a)) timeout n w"

definition wait_for_terminal_success where
  "wait_for_terminal_success cc chat thread before limit timeout n w =
     poll_chat cc chat thread limit (changed_message before message_has_terminal_success_text) timeout n w"

section \<open>Steps with a language model\<close>

definition terminal_error :: "string \<Rightarrow> tg_error" where
  "terminal_error msg = Failure (exc_of ''TerminalAIActionError'' msg)"

text \<open>Without a configured model the step fails; what the model raises ends the steps.\<close>

definition no_ai_config :: tg_error where
  "no_ai_config = Failure (exc_of ''RuntimeError'' ''OpenAI config is required for keyword monitor AI actions'')"

definition run_ai_call :: "string \<Rightarrow> ('w \<Rightarrow> (tg_error + string option) \<times> 'w) \<Rightarrow> 'w \<Rightarrow> (tg_error + string option) \<times> 'w" where
  "run_ai_call label call w =
     (case call w of
        (Inl e, w1) \<Rightarrow> (Inl (terminal_error (label @ '': '' @ ex_class (error_exc e))), w1)
      | (Inr a, w1) \<Rightarrow> (let s = py_strip (case a of None \<Rightarrow> [] | Some t \<Rightarrow> t) in (Inr (if s = [] then None else Some s), w1)))"

text \<open>The answer of the model sent to the chat.\<close>

definition send_answer :: "('w, 'm) chat_client_scheme \<Rightarrow> chat_target \<Rightarrow> int option \<Rightarrow> (tg_error + string option) \<times> 'w \<Rightarrow> (tg_error + bool) \<times> 'w" where
  "send_answer cc chat thread r =
     (case r of
        (Inl e, w1) \<Rightarrow> (Inl e, w1)
      | (Inr None, w1) \<Rightarrow> (Inr False, w1)
      | (Inr (Some t), w1) \<Rightarrow>
          (case call_client cc (cc_send cc chat thread t) w1 of (Inl e, w2) \<Rightarrow> (Inl e, w2) | (Inr u, w2) \<Rightarrow> (Inr True, w2)))"

text \<open>The position an index of the model stands for: counted from one, or zero for the first.\<close>

definition option_index :: "nat \<Rightarrow> int \<Rightarrow> nat option" where
  "option_index n i =
     (if i = 0 then Some 0 else if 1 \<le> i \<and> i \<le> int n then Some (nat (i - 1)) else None)"

fun click_options ::
  "('w, 'm) chat_client_scheme \<Rightarrow> chat_target \<Rightarrow> int option \<Rightarrow> button_msg \<Rightarrow> (button_kind \<times> button \<times> string) list \<Rightarrow> int list \<Rightarrow> nat \<Rightarrow> 'w \<Rightarrow> (tg_error + bool) \<times> 'w" where
  "click_options cc chat thread m bs [] clicked w = (Inr (clicked > 0), w)"
| "click_options cc chat thread m bs (i # is) clicked w =
     (case option_index (length bs) i of
        None \<Rightarrow> (Inr False, w)
      | Some k \<Rightarrow>
          (case press_button cc chat thread m (bs ! k) w of
             (Inl e, w1) \<Rightarrow> (Inl e, w1)
           | (Inr r, w1) \<Rightarrow> click_options cc chat thread m bs is (if r then Suc clicked else clicked) (li_sleep cc (3 / 10) w1)))"

definition calculate_and_click ::
  "('w, 'm) chat_client_scheme \<Rightarrow> chat_target \<Rightarrow> int option \<Rightarrow> button_msg \<Rightarrow> (tg_error + string option) \<times> 'w \<Rightarrow> (tg_error + bool) \<times> 'w" where
  "calculate_and_click cc chat thread m r =
     (case r of
        (Inl e, w1) \<Rightarrow> (Inl e, w1)
      | (Inr None, w1) \<Rightarrow> (Inr False, w1)
      | (Inr (Some t), w1) \<Rightarrow>
          (case parse_click_targets (cc_fr cc) (cc_loads cc) (cc_depth cc) (button_texts (cm_markup m)) (PStr t) of
             None \<Rightarrow> (Inl (Failure (exc_of ''RecursionError'' [])), w1)
           | Some ts \<Rightarrow>
               if ts = [] then (Inr False, w1)
               else (case click_keyboard_sequence_result cc chat thread ts m w1 of
                       (Inl e, w2) \<Rightarrow> (Inl e, w2)
                     | (Inr (success, side_effect), w2) \<Rightarrow>
                         if \<not> success \<and> side_effect then (Inl (terminal_error ''AI calculate+click partially executed''), w2)
                         else (Inr success, w2))))"

definition choose_and_click :: "('w, 'm) chat_client_scheme \<Rightarrow> chat_target \<Rightarrow> int option \<Rightarrow> py \<Rightarrow> button_msg \<Rightarrow> 'w \<Rightarrow> (tg_error + bool) \<times> 'w" where
  "choose_and_click cc chat thread prompt m w =
     (let bs = collect_clickable_buttons (cm_markup m)
      in if \<not> cm_photo m \<or> bs = [] then (Inr False, w)
         else (case cc_photo cc m w of
                 (Inl e, w1) \<Rightarrow> (Inl e, w1)
               | (Inr img, w1) \<Rightarrow>
                   (let q = py_strip (str_first (ms_caption m) (str_first (ms_text m) []));
                        question = (if q = [] then ''Choose the correct option'' else q);
                        options = map (\<lambda>(k, b, t). t) bs
                    in case cc_choose cc img question (zip [1..<Suc (length options)] options) prompt w1 of
                         (Inl e, w2) \<Rightarrow> (Inl (terminal_error (''AI choose_options_by_image failed: '' @ ex_class (error_exc e))), w2)
                       | (Inr chosen, w2) \<Rightarrow> click_options cc chat thread m bs chosen 0 w2)))"

definition execute_ai_action :: "('w, 'm) chat_client_scheme \<Rightarrow> chat_target \<Rightarrow> int option \<Rightarrow> pydict \<Rightarrow> int \<Rightarrow> button_msg \<Rightarrow> 'w \<Rightarrow> (tg_error + bool) \<times> 'w" where
  "execute_ai_action cc chat thread a i m w =
     (let prompt = act_get a ''ai_prompt''
      in if \<not> cc_ai_ready cc w then (Inl no_ai_config, w)
         else if i = 5 then send_answer cc chat thread (run_ai_call ''AI calculate_problem failed'' (cc_calculate cc (py_strip (raw_text m)) prompt) w)
         else if i = 6 then
           (case cc_photo cc m w of
              (Inl e, w1) \<Rightarrow> (Inl e, w1)
            | (Inr img, w1) \<Rightarrow> send_answer cc chat thread (run_ai_call ''AI extract_text_by_image failed'' (cc_read_image cc img prompt) w1))
         else if i = 7 then
           calculate_and_click cc chat thread m (run_ai_call ''AI calculate+click failed'' (cc_calculate cc (py_strip (raw_text m)) prompt) w)
         else if i = 4 then choose_and_click cc chat thread prompt m w
         else (Inr False, w))"

section \<open>A step on the messages of a chat\<close>

text \<open>After a click that failed on a button that was there: what the chat shows decides.\<close>

definition follow_click ::
  "('w, 'm) chat_client_scheme \<Rightarrow> chat_target \<Rightarrow> int option \<Rightarrow> pydict option \<Rightarrow> (int option, msg_marker) odict \<Rightarrow> nat \<Rightarrow> real \<Rightarrow> nat \<Rightarrow> 'w
   \<Rightarrow> ((tg_error + bool) \<times> 'w) option" where
  "follow_click cc chat thread next_a before limit timeout n w =
     (case next_a of
        None \<Rightarrow> wait_for_terminal_success cc chat thread before limit timeout n w
      | Some b \<Rightarrow>
          if is_immediate_continue_action b then wait_for_chat_advance cc chat thread before limit timeout n w
          else wait_for_continue_action_candidate cc chat thread b before limit timeout n w)"

text \<open>One message of the round: an answer of the step, or \<open>None\<close> for the next message.\<close>

definition try_message ::
  "('w, 'm) chat_client_scheme \<Rightarrow> chat_target \<Rightarrow> int option \<Rightarrow> pydict \<Rightarrow> int \<Rightarrow> pydict option \<Rightarrow> nat \<Rightarrow> real \<Rightarrow> nat \<Rightarrow> button_msg list \<Rightarrow> button_msg \<Rightarrow> 'w
   \<Rightarrow> ((tg_error + bool option) \<times> 'w) option" where
  "try_message cc chat thread a i next_a limit timeout n recent m w =
     (if i \<noteq> 3 then
        (case execute_ai_action cc chat thread a i m w of
           (Inl e, w1) \<Rightarrow> Some (Inl e, w1)
         | (Inr r, w1) \<Rightarrow> Some (Inr (if r then Some True else None), w1))
      else
        (let text = str_or_blank (cc_fr cc) (act_get a ''text'')
         in case parse_click_targets (cc_fr cc) (cc_loads cc) (cc_depth cc) (button_texts (cm_markup m)) (PStr text) of
              None \<Rightarrow> Some (Inl (Failure (exc_of ''RecursionError'' [])), w)
            | Some ts \<Rightarrow>
                if length ts > 1 then
                  (case click_keyboard_sequence_result cc chat thread ts m w of
                     (Inl e, w1) \<Rightarrow> Some (Inl e, w1)
                   | (Inr (success, side_effect), w1) \<Rightarrow>
                       Some (Inr (if success then Some True else if side_effect then Some False else None), w1))
                else
                  (case click_keyboard_by_text_result cc chat thread text m w of
                     (Inl e, w1) \<Rightarrow> Some (Inl e, w1)
                   | (Inr (clicked, matched), w1) \<Rightarrow>
                       if clicked then Some (Inr (Some True), w1)
                       else if matched then
                         (case follow_click cc chat thread next_a (messages_state recent) limit (min 6 timeout) n w1 of
                            None \<Rightarrow> None
                          | Some (Inl e, w2) \<Rightarrow> Some (Inl e, w2)
                          | Some (Inr r, w2) \<Rightarrow> Some (Inr (Some r), w2))
                       else Some (Inr None, w1))))"

fun try_messages where
  "try_messages cc chat thread a i next_a limit timeout n recent [] w = Some (Inr None, w)"
| "try_messages cc chat thread a i next_a limit timeout n recent (m # ms) w =
     (case try_message cc chat thread a i next_a limit timeout n recent m w of
        Some (Inr None, w1) \<Rightarrow> try_messages cc chat thread a i next_a limit timeout n recent ms w1
      | r \<Rightarrow> r)"

text \<open>Rounds over the usable messages, until the deadline; \<open>n\<close> bounds the rounds, of the waits too.\<close>

fun message_rounds ::
  "('w, 'm) chat_client_scheme \<Rightarrow> chat_target \<Rightarrow> int option \<Rightarrow> pydict \<Rightarrow> int \<Rightarrow> pydict option \<Rightarrow> nat \<Rightarrow> real \<Rightarrow> nat \<Rightarrow> time \<Rightarrow> nat \<Rightarrow> 'w
   \<Rightarrow> ((tg_error + bool) \<times> 'w) option" where
  "message_rounds cc chat thread a i next_a limit timeout k deadline 0 w = None"
| "message_rounds cc chat thread a i next_a limit timeout k deadline (Suc n) w =
     (case cc_perf cc w of
        (now, w1) \<Rightarrow>
          if \<not> now < deadline then Some (Inr False, w1)
          else (case load_recent_messages cc chat thread limit w1 of
                  (Inl e, w2) \<Rightarrow> Some (Inl e, w2)
                | (Inr recent, w2) \<Rightarrow>
                    (case try_messages cc chat thread a i next_a limit timeout k recent (filter (\<lambda>m. message_supports_action m i) recent) w2 of
                       None \<Rightarrow> None
                     | Some (Inl e, w3) \<Rightarrow> Some (Inl e, w3)
                     | Some (Inr (Some r), w3) \<Rightarrow> Some (Inr r, w3)
                     | Some (Inr None, w3) \<Rightarrow>
                         message_rounds cc chat thread a i next_a limit timeout k deadline n (li_sleep cc (1 / 2) w3))))"

definition run_on_messages ::
  "('w, 'm) chat_client_scheme \<Rightarrow> chat_target \<Rightarrow> int option \<Rightarrow> pydict \<Rightarrow> int \<Rightarrow> pydict option \<Rightarrow> nat \<Rightarrow> real \<Rightarrow> nat \<Rightarrow> 'w
   \<Rightarrow> ((tg_error + bool) \<times> 'w) option" where
  "run_on_messages cc chat thread a i next_a limit timeout n w =
     (case cc_perf cc w of (now, w1) \<Rightarrow> message_rounds cc chat thread a i next_a limit timeout n (now + timeout) n w1)"

end
