(* ===== verification/Keyword_Continue.thy ===== *)
theory Keyword_Continue
  imports Keyword_Clicks Keyword_Monitor
begin

text \<open>
  What follows a keyword hit on the channel \<open>continue\<close>, \<^verbatim>\<open>backend/services/keyword_monitor/continue_actions.py\<close>:
  the steps of a rule in their order, and the commands to bots with their limits. The client, the
  clocks, sleeping and the plugins are functions of a world; the lock of the account, held while the
  steps run, is the sequence of the calls. \<open>None\<close> is a wait that does not end within the bound on
  its rounds. Logs and the cancellation of a step at its timeout are left out.
\<close>

section \<open>Links\<close>

definition ci_startswith :: "string \<Rightarrow> string \<Rightarrow> bool" where
  "ci_startswith s p \<longleftrightarrow> py_lower (take (length p) s) = p"

text \<open>The text after a prefix, if one of them is there.\<close>

fun after_prefix :: "string list \<Rightarrow> string \<Rightarrow> string option" where
  "after_prefix [] s = None"
| "after_prefix (p # ps) s = (if ci_startswith s p then Some (drop (length p) s) else after_prefix ps s)"

definition bot_char :: "char \<Rightarrow> bool" where
  "bot_char c \<longleftrightarrow> ident_char c"

definition param_char :: "char \<Rightarrow> bool" where
  "param_char c \<longleftrightarrow> ident_char c \<or> c = CHR ''-''"

text \<open>A link at the head of a text: bot, parameter and what follows.\<close>

definition link_head :: "string \<Rightarrow> (string \<times> string \<times> string) option" where
  "link_head s =
     (let s1 = (case after_prefix [''https://'', ''http://''] s of None \<Rightarrow> s | Some r \<Rightarrow> r)
      in case after_prefix [''t.me/'', ''telegram.me/'', ''telegram.dog/''] s1 of
           None \<Rightarrow> None
         | Some s2 \<Rightarrow>
             (let bot = takeWhile bot_char s2
              in if length bot < 4 \<or> length bot > 32 \<or> \<not> ident_start (hd bot) \<or> hd bot = CHR ''_'' then None
                 else (case after_prefix [''?start=''] (drop (length bot) s2) of
                         None \<Rightarrow> None
                       | Some s3 \<Rightarrow>
                           (let param = takeWhile param_char s3
                            in if param = [] then None else Some (bot, param, drop (length param) s3)))))"

lemma length_after_prefix: "after_prefix ps s = Some r \<Longrightarrow> length r \<le> length s"
  by (induction ps) (auto split: if_splits)

lemma length_link_head:
  assumes "link_head s = Some (b, p, r)"
  shows "length r < length s"
proof -
  note after_prefix.simps [simp del]
  define s1 where "s1 = (case after_prefix [''https://'', ''http://''] s of None \<Rightarrow> s | Some r \<Rightarrow> r)"
  define s2 where "s2 = after_prefix [''t.me/'', ''telegram.me/'', ''telegram.dog/''] s1"
  note a = assms [unfolded link_head_def Let_def, folded s1_def, folded s2_def]
  obtain t2 where t2: "s2 = Some t2" using a by (cases s2) simp_all
  obtain s3 where s3: "after_prefix [''?start=''] (drop (length (takeWhile bot_char t2)) t2) = Some s3"
    and p: "takeWhile param_char s3 \<noteq> []" and r: "r = drop (length (takeWhile param_char s3)) s3"
    using a unfolding t2 by (simp split: if_split_asm option.split_asm) (metis)
  have "length s1 \<le> length s" unfolding s1_def using length_after_prefix by (cases "after_prefix [''https://'', ''http://''] s") auto
  moreover have "length t2 \<le> length s1" using length_after_prefix t2 unfolding s2_def by blast
  moreover have "length s3 \<le> length t2" using length_after_prefix [OF s3] by simp
  moreover have "length r < length s3"
    using p length_takeWhile_le [of param_char s3] unfolding r length_drop by (cases "takeWhile param_char s3") auto
  ultimately show ?thesis by linarith
qed

function start_links :: "string \<Rightarrow> (string \<times> string) list" where
  "start_links s =
     (case link_head s of
        Some (b, p, r) \<Rightarrow> (b, p) # start_links r
      | None \<Rightarrow> (case s of [] \<Rightarrow> [] | c # cs \<Rightarrow> start_links cs))"
  by pat_completeness auto
termination by (relation "measure length") (auto simp: length_link_head)

declare start_links.simps [simp del]

definition job_key :: "string \<times> string \<Rightarrow> string \<times> string" where
  "job_key j = (py_lower (fst j), snd j)"

definition add_job :: "string \<times> string \<Rightarrow> (string \<times> string) list \<Rightarrow> (string \<times> string) list" where
  "add_job j js = (if job_key j \<in> job_key ` set js then js else js @ [j])"

definition extract_tg_start_links :: "string \<Rightarrow> (string \<times> string) list" where
  "extract_tg_start_links s = fold add_job (start_links s) []"

section \<open>Commands to bots\<close>

definition default_max_batch :: int where "default_max_batch = 5"
definition default_bot_interval :: real where "default_bot_interval = 2"

definition bot_name :: "string \<Rightarrow> string" where
  "bot_name s = py_strip (lstrip_chars ''@'' (py_strip s))"

definition append_job :: "string \<times> string \<Rightarrow> (string \<times> string) list \<Rightarrow> (string \<times> string) list" where
  "append_job j js =
     (let b = bot_name (fst j); p = py_strip (snd j) in if b = [] \<or> p = [] then js else add_job (b, p) js)"

definition action_max_batch :: "pydict \<Rightarrow> int" where
  "action_max_batch a = as_positive_int (act_get a ''max_batch'') default_max_batch 1"

text \<open>The jobs of the links in the message, and those of the keywords.\<close>

definition linked_jobs :: "(py \<Rightarrow> string) \<Rightarrow> pydict \<Rightarrow> string \<Rightarrow> (string \<times> string) list" where
  "linked_jobs fr a text =
     (let bot = normalize_bot_username fr (act_get a ''bot_username'')
      in if as_bool fr (act_get a ''parse_deep_links'') True \<and> text \<noteq> []
         then fold append_job (map (\<lambda>(b, p). (if bot = [] then b else bot, p)) (extract_tg_start_links text)) [] else [])"

type_synonym matcher = "bool \<Rightarrow> string \<Rightarrow> string \<Rightarrow> (string \<times> string option list) list"

definition keyword_jobs ::
  "(py \<Rightarrow> string) \<Rightarrow> matcher \<Rightarrow> pydict \<Rightarrow> string \<Rightarrow> (string, string) odict \<Rightarrow> pydict option \<Rightarrow> exc + (string \<times> string) list" where
  "keyword_jobs fr rx a text vars match_action =
     (let bot = normalize_bot_username fr (act_get a ''bot_username'');
          tpl = (if py_truthy (act_get a ''start_param'') then py_str fr (act_get a ''start_param'') else ''{keyword}'');
          many = as_bool fr (act_get a ''multi_match'') True \<and> py_contains ''{keyword}'' tpl;
          source = (case match_action of None \<Rightarrow> a | Some d \<Rightarrow> d)
      in case (if many \<and> text \<noteq> [] then match_all_keyword_values fr rx source text else Inr []) of
           Inl e \<Rightarrow> Inl e
         | Inr found \<Rightarrow>
             (let single = py_strip (look vars ''keyword'' []);
                  values = (if found \<noteq> [] then found else if single = [] then [] else [single]);
                  params = (if many \<and> values \<noteq> [] then map (\<lambda>k. render_text (AList.update ''keyword'' k vars) tpl) values
                            else [render_text vars tpl])
              in Inr (fold append_job (map (\<lambda>p. (bot, p)) params) [])))"

definition collect_bot_cmd_jobs ::
  "(py \<Rightarrow> string) \<Rightarrow> matcher \<Rightarrow> pydict \<Rightarrow> string \<Rightarrow> (string, string) odict \<Rightarrow> pydict option \<Rightarrow> exc + (string \<times> string) list" where
  "collect_bot_cmd_jobs fr rx a text vars match_action =
     (let linked = linked_jobs fr a text
      in case (if linked \<noteq> [] then Inr linked else keyword_jobs fr rx a text vars match_action) of
           Inl e \<Rightarrow> Inl e
         | Inr js \<Rightarrow> Inr (take (nat (action_max_batch a)) js))"

section \<open>The interval between commands\<close>

type_synonym rate_map = "(string, time) odict"

definition max_rates :: nat where "max_rates = 1000"
definition stale_after :: time where "stale_after = 300"

definition prune_bot_cmd_rate_map :: "time \<Rightarrow> rate_map \<Rightarrow> rate_map" where
  "prune_bot_cmd_rate_map now m = (if length m \<le> max_rates then m else filter (\<lambda>(k, t). \<not> t \<le> now - stale_after) m)"

definition slot_wait :: "rate_map \<Rightarrow> string \<Rightarrow> real \<Rightarrow> time \<Rightarrow> real" where
  "slot_wait m key interval now = (if interval \<le> 0 then 0 else max 0 (interval - (now - look m key 0)))"

text \<open>The map after the slot, granted at \<open>later\<close>.\<close>

definition take_slot :: "time \<Rightarrow> string \<Rightarrow> rate_map \<Rightarrow> rate_map" where
  "take_slot later key m = prune_bot_cmd_rate_map later (AList.update key later m)"

record 'w step_client = "'w chat_client" +
  sc_clock :: "'w \<Rightarrow> time \<times> 'w"
  sc_pause :: "pyfloat \<Rightarrow> pyfloat \<Rightarrow> pyfloat"
  sc_rx :: "bool \<Rightarrow> string \<Rightarrow> string \<Rightarrow> (string \<times> string option list) list"
  sc_limit :: nat
  sc_timeout :: real
  sc_registered :: "string \<Rightarrow> 'w \<Rightarrow> bool"
  sc_load_plugins :: "'w \<Rightarrow> 'w"
  sc_enabled :: "string \<Rightarrow> 'w \<Rightarrow> bool"
  sc_run_plugin :: "string \<Rightarrow> pydict \<Rightarrow> real \<Rightarrow> 'w \<Rightarrow> (exc + bool \<times> py) \<times> 'w"

definition await_bot_cmd_slot :: "'w step_client \<Rightarrow> string \<Rightarrow> real \<Rightarrow> rate_map \<Rightarrow> 'w \<Rightarrow> rate_map \<times> 'w" where
  "await_bot_cmd_slot env key interval m w =
     (case sc_clock env w of (now, w1) \<Rightarrow>
       if interval \<le> 0 then (take_slot now key m, w1)
       else (let wait = slot_wait m key interval now; w2 = (if wait > 0 then li_sleep env wait w1 else w1)
             in case sc_clock env w2 of (later, w3) \<Rightarrow> (take_slot later key m, w3)))"

text \<open>\<open>None\<close> is an infinite interval; one that is no number never waits.\<close>

definition send_interval :: "pydict \<Rightarrow> real option" where
  "send_interval a =
     (case as_non_negative_float (act_get a ''send_interval'') (Fin default_bot_interval) of
        Fin x \<Rightarrow> Some x | Inf b \<Rightarrow> None | NaN \<Rightarrow> Some 0)"

definition command_prefix :: "(py \<Rightarrow> string) \<Rightarrow> pydict \<Rightarrow> string" where
  "command_prefix fr a =
     (let p = py_strip (str_or_blank fr (act_get a ''command_prefix'')); q = (if p = [] then ''/start'' else p)
      in if startswith q ''/'' then q else ''/'' @ q)"

fun send_jobs :: "'w step_client \<Rightarrow> string \<Rightarrow> string \<Rightarrow> real \<Rightarrow> (string \<times> string) list \<Rightarrow> nat \<Rightarrow> rate_map \<Rightarrow> 'w \<Rightarrow> nat \<times> rate_map \<times> 'w" where
  "send_jobs env account cmd interval [] n m w = (n, m, w)"
| "send_jobs env account cmd interval (j # js) n m w =
     (case await_bot_cmd_slot env (account @ '':'' @ py_lower (fst j)) interval m w of
        (m1, w1) \<Rightarrow>
          (case call_client env (cc_send env (ChatName (fst j)) None (cmd @ '' '' @ snd j)) w1 of
             (r, w2) \<Rightarrow> send_jobs env account cmd interval js (case r of Inl e \<Rightarrow> n | Inr u \<Rightarrow> Suc n) m1 w2))"

definition execute_bot_link_action ::
  "'w step_client \<Rightarrow> string \<Rightarrow> pydict \<Rightarrow> tg_msg \<Rightarrow> (string, string) odict \<Rightarrow> pydict option \<Rightarrow> rate_map \<Rightarrow> 'w \<Rightarrow> ((tg_error + bool) \<times> rate_map \<times> 'w) option" where
  "execute_bot_link_action env account a m vars match_action rates w =
     (case collect_bot_cmd_jobs (cc_fr env) (sc_rx env) a (message_text m) vars match_action of
        Inl e \<Rightarrow> Some (Inl (Failure e), rates, w)
      | Inr [] \<Rightarrow> Some (Inr False, rates, w)
      | Inr (j # js) \<Rightarrow>
          (case send_interval a of
             None \<Rightarrow> None
           | Some interval \<Rightarrow>
               (case send_jobs env account (command_prefix (cc_fr env) a) interval (j # js) 0 rates w of
                  (n, rates1, w1) \<Rightarrow> Some (Inr (n > 0), rates1, w1))))"

section \<open>The steps of a rule\<close>

text \<open>What is no list has no steps, and what is no dictionary is none.\<close>

definition continue_actions :: "pydict \<Rightarrow> pydict list" where
  "continue_actions a =
     (case act_get a ''continue_actions'' of
        PList xs \<Rightarrow> filter (\<lambda>d. py_int (act_get d ''action'') \<in> Some ` {1, 2, 3, 4, 5, 6, 7, 9, 99})
          (List.map_filter (\<lambda>x. case x of PDict d \<Rightarrow> Some (List.map_filter (\<lambda>(k, v). case k of KS s \<Rightarrow> Some (s, v) | KI i \<Rightarrow> None) d) | _ \<Rightarrow> None) xs)
      | _ \<Rightarrow> [])"

definition continue_target :: "(py \<Rightarrow> string) \<Rightarrow> pydict \<Rightarrow> tg_msg \<Rightarrow> int \<Rightarrow> chat_target \<times> int option" where
  "continue_target fr a m chat =
     (let target = (case parse_forward_chat_id fr (act_get a ''continue_chat_id'') of None \<Rightarrow> ChatId chat | Some t \<Rightarrow> t)
      in case as_int_or_none fr (act_get a ''continue_message_thread_id'') of
           Some t \<Rightarrow> (target, Some t)
         | None \<Rightarrow> (target, if target = ChatId chat then (case message_thread_candidates m of [] \<Rightarrow> None | t # ts \<Rightarrow> Some t) else None))"

definition continue_interval :: "pydict \<Rightarrow> pyfloat" where
  "continue_interval a =
     (case py_float (look a ''continue_action_interval'' (PInt 1)) of None \<Rightarrow> Fin 1 | Some x \<Rightarrow> fl_max x (Fin 0))"

text \<open>The time a step may take, more for commands to bots; those do not read it themselves.\<close>

definition continue_timeout :: "real \<Rightarrow> pydict \<Rightarrow> pyfloat" where
  "continue_timeout timeout a =
     (if py_int (act_get a ''action'') = Some 9
      then (case as_non_negative_float (act_get a ''send_interval'') (Fin default_bot_interval) of
              Fin x \<Rightarrow> Fin (max timeout (x * of_int (action_max_batch a) + 15))
            | Inf negative \<Rightarrow> Inf negative
            | NaN \<Rightarrow> Fin timeout)
      else Fin timeout)"

text \<open>A plugin runs when it is registered, after the configured ones were loaded if need be, and
  enabled; a result that is missing is a success. Parameters that are no dictionary are an error.\<close>

definition plugin_params :: "py \<Rightarrow> pydict option" where
  "plugin_params x =
     (case x of
        PDict d \<Rightarrow> Some (List.map_filter (\<lambda>(k, v). case k of KS s \<Rightarrow> Some (s, v) | KI i \<Rightarrow> None) d)
      | _ \<Rightarrow> if py_truthy x then None else Some [])"

definition execute_custom_plugin_continue_action :: "'w step_client \<Rightarrow> pydict \<Rightarrow> real \<Rightarrow> 'w \<Rightarrow> (tg_error + bool) \<times> 'w" where
  "execute_custom_plugin_continue_action env a timeout w =
     (let name = py_strip (str_or_blank (cc_fr env) (act_get a ''plugin_name''))
      in if name = [] then (Inr False, w)
         else (let w1 = (if sc_registered env name w then w else sc_load_plugins env w)
               in if \<not> sc_registered env name w1 \<or> \<not> sc_enabled env name w1 then (Inr False, w1)
                  else (case plugin_params (act_get a ''params'') of
                          None \<Rightarrow> (Inl (Failure (exc_of ''TypeError'' ''params'')), w1)
                        | Some ps \<Rightarrow>
                            (case sc_run_plugin env name ps timeout w1 of
                               (Inl e, w2) \<Rightarrow> (Inr False, w2)
                             | (Inr (success, x), w2) \<Rightarrow> (Inr (success \<and> (x = PNone \<or> py_truthy x)), w2)))))"

text \<open>\<open>n\<close> bounds the rounds of the waits.\<close>

definition execute_continue_action ::
  "'w step_client \<Rightarrow> nat \<Rightarrow> string \<Rightarrow> chat_target \<Rightarrow> int option \<Rightarrow> pydict \<Rightarrow> real \<Rightarrow> pydict option \<Rightarrow> tg_msg \<Rightarrow> (string, string) odict \<Rightarrow> pydict
   \<Rightarrow> rate_map \<Rightarrow> 'w \<Rightarrow> ((tg_error + bool) \<times> rate_map \<times> 'w) option" where
  "execute_continue_action env n account target thread a timeout next_a m vars match_action rates w =
     (let sent = (\<lambda>(r, w1). Some (case r of Inl e \<Rightarrow> Inl e | Inr u \<Rightarrow> Inr True, rates, w1))
      in case py_int (act_get a ''action'') of
           None \<Rightarrow> Some (Inl (Failure (exc_of ''ValueError'' ''invalid action'')), rates, w)
         | Some i \<Rightarrow>
             if i = 1 then (let text = py_strip (str_or_blank (cc_fr env) (act_get a ''text''))
                            in if text = [] then Some (Inr False, rates, w) else sent (call_client env (cc_send env target thread text) w))
             else if i = 2 then (let dice = py_strip (str_or_blank (cc_fr env) (act_get a ''dice''))
                                 in sent (call_client env (cc_dice env target thread (if dice = [] then None else Some dice)) w))
             else if i = 9 then execute_bot_link_action env account a m vars (Some match_action) rates w
             else if i = 99 then (case execute_custom_plugin_continue_action env a timeout w of (r, w1) \<Rightarrow> Some (r, rates, w1))
             else map_option (\<lambda>(r, w1). (r, rates, w1)) (run_on_messages env target thread a i next_a (sc_limit env) timeout n w))"

text \<open>The wait before a step; one without end has no world after it.\<close>

definition delayed :: "('w, 'm) link_scheme \<Rightarrow> pyfloat \<Rightarrow> 'w \<Rightarrow> 'w option" where
  "delayed li d w =
     (case d of Fin x \<Rightarrow> Some (if x > 0 then li_sleep li x w else w) | Inf negative \<Rightarrow> if negative then Some w else None | NaN \<Rightarrow> Some w)"

text \<open>The results of the steps taken.\<close>

fun run_steps ::
  "'w step_client \<Rightarrow> nat \<Rightarrow> string \<Rightarrow> chat_target \<times> int option \<Rightarrow> pyfloat \<Rightarrow> bool \<Rightarrow> pydict list \<Rightarrow> tg_msg \<Rightarrow> (string, string) odict \<Rightarrow> pydict
   \<Rightarrow> rate_map \<Rightarrow> 'w \<Rightarrow> ((tg_error + bool) list \<times> rate_map \<times> 'w) option" where
  "run_steps env n account target interval first [] m vars match_action rates w = Some ([], rates, w)"
| "run_steps env n account target interval first (a # as) m vars match_action rates w =
     (let go = (\<lambda>w1. case execute_continue_action env n account (fst target) (snd target) a (sc_timeout env) (case as of [] \<Rightarrow> None | b # bs \<Rightarrow> Some b) m vars match_action rates w1 of
                  None \<Rightarrow> None
                | Some (r, rates1, w2) \<Rightarrow>
                    if r = Inr True
                    then map_option (\<lambda>(rs, x). (r # rs, x)) (run_steps env n account target interval False as m vars match_action rates1 w2)
                    else Some ([r], rates1, w2))
      in case delayed env (resolve_action_delay (cc_fr env) (sc_pause env) a (if first then Fin 0 else interval)) w of
           None \<Rightarrow> None
         | Some w1 \<Rightarrow> go w1)"

definition execute_continue_actions ::
  "'w step_client \<Rightarrow> nat \<Rightarrow> string \<Rightarrow> keyword_rule \<Rightarrow> tg_msg \<Rightarrow> int \<Rightarrow> (string, string) odict \<Rightarrow> rate_map \<Rightarrow> 'w \<Rightarrow> ((tg_error + bool) list \<times> rate_map \<times> 'w) option" where
  "execute_continue_actions env n account r m chat vars rates w =
     (let a = kr_action r; steps = map (render_action_templates vars) (continue_actions a)
      in if steps = [] then Some ([], rates, w)
         else run_steps env n account (continue_target (cc_fr env) a m chat) (continue_interval a) True steps m vars a rates w)"

end
