(* ===== verification/Click_Targets_Props.thy ===== *)
theory Click_Targets_Props
  imports Click_Targets
begin

text \<open>
  What the texts of buttons promise: a number hits a button only as a whole number, the targets read from
  a text are texts without blanks around them, a written list of targets is read back, and reading ends
  at every nesting of JSON.
\<close>

section \<open>Whole numbers\<close>

definition ends_in_digit :: "string \<Rightarrow> bool" where
  "ends_in_digit s \<longleftrightarrow> s \<noteq> [] \<and> ascii_digit (last s)"

definition starts_with_digit :: "string \<Rightarrow> bool" where
  "starts_with_digit s \<longleftrightarrow> s \<noteq> [] \<and> ascii_digit (hd s)"

lemma whole_number_in_iff:
  assumes "t \<noteq> []"
  shows "whole_number_in t d s \<longleftrightarrow>
    (\<exists>a b. s = a @ t @ b \<and> (if a = [] then \<not> d else \<not> ends_in_digit a) \<and> \<not> starts_with_digit b)"
    (is "_ = (\<exists>a b. ?P d s a b)")
proof (induction s arbitrary: d)
  case Nil
  show ?case using assms by simp
next
  case (Cons c cs)
  note IH = Cons.IH
  have "(\<exists>a b. ?P d (c # cs) a b) \<longleftrightarrow> (\<exists>b. ?P d (c # cs) [] b) \<or> (\<exists>a b. ?P d (c # cs) (c # a) b)"
  proof -
    have "(\<exists>a b. Q a b) \<longleftrightarrow> (\<exists>b. Q [] b) \<or> (\<exists>x a b. Q (x # a) b)" for Q :: "string \<Rightarrow> string \<Rightarrow> bool"
      by (metis list.exhaust)
    from this [of "?P d (c # cs)"] show ?thesis
    proof (rule trans)
      have "?P d (c # cs) (x # a) b \<Longrightarrow> x = c" for x a b by simp
      then show "(\<exists>b. ?P d (c # cs) [] b) \<or> (\<exists>x a b. ?P d (c # cs) (x # a) b) \<longleftrightarrow>
          (\<exists>b. ?P d (c # cs) [] b) \<or> (\<exists>a b. ?P d (c # cs) (c # a) b)" by blast
    qed
  qed
  moreover have "(\<exists>b. ?P d (c # cs) [] b) \<longleftrightarrow>
      \<not> d \<and> startswith (c # cs) t \<and> (case drop (length t) (c # cs) of [] \<Rightarrow> True | x # xs \<Rightarrow> \<not> ascii_digit x)"
  proof (cases "startswith (c # cs) t")
    case True
    then obtain b where b: "c # cs = t @ b" unfolding startswith_append by blast
    then have "drop (length t) (c # cs) = b" by simp
    then show ?thesis using True by (cases b) (auto simp: b starts_with_digit_def)
  next
    case False
    then show ?thesis by (metis append_Nil startswith_append)
  qed
  moreover have "?P d (c # cs) (c # a) b \<longleftrightarrow> ?P (ascii_digit c) cs a b" for a b
    by (auto simp: ends_in_digit_def)
  ultimately show ?case using IH [of "ascii_digit c"] by (simp only: whole_number_in.simps)
qed

lemma button_text_matches_number:
  assumes "py_isdigit t"
  shows "button_text_matches t b \<longleftrightarrow> (\<exists>u v. b = u @ t @ v \<and> \<not> ends_in_digit u \<and> \<not> starts_with_digit v)"
proof -
  have t: "t \<noteq> []" using assms by (auto simp: py_isdigit_def)
  have "(\<exists>u v. b = u @ t @ v \<and> \<not> ends_in_digit u \<and> \<not> starts_with_digit v) \<longleftrightarrow> whole_number_in t False b"
    by (subst whole_number_in_iff [OF t]) (auto simp: ends_in_digit_def)
  moreover have "whole_number_in t False t" by (subst whole_number_in_iff [OF t]) (auto simp: starts_with_digit_def intro!: exI [of _ "[]"])
  ultimately show ?thesis using assms t by (auto simp: button_text_matches_def)
qed

section \<open>Targets\<close>

lemma first_split_items: "first_split pss = Some qs \<Longrightarrow> \<exists>ps \<in> set pss. qs = stripped_items ps"
  by (induction pss) (auto simp: Let_def split: if_splits)

definition tidy :: "string \<Rightarrow> bool" where
  "tidy s \<longleftrightarrow> s \<noteq> [] \<and> py_strip s = s"

lemma split_targets_tidy:
  assumes "tidy s"
  shows "list_all tidy (split_targets s)"
proof -
  have "list_all tidy qs" if "first_split pss = Some qs" for pss qs
    using first_split_items [OF that] stripped_items_spec unfolding list_all_iff tidy_def by blast
  then show ?thesis using assms
    by (simp add: split_targets_def split: option.split del: first_split.simps)
qed

lemma parse_click_targets_tidy:
  "parse_click_targets fr loads n bs x = Some ts \<Longrightarrow> list_all tidy ts"
proof (induction n arbitrary: x ts)
  case (Suc n)
  have plain: "list_all tidy ts"
    if "parse_click_targets fr loads (Suc n) bs x = Some ts" "\<not> (\<exists>xs. x = PList xs) \<and> \<not> (\<exists>d. x = PDict d) \<and> x \<noteq> PNone" for x ts
  proof -
    let ?s = "py_strip (py_str fr x)"
    let ?j = "if looks_like_json ?s then Option.bind (loads ?s) (parse_click_targets fr loads n bs) else None"
    have e: "parse_click_targets fr loads (Suc n) bs x = Some (text_targets ?j bs ?s)"
      using that(2) by (cases x) (simp_all add: Let_def)
    have j: "list_all tidy us" if "?j = Some us" for us
      using that Suc.IH by (auto split: if_splits bind_splits)
    have s: "tidy ?s" if "?s \<noteq> []" using that by (simp add: tidy_def)
    show ?thesis using that(1) j s split_targets_tidy [OF s] unfolding e text_targets_def
      by (auto simp: tidy_def split: if_splits option.splits list.splits)
  qed
  show ?case
  proof (cases "(\<exists>xs. x = PList xs) \<or> (\<exists>d. x = PDict d) \<or> x = PNone")
    case True
    then show ?thesis using Suc.prems Suc.IH stripped_items_spec
      by (fastforce simp: list_all_iff tidy_def split: option.splits)
  qed (use plain [OF Suc.prems] in blast)
qed simp

text \<open>How deep a value is for the reading of targets: only a text that looks like JSON is read again.\<close>

fun target_depth :: "(py \<Rightarrow> string) \<Rightarrow> py \<Rightarrow> nat" where
  "target_depth fr PNone = 1"
| "target_depth fr (PList xs) = 1"
| "target_depth fr (PDict d) = Suc (sum_list (map (\<lambda>(k, v). target_depth fr v) d))"
| "target_depth fr x = (if looks_like_json (py_strip (py_str fr x)) then Suc (length (py_str fr x)) else 1)"

lemma target_depth_pos: "0 < target_depth fr x"
  by (cases x) simp_all

lemma first_key_depth: "first_key ks d = Some v \<Longrightarrow> target_depth fr v < target_depth fr (PDict d)"
proof (induction ks)
  case (Cons k ks)
  have "target_depth fr v \<le> sum_list (map (\<lambda>(k, v). target_depth fr v) d)" if "map_of d j = Some v" for j
    using map_of_SomeD [OF that] by (force intro: member_le_sum_list)
  then show ?case using Cons by (fastforce split: option.splits)
qed simp

lemma parse_click_targets_depth:
  assumes json: "\<And>s v. loads s = Some v \<Longrightarrow> target_depth fr v \<le> length s"
  shows "target_depth fr x \<le> n \<Longrightarrow> target_depth fr x \<le> m \<Longrightarrow>
    parse_click_targets fr loads n bs x = parse_click_targets fr loads m bs x \<and> parse_click_targets fr loads n bs x \<noteq> None"
proof (induction n arbitrary: x m)
  case 0
  then show ?case using target_depth_pos [of fr x] by simp
next
  case (Suc n)
  obtain m' where m: "m = Suc m'" using Suc.prems(2) target_depth_pos [of fr x] by (cases m) simp_all
  have plain: ?case if "\<not> (\<exists>xs. x = PList xs) \<and> \<not> (\<exists>d. x = PDict d) \<and> x \<noteq> PNone"
  proof -
    let ?s = "py_strip (py_str fr x)"
    let ?j = "\<lambda>n. if looks_like_json ?s then Option.bind (loads ?s) (parse_click_targets fr loads n bs) else None"
    have e: "parse_click_targets fr loads (Suc n) bs x = Some (text_targets (?j n) bs ?s)" for n
      using that by (cases x) (simp_all add: Let_def)
    have "?j n = ?j m'"
    proof (cases "looks_like_json ?s")
      case True
      then have d: "target_depth fr x = Suc (length (py_str fr x))" using that by (cases x) simp_all
      have "parse_click_targets fr loads n bs v = parse_click_targets fr loads m' bs v" if "loads ?s = Some v" for v
        using Suc.IH [of v m'] json [OF that] length_py_strip [of "py_str fr x"] Suc.prems d m by simp
      then show ?thesis by (cases "loads ?s") simp_all
    qed simp
    then show ?thesis unfolding m e by simp
  qed
  show ?case
  proof (cases "(\<exists>xs. x = PList xs) \<or> x = PNone")
    case True
    then show ?thesis using m by auto
  next
    case False
    show ?thesis
    proof (cases "\<exists>d. x = PDict d")
      case True
      then obtain d where x: "x = PDict d" by blast
      show ?thesis
      proof (cases "first_key target_keys d")
        case (Some v)
        have "target_depth fr v \<le> n" "target_depth fr v \<le> m'"
          using first_key_depth [OF Some, of fr] Suc.prems unfolding x m by linarith+
        then show ?thesis using Suc.IH [of v m'] Some unfolding x m by (metis (no_types, lifting) option.case(2) parse_click_targets.simps(4))
      qed (simp add: x m)
    qed (use plain False in blast)
  qed
qed

section \<open>Written lists\<close>

lemma split_pair_none: "b \<notin> set s \<Longrightarrow> split_pair a b s = [s]"
  by (induction a b s rule: split_pair.induct) auto

lemma stripped_items_tidy: "list_all tidy ts \<Longrightarrow> stripped_items ts = ts"
  by (induction ts) (simp_all add: stripped_items_def tidy_def)

lemma stripped_items_one: "\<not> Suc 0 < length (stripped_items [s])"
  by (simp add: stripped_items_def)

lemma set_join_with: "set (join_with sep ts) \<subseteq> set sep \<union> (\<Union>t \<in> set ts. set t)"
  by (induction sep ts rule: join_with.induct) auto

lemma split_targets_join:
  assumes ts: "length ts > 1" "list_all tidy ts" "\<And>t. t \<in> set ts \<Longrightarrow> set t \<inter> {CHR '','', CHR ''>'', CHR 0x0A} = {}"
    and "\<not> thousands_number (join_with '','' ts)"
  shows "split_targets (join_with '','' ts) = ts"
proof -
  let ?s = "join_with '','' ts"
  have c: "CHR ''>'' \<notin> set ?s" "CHR 0x0A \<notin> set ?s" using set_join_with [of "'',''" ts] ts(3) by auto
  have "split_on CHR '','' ?s = ts" using ts(1,3) by (intro split_join) (auto simp: list_all_iff)
  then show ?thesis using assms c
    by (simp add: split_targets_def split_pair_none split_on_one stripped_items_tidy [OF ts(2)] Let_def stripped_items_one)
qed

section \<open>Properties\<close>

text \<open>
  C29: A target that is a number hits a button exactly when the number stands in the text of the button
  with no digit before or after it, so that 10 does not click 100.
\<close>

theorem number_hits_whole:
  assumes "py_isdigit t"
  shows "button_text_matches t b \<longleftrightarrow>
    (\<exists>before after. b = before @ t @ after \<and> \<not> ends_in_digit before \<and> \<not> starts_with_digit after)"
  by (rule button_text_matches_number [OF assms])

theorem number_hits_whole_witness:
  "button_text_matches ''10'' ''win10!'' \<and> \<not> button_text_matches ''10'' ''100''"
proof
  have d: "py_isdigit ''10''" by code_simp
  show "button_text_matches ''10'' ''win10!''"
    unfolding number_hits_whole [OF d]
    by (intro exI [of _ "''win''"] exI [of _ "''!''"]) (simp add: ends_in_digit_def starts_with_digit_def ascii_digit_def Let_def)
  show "\<not> button_text_matches ''10'' ''100''" by code_simp
qed

text \<open>A number inside a longer target is not guarded: the button 10 is clicked for the target 100points.\<close>

lemma longer_number_hit: "button_text_matches ''100points'' ''10''"
  by code_simp

text \<open>The first button hit is taken, also before one that is the target itself.\<close>

lemma exact_button_passed_over:
  "target_button ''ok'' (Some (InlineKeyboard [[\<lparr>bt_text = Some ''not ok'', bt_data = None\<rparr>, \<lparr>bt_text = Some ''ok'', bt_data = None\<rparr>]])) =
     Some (Inline, \<lparr>bt_text = Some ''not ok'', bt_data = None\<rparr>, ''not ok'')"
  by code_simp

end
