(* ===== verification/Keyword_Clicks_Props.thy ===== *)
theory Keyword_Clicks_Props
  imports Keyword_Clicks Click_Targets_Props
begin

text \<open>
  That the steps on the messages of a chat end: under a clock that does not run backwards, and that a
  sleep moves by its length, so many rounds are enough as there are half seconds to the deadline.
\<close>

section \<open>A clock that runs\<close>

definition later :: "('w \<Rightarrow> time) \<Rightarrow> ('w \<Rightarrow> 'a \<times> 'w) \<Rightarrow> bool" where
  "later now f \<longleftrightarrow> (\<forall>w. now w \<le> now (snd (f w)))"

definition clock_runs :: "('w \<Rightarrow> time) \<Rightarrow> ('w, 'm) chat_client_scheme \<Rightarrow> bool" where
  "clock_runs now cc \<longleftrightarrow>
     (\<forall>s w. now w + max s 0 \<le> now (li_sleep cc s w)) \<and> (\<forall>w. fst (cc_perf cc w) = now w) \<and> later now (cc_perf cc) \<and>
     (\<forall>a b. later now (li_uniform cc a b)) \<and> later now (li_connect cc) \<and> later now (li_get_me cc) \<and> later now (li_initialize cc) \<and>
     (\<forall>c t s. later now (cc_send cc c t s)) \<and> (\<forall>c t s. later now (cc_dice cc c t s)) \<and> (\<forall>c l. later now (cc_history cc c l)) \<and>
     (\<forall>c i. later now (cc_message cc c i)) \<and> (\<forall>c i d. later now (cc_answer cc c i d)) \<and> (\<forall>m t. later now (cc_click cc m t)) \<and>
     (\<forall>m. later now (cc_photo cc m)) \<and> (\<forall>q p. later now (cc_calculate cc q p)) \<and> (\<forall>i p. later now (cc_read_image cc i p)) \<and>
     (\<forall>i q os p. later now (cc_choose cc i q os p))"

lemma laterD: "later now f \<Longrightarrow> f w = (r, w') \<Longrightarrow> now w \<le> now w'"
  by (metis later_def snd_conv)

text \<open>The laws one by one.\<close>

lemma clock_laws:
  assumes "clock_runs now cc"
  shows "now w + max s 0 \<le> now (li_sleep cc s w)" "fst (cc_perf cc w) = now w" "later now (cc_perf cc)" "later now (li_uniform cc a b)"
    "later now (li_connect cc)" "later now (li_get_me cc)" "later now (li_initialize cc)" "later now (cc_send cc c t x)"
    "later now (cc_history cc c l)" "later now (cc_message cc c i)" "later now (cc_answer cc j k x)" "later now (cc_click cc m x)"
    "later now (cc_photo cc m)" "later now (cc_calculate cc x p)" "later now (cc_read_image cc x p)" "later now (cc_choose cc x y os p)"
  using assms unfolding clock_runs_def by simp_all

lemma sleep_later: "clock_runs now cc \<Longrightarrow> now w \<le> now (li_sleep cc s w)"
  using clock_laws(1) [of now cc w s] by linarith

lemma sleep_on: "clock_runs now cc \<Longrightarrow> now u \<le> now w \<Longrightarrow> now u \<le> now (li_sleep cc s w)"
  using sleep_later [of now cc w s] by linarith

lemma later_on: "later now f \<Longrightarrow> f w = (r, w') \<Longrightarrow> now u \<le> now w \<Longrightarrow> now u \<le> now w'"
  using laterD [of now f w r w'] by linarith

lemma initialize_later:
  assumes "clock_runs now cc"
  shows "later now (initialize_once cc)"
  unfolding later_def initialize_once_def
  by (auto split: sum.split tg_error.split prod.split dest: laterD [OF clock_laws(7) [OF assms]])

lemma ensure_later:
  assumes "clock_runs now cc"
  shows "later now (ensure_client_ready cc)"
  unfolding later_def
proof
  fix w
  note on = later_on [OF clock_laws(5) [OF assms]] later_on [OF clock_laws(6) [OF assms]]
  have i: "now u \<le> now v \<Longrightarrow> now u \<le> now (snd (initialize_once cc v))" for u v
    using initialize_later [OF assms] unfolding later_def by (meson order_trans)
  show "now w \<le> now (snd (ensure_client_ready cc w))"
    unfolding ensure_client_ready_def by (auto split: sum.split prod.split intro: i on)
qed

lemma retry_later:
  assumes "clock_runs now cc" "later now call"
  shows "now u \<le> now w \<Longrightarrow> now u \<le> now (snd (retry_calls cc call flood attempt n w))"
proof (induction n arbitrary: attempt w)
  case (Suc n)
  have e: "now u \<le> now v \<Longrightarrow> now u \<le> now (snd (ensure_client_ready cc v))" for v
    using ensure_later [OF assms(1)] unfolding later_def by (meson order_trans)
  show ?case using Suc.prems
    by (auto split: sum.split tg_error.split prod.split
        intro!: Suc.IH sleep_on [OF assms(1)] e elim!: later_on [OF assms(2)] later_on [OF clock_laws(4) [OF assms(1)]])
qed simp

lemma call_client_later:
  assumes "clock_runs now cc" "later now call"
  shows "later now (call_client cc call)"
  unfolding later_def
proof
  fix w
  have "now w \<le> now (snd (call_with_retry cc call 4 w))"
    unfolding call_with_retry_def by (rule retry_later [OF assms order_refl])
  then show "now w \<le> now (snd (call_client cc call w))"
    unfolding call_client_def by (auto split: sum.split option.split prod.split)
qed

lemma load_later:
  assumes "clock_runs now cc"
  shows "later now (load_recent_messages cc chat thread limit)"
  unfolding later_def load_recent_messages_def
  by (auto split: sum.split prod.split dest: laterD [OF call_client_later [OF assms clock_laws(9) [OF assms]]])

section \<open>The waits end\<close>

lemma poll_rounds_end:
  assumes "clock_runs now cc"
  shows "deadline - now w < real n / 2 \<Longrightarrow> poll_rounds cc chat thread limit test deadline (Suc n) w \<noteq> None"
proof (induction n arbitrary: w)
  case 0
  then show ?case using clock_laws(2) [OF assms, of w] by (auto split: prod.split)
next
  case (Suc n)
  obtain t w1 where p: "cc_perf cc w = (t, w1)" by fastforce
  have w1: "now w \<le> now w1" by (rule laterD [OF clock_laws(3) [OF assms] p])
  obtain r w2 where l: "load_recent_messages cc chat thread limit (li_sleep cc (1 / 2) w1) = (r, w2)" by fastforce
  have "now w + 1 / 2 \<le> now w2"
    using laterD [OF load_later [OF assms] l] clock_laws(1) [OF assms, of w1 "1 / 2"] w1 by linarith
  then have d: "deadline - now w2 < real n / 2" using Suc.prems by simp
  show ?case
    by (subst poll_rounds.simps)
      (use Suc.IH [OF d] in \<open>simp add: p l split: sum.split del: poll_rounds.simps\<close>)
qed

lemma poll_chat_end:
  assumes "clock_runs now cc" "max timeout (1 / 2) < real n / 2"
  shows "poll_chat cc chat thread limit test timeout (Suc n) w \<noteq> None"
proof -
  obtain t w1 where p: "cc_perf cc w = (t, w1)" by fastforce
  have "t \<le> now w1" using laterD [OF clock_laws(3) [OF assms(1)] p] clock_laws(2) [OF assms(1), of w] p by simp
  then have "t + max timeout (1 / 2) - now w1 < real n / 2" using assms(2) by linarith
  then show ?thesis unfolding poll_chat_def p by (simp add: poll_rounds_end [OF assms(1)] del: poll_rounds.simps)
qed

section \<open>The operations on a message\<close>

lemma callback_later:
  assumes "clock_runs now cc" "later now call"
  shows "now u \<le> now w \<Longrightarrow> now u \<le> now (snd (request_callback_answer cc call attempt n w))"
proof (induction n arbitrary: attempt w)
  case (Suc n)
  have e: "now u \<le> now v \<Longrightarrow> now u \<le> now (snd (ensure_client_ready cc v))" for v
    using ensure_later [OF assms(1)] unfolding later_def by (meson order_trans)
  show ?case using Suc.prems
    by (auto split: sum.split tg_error.split prod.split
        intro!: Suc.IH sleep_on [OF assms(1)] e elim!: later_on [OF assms(2)])
qed simp

lemma unified_later:
  assumes "clock_runs now cc"
  shows "later now (click_inline_button_unified cc m b)"
  unfolding later_def click_inline_button_unified_def Let_def
  by (auto split: sum.split prod.split option.split dest: laterD [OF clock_laws(12) [OF assms]])

lemma click_inline_later:
  assumes "clock_runs now cc"
  shows "later now (click_inline_button cc m b)"
  unfolding later_def
proof
  fix w
  note u = later_on [OF unified_later [OF assms]]
  have a: "now w \<le> now (snd (request_callback_answer cc (cc_answer cc i j d) 1 3 w))" for i j d
    by (rule callback_later [OF assms clock_laws(11) [OF assms] order_refl])
  have b: "now w \<le> now (snd (click_inline_button_unified cc m b v))" if "now w \<le> now v" for v
    using unified_later [OF assms] that unfolding later_def by (meson order_trans)
  show "now w \<le> now (snd (click_inline_button cc m b w))"
    unfolding click_inline_button_def
    by (auto split: option.split prod.split bool.split intro!: b) (metis a snd_conv)+
qed

lemma press_later:
  assumes "clock_runs now cc"
  shows "later now (press_button cc chat thread m kb)"
  unfolding later_def press_button_def
  by (auto split: sum.split prod.split button_kind.split
      dest: laterD [OF click_inline_later [OF assms]] laterD [OF call_client_later [OF assms clock_laws(8) [OF assms]]])

lemma click_text_later:
  assumes "clock_runs now cc"
  shows "later now (click_keyboard_by_text_result cc chat thread t m)"
  unfolding later_def click_keyboard_by_text_result_def
  by (auto split: sum.split prod.split option.split dest: laterD [OF press_later [OF assms]])

lemma refresh_later:
  assumes "clock_runs now cc"
  shows "later now (refresh_message cc chat m)"
  unfolding later_def refresh_message_def
  by (auto split: sum.split prod.split option.split dest: laterD [OF call_client_later [OF assms clock_laws(10) [OF assms]]])

lemma click_rest_later:
  assumes "clock_runs now cc"
  shows "now u \<le> now w \<Longrightarrow> now u \<le> now (snd (click_rest cc chat thread first ts m started w))"
proof (induction ts arbitrary: first m started w)
  case (Cons t ts)
  have step: "now u \<le> now (snd (case click_keyboard_by_text_result cc chat thread t m1 v of
        (Inl e, w3) \<Rightarrow> (Inl e, w3)
      | (Inr (clicked, matched), w3) \<Rightarrow>
          if \<not> clicked \<or> \<not> matched then (Inr (False, started \<or> clicked), w3) else click_rest cc chat thread False ts m1 True w3))"
    if "now u \<le> now v" for m1 v
    using that by (auto split: sum.split prod.split intro!: Cons.IH elim!: later_on [OF click_text_later [OF assms]])
  have r: "now u \<le> now (snd (refresh_message cc chat m v))" if "now u \<le> now v" for v
    using refresh_later [OF assms] that unfolding later_def by (meson order_trans)
  show ?case
  proof (cases first)
    case True
    then show ?thesis using step [OF Cons.prems] by simp
  next
    case False
    obtain x w1 where x: "li_uniform cc 1 2 w = (x, w1)" by fastforce
    have "now u \<le> now w1" by (rule later_on [OF clock_laws(4) [OF assms] x Cons.prems])
    then have "now u \<le> now (snd (refresh_message cc chat m (li_sleep cc x w1)))" by (intro r sleep_on [OF assms])
    moreover obtain m1 v where v: "refresh_message cc chat m (li_sleep cc x w1) = (m1, v)" by fastforce
    ultimately show ?thesis using step [of v m1] False by (simp add: x)
  qed
qed simp

lemma sequence_later:
  assumes "clock_runs now cc"
  shows "later now (click_keyboard_sequence_result cc chat thread ts m)"
  unfolding later_def click_keyboard_sequence_result_def by (simp add: click_rest_later [OF assms])

lemma run_ai_later: "later now call \<Longrightarrow> later now (run_ai_call label call)"
  by (auto simp: later_def run_ai_call_def Let_def split: sum.split prod.split dest: laterD) (metis snd_conv)+

lemma send_answer_later:
  assumes "clock_runs now cc" "now u \<le> now (snd r)"
  shows "now u \<le> now (snd (send_answer cc chat thread r))"
  using assms(2) unfolding send_answer_def
  by (auto split: sum.split prod.split option.split elim!: later_on [OF call_client_later [OF assms(1) clock_laws(8) [OF assms(1)]]])

lemma click_options_later:
  assumes "clock_runs now cc"
  shows "now u \<le> now w \<Longrightarrow> now u \<le> now (snd (click_options cc chat thread m bs is k w))"
proof (induction "is" arbitrary: k w)
  case (Cons i "is")
  note IH = Cons.IH
  show ?case using Cons.prems
    by (auto split: option.split sum.split prod.split intro!: IH sleep_on [OF assms] elim!: later_on [OF press_later [OF assms]])
qed simp

lemma calculate_later:
  assumes "clock_runs now cc" "now u \<le> now (snd r)"
  shows "now u \<le> now (snd (calculate_and_click cc chat thread m r))"
  using assms(2) unfolding calculate_and_click_def
  by (auto split: sum.split prod.split option.split elim!: later_on [OF sequence_later [OF assms(1)]])

lemma choose_later:
  assumes "clock_runs now cc"
  shows "later now (choose_and_click cc chat thread prompt m)"
  unfolding later_def choose_and_click_def Let_def
  by (auto split: sum.split prod.split intro!: click_options_later [OF assms]
      elim!: later_on [OF clock_laws(16) [OF assms]] dest!: laterD [OF clock_laws(13) [OF assms]])

lemma ai_later:
  assumes "clock_runs now cc"
  shows "later now (execute_ai_action cc chat thread a i m)"
proof -
  have c: "now w \<le> now (snd (run_ai_call label (cc_calculate cc q p) w))" for label q p w
    using run_ai_later [OF clock_laws(14) [OF assms]] by (auto simp: later_def)
  have r: "now u \<le> now (snd (run_ai_call label (cc_read_image cc q p) w))" if "now u \<le> now w" for u label q p w
    using run_ai_later [OF clock_laws(15) [OF assms]] that unfolding later_def by (meson order_trans)
  show ?thesis unfolding later_def execute_ai_action_def Let_def
    using choose_later [OF assms]
    by (auto simp: later_def split: sum.split prod.split intro!: send_answer_later [OF assms] calculate_later [OF assms] c r
        dest: laterD [OF clock_laws(13) [OF assms]])
qed

section \<open>The steps on messages end\<close>

lemma poll_rounds_later:
  assumes "clock_runs now cc"
  shows "poll_rounds cc chat thread limit test deadline n w = Some (r, w') \<Longrightarrow> now w \<le> now w'"
proof (induction n arbitrary: w)
  case (Suc n)
  obtain t w1 where p: "cc_perf cc w = (t, w1)" by fastforce
  have w1: "now w \<le> now w1" by (rule laterD [OF clock_laws(3) [OF assms] p])
  obtain q w2 where l: "load_recent_messages cc chat thread limit (li_sleep cc (1 / 2) w1) = (q, w2)" by fastforce
  have w2: "now w \<le> now w2" by (rule later_on [OF load_later [OF assms] l sleep_on [OF assms w1]])
  show ?case
  proof (cases "t < deadline")
    case True
    then show ?thesis using Suc.prems Suc.IH [of w2] w2
      by (cases q) (auto simp: p l split: if_splits)
  qed (use Suc.prems w1 p in auto)
qed simp

lemma poll_chat_later:
  assumes "clock_runs now cc" "poll_chat cc chat thread limit test timeout n w = Some (r, w')"
  shows "now w \<le> now w'"
  using assms(2) laterD [OF clock_laws(3) [OF assms(1)]] poll_rounds_later [OF assms(1)]
  unfolding poll_chat_def by (fastforce split: prod.splits)

lemmas wait_defs = wait_for_chat_advance_def wait_for_continue_action_candidate_def wait_for_terminal_success_def

lemma follow_click_end:
  assumes "clock_runs now cc" "max timeout (1 / 2) < real n / 2"
  shows "follow_click cc chat thread next_a before limit (min 6 timeout) (Suc n) w \<noteq> None"
proof -
  have "max (min 6 timeout) (1 / 2) < real n / 2" using assms(2) by linarith
  from poll_chat_end [OF assms(1) this] show ?thesis
    unfolding follow_click_def wait_defs by (cases next_a) (simp_all add: poll_rounds.simps [abs_def] del: poll_rounds.simps)
qed

lemma follow_click_later:
  assumes "clock_runs now cc" "follow_click cc chat thread next_a before limit timeout n w = Some (r, w')"
  shows "now w \<le> now w'"
  using assms(2) poll_chat_later [OF assms(1)] unfolding follow_click_def wait_defs by (auto split: option.splits if_splits)

lemma try_message_end:
  assumes "clock_runs now cc" "max timeout (1 / 2) < real n / 2"
  shows "\<exists>r w'. try_message cc chat thread a i next_a limit timeout (Suc n) recent m w = Some (r, w') \<and> now w \<le> now w'"
proof (cases "i = 3")
  case False
  obtain r w1 where e: "execute_ai_action cc chat thread a i m w = (r, w1)" by fastforce
  show ?thesis using False laterD [OF ai_later [OF assms(1)] e] by (cases r) (simp_all add: try_message_def e)
next
  case True
  let ?text = "str_or_blank (cc_fr cc) (act_get a ''text'')"
  obtain q w1 where c: "click_keyboard_by_text_result cc chat thread ?text m w = (q, w1)" by fastforce
  obtain f w2 where f: "follow_click cc chat thread next_a (messages_state recent) limit (min 6 timeout) (Suc n) w1 = Some (f, w2)"
    using follow_click_end [OF assms] by fastforce
  have w1: "now w \<le> now w1" by (rule laterD [OF click_text_later [OF assms(1)] c])
  have w2: "now w \<le> now w2" using follow_click_later [OF assms(1) f] w1 by linarith
  show ?thesis
  proof (cases "parse_click_targets (cc_fr cc) (cc_loads cc) (cc_depth cc) (button_texts (cm_markup m)) (PStr ?text)")
    case (Some ts)
    obtain g w3 where g: "click_keyboard_sequence_result cc chat thread ts m w = (g, w3)" by fastforce
    have w3: "now w \<le> now w3" by (rule laterD [OF sequence_later [OF assms(1)] g])
    show ?thesis using True w1 w2 w3
      by (cases q; cases g; cases f) (auto simp: try_message_def Some c f g Let_def)
  qed (simp add: try_message_def True Let_def)
qed

lemma try_messages_end:
  assumes "clock_runs now cc" "max timeout (1 / 2) < real n / 2"
  shows "\<exists>r w'. try_messages cc chat thread a i next_a limit timeout (Suc n) recent ms w = Some (r, w') \<and> now w \<le> now w'"
proof (induction ms arbitrary: w)
  case (Cons m ms)
  note IH = Cons.IH
  obtain r w1 where t: "try_message cc chat thread a i next_a limit timeout (Suc n) recent m w = Some (r, w1)" "now w \<le> now w1"
    using try_message_end [OF assms] by blast
  obtain r2 w2 where "try_messages cc chat thread a i next_a limit timeout (Suc n) recent ms w1 = Some (r2, w2)" "now w1 \<le> now w2"
    using IH by blast
  then show ?case using t by (cases r; cases "\<exists>x. r = Inr None") (auto split: option.split)
qed simp

lemma message_rounds_end:
  assumes "clock_runs now cc" "max timeout (1 / 2) < real k / 2"
  shows "deadline - now w < real n / 2 \<Longrightarrow> message_rounds cc chat thread a i next_a limit timeout (Suc k) deadline (Suc n) w \<noteq> None"
proof (induction n arbitrary: w)
  case 0
  then show ?case using clock_laws(2) [OF assms(1), of w] by (auto split: prod.split)
next
  case (Suc n)
  obtain t w1 where p: "cc_perf cc w = (t, w1)" by fastforce
  have w1: "now w \<le> now w1" by (rule laterD [OF clock_laws(3) [OF assms(1)] p])
  obtain q w2 where l: "load_recent_messages cc chat thread limit w1 = (q, w2)" by fastforce
  have w2: "now w \<le> now w2" by (rule later_on [OF load_later [OF assms(1)] l w1])
  show ?case
  proof (cases "t < deadline \<and> \<not> isl q")
    case True
    then obtain recent where q: "q = Inr recent" by (cases q) auto
    obtain r w3 where t: "try_messages cc chat thread a i next_a limit timeout (Suc k) recent
        (filter (\<lambda>m. message_supports_action m i) recent) w2 = Some (r, w3)" "now w2 \<le> now w3"
      using try_messages_end [OF assms] by blast
    have "now w + 1 / 2 \<le> now (li_sleep cc (1 / 2) w3)" using clock_laws(1) [OF assms(1), of w3 "1 / 2"] w2 t(2) by linarith
    then have d: "deadline - now (li_sleep cc (1 / 2) w3) < real n / 2" using Suc.prems by simp
    show ?thesis using Suc.IH [OF d]
      by (subst message_rounds.simps) (simp add: p l q t(1) split: sum.split option.split del: message_rounds.simps)
  next
    case False
    then show ?thesis by (subst message_rounds.simps) (cases q; simp add: p l del: message_rounds.simps)
  qed
qed

lemma run_on_messages_end:
  assumes "clock_runs now cc" "max timeout (1 / 2) < real n / 2"
  shows "run_on_messages cc chat thread a i next_a limit timeout (Suc n) w \<noteq> None"
proof -
  obtain t w1 where p: "cc_perf cc w = (t, w1)" by fastforce
  have "t \<le> now w1" using laterD [OF clock_laws(3) [OF assms(1)] p] clock_laws(2) [OF assms(1), of w] p by simp
  then have "t + timeout - now w1 < real n / 2" using assms(2) by linarith
  then show ?thesis unfolding run_on_messages_def p
    by (simp add: message_rounds_end [OF assms] del: message_rounds.simps)
qed

section \<open>Properties\<close>

text \<open>
  C27: A step that looks for a usable message ends: with a clock that does not run backwards and that a
  sleep moves on, it returns or raises within two rounds for each second of its timeout, and so do the
  waits after a click.
\<close>

theorem steps_end:
  assumes "clock_runs now cc" "max timeout (1 / 2) < real n / 2"
  shows "run_on_messages cc chat thread a i next_a limit timeout (Suc n) w \<noteq> None"
  by (rule run_on_messages_end [OF assms])

text \<open>A client in a silent chat, its world the time.\<close>

definition silent_client :: "real chat_client" where
  "silent_client = \<lparr>li_sleep = (\<lambda>s w. w + max s 0), li_uniform = (\<lambda>a b w. (a, w)), li_connected = (\<lambda>w. True),
     li_initialized = (\<lambda>w. True), li_connect = (\<lambda>w. (Inr True, w)), li_get_me = (\<lambda>w. (Inr (), w)), li_initialize = (\<lambda>w. (Inr (), w)),
     cc_perf = (\<lambda>w. (w, w)), cc_send = (\<lambda>c t s w. (Inr (), w)), cc_dice = (\<lambda>c t s w. (Inr (), w)), cc_history = (\<lambda>c l w. (Inr [], w)),
     cc_message = (\<lambda>c i w. (Inr None, w)), cc_answer = (\<lambda>c i d w. (Inr (), w)), cc_click = (\<lambda>m t w. (Inr True, w)),
     cc_photo = (\<lambda>m w. (Inr [], w)), cc_ai_ready = (\<lambda>w. False), cc_calculate = (\<lambda>q p w. (Inr None, w)),
     cc_read_image = (\<lambda>q p w. (Inr None, w)), cc_choose = (\<lambda>i q os p w. (Inr [], w)), cc_fr = (\<lambda>x. []), cc_loads = (\<lambda>s. None), cc_depth = 9\<rparr>"

lemma silent_client_runs: "clock_runs (\<lambda>w. w) silent_client"
  by (simp add: clock_runs_def later_def silent_client_def)

theorem steps_end_witness:
  "run_on_messages silent_client (ChatId 7) None [(''action'', PInt 3), (''text'', PStr ''go'')] 3 None 10 25 52 0 \<noteq> None"
  using steps_end [OF silent_client_runs, of 25 51 "ChatId 7" None "[(''action'', PInt 3), (''text'', PStr ''go'')]" 3 None 10 0]
  by simp

text \<open>Buttons clicked in turn are not clicked again: where one was clicked and a later one failed, the
  step ends without success at once.\<close>

lemma partial_clicks_end_step:
  assumes "parse_click_targets (cc_fr cc) (cc_loads cc) (cc_depth cc) (button_texts (cm_markup m))
      (PStr (str_or_blank (cc_fr cc) (act_get a ''text''))) = Some ts" "length ts > 1"
    and "click_keyboard_sequence_result cc chat thread ts m w = (Inr (False, True), w1)"
  shows "try_messages cc chat thread a 3 next_a limit timeout n recent (m # ms) w = Some (Inr (Some False), w1)"
  using assms by (simp add: try_message_def Let_def)

text \<open>The buttons a model chooses are: after a click on the first, an index out of range ends the message
  without success, and the round goes on with the next one.\<close>

definition two_buttons :: "(button_kind \<times> button \<times> string) list" where
  "two_buttons = [(Reply, \<lparr>bt_text = Some ''a'', bt_data = None\<rparr>, ''a''), (Reply, \<lparr>bt_text = Some ''b'', bt_data = None\<rparr>, ''b'')]"

lemma clicked_options_fail:
  "fst (click_options silent_client (ChatId 7) None m two_buttons [1, 3] 0 w) = Inr False \<and>
   press_button silent_client (ChatId 7) None m (two_buttons ! 0) w = (Inr True, w)"
  by (simp add: two_buttons_def silent_client_def press_button_def call_client_def call_with_retry_def option_index_def numeral_eq_Suc)

end
