(* ===== verification/Keyword_Continue_Props.thy ===== *)
theory Keyword_Continue_Props
  imports Keyword_Continue Keyword_Clicks_Props
begin

text \<open>
  What the steps after a hit promise: they run in their order up to the first that does not succeed, a
  batch of commands has a bound and no repetition, links are read as they were written, and two
  commands of an account to a bot stand apart by the interval.
\<close>

section \<open>The steps of a rule\<close>

lemma run_steps_results:
  "run_steps env n account target interval first as m vars match_action rates w = Some (rs, x) \<Longrightarrow>
    length rs \<le> length as \<and> (\<forall>r \<in> set (butlast rs). r = Inr True) \<and>
    (length rs < length as \<longrightarrow> rs \<noteq> [] \<and> last rs \<noteq> Inr True)"
proof (induction "as" arbitrary: first rates w rs x)
  case (Cons a "as")
  note IH = Cons.IH
  obtain w1 where d: "delayed env (resolve_action_delay (cc_fr env) (sc_pause env) a (if first then Fin 0 else interval)) w = Some w1"
    using Cons.prems by (auto simp: Let_def split: option.splits)
  obtain r rates1 w2 where e: "execute_continue_action env n account (fst target) (snd target) a (sc_timeout env)
      (case as of [] \<Rightarrow> None | b # bs \<Rightarrow> Some b) m vars match_action rates w1 = Some (r, rates1, w2)"
    using Cons.prems d by (auto simp: Let_def split: option.splits)
  show ?case
  proof (cases "r = Inr True")
    case True
    obtain rs1 x1 where s: "run_steps env n account target interval False as m vars match_action rates1 w2 = Some (rs1, x1)"
      and rs: "rs = r # rs1"
      using Cons.prems d e True by (auto simp: Let_def split: option.splits)
    have "rs1 \<noteq> [] \<or> as = []" using IH [OF s] by auto
    then show ?thesis using IH [OF s] True unfolding rs by (cases rs1) auto
  next
    case False
    have "rs = [r]" using Cons.prems d e False by (simp add: Let_def split: option.splits)
    then show ?thesis using False by simp
  qed
qed simp

section \<open>Links\<close>

text \<open>A link as it is written, and the names that can stand in one.\<close>

definition start_link :: "string \<times> string \<Rightarrow> string" where
  "start_link bp = ''https://t.me/'' @ fst bp @ ''?start='' @ snd bp"

definition link_names :: "string \<times> string \<Rightarrow> bool" where
  "link_names bp \<longleftrightarrow>
     list_all bot_char (fst bp) \<and> 4 \<le> length (fst bp) \<and> length (fst bp) \<le> 32 \<and> ident_start (hd (fst bp)) \<and> hd (fst bp) \<noteq> CHR ''_'' \<and>
     list_all param_char (snd bp) \<and> snd bp \<noteq> []"

lemma ci_startswith_append: "py_lower p = p \<Longrightarrow> ci_startswith (p @ s) p"
  by (simp add: ci_startswith_def)

lemma takeWhile_all_append: "list_all P xs \<Longrightarrow> (ys = [] \<or> \<not> P (hd ys)) \<Longrightarrow> takeWhile P (xs @ ys) = xs"
  by (cases ys) (auto simp: list_all_iff takeWhile_append)

lemma link_head_link:
  assumes "link_names bp" "rest = [] \<or> \<not> param_char (hd rest)"
  shows "link_head (start_link bp @ rest) = Some (fst bp, snd bp, rest)"
proof -
  obtain b p where bp: "bp = (b, p)" by fastforce
  have q: "\<not> bot_char CHR ''?''" by code_simp
  have b: "takeWhile bot_char (b @ ''?start='' @ p @ rest) = b"
    using assms(1) q by (intro takeWhile_all_append) (simp_all add: bp link_names_def)
  have p: "takeWhile param_char (p @ rest) = p"
    using assms by (intro takeWhile_all_append) (simp_all add: bp link_names_def)
  have l: "py_lower ''https://'' = ''https://''" "py_lower ''t.me/'' = ''t.me/''" "py_lower ''?start='' = ''?start=''" by code_simp+
  have h: "after_prefix [''https://'', ''http://''] (''https://'' @ s) = Some s" for s
    using ci_startswith_append [OF l(1), of s] by simp
  have t: "after_prefix [''t.me/'', ''telegram.me/'', ''telegram.dog/''] (''t.me/'' @ s) = Some s" for s
    using ci_startswith_append [OF l(2), of s] by simp
  have d: "after_prefix [''?start=''] (''?start='' @ s) = Some s" for s
    using ci_startswith_append [OF l(3), of s] by simp
  have e: "start_link bp @ rest = ''https://'' @ ''t.me/'' @ b @ ''?start='' @ p @ rest" by (simp add: bp start_link_def)
  show ?thesis unfolding e link_head_def h t Let_def option.case b append_eq_conv_conj [THEN iffD1, OF refl]
    using assms(1) d [of "p @ rest"] p by (simp add: bp link_names_def del: after_prefix.simps)
qed

lemma start_links_space: "start_links (CHR '' '' # s) = start_links s"
proof -
  have "link_head (CHR '' '' # s) = None"
    by (simp add: link_head_def ci_startswith_def py_lower_def Let_def)
  then show ?thesis by (subst start_links.simps) simp
qed

lemma start_links_written:
  "list_all link_names bps \<Longrightarrow> start_links (join_with '' '' (map start_link bps)) = bps"
proof (induction "'' ''" "map start_link bps" arbitrary: bps rule: join_with.induct)
  case 1
  then show ?case by (subst start_links.simps) (simp add: link_head_def ci_startswith_def Let_def)
next
  case (2 x)
  then obtain bp where bps: "bps = [bp]" "x = start_link bp" by auto
  have "link_head (start_link bp @ []) = Some (fst bp, snd bp, [])" using 2 bps by (intro link_head_link) simp_all
  then have "start_links (start_link bp) = (fst bp, snd bp) # start_links []" by (subst start_links.simps) simp
  moreover have "start_links [] = []" by (subst start_links.simps) (simp add: link_head_def ci_startswith_def Let_def)
  ultimately show ?case using bps by simp
next
  case (3 x y ys)
  then obtain bp bps1 where bps: "bps = bp # bps1" "x = start_link bp" "y # ys = map start_link bps1" by auto
  let ?r = "join_with '' '' (map start_link bps1)"
  have "\<not> param_char CHR '' ''" by code_simp
  then have "link_head (start_link bp @ CHR '' '' # ?r) = Some (fst bp, snd bp, CHR '' '' # ?r)"
    using 3(3) bps by (intro link_head_link) simp_all
  then have "start_links (start_link bp @ CHR '' '' # ?r) = (fst bp, snd bp) # start_links ?r"
    by (subst start_links.simps) (simp add: start_links_space)
  moreover have "start_links ?r = bps1" using 3(1) [OF bps(3)] 3(3) bps(1,3) by simp
  ultimately show ?case using bps(2) by (simp add: bps(1) bps(3) [symmetric])
qed

lemma fold_add_job_new:
  "distinct (map job_key (js @ bps)) \<Longrightarrow> fold add_job bps js = js @ bps"
proof (induction bps arbitrary: js)
  case (Cons j bps)
  have "job_key j \<notin> job_key ` set js" using Cons.prems by auto
  then show ?case using Cons.IH [of "js @ [j]"] Cons.prems by (simp add: add_job_def)
qed simp

section \<open>Batches\<close>

definition jobs_ok :: "(string \<times> string) list \<Rightarrow> bool" where
  "jobs_ok js \<longleftrightarrow> distinct (map job_key js) \<and> list_all (\<lambda>j. tidy (fst j) \<and> tidy (snd j)) js"

lemma append_job_ok: "jobs_ok js \<Longrightarrow> jobs_ok (append_job j js)"
  by (auto simp: jobs_ok_def append_job_def add_job_def bot_name_def tidy_def Let_def)

lemma fold_append_job_ok: "jobs_ok js \<Longrightarrow> jobs_ok (fold append_job bps js)"
  by (induction bps arbitrary: js) (simp_all add: append_job_ok)

lemma jobs_ok_Nil: "jobs_ok []"
  by (simp add: jobs_ok_def)

lemma jobs_ok_take: "jobs_ok js \<Longrightarrow> jobs_ok (take n js)"
  using set_take_subset [of n js] by (auto simp: jobs_ok_def list_all_iff take_map [symmetric])

lemma linked_jobs_ok: "jobs_ok (linked_jobs fr a text)"
  by (simp add: linked_jobs_def Let_def jobs_ok_Nil fold_append_job_ok)

lemma keyword_jobs_ok: "keyword_jobs fr rx a text vars match_action = Inr js \<Longrightarrow> jobs_ok js"
  unfolding keyword_jobs_def Let_def
  by (simp split: sum.split_asm) (metis fold_append_job_ok jobs_ok_Nil)

lemma collect_jobs_ok:
  assumes "collect_bot_cmd_jobs fr rx a text vars match_action = Inr js"
  shows "jobs_ok js \<and> length js \<le> nat (action_max_batch a)"
proof -
  obtain ks where "js = take (nat (action_max_batch a)) ks" "jobs_ok ks"
    using assms linked_jobs_ok [of fr a "text"] keyword_jobs_ok [of fr rx a "text" vars match_action]
    unfolding collect_bot_cmd_jobs_def Let_def by (auto split: if_splits sum.splits)
  then show ?thesis by (simp add: jobs_ok_take)
qed

section \<open>The interval between commands\<close>

text \<open>Grants of slots in time, with whatever else moves the clock between them: key, interval and time.\<close>

inductive slots :: "('w \<Rightarrow> time) \<Rightarrow> 'w step_client \<Rightarrow> rate_map \<Rightarrow> 'w \<Rightarrow> (string \<times> real \<times> time) list \<Rightarrow> bool"
  for now :: "'w \<Rightarrow> time" and env :: "'w step_client" where
  slots_start: "slots now env [] w []"
| slots_pass: "slots now env m w gs \<Longrightarrow> now w \<le> now v \<Longrightarrow> slots now env m v gs"
| slots_grant: "slots now env m w gs \<Longrightarrow> await_bot_cmd_slot env key interval m w = (m', v) \<Longrightarrow>
    slots now env m' v (gs @ [(key, interval, look m' key 0)])"

definition monotonic_clock :: "('w \<Rightarrow> time) \<Rightarrow> 'w step_client \<Rightarrow> bool" where
  "monotonic_clock now env \<longleftrightarrow>
     (\<forall>w. fst (sc_clock env w) = now w \<and> now w \<le> now (snd (sc_clock env w))) \<and> (\<forall>s w. now w + max s 0 \<le> now (li_sleep env s w))"

lemma map_of_recent: "map_of d k = Some t \<Longrightarrow> \<not> t \<le> c \<Longrightarrow> map_of (filter (\<lambda>(k, t). \<not> t \<le> c) d) k = Some t"
  by (induction d) (auto split: if_splits)

lemma prune_keeps_recent: "map_of m k = Some t \<Longrightarrow> \<not> t \<le> now - stale_after \<Longrightarrow> map_of (prune_bot_cmd_rate_map now m) k = Some t"
  by (simp add: prune_bot_cmd_rate_map_def map_of_recent)

lemma take_slot_key: "map_of (take_slot t key m) key = Some t"
  unfolding take_slot_def by (rule prune_keeps_recent) (simp_all add: od_map_of_update stale_after_def)

lemma take_slot_other:
  "map_of m k = Some t \<Longrightarrow> k \<noteq> key \<Longrightarrow> \<not> t \<le> now - stale_after \<Longrightarrow> map_of (take_slot now key m) k = Some t"
  unfolding take_slot_def by (rule prune_keeps_recent) (simp_all add: od_map_of_update)

text \<open>A slot is granted after the wait the map asks for, and is in the map.\<close>

lemma await_slot:
  assumes "monotonic_clock now env" "await_bot_cmd_slot env key interval m w = (m', v)"
  obtains t where "m' = take_slot t key m" "now w \<le> t" "t \<le> now v"
    "\<And>t0. map_of m key = Some t0 \<Longrightarrow> t0 + interval \<le> t \<or> interval \<le> 0"
proof -
  have laws: "fst (sc_clock env x) = now x" "now x \<le> now (snd (sc_clock env x))" "now x + max s 0 \<le> now (li_sleep env s x)" for x s
    using assms(1) by (simp_all add: monotonic_clock_def)
  obtain w1 where c: "sc_clock env w = (now w, w1)" "now w \<le> now w1"
    using laws(1,2) [of w] by (metis prod.collapse)
  show thesis
  proof (cases "interval \<le> 0")
    case True
    then show ?thesis using that [of "now w"] assms(2) c by (simp add: await_bot_cmd_slot_def)
  next
    case False
    let ?wait = "slot_wait m key interval (now w)"
    let ?w2 = "if ?wait > 0 then li_sleep env ?wait w1 else w1"
    obtain w3 where d: "sc_clock env ?w2 = (now ?w2, w3)" "now ?w2 \<le> now w3"
      using laws(1,2) [of ?w2] by (metis prod.collapse)
    have m': "m' = take_slot (now ?w2) key m" "v = w3"
      using assms(2) False c(1) d(1) by (simp_all add: await_bot_cmd_slot_def Let_def split: if_splits)
    have w2: "now w + max ?wait 0 \<le> now ?w2" using laws(3) [of w1 ?wait] c(2) by auto
    have "t0 + interval \<le> now ?w2" if "map_of m key = Some t0" for t0
    proof -
      have "interval - (now w - t0) \<le> ?wait" using False that by (simp add: slot_wait_def look_def)
      then show ?thesis using w2 by linarith
    qed
    then show ?thesis using that [OF m'(1)] w2 d(2) m'(2) by fastforce
  qed
qed

text \<open>A grant is still in the map, or long ago; none lies in the future.\<close>

lemma slots_remembered:
  assumes "monotonic_clock now env" "slots now env m w gs"
  shows "(k, i, t) \<in> set gs \<Longrightarrow> t \<le> now w \<and> (now w \<ge> t + stale_after \<or> (\<exists>t' \<ge> t. map_of m k = Some t'))"
  using assms(2)
proof (induction arbitrary: k i t rule: slots.induct)
  case (slots_pass m w gs v)
  then show ?case by fastforce
next
  case (slots_grant m w gs key interval m' v)
  obtain s where s: "m' = take_slot s key m" "now w \<le> s" "s \<le> now v"
    by (rule await_slot [OF assms(1) slots_grant.hyps(2)]) blast
  show ?case
  proof (cases "(k, i, t) \<in> set gs")
    case True
    note g = slots_grant.IH [OF True]
    show ?thesis
    proof (cases "k = key \<or> now v \<ge> t + stale_after")
      case True
      then show ?thesis using g s take_slot_key [of s key m] by auto
    next
      case False
      then obtain t' where t': "t' \<ge> t" "map_of m k = Some t'" using g s by auto
      have "\<not> t' \<le> s - stale_after" using False s(3) t'(1) by linarith
      then show ?thesis using take_slot_other [OF t'(2), of key s] False t'(1) g s by auto
    qed
  next
    case False
    then have "k = key" "t = s" using slots_grant.prems take_slot_key [of s key m] s(1) by (auto simp: look_def)
    then show ?thesis using s take_slot_key [of s key m] by auto
  qed
qed simp

lemma slots_spaced:
  assumes "monotonic_clock now env" "slots now env m w gs"
  shows "p < q \<Longrightarrow> q < length gs \<Longrightarrow> gs ! p = (k, i, t) \<Longrightarrow> gs ! q = (k, j, u) \<Longrightarrow> j \<le> stale_after \<Longrightarrow> t + j \<le> u \<or> j \<le> 0"
  using assms(2)
proof (induction arbitrary: p q k i t j u rule: slots.induct)
  case (slots_pass m w gs v)
  then show ?case by blast
next
  case (slots_grant m w gs key interval m' v)
  obtain s where s: "m' = take_slot s key m" "now w \<le> s"
    "\<And>t0. map_of m key = Some t0 \<Longrightarrow> t0 + interval \<le> s \<or> interval \<le> 0"
    by (rule await_slot [OF assms(1) slots_grant.hyps(2)]) blast
  show ?case
  proof (cases "q < length gs")
    case True
    then show ?thesis using slots_grant.prems slots_grant.IH [of p q k i t j u] by (simp add: nth_append)
  next
    case False
    then have q: "q = length gs" "p < length gs" using slots_grant.prems by simp_all
    then have k: "k = key" "j = interval" "u = s"
      using slots_grant.prems(4) take_slot_key [of s key m] s(1) by (auto simp: nth_append look_def)
    have "(k, i, t) \<in> set gs" using slots_grant.prems(3) q(2) by (metis nth_append nth_mem)
    from slots_remembered [OF assms(1) slots_grant.hyps(1) this]
    consider "now w \<ge> t + stale_after" | t' where "t' \<ge> t" "map_of m key = Some t'" using k(1) by blast
    then show ?thesis
    proof cases
      case 1
      then show ?thesis using s(2) k slots_grant.prems(5) by linarith
    next
      case 2
      then show ?thesis using s(3) [of t'] k by linarith
    qed
  qed
qed simp

section \<open>Properties\<close>


text \<open>A client in a silent chat with the rest of what the steps use.\<close>

definition silent_steps :: "real step_client" where
  "silent_steps = chat_client.extend silent_client
     (step_client.fields (\<lambda>w. (w, w)) (\<lambda>a b. a) (\<lambda>i p s. []) 10 25 (\<lambda>s w. False) (\<lambda>w. w) (\<lambda>s w. False) (\<lambda>s ps t w. (Inr (True, PNone), w)))"

definition three_steps :: keyword_rule where
  "three_steps = \<lparr>kr_account = ''a'', kr_task = ''t'', kr_chat_id = 7, kr_chat_name = ''c'', kr_thread_id = None, kr_senders = None,
     kr_action = [(''continue_actions'', PList
       [PDict [(KS ''action'', PInt 1), (KS ''text'', PStr ''hi'')], PDict [(KS ''action'', PInt 1), (KS ''text'', PStr '' '')],
        PDict [(KS ''action'', PInt 2)]])]\<rparr>"

definition any_msg :: tg_msg where
  "any_msg = \<lparr>ms_id = Some 1, ms_text = Some ''x'', ms_caption = None, ms_link = None,
     ms_chat = \<lparr>ch_id = Some 7, ch_title = None, ch_username = None\<rparr>, ms_from = None, ms_thread_id = None, ms_direct_topic_id = None,
     ms_reply_top_id = None, ms_reply_id = None, ms_topic_id = None\<rparr>"

lemma three_steps_run:
  "execute_continue_actions silent_steps 9 ''a'' three_steps any_msg 7 [] [] 0 = Some ([Inr True, Inr False], [], 1)"
  by code_simp


text \<open>
  C25: However commands and time interleave, two commands of an account to the same bot are granted at
  least the interval of the later one apart, for intervals up to five minutes, although old entries of
  the map are dropped.
\<close>

theorem commands_spaced:
  assumes "monotonic_clock now env" "slots now env m w gs" "p < q" "q < length gs"
    and "gs ! p = (key, i, t)" "gs ! q = (key, j, u)" "0 < j" "j \<le> 300"
  shows "t + j \<le> u"
  using slots_spaced [OF assms(1-6)] assms(7,8) by (simp add: stale_after_def)

lemma silent_steps_clock: "monotonic_clock (\<lambda>w. w) silent_steps"
  by (simp add: monotonic_clock_def silent_steps_def silent_client_def chat_client.defs step_client.defs)

lemma two_slots: "slots (\<lambda>w. w) silent_steps [(''a:bot'', 1002)] 1002 [(''a:bot'', 2, 1000), (''a:bot'', 2, 1002)]"
proof -
  have "slots (\<lambda>w. w) silent_steps [] 1000 []" by (rule slots_start)
  from slots_grant [OF this, of "''a:bot''" 2 "[(''a:bot'', 1000)]" 1000]
  have "slots (\<lambda>w. w) silent_steps [(''a:bot'', 1000)] 1000 [(''a:bot'', 2, 1000)]"
    by (simp add: await_bot_cmd_slot_def slot_wait_def look_def take_slot_def prune_bot_cmd_rate_map_def max_rates_def
        silent_steps_def silent_client_def chat_client.defs step_client.defs)
  from slots_grant [OF this, of "''a:bot''" 2 "[(''a:bot'', 1002)]" 1002]
  show ?thesis
    by (simp add: await_bot_cmd_slot_def slot_wait_def look_def take_slot_def prune_bot_cmd_rate_map_def max_rates_def
        silent_steps_def silent_client_def chat_client.defs step_client.defs)
qed

theorem commands_spaced_witness:
  "slots (\<lambda>w. w) silent_steps [(''a:bot'', 1002)] 1002 [(''a:bot'', 2, 1000), (''a:bot'', 2, 1002)] \<and> (1000 :: real) + 2 \<le> 1002"
  by (rule conjI [OF two_slots commands_spaced [OF silent_steps_clock two_slots, of 0 1]]) simp_all

text \<open>A longer interval is not kept: in a full map the entry is dropped after five minutes.\<close>

lemma long_interval_forgotten:
  assumes "od_wf m" "length m > max_rates" "map_of m k = Some t" "k \<noteq> key" "t \<le> now - stale_after"
  shows "map_of (take_slot now key m) k = None"
proof -
  let ?m = "AList.update key now m"
  have w: "od_wf ?m" using assms(1) by simp
  have "length ?m > max_rates" using assms(2) by (simp add: od_length_update)
  moreover have "map_of (filter (\<lambda>(k, t). \<not> t \<le> now - stale_after) ?m) k = None"
  proof (rule ccontr)
    assume "map_of (filter (\<lambda>(k, t). \<not> t \<le> now - stale_after) ?m) k \<noteq> None"
    then obtain u where "map_of (filter (\<lambda>(k, t). \<not> t \<le> now - stale_after) ?m) k = Some u" by blast
    then have u: "(k, u) \<in> set ?m" "\<not> u \<le> now - stale_after" using map_of_SomeD by fastforce+
    have "map_of ?m k = Some t" using assms(3,4) by (simp add: od_map_of_update)
    then have "u = t" using u(1) w map_of_is_SomeI [of ?m k u] by simp
    then show False using u(2) assms(5) by simp
  qed
  ultimately show ?thesis by (simp add: take_slot_def prune_bot_cmd_rate_map_def)
qed

text \<open>
  C28: Links are read as they are written: of a text of start links with valid names, apart by blanks and
  none twice, exactly these links are extracted, in their order.
\<close>

theorem links_read_back:
  assumes "list_all link_names bps" "distinct (map job_key bps)"
  shows "extract_tg_start_links (join_with '' '' (map start_link bps)) = bps"
  using start_links_written [OF assms(1)] fold_add_job_new [of "[]" bps] assms(2)
  by (simp add: extract_tg_start_links_def)

theorem links_read_back_witness:
  "extract_tg_start_links ''https://t.me/some_bot?start=a-1 https://t.me/some_bot?start=b_2'' = [(''some_bot'', ''a-1''), (''some_bot'', ''b_2'')]"
proof -
  have "list_all link_names [(''some_bot'', ''a-1''), (''some_bot'', ''b_2'')]" by code_simp
  moreover have "distinct (map job_key [(''some_bot'', ''a-1''), (''some_bot'', ''b_2'')])" by code_simp
  ultimately show ?thesis using links_read_back [of "[(''some_bot'', ''a-1''), (''some_bot'', ''b_2'')]"] by (simp add: start_link_def)
qed

end
