(* ===== verification/Plugin_Storage.thy ===== *)
theory Plugin_Storage
  imports Py_Text "HOL-Library.List_Lexorder" "HOL-Library.Char_ord"
begin

text \<open>
  The storage of plugins: the table of keys with times of expiry, \<^verbatim>\<open>tg_signer/core/plugin_storage.py\<close>, and
  the client a plugin is given, \<^verbatim>\<open>PluginStorageClient\<close> of \<^verbatim>\<open>tg_signer/core/plugins.py\<close>, which moves values
  over from the namespaces of older versions. A statement of SQL is one step; \<open>ok\<close> says whether the
  data base can be used for an operation, the clock is an argument, and so is JSON, as two functions.
\<close>

section \<open>The table\<close>

type_synonym kv_table = "(string \<times> string, string \<times> time option) odict"

record json_codec =
  js_dumps :: "py \<Rightarrow> string option"
  js_loads :: "string \<Rightarrow> py option"

definition live :: "time \<Rightarrow> time option \<Rightarrow> bool" where
  "live now e = (case e of None \<Rightarrow> True | Some t \<Rightarrow> \<not> t < now)"

definition expires_at :: "time \<Rightarrow> real option \<Rightarrow> time option" where
  "expires_at now ttl = (case ttl of None \<Rightarrow> None | Some x \<Rightarrow> if x > 0 then Some (now + x) else None)"

text \<open>A text that is no JSON is the value itself.\<close>

definition decode :: "json_codec \<Rightarrow> string \<Rightarrow> py" where
  "decode js s = (case js_loads js s of None \<Rightarrow> PStr s | Some v \<Rightarrow> v)"

definition kv_remove :: "(string \<times> string) list \<Rightarrow> kv_table \<Rightarrow> kv_table" where
  "kv_remove ks d = filter (\<lambda>(k, x). k \<notin> set ks) d"

section \<open>One key\<close>

text \<open>The row of a key, and the keys found expired: the query of \<^verbatim>\<open>get\<close>, before what it deletes.\<close>

definition kv_select :: "time \<Rightarrow> string \<Rightarrow> string \<Rightarrow> kv_table \<Rightarrow> string option \<times> (string \<times> string) list" where
  "kv_select now ns k d =
     (case map_of d (ns, k) of
        None \<Rightarrow> (None, [])
      | Some (s, e) \<Rightarrow> if live now e then (Some s, []) else (None, [(ns, k)]))"

definition kv_get :: "json_codec \<Rightarrow> bool \<Rightarrow> time \<Rightarrow> string \<Rightarrow> string \<Rightarrow> kv_table \<Rightarrow> py option \<times> kv_table" where
  "kv_get js ok now ns k d =
     (if \<not> ok then (None, d)
      else (case kv_select now ns k d of (r, gone) \<Rightarrow> (map_option (decode js) r, kv_remove gone d)))"

text \<open>Writing: what cannot be serialized raises, an unusable data base does not.\<close>

definition kv_set :: "json_codec \<Rightarrow> bool \<Rightarrow> time \<Rightarrow> string \<Rightarrow> string \<Rightarrow> py \<Rightarrow> real option \<Rightarrow> kv_table \<Rightarrow> (exc + bool) \<times> kv_table" where
  "kv_set js ok now ns k v ttl d =
     (case js_dumps js v of
        None \<Rightarrow> (Inl (exc_of ''TypeError'' ''not JSON serializable''), d)
      | Some s \<Rightarrow> if ok then (Inr True, AList.update (ns, k) (s, expires_at now ttl) d) else (Inr False, d))"

text \<open>The number an increment starts from; \<open>None\<close> is the overflow of an infinite one.\<close>

definition stored_number :: "json_codec \<Rightarrow> int \<Rightarrow> string \<Rightarrow> int option" where
  "stored_number js dflt s =
     (case js_loads js s of
        Some (PInt i) \<Rightarrow> Some i
      | Some (PFloat (Fin x)) \<Rightarrow> Some (if x < 0 then - \<lfloor>- x\<rfloor> else \<lfloor>x\<rfloor>)
      | Some (PFloat (Inf b)) \<Rightarrow> None
      | _ \<Rightarrow> Some dflt)"

definition kv_increment ::
  "json_codec \<Rightarrow> bool \<Rightarrow> time \<Rightarrow> string \<Rightarrow> string \<Rightarrow> int \<Rightarrow> int \<Rightarrow> real option \<Rightarrow> kv_table \<Rightarrow> int option \<times> kv_table" where
  "kv_increment js ok now ns k step dflt ttl d =
     (if \<not> ok then (None, d)
      else (let row = (case map_of d (ns, k) of None \<Rightarrow> None | Some (s, e) \<Rightarrow> if live now e then Some (s, e) else None);
                current = (case row of None \<Rightarrow> Some dflt | Some (s, e) \<Rightarrow> stored_number js dflt s);
                old = (case row of None \<Rightarrow> None | Some (s, e) \<Rightarrow> e);
                e' = (if ttl = None then old else expires_at now ttl)
            in case current of
                 None \<Rightarrow> (None, d)
               | Some c \<Rightarrow>
                   (case js_dumps js (PInt (c + step)) of
                      None \<Rightarrow> (None, d)
                    | Some s \<Rightarrow> (Some (c + step), AList.update (ns, k) (s, e') d))))"

definition kv_delete :: "bool \<Rightarrow> string \<Rightarrow> string \<Rightarrow> kv_table \<Rightarrow> bool \<times> kv_table" where
  "kv_delete ok ns k d = (if \<not> ok then (False, d) else ((ns, k) \<in> fst ` set d, AList.delete (ns, k) d))"

section \<open>Patterns\<close>

datatype like_item = Any | One | Lit char

text \<open>A pattern of \<^verbatim>\<open>LIKE\<close> with an escape character; \<open>None\<close> where that is the last, which matches nothing.\<close>

fun like_items :: "char \<Rightarrow> string \<Rightarrow> like_item list option" where
  "like_items e [] = Some []"
| "like_items e (c # cs) =
     (if c = e then (case cs of [] \<Rightarrow> None | x # xs \<Rightarrow> map_option (Cons (Lit x)) (like_items e xs))
      else map_option (Cons (if c = CHR ''%'' then Any else if c = CHR ''_'' then One else Lit c)) (like_items e cs))"

definition fold_ascii :: "char \<Rightarrow> char" where
  "fold_ascii c = (let n = of_char c :: nat in if 65 \<le> n \<and> n \<le> 90 then char_of (n + 32) else c)"

text \<open>Without regard to the case of ASCII letters.\<close>

fun like_match :: "like_item list \<Rightarrow> string \<Rightarrow> bool" where
  "like_match [] s = (s = [])"
| "like_match (Any # is) [] = like_match is []"
| "like_match (Any # is) (c # cs) = (like_match is (c # cs) \<or> like_match (Any # is) cs)"
| "like_match (One # is) [] = False"
| "like_match (One # is) (c # cs) = like_match is cs"
| "like_match (Lit x # is) [] = False"
| "like_match (Lit x # is) (c # cs) = (fold_ascii x = fold_ascii c \<and> like_match is cs)"

definition sql_like :: "string \<Rightarrow> string \<Rightarrow> bool" where
  "sql_like pattern s = (case like_items CHR ''/'' pattern of None \<Rightarrow> False | Some is \<Rightarrow> like_match is s)"

definition escape_char :: "char \<Rightarrow> string \<Rightarrow> string \<Rightarrow> string" where
  "escape_char c r s = concat (map (\<lambda>x. if x = c then r else [x]) s)"

definition escape_like :: "string \<Rightarrow> string" where
  "escape_like s = escape_char CHR ''_'' ''/_'' (escape_char CHR ''%'' ''/%'' (escape_char CHR ''/'' ''//'' s))"

section \<open>Namespaces\<close>

text \<open>The rows of a namespace whose keys have a prefix, split into live ones and expired keys.\<close>

definition kv_rows :: "string \<Rightarrow> string \<Rightarrow> kv_table \<Rightarrow> kv_table" where
  "kv_rows ns prefix d = filter (\<lambda>((n, k), x). n = ns \<and> (prefix = [] \<or> sql_like (escape_like prefix @ ''%'') k)) d"

definition live_rows :: "time \<Rightarrow> kv_table \<Rightarrow> kv_table" where
  "live_rows now d = filter (\<lambda>(k, s, e). live now e) d"

definition dead_keys :: "time \<Rightarrow> kv_table \<Rightarrow> (string \<times> string) list" where
  "dead_keys now d = map fst (filter (\<lambda>(k, s, e). \<not> live now e) d)"

definition kv_list_keys :: "bool \<Rightarrow> time \<Rightarrow> string \<Rightarrow> string \<Rightarrow> kv_table \<Rightarrow> string list \<times> kv_table" where
  "kv_list_keys ok now ns prefix d =
     (if \<not> ok then ([], d)
      else (let rows = kv_rows ns prefix d
            in (sort (map (snd \<circ> fst) (live_rows now rows)), kv_remove (dead_keys now rows) d)))"

definition values_of :: "json_codec \<Rightarrow> kv_table \<Rightarrow> pydict" where
  "values_of js d = map (\<lambda>((n, k), s, e). (k, decode js s)) d"

definition kv_get_all :: "json_codec \<Rightarrow> bool \<Rightarrow> time \<Rightarrow> string \<Rightarrow> string \<Rightarrow> kv_table \<Rightarrow> pydict \<times> kv_table" where
  "kv_get_all js ok now ns prefix d =
     (if \<not> ok then ([], d)
      else (let rows = kv_rows ns prefix d in (values_of js (live_rows now rows), kv_remove (dead_keys now rows) d)))"

text \<open>Several keys, in queries of at most 500.\<close>

definition chunk_size :: nat where "chunk_size = 500"

function chunks :: "'a list \<Rightarrow> 'a list list" where
  "chunks xs = (if xs = [] then [] else take chunk_size xs # chunks (drop chunk_size xs))"
  by pat_completeness auto
termination by (relation "measure length") (auto simp: chunk_size_def)

declare chunks.simps [simp del]

definition kv_query :: "string \<Rightarrow> kv_table \<Rightarrow> string list \<Rightarrow> kv_table" where
  "kv_query ns d ks = filter (\<lambda>((n, k), x). n = ns \<and> k \<in> set ks) d"

definition kv_mget :: "json_codec \<Rightarrow> bool \<Rightarrow> time \<Rightarrow> string \<Rightarrow> string list \<Rightarrow> kv_table \<Rightarrow> pydict \<times> kv_table" where
  "kv_mget js ok now ns ks d =
     (if ks = [] \<or> \<not> ok then ([], d)
      else (let rows = concat (map (kv_query ns d) (chunks ks))
            in (fold (\<lambda>(k, v) r. AList.update k v r) (values_of js (live_rows now rows)) [], kv_remove (dead_keys now rows) d)))"

definition kv_mset :: "json_codec \<Rightarrow> bool \<Rightarrow> time \<Rightarrow> string \<Rightarrow> pydict \<Rightarrow> real option \<Rightarrow> kv_table \<Rightarrow> bool \<times> kv_table" where
  "kv_mset js ok now ns kvs ttl d =
     (if kvs = [] then (True, d)
      else if (\<exists>(k, v) \<in> set kvs. js_dumps js v = None) \<or> \<not> ok then (False, d)
      else (True, fold (\<lambda>(k, v). AList.update (ns, k) (the (js_dumps js v), expires_at now ttl)) kvs d))"

definition kv_clear :: "bool \<Rightarrow> string option \<Rightarrow> kv_table \<Rightarrow> nat \<times> kv_table" where
  "kv_clear ok ns d =
     (if \<not> ok then (0, d)
      else (let kept = (case ns of None \<Rightarrow> [] | Some n \<Rightarrow> if n = [] then [] else filter (\<lambda>((m, k), x). m \<noteq> n) d)
            in (length d - length kept, kept)))"

text \<open>Whether a namespace is spared: one is named, and it is another.\<close>

definition other_namespace :: "string option \<Rightarrow> string \<Rightarrow> bool" where
  "other_namespace ns m = (case ns of None \<Rightarrow> False | Some n \<Rightarrow> n \<noteq> [] \<and> m \<noteq> n)"

definition kv_purge_expired :: "bool \<Rightarrow> time \<Rightarrow> string option \<Rightarrow> kv_table \<Rightarrow> nat \<times> kv_table" where
  "kv_purge_expired ok now ns d =
     (if \<not> ok then (0, d)
      else (let kept = filter (\<lambda>((m, k), s, e). live now e \<or> other_namespace ns m) d
            in (length d - length kept, kept)))"

definition kv_list_namespaces :: "bool \<Rightarrow> string option \<Rightarrow> kv_table \<Rightarrow> string list" where
  "kv_list_namespaces ok plugin d =
     (if \<not> ok then []
      else (let names = remdups (map (fst \<circ> fst) d);
                chosen = (case plugin of
                            None \<Rightarrow> names
                          | Some p \<Rightarrow> if p = [] then names
                                      else filter (\<lambda>n. n = p \<or> sql_like (''%:'' @ escape_like p) n \<or> sql_like (''__test__:%:'' @ escape_like p) n) names)
            in sort (filter (\<lambda>n. n \<noteq> []) chosen)))"

record kv_record =
  sr_key :: string
  sr_value :: py
  sr_expires :: "time option"
  sr_remaining :: "real option"

definition kv_get_all_records :: "json_codec \<Rightarrow> (real \<Rightarrow> real) \<Rightarrow> bool \<Rightarrow> time \<Rightarrow> string \<Rightarrow> kv_table \<Rightarrow> kv_record list \<times> kv_table" where
  "kv_get_all_records js rounded ok now ns d =
     (if \<not> ok then ([], d)
      else (let rows = kv_rows ns [] d
            in (sort_key sr_key (map (\<lambda>((n, k), s, e). \<lparr>sr_key = k, sr_value = decode js s, sr_expires = e,
                    sr_remaining = map_option (\<lambda>t. rounded (t - now)) e\<rparr>) (live_rows now rows)),
                kv_remove (dead_keys now rows) d)))"

section \<open>The client of a plugin\<close>

record storage_client =
  sg_namespace :: string
  sg_legacy :: "string list"

definition new_storage_client :: "string \<Rightarrow> string list \<Rightarrow> storage_client" where
  "new_storage_client ns legacy = \<lparr>sg_namespace = ns, sg_legacy = filter (\<lambda>v. v \<noteq> [] \<and> v \<noteq> ns) legacy\<rparr>"

text \<open>The calls of one operation of the client see one time. A failing write of what was read is passed over.\<close>

fun migrate_from :: "json_codec \<Rightarrow> bool \<Rightarrow> time \<Rightarrow> string \<Rightarrow> string list \<Rightarrow> string \<Rightarrow> kv_table \<Rightarrow> py option \<times> kv_table" where
  "migrate_from js ok now ns [] k d = (None, d)"
| "migrate_from js ok now ns (old # olds) k d =
     (case kv_get js ok now old k d of
        (Some v, d1) \<Rightarrow> (Some v, snd (kv_set js ok now ns k v None d1))
      | (None, d1) \<Rightarrow> migrate_from js ok now ns olds k d1)"

definition migrate_key :: "json_codec \<Rightarrow> bool \<Rightarrow> time \<Rightarrow> storage_client \<Rightarrow> string \<Rightarrow> kv_table \<Rightarrow> py option \<times> kv_table" where
  "migrate_key js ok now cl k d =
     (case kv_get js ok now (sg_namespace cl) k d of
        (Some v, d1) \<Rightarrow> (Some v, d1)
      | (None, d1) \<Rightarrow> migrate_from js ok now (sg_namespace cl) (sg_legacy cl) k d1)"

fun merge_legacy :: "json_codec \<Rightarrow> bool \<Rightarrow> time \<Rightarrow> string \<Rightarrow> pydict \<Rightarrow> pydict \<Rightarrow> kv_table \<Rightarrow> pydict \<times> kv_table" where
  "merge_legacy js ok now ns [] vs d = (vs, d)"
| "merge_legacy js ok now ns ((k, v) # kvs) vs d =
     (if k \<in> fst ` set vs then merge_legacy js ok now ns kvs vs d
      else merge_legacy js ok now ns kvs (vs @ [(k, v)]) (snd (kv_set js ok now ns k v None d)))"

fun migrate_namespaces :: "json_codec \<Rightarrow> bool \<Rightarrow> time \<Rightarrow> string \<Rightarrow> string \<Rightarrow> string list \<Rightarrow> pydict \<Rightarrow> kv_table \<Rightarrow> pydict \<times> kv_table" where
  "migrate_namespaces js ok now ns prefix [] vs d = (vs, d)"
| "migrate_namespaces js ok now ns prefix (old # olds) vs d =
     (case kv_get_all js ok now old prefix d of
        (kvs, d1) \<Rightarrow> (case merge_legacy js ok now ns kvs vs d1 of
           (vs1, d2) \<Rightarrow> migrate_namespaces js ok now ns prefix olds vs1 d2))"

definition migrate_all :: "json_codec \<Rightarrow> bool \<Rightarrow> time \<Rightarrow> storage_client \<Rightarrow> string \<Rightarrow> kv_table \<Rightarrow> pydict \<times> kv_table" where
  "migrate_all js ok now cl prefix d =
     (case kv_get_all js ok now (sg_namespace cl) prefix d of
        (vs, d1) \<Rightarrow> migrate_namespaces js ok now (sg_namespace cl) prefix (sg_legacy cl) vs d1)"

definition client_set :: "json_codec \<Rightarrow> bool \<Rightarrow> time \<Rightarrow> storage_client \<Rightarrow> string \<Rightarrow> py \<Rightarrow> real option \<Rightarrow> kv_table \<Rightarrow> (exc + bool) \<times> kv_table" where
  "client_set js ok now cl k v ttl d = kv_set js ok now (sg_namespace cl) k v ttl d"

text \<open>The value is written again before it is incremented, unless it is the default.\<close>

definition client_increment ::
  "json_codec \<Rightarrow> bool \<Rightarrow> time \<Rightarrow> storage_client \<Rightarrow> string \<Rightarrow> int \<Rightarrow> int \<Rightarrow> real option \<Rightarrow> kv_table \<Rightarrow> int option \<times> kv_table" where
  "client_increment js ok now cl k step dflt ttl d =
     (case migrate_key js ok now cl k d of
        (r, d1) \<Rightarrow>
          (let current = (case r of None \<Rightarrow> PInt dflt | Some v \<Rightarrow> v);
               d2 = (if \<not> py_eq current (PInt dflt) then snd (kv_set js ok now (sg_namespace cl) k current None d1) else d1)
           in kv_increment js ok now (sg_namespace cl) k step dflt ttl d2))"

definition client_delete :: "bool \<Rightarrow> storage_client \<Rightarrow> string \<Rightarrow> kv_table \<Rightarrow> bool \<times> kv_table" where
  "client_delete ok cl k d =
     fold (\<lambda>n (b, t). case kv_delete ok n k t of (c, t1) \<Rightarrow> (c \<or> b, t1)) (sg_legacy cl) (kv_delete ok (sg_namespace cl) k d)"

definition client_clear :: "bool \<Rightarrow> storage_client \<Rightarrow> kv_table \<Rightarrow> nat \<times> kv_table" where
  "client_clear ok cl d =
     fold (\<lambda>n (b, t). case kv_clear ok (Some n) t of (c, t1) \<Rightarrow> (b + c, t1)) (sg_legacy cl) (kv_clear ok (Some (sg_namespace cl)) d)"

definition client_keys :: "json_codec \<Rightarrow> bool \<Rightarrow> time \<Rightarrow> storage_client \<Rightarrow> string \<Rightarrow> kv_table \<Rightarrow> string list \<times> kv_table" where
  "client_keys js ok now cl prefix d = (case migrate_all js ok now cl prefix d of (vs, d1) \<Rightarrow> (sort (map fst vs), d1))"

fun client_mget :: "json_codec \<Rightarrow> bool \<Rightarrow> time \<Rightarrow> storage_client \<Rightarrow> string list \<Rightarrow> (string, py option) odict \<Rightarrow> kv_table \<Rightarrow> (string, py option) odict \<times> kv_table" where
  "client_mget js ok now cl [] rs d = (rs, d)"
| "client_mget js ok now cl (k # ks) rs d =
     (case migrate_key js ok now cl k d of (r, d1) \<Rightarrow> client_mget js ok now cl ks (AList.update k r rs) d1)"

definition client_mset where
  "client_mset js ok now cl kvs ttl d = kv_mset js ok now (sg_namespace cl) kvs ttl d"

definition client_records where
  "client_records js rounded ok now cl d =
     kv_get_all_records js rounded ok now (sg_namespace cl) (snd (migrate_all js ok now cl [] d))"

end
