(* ===== verification/Plugin_Storage_Props.thy ===== *)
theory Plugin_Storage_Props
  imports Plugin_Storage
begin

text \<open>
  What the storage of plugins promises: it answers as one that never forgets (the deletion of what has
  expired cannot be seen), its prefixes mean what they say up to the case of letters, and the client of a
  plugin finds the values of older versions. The corners at the end are about two users at a time,
  and about what the client does to a time of expiry.
\<close>

section \<open>Patterns\<close>

definition escaped :: "char \<Rightarrow> string" where
  "escaped c = (if c = CHR ''/'' \<or> c = CHR ''%'' \<or> c = CHR ''_'' then [CHR ''/'', c] else [c])"

lemma escape_like_chars: "escape_like p = concat (map escaped p)"
  by (induction p) (auto simp: escape_like_def escape_char_def escaped_def)

lemma like_items_escaped: "like_items CHR ''/'' (escape_like p @ s) = map_option (\<lambda>is. map Lit p @ is) (like_items CHR ''/'' s)"
  unfolding escape_like_chars
  by (induction p) (auto simp: escaped_def option.map_comp o_def map_option_case split: option.split)

lemma like_match_any: "like_match [Any] s"
  by (induction s) simp_all

lemma like_match_literal:
  "like_match (map Lit p @ is) s \<longleftrightarrow> map fold_ascii (take (length p) s) = map fold_ascii p \<and> like_match is (drop (length p) s)"
proof (induction p arbitrary: s)
  case (Cons c p)
  then show ?case by (cases s) auto
qed simp

lemma like_prefix: "sql_like (escape_like p @ ''%'') s \<longleftrightarrow> map fold_ascii (take (length p) s) = map fold_ascii p"
  by (simp add: sql_like_def like_items_escaped like_match_literal like_match_any)

section \<open>What can be seen\<close>

definition shown :: "time \<Rightarrow> (string \<times> time option) option \<Rightarrow> (string \<times> time option) option" where
  "shown now r = (case r of None \<Rightarrow> None | Some (s, e) \<Rightarrow> if live now e then Some (s, e) else None)"

lemma live_later: "live t' e \<Longrightarrow> t \<le> t' \<Longrightarrow> live t e"
  by (auto simp: live_def split: option.splits)

lemma shown_none_later: "shown t r = None \<Longrightarrow> t \<le> t' \<Longrightarrow> shown t' r = None"
  using live_later by (auto simp: shown_def split: option.splits if_splits)

lemma map_of_kv_remove: "map_of (kv_remove ks d) k = (if k \<in> set ks then None else map_of d k)"
  by (induction d) (auto simp: kv_remove_def)

lemma od_wf_kv_remove [simp]: "od_wf d \<Longrightarrow> od_wf (kv_remove ks d)"
  by (simp add: kv_remove_def distinct_map_filter)

text \<open>Removing what is expired cannot be seen, now or later.\<close>

lemma shown_kv_remove:
  assumes "\<forall>k \<in> set ks. shown now (map_of d k) = None" "now \<le> t"
  shows "shown t (map_of (kv_remove ks d) k) = shown t (map_of d k)"
  using assms shown_none_later [of now "map_of d k" t] by (auto simp: map_of_kv_remove shown_def)

lemma dead_keys_hidden:
  assumes "od_wf d" "set rows \<subseteq> set d"
  shows "\<forall>k \<in> set (dead_keys now rows). shown now (map_of d k) = None"
proof
  fix k
  assume "k \<in> set (dead_keys now rows)"
  then obtain s e where r: "(k, s, e) \<in> set rows" "\<not> live now e" by (auto simp: dead_keys_def)
  have "map_of d k = Some (s, e)" using assms r(1) by (intro map_of_is_SomeI) auto
  then show "shown now (map_of d k) = None" using r(2) by (simp add: shown_def)
qed

lemma kv_get_value: "fst (kv_get js True now ns k d) = map_option (\<lambda>x. decode js (fst x)) (shown now (map_of d (ns, k)))"
  by (auto simp: kv_get_def kv_select_def shown_def split: option.split)

lemma kv_get_keeps: "now \<le> t \<Longrightarrow> shown t (map_of (snd (kv_get js ok now ns k d)) j) = shown t (map_of d j)"
proof -
  assume t: "now \<le> t"
  have "shown t (map_of (kv_remove (snd (kv_select now ns k d)) d) j) = shown t (map_of d j)"
    by (rule shown_kv_remove [OF _ t]) (auto simp: kv_select_def shown_def split: option.splits if_splits)
  then show ?thesis by (auto simp: kv_get_def split: prod.split)
qed

lemma od_wf_kv_get [simp]: "od_wf d \<Longrightarrow> od_wf (snd (kv_get js ok now ns k d))"
  by (auto simp: kv_get_def split: prod.split)

section \<open>The store that never forgets\<close>

datatype kv_op =
    Get string string
  | Put string string py "real option"
  | Incr string string int int "real option"
  | Remove string string
  | Keys string string
  | Values string string
  | GetMany string "string list"
  | PutMany string pydict "real option"
  | Clear "string option"
  | Purge "string option"

datatype kv_answer =
    Value "py option"
  | Written "exc + bool"
  | Number "int option"
  | KeyList "string list"
  | Mapping "string \<rightharpoonup> py"
  | Done bool
  | Nothing

text \<open>The numbers of deleted rows are not part of the answers: they tell what was purged before.\<close>

fun kv_step :: "json_codec \<Rightarrow> time \<times> bool \<times> kv_op \<Rightarrow> kv_table \<Rightarrow> kv_answer \<times> kv_table" where
  "kv_step js (now, ok, Get ns k) d = map_prod Value id (kv_get js ok now ns k d)"
| "kv_step js (now, ok, Put ns k v ttl) d = map_prod Written id (kv_set js ok now ns k v ttl d)"
| "kv_step js (now, ok, Incr ns k step dflt ttl) d = map_prod Number id (kv_increment js ok now ns k step dflt ttl d)"
| "kv_step js (now, ok, Remove ns k) d = (Nothing, snd (kv_delete ok ns k d))"
| "kv_step js (now, ok, Keys ns p) d = map_prod KeyList id (kv_list_keys ok now ns p d)"
| "kv_step js (now, ok, Values ns p) d = map_prod (\<lambda>kvs. Mapping (map_of kvs)) id (kv_get_all js ok now ns p d)"
| "kv_step js (now, ok, GetMany ns ks) d = map_prod (\<lambda>kvs. Mapping (map_of kvs)) id (kv_mget js ok now ns ks d)"
| "kv_step js (now, ok, PutMany ns kvs ttl) d = map_prod Done id (kv_mset js ok now ns kvs ttl d)"
| "kv_step js (now, ok, Clear ns) d = (Nothing, snd (kv_clear ok ns d))"
| "kv_step js (now, ok, Purge ns) d = (Nothing, snd (kv_purge_expired ok now ns d))"

type_synonym ideal_store = "string \<times> string \<rightharpoonup> string \<times> time option"

definition prefixed :: "string \<Rightarrow> string \<Rightarrow> bool" where
  "prefixed p s \<longleftrightarrow> map fold_ascii (take (length p) s) = map fold_ascii p"

fun ideal_step :: "json_codec \<Rightarrow> time \<times> bool \<times> kv_op \<Rightarrow> ideal_store \<Rightarrow> kv_answer \<times> ideal_store" where
  "ideal_step js (now, ok, Get ns k) m =
     (Value (if ok then map_option (\<lambda>x. decode js (fst x)) (shown now (m (ns, k))) else None), m)"
| "ideal_step js (now, ok, Put ns k v ttl) m =
     (case js_dumps js v of
        None \<Rightarrow> (Written (Inl (exc_of ''TypeError'' ''not JSON serializable'')), m)
      | Some s \<Rightarrow> if ok then (Written (Inr True), m((ns, k) \<mapsto> (s, expires_at now ttl))) else (Written (Inr False), m))"
| "ideal_step js (now, ok, Incr ns k step dflt ttl) m =
     (if \<not> ok then (Number None, m)
      else (let r = shown now (m (ns, k))
            in case (case r of None \<Rightarrow> Some dflt | Some (s, e) \<Rightarrow> stored_number js dflt s) of
                 None \<Rightarrow> (Number None, m)
               | Some c \<Rightarrow>
                   (case js_dumps js (PInt (c + step)) of
                      None \<Rightarrow> (Number None, m)
                    | Some s \<Rightarrow> (Number (Some (c + step)),
                        m((ns, k) \<mapsto> (s, if ttl = None then Option.bind r snd else expires_at now ttl))))))"
| "ideal_step js (now, ok, Remove ns k) m = (Nothing, if ok then m((ns, k) := None) else m)"
| "ideal_step js (now, ok, Keys ns p) m =
     (KeyList (if ok then sorted_list_of_set {k. shown now (m (ns, k)) \<noteq> None \<and> prefixed p k} else []), m)"
| "ideal_step js (now, ok, Values ns p) m =
     (Mapping (\<lambda>k. if ok \<and> prefixed p k then map_option (\<lambda>x. decode js (fst x)) (shown now (m (ns, k))) else None), m)"
| "ideal_step js (now, ok, GetMany ns ks) m =
     (Mapping (\<lambda>k. if ok \<and> k \<in> set ks then map_option (\<lambda>x. decode js (fst x)) (shown now (m (ns, k))) else None), m)"
| "ideal_step js (now, ok, PutMany ns kvs ttl) m =
     (if kvs = [] then (Done True, m)
      else if (\<exists>(k, v) \<in> set kvs. js_dumps js v = None) \<or> \<not> ok then (Done False, m)
      else (Done True, fold (\<lambda>(k, v) m. m((ns, k) \<mapsto> (the (js_dumps js v), expires_at now ttl))) kvs m))"
| "ideal_step js (now, ok, Clear ns) m =
     (Nothing, if ok then (\<lambda>(n, k). if ns = None \<or> ns = Some [] \<or> ns = Some n then None else m (n, k)) else m)"
| "ideal_step js (now, ok, Purge ns) m = (Nothing, m)"

fun run_store :: "('op \<Rightarrow> 's \<Rightarrow> 'a \<times> 's) \<Rightarrow> 'op list \<Rightarrow> 's \<Rightarrow> 'a list" where
  "run_store step [] s = []"
| "run_store step (a # ops) s = (case step a s of (x, s1) \<Rightarrow> x # run_store step ops s1)"

text \<open>From a time on, the table and the ideal store show the same.\<close>

definition same_from :: "time \<Rightarrow> kv_table \<Rightarrow> ideal_store \<Rightarrow> bool" where
  "same_from t d m \<longleftrightarrow> od_wf d \<and> (\<forall>t' \<ge> t. \<forall>k. shown t' (map_of d k) = shown t' (m k))"

lemma same_from_later: "same_from t d m \<Longrightarrow> t \<le> t' \<Longrightarrow> same_from t' d m"
  by (simp add: same_from_def)

lemma same_fromD: "same_from t d m \<Longrightarrow> shown t (map_of d k) = shown t (m k)"
  unfolding same_from_def by blast

lemma same_from_remove:
  assumes "same_from now d m" "set rows \<subseteq> set d"
  shows "same_from now (kv_remove (dead_keys now rows) d) m"
proof -
  have "od_wf d" using assms(1) by (simp add: same_from_def)
  from shown_kv_remove [OF dead_keys_hidden [OF this assms(2)]] show ?thesis
    using assms(1) by (simp add: same_from_def)
qed

lemma same_from_update: "same_from t d m \<Longrightarrow> same_from t (AList.update k x d) (m(k \<mapsto> x))"
  by (simp add: same_from_def od_map_of_update)

section \<open>The rows of a namespace\<close>

lemma kv_rows_prefixed: "kv_rows ns p d = filter (\<lambda>((n, k), x). n = ns \<and> prefixed p k) d"
  by (auto simp: kv_rows_def like_prefix prefixed_def intro!: filter_cong)

lemma map_of_values:
  "od_wf d \<Longrightarrow> map_of (values_of js (live_rows now (filter (\<lambda>((n, k), x). n = ns \<and> P k) d))) k =
    (if P k then map_option (\<lambda>x. decode js (fst x)) (shown now (map_of d (ns, k))) else None)"
proof (induction d)
  case (Cons r d)
  obtain n j s e where r: "r = ((n, j), s, e)" by (metis prod.collapse)
  have "map_of d (n, j) = None" using Cons.prems by (simp add: r map_of_eq_None_iff)
  then show ?case using Cons by (auto simp: r values_of_def live_rows_def shown_def)
qed (simp add: values_of_def live_rows_def shown_def)

lemma keys_of_values: "map fst (values_of js rows) = map (snd \<circ> fst) rows"
  by (simp add: values_of_def split_beta comp_def)

lemma distinct_live_keys:
  "od_wf d \<Longrightarrow> distinct (map (snd \<circ> fst) (live_rows now (filter (\<lambda>((n, k), x). n = ns \<and> P k) d)))"
proof (induction d)
  case (Cons r d)
  obtain n j s e where r: "r = ((n, j), s, e)" by (metis prod.collapse)
  show ?case using Cons by (force simp: r live_rows_def)
qed (simp add: live_rows_def)

lemma set_live_keys:
  assumes "od_wf d"
  shows "set (map (snd \<circ> fst) (live_rows now (filter (\<lambda>((n, k), x). n = ns \<and> P k) d))) = {k. shown now (map_of d (ns, k)) \<noteq> None \<and> P k}"
    (is "set ?ks = _")
proof -
  have "k \<in> set ?ks \<longleftrightarrow> map_of (values_of js (live_rows now (filter (\<lambda>((n, k), x). n = ns \<and> P k) d))) k \<noteq> None" for k js
    by (simp only: map_of_eq_None_iff not_not keys_of_values [of js, symmetric] list.set_map)
  from this [of _ "\<lparr>js_dumps = (\<lambda>v. None), js_loads = (\<lambda>s. None)\<rparr>"] show ?thesis
    unfolding map_of_values [OF assms] by (intro set_eqI) (simp del: set_map)
qed

lemma sorted_live_keys:
  assumes "od_wf d"
  shows "sort (map (snd \<circ> fst) (live_rows now (kv_rows ns p d))) = sorted_list_of_set {k. shown now (map_of d (ns, k)) \<noteq> None \<and> prefixed p k}"
  unfolding kv_rows_prefixed set_live_keys [OF assms, symmetric]
  by (simp add: sorted_list_of_set_sort_remdups distinct_remdups_id [OF distinct_live_keys [OF assms]] del: set_map)

section \<open>Several keys\<close>

lemma set_chunks: "\<Union> (set ` set (chunks xs)) = set xs"
proof (induction xs rule: chunks.induct)
  case (1 xs)
  show ?case
  proof (cases "xs = []")
    case False
    have "set xs = set (take chunk_size xs) \<union> set (drop chunk_size xs)" by (metis append_take_drop_id set_append)
    then show ?thesis using 1 [OF False] False by (subst chunks.simps) simp
  qed (simp add: chunks.simps)
qed

lemma set_queries: "set (concat (map (kv_query ns d) (chunks ks))) = {r \<in> set d. fst (fst r) = ns \<and> snd (fst r) \<in> set ks}"
  using set_chunks [of ks] by (fastforce simp: kv_query_def)

lemma map_of_fold_update:
  "\<forall>(k, v) \<in> set kvs. f k = Some v \<Longrightarrow>
    map_of (fold (\<lambda>(k, v) r. AList.update k v r) kvs r) k = (if k \<in> fst ` set kvs then f k else map_of r k)"
  by (induction kvs arbitrary: r) (auto simp: od_map_of_update)

lemma map_of_mget:
  assumes "od_wf d"
  shows "map_of (fold (\<lambda>(k, v) r. AList.update k v r) (values_of js (live_rows now (concat (map (kv_query ns d) (chunks ks))))) []) k =
    (if k \<in> set ks then map_option (\<lambda>x. decode js (fst x)) (shown now (map_of d (ns, k))) else None)"
proof -
  define rows where "rows = concat (map (kv_query ns d) (chunks ks))"
  let ?f = "\<lambda>k. if k \<in> set ks then map_option (\<lambda>x. decode js (fst x)) (shown now (map_of d (ns, k))) else None"
  let ?vs = "values_of js (live_rows now rows)"
  have row: "n = ns \<and> k \<in> set ks \<and> map_of d (ns, k) = Some (s, e)" if "((n, k), s, e) \<in> set rows" for n k s e
    using that assms unfolding rows_def set_queries by (auto intro: map_of_is_SomeI)
  have consistent: "\<forall>(k, v) \<in> set ?vs. ?f k = Some v"
    using row by (fastforce simp: values_of_def live_rows_def shown_def)
  have found: "k \<in> fst ` set ?vs" if seen: "?f k \<noteq> None"
  proof -
    obtain s e where r: "map_of d (ns, k) = Some (s, e)" "live now e" "k \<in> set ks"
      using seen by (cases "map_of d (ns, k)") (auto simp: shown_def split: if_splits)
    have "((ns, k), s, e) \<in> set (live_rows now rows)"
      using map_of_SomeD [OF r(1)] r unfolding live_rows_def set_filter rows_def set_queries by simp
    then show ?thesis by (force simp: values_of_def)
  qed
  have "map_of (fold (\<lambda>(k, v) r. AList.update k v r) ?vs []) k = (if k \<in> fst ` set ?vs then ?f k else map_of [] k)"
    by (rule map_of_fold_update [OF consistent])
  also have "\<dots> = ?f k"
  proof (cases "k \<in> fst ` set ?vs")
    case False
    then have "?f k = None" using found by blast
    then show ?thesis using False by simp
  qed simp
  finally show ?thesis unfolding rows_def [symmetric] .
qed

section \<open>One operation\<close>

lemma same_from_wf: "same_from t d m \<Longrightarrow> od_wf d"
  by (simp add: same_from_def)

lemma kv_rows_subset: "set (kv_rows ns p d) \<subseteq> set d"
  by (auto simp: kv_rows_def)

lemma same_from_fold:
  "same_from t d m \<Longrightarrow> same_from t (fold (\<lambda>(k, v). AList.update (ns, k) (f v)) kvs d) (fold (\<lambda>(k, v) m. m((ns, k) \<mapsto> f v)) kvs m)"
proof (induction kvs arbitrary: d m)
  case (Cons kv kvs)
  obtain k v where kv: "kv = (k, v)" by fastforce
  show ?case using Cons.IH [OF same_from_update [OF Cons.prems, of "(ns, k)" "f v"]] by (simp add: kv)
qed simp

lemma step_get:
  assumes "same_from now d m"
  shows "fst (kv_step js (now, ok, Get ns k) d) = fst (ideal_step js (now, ok, Get ns k) m) \<and>
    same_from now (snd (kv_step js (now, ok, Get ns k) d)) (snd (ideal_step js (now, ok, Get ns k) m))"
  using assms kv_get_value [of js now ns k d] kv_get_keeps [of now _ js ok ns k d] same_fromD [OF assms, of "(ns, k)"]
  by (cases ok) (simp_all add: same_from_def, simp add: kv_get_def)

lemma step_increment:
  assumes "same_from now d m"
  shows "fst (kv_step js (now, ok, Incr ns k st df ttl) d) = fst (ideal_step js (now, ok, Incr ns k st df ttl) m) \<and>
    same_from now (snd (kv_step js (now, ok, Incr ns k st df ttl) d)) (snd (ideal_step js (now, ok, Incr ns k st df ttl) m))"
proof -
  have r: "(case map_of d (ns, k) of None \<Rightarrow> None | Some (s, e) \<Rightarrow> if live now e then Some (s, e) else None) = shown now (m (ns, k))"
    using same_fromD [OF assms, of "(ns, k)"] by (simp add: shown_def)
  show ?thesis
    using assms same_from_update [OF assms, of "(ns, k)"]
    by (cases "shown now (m (ns, k))")
      (auto simp: kv_increment_def r Let_def split: option.split prod.split)
qed

lemma step_clear:
  assumes "same_from now d m"
  shows "same_from now (snd (kv_clear ok ns d)) (snd (ideal_step js (now, ok, Clear ns) m))"
proof -
  have "map_of (filter (\<lambda>((m, k), x). m \<noteq> n) d) (a, b) = (if a = n then None else map_of d (a, b))" for n a b
    by (induction d) auto
  then show ?thesis using assms
    by (auto simp: kv_clear_def Let_def same_from_def distinct_map_filter shown_def split: option.split)
qed

lemma step_purge:
  assumes "same_from now d m"
  shows "same_from now (snd (kv_purge_expired ok now ns d)) m"
proof -
  let ?rows = "filter (\<lambda>((m, k), x). \<not> other_namespace ns m) d"
  have w: "od_wf d" by (rule same_from_wf [OF assms])
  have "filter (\<lambda>((m, k), s, e). live now e \<or> other_namespace ns m) d = kv_remove (dead_keys now ?rows) d"
    unfolding kv_remove_def
  proof (rule filter_cong [OF refl])
    fix r
    assume r: "r \<in> set d"
    obtain a b s e where ab: "r = ((a, b), s, e)" by (metis prod.collapse)
    have m: "map_of d (a, b) = Some (s, e)" using r w by (simp add: ab map_of_is_SomeI)
    have "(a, b) \<in> set (dead_keys now ?rows) \<longleftrightarrow> \<not> other_namespace ns a \<and> \<not> live now e"
    proof
      assume "(a, b) \<in> set (dead_keys now ?rows)"
      then obtain s' e' where q: "((a, b), s', e') \<in> set d" "\<not> other_namespace ns a" "\<not> live now e'" by (auto simp: dead_keys_def)
      have "map_of d (a, b) = Some (s', e')" using w q(1) by (rule map_of_is_SomeI)
      then show "\<not> other_namespace ns a \<and> \<not> live now e" using m q by simp
    next
      assume "\<not> other_namespace ns a \<and> \<not> live now e"
      then have "((a, b), s, e) \<in> set (filter (\<lambda>(k, s, e). \<not> live now e) ?rows)" using r by (simp add: ab)
      then show "(a, b) \<in> set (dead_keys now ?rows)" unfolding dead_keys_def by force
    qed
    then show "(\<lambda>((m, k), s, e). live now e \<or> other_namespace ns m) r = (\<lambda>(k, x). k \<notin> set (dead_keys now ?rows)) r"
      by (auto simp: ab)
  qed
  then show ?thesis using same_from_remove [OF assms, of ?rows] assms by (auto simp: kv_purge_expired_def Let_def)
qed

lemma kv_step_ideal:
  assumes "same_from now d m"
  shows "fst (kv_step js (now, ok, a) d) = fst (ideal_step js (now, ok, a) m) \<and>
    same_from now (snd (kv_step js (now, ok, a) d)) (snd (ideal_step js (now, ok, a) m))"
proof (cases a)
  case (Get ns k)
  then show ?thesis using step_get [OF assms] by simp
next
  case (Put ns k v ttl)
  then show ?thesis using assms same_from_update [OF assms]
    by (cases "js_dumps js v") (auto simp: kv_set_def)
next
  case (Incr ns k st df ttl)
  then show ?thesis using step_increment [OF assms] by blast
next
  case (Remove ns k)
  then show ?thesis using assms by (auto simp: kv_delete_def same_from_def od_map_of_delete)
next
  case (Keys ns p)
  then show ?thesis
    using assms same_from_remove [OF assms kv_rows_subset] sorted_live_keys [OF same_from_wf [OF assms]] same_fromD [OF assms]
    by (simp add: kv_list_keys_def Let_def)
next
  case (Values ns p)
  then show ?thesis
    using assms same_from_remove [OF assms kv_rows_subset] map_of_values [OF same_from_wf [OF assms]] same_fromD [OF assms]
    by (auto simp: kv_get_all_def Let_def kv_rows_prefixed)
next
  case (GetMany ns ks)
  have "set (concat (map (kv_query ns d) (chunks ks))) \<subseteq> set d" unfolding set_queries by blast
  then show ?thesis
    using assms GetMany same_from_remove [OF assms] map_of_mget [OF same_from_wf [OF assms]] same_fromD [OF assms]
    by (auto simp: kv_mget_def Let_def)
next
  case (PutMany ns kvs ttl)
  then show ?thesis
    using assms same_from_fold [OF assms, of ns "\<lambda>v. (the (js_dumps js v), expires_at now ttl)" kvs]
    by (simp add: kv_mset_def)
next
  case (Clear ns)
  then show ?thesis using step_clear [OF assms, of ok ns js] by simp
next
  case (Purge ns)
  then show ?thesis using step_purge [OF assms] by simp
qed

text \<open>Times that do not run backwards.\<close>

lemma run_store_ideal:
  "same_from t d m \<Longrightarrow> sorted_wrt (\<le>) (t # map fst ops) \<Longrightarrow> run_store (kv_step js) ops d = run_store (ideal_step js) ops m"
proof (induction ops arbitrary: t d m)
  case (Cons a ops)
  obtain now ok b where a: "a = (now, ok, b)" by (metis prod.collapse)
  have s: "same_from now d m" using same_from_later [OF Cons.prems(1)] Cons.prems(2) by (simp add: a)
  from kv_step_ideal [OF s, of js ok b] show ?case
    using Cons.IH [of now "snd (kv_step js a d)" "snd (ideal_step js a m)"] Cons.prems(2)
    by (simp add: a split_beta)
qed simp

section \<open>What the client relies on\<close>

text \<open>A store of timed values as a client sees it: reading shows what is there and changes nothing that
  can be seen from then on; writing for good is seen until it is overwritten.\<close>

fun find_from :: "(time \<Rightarrow> 'k \<Rightarrow> 's \<Rightarrow> 'v option \<times> 's) \<Rightarrow> (time \<Rightarrow> 'k \<Rightarrow> 'v \<Rightarrow> 's \<Rightarrow> 's) \<Rightarrow> time \<Rightarrow> 'k \<Rightarrow> 'k list \<Rightarrow> 's \<Rightarrow> 'v option \<times> 's" where
  "find_from read keep now k [] s = (None, s)"
| "find_from read keep now k (j # js) s =
     (case read now j s of (Some v, s1) \<Rightarrow> (Some v, keep now k v s1) | (None, s1) \<Rightarrow> find_from read keep now k js s1)"

locale timed_values =
  fixes read :: "time \<Rightarrow> 'k \<Rightarrow> 's \<Rightarrow> 'v option \<times> 's"
    and keep :: "time \<Rightarrow> 'k \<Rightarrow> 'v \<Rightarrow> 's \<Rightarrow> 's"
    and seen :: "time \<Rightarrow> 's \<Rightarrow> 'k \<Rightarrow> 'v option"
    and storable :: "'v \<Rightarrow> bool"
    and inv :: "'s \<Rightarrow> bool"
  assumes read_inv: "inv s \<Longrightarrow> inv (snd (read t k s))"
    and keep_inv: "inv s \<Longrightarrow> inv (keep t k v s)"
    and read_seen: "inv s \<Longrightarrow> fst (read t k s) = seen t s k"
    and read_keeps: "inv s \<Longrightarrow> t \<le> t' \<Longrightarrow> seen t' (snd (read t k s)) j = seen t' s j"
    and seen_storable: "inv s \<Longrightarrow> seen t s k = Some v \<Longrightarrow> storable v"
    and keep_seen: "inv s \<Longrightarrow> storable v \<Longrightarrow> seen t' (keep t k v s) j = (if j = k then Some v else seen t' s j)"
begin

text \<open>The first of the values found, and where it is afterwards.\<close>

lemma find_from_value:
  "inv s \<Longrightarrow> fst (find_from read keep t k js s) = (case find (\<lambda>j. seen t s j \<noteq> None) js of None \<Rightarrow> None | Some j \<Rightarrow> seen t s j)"
proof (induction js arbitrary: s)
  case (Cons j js)
  obtain r s1 where r: "read t j s = (r, s1)" by fastforce
  have s1: "inv s1" "seen t s1 = seen t s" "seen t s j = r"
    using read_inv [OF Cons.prems, of t j] read_keeps [OF Cons.prems order_refl, of t j] read_seen [OF Cons.prems, of t j] r by auto
  show ?case using Cons.IH [OF s1(1), unfolded s1(2)] s1(3) by (cases r) (simp_all add: r)
qed simp

lemma find_from_seen:
  assumes "inv s" "t \<le> t'"
  shows "seen t' (snd (find_from read keep t k js s)) i =
    (if i = k \<and> fst (find_from read keep t k js s) \<noteq> None then fst (find_from read keep t k js s) else seen t' s i)"
  using assms(1)
proof (induction js arbitrary: s)
  case (Cons j js)
  obtain r s1 where r: "read t j s = (r, s1)" by fastforce
  have s1: "inv s1" "seen t' s1 i = seen t' s i" "r = seen t s j" for i
    using read_inv [OF Cons.prems, of t j] read_keeps [OF Cons.prems assms(2), of j] read_seen [OF Cons.prems, of t j] r by auto
  show ?case
  proof (cases r)
    case None
    then show ?thesis using Cons.IH [OF s1(1)] s1(2) by (auto simp: r)
  next
    case (Some v)
    have "storable v" using seen_storable [OF Cons.prems] s1(3) Some by simp
    then show ?thesis using keep_seen [OF s1(1)] s1(2) Some by (simp add: r)
  qed
qed simp

end

text \<open>What is read can be written, and is read back as the same.\<close>

definition codec_ok :: "json_codec \<Rightarrow> bool" where
  "codec_ok js \<longleftrightarrow> (\<forall>s. case js_dumps js (decode js s) of None \<Rightarrow> False | Some s' \<Rightarrow> decode js s' = decode js s)"

definition seen_value :: "json_codec \<Rightarrow> time \<Rightarrow> kv_table \<Rightarrow> string \<times> string \<Rightarrow> py option" where
  "seen_value js now d k = map_option (\<lambda>x. decode js (fst x)) (shown now (map_of d k))"

interpretation plugin_values: timed_values
  "\<lambda>t nk d. kv_get js True t (fst nk) (snd nk) d" "\<lambda>t nk v d. snd (kv_set js True t (fst nk) (snd nk) v None d)"
  "seen_value js" "\<lambda>v. \<exists>s. v = decode js s" "\<lambda>d. od_wf d \<and> codec_ok js" for js
proof unfold_locales
  fix t t' :: time and nk j :: "string \<times> string" and v :: py and d :: kv_table
  assume d: "od_wf d \<and> codec_ok js"
  then show "od_wf (snd (kv_get js True t (fst nk) (snd nk) d)) \<and> codec_ok js" by simp
  show "od_wf (snd (kv_set js True t (fst nk) (snd nk) v None d)) \<and> codec_ok js"
    using d by (auto simp: kv_set_def split: option.split)
  show "fst (kv_get js True t (fst nk) (snd nk) d) = seen_value js t d nk"
    by (simp add: kv_get_value seen_value_def)
  show "seen_value js t' (snd (kv_get js True t (fst nk) (snd nk) d)) j = seen_value js t' d j" if "t \<le> t'"
    using kv_get_keeps [OF that] by (simp add: seen_value_def)
  show "\<exists>s. v = decode js s" if "seen_value js t d nk = Some v"
    using that by (auto simp: seen_value_def)
  show "seen_value js t' (snd (kv_set js True t (fst nk) (snd nk) v None d)) j = (if j = nk then Some v else seen_value js t' d j)"
    if v: "\<exists>s. v = decode js s"
  proof -
    obtain s' where "js_dumps js v = Some s'" "decode js s' = v"
      using v d unfolding codec_ok_def by (fastforce split: option.splits)
    then show ?thesis
      by (auto simp: kv_set_def seen_value_def od_map_of_update shown_def live_def expires_at_def)
  qed
qed

lemma migrate_from_find:
  "migrate_from js True now ns olds k d =
    find_from (\<lambda>t nk d. kv_get js True t (fst nk) (snd nk) d) (\<lambda>t nk v d. snd (kv_set js True t (fst nk) (snd nk) v None d))
      now (ns, k) (map (\<lambda>old. (old, k)) olds) d"
  by (induction olds arbitrary: d) (auto split: prod.split option.split)

section \<open>Properties\<close>


definition plain_codec :: json_codec where
  "plain_codec = \<lparr>js_dumps = (\<lambda>v. case v of PStr s \<Rightarrow> Some s | _ \<Rightarrow> None), js_loads = (\<lambda>s. None)\<rparr>"


text \<open>
  A prefix means itself: with the escapes the storage puts before the characters that patterns give a
  meaning, a key is listed exactly when it begins with the prefix, letters being compared without their case.
\<close>

theorem prefix_means_itself:
  "set (fst (kv_list_keys True now ns p d)) =
    {k. \<exists>s e. ((ns, k), s, e) \<in> set d \<and> live now e \<and> map fold_ascii (take (length p) k) = map fold_ascii p}"
  by (force simp: kv_list_keys_def Let_def live_rows_def kv_rows_prefixed prefixed_def)

text \<open>
  C31: The client of a plugin finds the value of its namespace, or else the first of the older namespaces that
  has one, and from then on that value is seen in its namespace; nothing else that can be seen changes.
\<close>

theorem client_finds_old_values:
  assumes "od_wf d" "codec_ok js"
  shows "let olds = sg_namespace cl # sg_legacy cl; found = fst (migrate_key js True now cl k d)
    in found = (case find (\<lambda>n. seen_value js now d (n, k) \<noteq> None) olds of None \<Rightarrow> None | Some n \<Rightarrow> seen_value js now d (n, k)) \<and>
       seen_value js now (snd (migrate_key js True now cl k d)) (sg_namespace cl, k) = found \<and>
       (\<forall>j t. j = (sg_namespace cl, k) \<or> t < now \<or> seen_value js t (snd (migrate_key js True now cl k d)) j = seen_value js t d j)"
proof -
  let ?nk = "(sg_namespace cl, k)"
  obtain r d1 where g: "kv_get js True now (sg_namespace cl) k d = (r, d1)" by fastforce
  have r: "r = seen_value js now d ?nk" and d1: "od_wf d1" "\<And>t j. now \<le> t \<Longrightarrow> seen_value js t d1 j = seen_value js t d j"
    using plugin_values.read_seen [of d js now ?nk] plugin_values.read_inv [of d js now ?nk] plugin_values.read_keeps [of d js now _ ?nk] assms g
    by simp_all
  show ?thesis
  proof (cases r)
    case (Some v)
    then show ?thesis using g r d1(2) by (auto simp: migrate_key_def Let_def not_less)
  next
    case None
    have m: "migrate_key js True now cl k d = migrate_from js True now (sg_namespace cl) (sg_legacy cl) k d1"
      using g None by (simp add: migrate_key_def)
    have f: "find (\<lambda>n. seen_value js now d (n, k) \<noteq> None) (sg_namespace cl # sg_legacy cl) = find (\<lambda>n. seen_value js now d (n, k) \<noteq> None) (sg_legacy cl)"
      using r None by simp
    have q: "find (\<lambda>j. seen_value js now d1 j \<noteq> None) (map (\<lambda>old. (old, k)) olds) = map_option (\<lambda>n. (n, k)) (find (\<lambda>n. seen_value js now d (n, k) \<noteq> None) olds)" for olds
      using d1(2) [of now] by (induction olds) simp_all
    have first: "fst (migrate_key js True now cl k d) =
        (case find (\<lambda>n. seen_value js now d (n, k) \<noteq> None) (sg_legacy cl) of None \<Rightarrow> None | Some n \<Rightarrow> seen_value js now d (n, k))"
      unfolding m migrate_from_find
      using plugin_values.find_from_value [of d1 js now ?nk "map (\<lambda>old. (old, k)) (sg_legacy cl)"] d1 assms(2) q [of "sg_legacy cl"]
      by (simp split: option.split)
    have after: "seen_value js t (snd (migrate_key js True now cl k d)) j =
        (if j = ?nk \<and> fst (migrate_key js True now cl k d) \<noteq> None then fst (migrate_key js True now cl k d) else seen_value js t d j)" if "now \<le> t" for t j
      unfolding m migrate_from_find
      using plugin_values.find_from_seen [OF _ that, of d1 js ?nk "map (\<lambda>old. (old, k)) (sg_legacy cl)" j] d1(1) d1(2) [OF that] assms(2) by auto
    have "seen_value js now (snd (migrate_key js True now cl k d)) ?nk = fst (migrate_key js True now cl k d)"
      using after [of now ?nk] r None by (cases "fst (migrate_key js True now cl k d)") simp_all
    moreover have "\<forall>j t. j = ?nk \<or> t < now \<or> seen_value js t (snd (migrate_key js True now cl k d)) j = seen_value js t d j"
      using after by (metis not_less)
    ultimately show ?thesis unfolding Let_def f first by blast
  qed
qed

theorem client_finds_old_values_witness:
  "fst (migrate_key plain_codec True 9 (new_storage_client ''v2'' [''v1'']) ''k'' [((''v1'', ''k''), ''old'', None)]) = Some (PStr ''old'')"
proof -
  have "codec_ok plain_codec" by (simp add: codec_ok_def plain_codec_def decode_def)
  from client_finds_old_values [OF _ this, of "[((''v1'', ''k''), ''old'', None)]" "new_storage_client ''v2'' [''v1'']" 9 "''k''"]
  show ?thesis by (simp add: Let_def new_storage_client_def seen_value_def shown_def live_def decode_def plain_codec_def)
qed

section \<open>Corners\<close>

text \<open>Two users at a time: a reader finds a value expired, another writes a new one, and the reader then
  deletes it.\<close>

lemma purge_deletes_new_value:
  "let d = [((''n'', ''k''), ''1'', Some 5)];
       gone = snd (kv_select 10 ''n'' ''k'' d);
       d1 = snd (kv_set plain_codec True 10 ''n'' ''k'' (PStr ''2'') None d)
   in fst (kv_set plain_codec True 10 ''n'' ''k'' (PStr ''2'') None d) = Inr True \<and> map_of (kv_remove gone d1) (''n'', ''k'') = None"
  by (simp add: kv_select_def live_def kv_set_def plain_codec_def kv_remove_def)

text \<open>Numbers as strokes, for the corners of the client's increment.\<close>

definition stroke_codec :: json_codec where
  "stroke_codec = \<lparr>js_dumps = (\<lambda>v. case v of PInt i \<Rightarrow> Some (replicate (nat i) CHR ''I'') | _ \<Rightarrow> None), js_loads = (\<lambda>s. Some (PInt (int (length s))))\<rparr>"

text \<open>An increment of the table keeps the time of expiry; one of the client drops it.\<close>

lemma increment_drops_expiry:
  "kv_increment stroke_codec True 1 ''n'' ''k'' 1 0 None [((''n'', ''k''), ''I'', Some 5)] = (Some 2, [((''n'', ''k''), ''II'', Some 5)]) \<and>
   client_increment stroke_codec True 1 (new_storage_client ''n'' []) ''k'' 1 0 None [((''n'', ''k''), ''I'', Some 5)] = (Some 2, [((''n'', ''k''), ''II'', None)])"
  by (simp add: kv_increment_def client_increment_def migrate_key_def new_storage_client_def kv_get_def kv_select_def kv_remove_def
      kv_set_def live_def expires_at_def stored_number_def decode_def stroke_codec_def Let_def numeral_eq_Suc)

text \<open>Two clients that increment at a time: both report 2, and one increment is lost. The first has read
  the value and writes it again after the second has incremented it.\<close>

lemma increments_lost:
  "let cl = new_storage_client ''n'' []; d = [((''n'', ''k''), ''I'', None)];
       current = fst (migrate_key stroke_codec True 1 cl ''k'' d);
       (second, d1) = client_increment stroke_codec True 1 cl ''k'' 1 0 None d;
       d2 = snd (kv_set stroke_codec True 1 ''n'' ''k'' (the current) None d1)
   in second = Some 2 \<and> fst (kv_increment stroke_codec True 1 ''n'' ''k'' 1 0 None d2) = Some 2"
  by (simp add: kv_increment_def client_increment_def migrate_key_def new_storage_client_def kv_get_def kv_select_def kv_remove_def
      kv_set_def live_def expires_at_def stored_number_def decode_def stroke_codec_def Let_def numeral_eq_Suc)

text \<open>A value with a time of expiry over one of an older namespace: when it has expired the old one is back.\<close>

lemma old_value_returns:
  "let cl = new_storage_client ''v2'' [''v1''];
       d = snd (client_set plain_codec True 0 cl ''k'' (PStr ''new'') (Some 5) [((''v1'', ''k''), ''old'', None)])
   in fst (migrate_key plain_codec True 3 cl ''k'' d) = Some (PStr ''new'') \<and> fst (migrate_key plain_codec True 9 cl ''k'' d) = Some (PStr ''old'')"
  by (simp add: client_set_def migrate_key_def new_storage_client_def kv_get_def kv_select_def kv_remove_def kv_set_def live_def
      expires_at_def decode_def plain_codec_def Let_def)

text \<open>A value that cannot be serialized raises in \<^verbatim>\<open>set\<close>, and is a failure in \<^verbatim>\<open>mset\<close>.\<close>

lemma unserializable_raises:
  "(\<exists>e. fst (kv_set plain_codec True 0 ''n'' ''k'' (PObj ''x'') None []) = Inl e) \<and>
   fst (kv_mset plain_codec True 0 ''n'' [(''k'', PObj ''x'')] None []) = False"
  by (simp add: kv_set_def kv_mset_def plain_codec_def)

text \<open>A prefix does not see the case of letters, keys do.\<close>

lemma prefix_ignores_case: "fst (kv_list_keys True 0 ''n'' ''ab'' [((''n'', ''ABc''), ''1'', None)]) = [''ABc'']"
  by code_simp

end
