(* ===== verification/Spec2Isabelle.thy ===== *)
theory Spec2Isabelle
  imports Stream_Tickets Proxy_Breaker Decision_Cache Semantic_Service Flow_Conditions Flow_Run_Props
    Flow_Node_Props Flow_Nested_Props Flow_Compile_Props Flow_Mermaid Rate_Limiter_Props Account_Locks Provider_Failover
    Outbox_Props Flow_Steps_Props Background_Jobs_Props
    Keyword_Rules_Props Keyword_Hits_Props Keyword_Monitor_Props Keyword_Continue_Props Plugin_Storage_Props
begin

text \<open>
  A verification library for TG-SignPulse, a service that signs Telegram accounts in at bots on a
  schedule. A sign-in task is compiled into an execution graph and run by a flow engine; around
  it stand the services that keep the engine from doing harm: circuit breakers for proxies and
  for the semantic (language model) client, budgets, caches and tickets.

  \<^bold>\<open>The program and its theories.\<close>
  \<^item> \<open>Prelude\<close>: ordered dictionaries (association lists with \<open>AList.update\<close>, as Python's dict keeps
    its order), their algebra, and clocks as real numbers.
  \<^item> \<open>Py_Values\<close>: the values of the untyped parts of the program, \<open>py\<close>, with Python's truth, equality,
    ordering, \<^verbatim>\<open>str\<close>, \<^verbatim>\<open>int\<close> and \<^verbatim>\<open>float\<close> on them, and exceptions as records.
  \<^item> \<open>Flow_Models\<close>: \<^verbatim>\<open>tg_signer/core/flow_models.py\<close> and \<^verbatim>\<open>operation_receipts.py\<close>: the enumerations, the
    nodes and graphs (\<open>node\<close>, \<open>graph\<close>, mutually recursive through subflows and branches), step
    outcomes with their dictionary form, receipts, redaction.
  \<^item> \<open>Flow_Context\<close>: \<^verbatim>\<open>flow_context.py\<close>: \<^verbatim>\<open>ScopedFlowContext\<close> as the record \<open>flow_ctx\<close>, its operations,
    path resolution, and the condition language (\<open>split_top_level\<close>, \<open>eval_operand\<close>, one rule per
    operator, \<open>strip_parens\<close>, \<open>eval_condition\<close>). \<open>Flow_Conditions\<close> proves what conditions mean.
  \<^item> \<open>Event_Bus\<close>: \<^verbatim>\<open>flow_event_bus.py\<close>: the bus record, subscriptions with replay, bounded queues, drop
    statistics, eviction. The locale \<open>bounded_channel\<close> states what a bounded queue owes its user.
  \<^item> \<open>Flow_Text\<close>: the keyword matching and the trace redaction of \<^verbatim>\<open>flow_engine.py\<close>.
  \<^item> \<open>Flow_Engine\<close>: \<^verbatim>\<open>PulseFlowEngine\<close>. Node types: \<open>run_condition_node\<close>, \<open>run_extractor_node\<close>,
    \<open>run_delay_node\<close>, \<open>run_wait_event_node\<close>, \<open>run_subflow_node\<close>, \<open>run_parallel_node\<close>. The run:
    \<open>attempt_loop\<close> (retries), \<open>progress_of\<close> and \<open>advance\<close> (where the run goes after an outcome),
    \<open>visit_node\<close> (one pass), \<open>run_loop\<close>, \<open>run_graph\<close>, \<open>flow_run\<close>, and the result (\<open>flow_outcome\<close>,
    \<open>build_trace\<close>, \<open>calculate_metrics\<close>, \<open>business_status\<close>).
  \<^item> \<open>Flow_Run\<close>: the lemmas of runs: fuel and congruence, the step relation \<open>reaches\<close> and how a run
    \<open>ends_as\<close>, and the invariant that ties the recorded outcomes to the bookkeeping.
    \<open>Flow_Sample\<close> has the environments and graphs the witnesses use, \<open>Flow_Run_Props\<close>,
    \<open>Flow_Node_Props\<close> and \<open>Flow_Nested_Props\<close> the properties.
  \<^item> \<open>Graph_Search\<close>: the depth-first search of the validators, over the ids it walks, their neighbours
    and what entering one does; the locale \<open>edge_search\<close> shows what it visits, which cycles an accepted
    graph cannot have, when it accepts, and that as much fuel as there are ids is enough.
    \<open>Flow_Validate\<close>: \<^verbatim>\<open>GraphNormalizer.validate_graph\<close> of \<^verbatim>\<open>flow_normalizer.py\<close>, an instance of the search,
    with its budget and warnings as state. \<open>Flow_Validate_Props\<close> relates it to the specification
    \<open>graph_ok\<close>, \<open>Flow_Valid_Runs\<close> to the engine, and \<open>Flow_Mermaid\<close> (\<^verbatim>\<open>flow_mermaid_adapter.py\<close>, a
    second instance of the search) to the chart drawn of a graph.
  \<^item> \<open>Flow_Compile\<close>: the compilation of a list of actions, \<^verbatim>\<open>GraphNormalizer._from_linear_actions\<close>:
    \<open>action_node\<close>, \<open>reply_node\<close>, \<open>linear_graph\<close>. \<open>Flow_Compile_Props\<close> shows that the graph is a chain
    (\<open>is_chain\<close>), when the validator accepts it, and that its runs go along it. \<open>Flow_Steps\<close>: the
    compilation of the two kinds of steps and of a stored graph (\<open>build_flow_step\<close>,
    \<open>build_workflow_step\<close>, \<open>from_workflow_steps\<close>, \<open>from_flow_graph\<close>, \<open>from_chat\<close>); \<open>Flow_Steps_Props\<close> what
    every compiled node satisfies (\<open>sound_node\<close>).
  \<^item> \<open>Semantic_Policy\<close>, \<open>Decision_Cache\<close>, \<open>Semantic_Service\<close>: \<^verbatim>\<open>tg_signer/semantic\<close>: decisions and when they
    are accepted, the cache of decisions with namespaces, the budgets in front of the client.
  \<^item> \<open>Circuit_Breaker\<close>: \<^verbatim>\<open>semantic/breaker.py\<close> with its probe leases, as a system of one breaker and any
    number of callers (\<open>cb_step\<close>, \<open>cb_reachable\<close>); the locale \<open>failure_limiter\<close> is the contract it shares
    with \<open>Proxy_Breaker\<close>, the breaker of \<^verbatim>\<open>backend/services/proxy_circuit_breaker.py\<close> over a file
    shared by processes.
  \<^item> \<open>TTL_Cache\<close> (\<^verbatim>\<open>backend/utils/cache.py\<close>) and \<open>Stream_Tickets\<close> (\<^verbatim>\<open>backend/services/stream_tickets.py\<close>):
    the cache provides the locale \<open>expiring_store\<close>, from which the tickets are single use.
  \<^item> \<open>Rate_Limiter\<close> (\<^verbatim>\<open>backend/core/rate_limit.py\<close>): the limiter of the login routes, and the limiter that
    never forgets as its specification (\<open>ideal\<close>, related by \<open>like\<close>); \<open>Rate_Limiter_Props\<close> the properties
    of its histories.
  \<^item> \<open>Account_Locks\<close> (\<^verbatim>\<open>backend/utils/account_locks.py\<close>): tasks as stacks of context managers whose steps
    interleave (\<open>lock_step\<close>), and leases beside them; the invariant \<open>locks_inv\<close> counts who holds what.
  \<^item> \<open>Provider_Failover\<close> (\<^verbatim>\<open>tg_signer/core/ai_failover.py\<close>): the ordered failover between language model
    providers under a total deadline.
  \<^item> \<open>Notification_Outbox\<close> (\<^verbatim>\<open>backend/services/notification_outbox.py\<close>): the receipts of notifications, a
    transaction being one step, and the interleavings of deliveries, crashes and the operator
    (\<open>outbox_step\<close>); \<open>Outbox_Props\<close> counts what may still be sent (\<open>chances\<close>).
  \<^item> \<open>Background_Jobs\<close> (\<^verbatim>\<open>backend/services/background_job.py\<close>, \<^verbatim>\<open>account_status_jobs.py\<close>): the registry of
    jobs with its directory, and the batch check of accounts; \<open>Background_Jobs_Props\<close> runs histories of
    operations (\<open>job_run\<close>) with the invariants \<open>store_ok\<close> and \<open>exclusive\<close>.
  \<^item> The keyword monitor, \<^verbatim>\<open>backend/services/keyword_monitor\<close>. \<open>Py_Text\<close>: splitting, suffixes, UTF-8 and CRC32.
    \<open>Monitor_Scope\<close> (\<^verbatim>\<open>sharding.py\<close>, \<^verbatim>\<open>backend/utils/time_window.py\<close>): which accounts, and when.
    \<open>Keyword_Rules\<close> (\<^verbatim>\<open>rules.py\<close>): rules, keywords, templates, filters, dangerous patterns, with
    \<open>Keyword_Rules_Props\<close>. \<open>Keyword_Hits\<close> (\<^verbatim>\<open>hits.py\<close>): the record of hits with its file; its histories
    (\<open>hit_run\<close>) are in \<open>Keyword_Hits_Props\<close>. \<open>Keyword_Monitor\<close> (\<^verbatim>\<open>runtime.py\<close>): loading, the messages seen
    before, the handling of a message (\<open>on_message\<close>), starting and stopping; \<open>Keyword_Monitor_Props\<close> follows
    deliveries (\<open>all_taken\<close>) with what the windows remember (\<open>remembers\<close>) and the disk holds (\<open>seen_ok\<close>).
  \<^item> \<open>Telegram_Calls\<close> and \<open>Click_Targets\<close> (\<^verbatim>\<open>tg_signer/compat.py\<close>, \<^verbatim>\<open>async_utils.py\<close>): the retries of a call over
    a client in a world (\<open>link\<close>), and which button a text names; \<open>Click_Targets_Props\<close>.
  \<^item> \<open>Keyword_Clicks\<close> and \<open>Keyword_Continue\<close> (\<^verbatim>\<open>continue_actions.py\<close>): the steps after a hit, over the record
    \<open>chat_client\<close> of what Telegram, the language model and the clocks do to the world. A wait against a clock has
    a bound on its rounds; \<open>Keyword_Clicks_Props\<close> shows that with a running clock (\<open>clock_runs\<close>) two rounds for each
    second are enough. \<open>Keyword_Continue_Props\<close> has the order of steps, batches, links, and the intervals between
    commands over every interleaving of grants and time (\<open>slots\<close>).
  \<^item> \<open>Plugin_Storage\<close> (\<^verbatim>\<open>tg_signer/core/plugin_storage.py\<close>, \<^verbatim>\<open>PluginStorageClient\<close> of \<^verbatim>\<open>plugins.py\<close>): the table of
    keys with times of expiry, the patterns of its queries, and the client with its older namespaces;
    \<open>Plugin_Storage_Props\<close> compares it with a store that never purges (\<open>ideal_step\<close>), the client rests on the locale
    \<open>timed_values\<close>.

  \<^bold>\<open>How the engine is modelled.\<close> The engine is a function of its environment: the record
  \<open>flow_env\<close> holds what is not the engine's own code (the executor of Telegram actions, the inbox
  of a wait, regular expressions, JSON decoding, the semantic client, hooks, clocks, sleeping) as
  functions of a world of any type. Every theorem about runs holds for every environment, or for
  every one whose executor and hooks only append to the history of outcomes (\<open>history_kept\<close>), as
  the program's do. Exceptions are \<open>Inl\<close>; the loop of a run is structural in the steps that
  \<^verbatim>\<open>max_total_steps\<close> leaves, and the nesting of runs uses as fuel the depth of the graph, which
  \<open>Flow_Run_Props\<close> shows to be enough: with it the run satisfies the recursion of the source.

  \<^bold>\<open>What the properties show.\<close> Of runs: success needs a reason (no failed step flows into
  the successful end unless configured so), controlled terminations and the limit of consecutive failures end the
  run, steps, visits and attempts are bounded, no retry repeats a side effect. Of nodes: a wait is
  confirmed only by a message it waited for, parallel branches are joined as their mode and
  conflict policy say, subflows are isolated. Of conditions: they have their Boolean meaning. Of
  the bus: what is delivered, replayed, counted as lost, and that it stays bounded. Of the breakers:
  single flight, recovery, thresholds. Of budgets, caches and tickets: their limits, lifetimes
  and isolation. Of the validator: what it accepts is well formed, it decides the graphs without
  nested ones exactly, and a run of what it accepted never leaves its graph nor meets the loop
  guard. Of the chart: no text of a task breaks out of a label. Of the limiter: bounded memory, no
  window over its limit, and it forgets nothing that counts. Of the locks: exclusion and freedom
  from deadlock. Of the failover: its order and its deadline. Of the compiler: which lists of actions
  compile, that runs follow them in order, and that the nodes of every compiled task are sound. Of the notifications: none is sent twice by itself,
  and receipts are truthful and kept. Of the jobs: final states are final and only one batch check
  runs. Of the keyword monitor: no message is handled twice unless it is old, nothing is sent without a rule, hits
  survive restarts, shards share the accounts; what follows a hit runs in order, ends, and keeps its distances. Of the
  storage of plugins: purging cannot be seen, and older values are found. The lemmas \<open>quoted_parenthesis_misread\<close>, \<open>failed_join_still_merges\<close>, \<open>missing_node_unnamed\<close>,
  \<open>delay_at_deadline\<close>, \<open>accepts_non_favourite\<close>, \<open>ticket_key_ambiguous\<close>, \<open>missed_cycle\<close>, \<open>reserved_id\<close>,
  \<open>resume_at_end\<close>, \<open>refused_at_once\<close>, \<open>chart_merges_ids\<close>, \<open>nested_multi_waits_for_itself\<close>,
  \<open>timed_context_waits_for_itself\<close>, \<open>undecodable_reply_aborts\<close>, \<open>long_task_cut_short\<close>,
  \<open>late_answer_overwrites\<close>, \<open>new_job_lost\<close>, \<open>running_job_lost\<close>,
  \<open>edit_never_matches\<close>, \<open>colon_account_forgotten\<close>, \<open>at_sign_in_list\<close>, \<open>nested_star_missed\<close>, \<open>nan_delay\<close>,
  \<open>bad_shard_takes_all\<close>, \<open>bad_keywords_break_loading\<close>, \<open>file_grows\<close>, \<open>clicked_options_fail\<close>,
  \<open>exact_button_passed_over\<close>, \<open>longer_number_hit\<close>, \<open>long_interval_forgotten\<close>,
  \<open>purge_deletes_new_value\<close>, \<open>increment_drops_expiry\<close>, \<open>increments_lost\<close>, \<open>old_value_returns\<close>,
  \<open>unserializable_raises\<close>, \<open>prefix_ignores_case\<close> and \<open>zero_delay_waits\<close> record corners where the code does
  something else than it seems to mean.

  \<^bold>\<open>Bounds of the model.\<close> Strings are Isabelle strings, so characters have eight bits; the Chinese
  texts of outcomes are replaced by English ones, and the Chinese negations before a retry keyword
  are the parameter \<open>fe_negated\<close>. Finite floats are real numbers, without rounding. The
  interleaving of parallel branches is the choice of the worlds \<open>fe_fork\<close> gives them; each branch
  works on its own context, as in the code. Locks are the atomicity of an operation. Log messages,
  cancellation and the observations sent to the semantic service are left out.

  \<^bold>\<open>What is left.\<close> The reading of stored graphs from dictionaries, the identification of clients behind
  proxies, the actions of the signer, the plugin runtime, and the histories of the tasks. The web routes, the Telegram client, the database and the front end are
  input and output and are not modelled.
\<close>

end
